(* ===== verification/RTB_Prelude.thy ===== *)
theory RTB_Prelude
  imports Main "HOL-Library.Word" "HOL-Library.Sublist"
begin

text \<open>
  Shared vocabulary of the development: the C++ scalar types the sources use, the few
  operations of the C++ standard library several components call (decimal printing, ASCII case
  conversion, C strings, resizing a vector), and the generic list lemmas their proofs share.
  Bytes are values of type \<^typ>\<open>char\<close>, strings are lists of bytes; a plain \<open>char\<close> is a signed
  8-bit value on the platforms the project builds for.
\<close>

section \<open>Scalar types\<close>

type_synonym u8 = "8 word"
type_synonym u16 = "16 word"
type_synonym u32 = "32 word"
type_synonym u64 = "64 word"

named_theorems wf_simps \<open>unfolding rules for well-formedness predicates\<close>
named_theorems step_simps \<open>equations of single steps of the state machines\<close>
named_theorems step_inv \<open>invariants kept by single steps\<close>

text \<open>A plain \<open>char\<close> promoted to \<open>int\<close>: bytes above 127 are negative.\<close>

definition char_int :: "char \<Rightarrow> int" where
  "char_int c = (let n = int (of_char c) in if n < 128 then n else n - 256)"

text \<open>\<open>static_cast<char>(int)\<close>: the low eight bits.\<close>

definition int_char :: "int \<Rightarrow> char" where
  "int_char i = char_of (nat (i mod 256))"

text \<open>Arithmetic on \<open>int\<close> at 32 bits, two's complement.\<close>

definition int32 :: "int \<Rightarrow> int" where
  "int32 x = (x + 2147483648) mod 4294967296 - 2147483648"

lemma int32_id: "- 2147483648 \<le> x \<Longrightarrow> x < 2147483648 \<Longrightarrow> int32 x = x"
  by (simp add: int32_def)

lemma int32_range: "- 2147483648 \<le> int32 x \<and> int32 x < 2147483648"
  by (simp add: int32_def)

lemma of_char_mod_256 [simp]: "int (of_char c) mod 256 = int (of_char c)"
  using nat_of_char_less_256 [of c] by simp

lemma char_int_mod: "char_int c mod 256 = int (of_char c)"
  by (simp add: char_int_def Let_def minus_mod_self2)

lemma int_char_char_int [simp]: "int_char (char_int c) = c"
  by (simp add: int_char_def char_int_mod)

lemma char_int_int_char: "- 128 \<le> i \<Longrightarrow> i < 128 \<Longrightarrow> char_int (int_char i) = i"
proof -
  assume a: "- 128 \<le> i" "i < 128"
  have "i mod 256 = (if 0 \<le> i then i else i + 256)"
  proof (cases "0 \<le> i")
    case False
    with a have "(i + 256) mod 256 = i + 256" by (intro mod_pos_pos_trivial) auto
    with False show ?thesis by simp
  qed (use a in simp)
  moreover have "int (of_char (int_char i)) = i mod 256"
    by (simp add: int_char_def)
  ultimately show ?thesis using a by (simp add: char_int_def Let_def)
qed

lemma char_int_range: "- 128 \<le> char_int c \<and> char_int c < 128"
proof -
  have "of_char c < (256 :: nat)" by (rule nat_of_char_less_256)
  then have "int (of_char c) < 256" by linarith
  then show ?thesis unfolding char_int_def Let_def by (simp only: split: if_split) linarith
qed

lemma char_int_inject: "char_int a = char_int b \<longleftrightarrow> a = b"
  by (metis int_char_char_int)

section \<open>Library functions on strings\<close>

text \<open>\<open>std::tolower\<close> in the C locale, on one byte and (\<open>to_lower_copy\<close>) on a string.\<close>

definition tolower :: "char \<Rightarrow> char" where
  "tolower c = (if 65 \<le> char_int c \<and> char_int c \<le> 90 then int_char (char_int c + 32) else c)"

definition to_lower_copy :: "string \<Rightarrow> string" where
  "to_lower_copy s = map tolower s"

lemma char_int_tolower:
  "char_int (tolower c) = (if 65 \<le> char_int c \<and> char_int c \<le> 90 then char_int c + 32 else char_int c)"
  by (simp add: tolower_def char_int_int_char)

lemma tolower_tolower [simp]: "tolower (tolower c) = tolower c"
  by (simp add: tolower_def char_int_int_char)

text \<open>\<open>std::to_string\<close> on an unsigned number.\<close>

definition digit_char :: "nat \<Rightarrow> char" where
  "digit_char d = char_of (48 + d)"

fun to_string :: "nat \<Rightarrow> string" where
  "to_string n = (if n < 10 then [digit_char n] else to_string (n div 10) @ [digit_char (n mod 10)])"

declare to_string.simps [simp del]

text \<open>The value of a string of decimal digits, and of one digit.\<close>

definition is_digit_char :: "char \<Rightarrow> bool" where
  "is_digit_char c \<longleftrightarrow> 48 \<le> char_int c \<and> char_int c \<le> 57"

definition digit_val :: "char \<Rightarrow> nat" where
  "digit_val c = nat (char_int c - 48)"

definition dec_value :: "string \<Rightarrow> nat" where
  "dec_value s = foldl (\<lambda>n c. 10 * n + digit_val c) 0 s"

lemma digit_char_consts [simp]:
  "digit_char 0 = CHR ''0''" "digit_char (Suc 0) = CHR ''1''" "digit_char 2 = CHR ''2''"
  "digit_char 3 = CHR ''3''" "digit_char 4 = CHR ''4''" "digit_char 5 = CHR ''5''"
  "digit_char 6 = CHR ''6''" "digit_char 7 = CHR ''7''" "digit_char 8 = CHR ''8''"
  "digit_char 9 = CHR ''9''"
  by code_simp+

lemma char_int_digit_char: "d < 10 \<Longrightarrow> char_int (digit_char d) = 48 + int d"
  by (simp add: char_int_def digit_char_def Let_def)

lemma is_digit_digit_char [simp]: "d < 10 \<Longrightarrow> is_digit_char (digit_char d)"
  by (simp add: is_digit_char_def char_int_digit_char)

lemma digit_val_digit_char [simp]: "d < 10 \<Longrightarrow> digit_val (digit_char d) = d"
  by (simp add: digit_val_def char_int_digit_char)

lemma to_string_not_Nil [simp]: "to_string n \<noteq> []"
  by (subst to_string.simps) simp

lemma to_string_digits: "c \<in> set (to_string n) \<Longrightarrow> is_digit_char c"
proof (induction n rule: to_string.induct)
  case (1 n)
  show ?case
  proof (cases "n < 10")
    case True
    with "1.prems" show ?thesis by (subst (asm) to_string.simps) simp
  next
    case False
    with "1.prems" have "c \<in> set (to_string (n div 10)) \<or> c = digit_char (n mod 10)"
      by (subst (asm) to_string.simps) auto
    with False "1.IH" show ?thesis by auto
  qed
qed

lemma dec_value_snoc: "dec_value (s @ [c]) = 10 * dec_value s + digit_val c"
  by (simp add: dec_value_def)

lemma dec_value_to_string [simp]: "dec_value (to_string n) = n"
proof (induction n rule: to_string.induct)
  case (1 n)
  show ?case
  proof (cases "n < 10")
    case True
    then show ?thesis by (subst to_string.simps) (simp add: dec_value_def)
  next
    case False
    with "1.IH" show ?thesis by (subst to_string.simps) (simp add: dec_value_snoc)
  qed
qed

lemma to_string_inj: "to_string m = to_string n \<Longrightarrow> m = n"
  by (metis dec_value_to_string)

text \<open>A signed number in decimal.\<close>

definition int_text :: "int \<Rightarrow> string" where
  "int_text n = (if n < 0 then CHR ''-'' # to_string (nat (- n)) else to_string (nat n))"

text \<open>The bytes of a \<open>std::string\<close> that a C function taking its \<open>c_str()\<close> sees.\<close>

definition c_str :: "string \<Rightarrow> string" where
  "c_str s = takeWhile (\<lambda>c. c \<noteq> CHR 0x00) s"

lemma c_str_prefix: "prefix (c_str s) s"
  by (metis c_str_def prefixI takeWhile_dropWhile_id)

text \<open>\<open>std::vector::resize\<close> with default-constructed elements.\<close>

definition resize :: "nat \<Rightarrow> 'a \<Rightarrow> 'a list \<Rightarrow> 'a list" where
  "resize n d xs = take n xs @ replicate (n - length xs) d"

lemma length_resize [simp]: "length (resize n d xs) = n"
  by (simp add: resize_def)

section \<open>Generic lemmas on lists\<close>

lemma prefix_sublist_trans: "sublist p xs \<Longrightarrow> prefix xs ys \<Longrightarrow> sublist p ys"
  by (meson prefix_imp_sublist sublist_order.order_trans)

lemma sublist_set: "sublist xs ys \<Longrightarrow> set xs \<subseteq> set ys"
  by (auto simp: sublist_def)

end
