(* ===== verification/Http_Parser.thy ===== *)
theory Http_Parser
  imports RTB_Prelude
begin

text \<open>
  The incremental HTTP request parser of \<^verbatim>\<open>CRUD/service/request_parser\<close>: the request and header
  structures, the twenty parser states, the per-byte transition \<open>consume\<close> and the driver
  \<open>parse\<close>. The lemmas show that \<open>back()\<close> is only called on a non-empty header list, that every
  accepted request is well formed, that a well-formed request printed on the wire is recovered,
  and that feeding the input in pieces is the same as feeding it at once.
\<close>

section \<open>Requests and headers\<close>

record header =
  hdr_name :: string
  hdr_value :: string

record request =
  req_method :: string
  req_uri :: string
  http_version_major :: int
  http_version_minor :: int
  req_headers :: "header list"
  req_data :: string

text \<open>\<open>request()\<close>: value-initialised, and \<open>header()\<close>.\<close>

definition empty_request :: request where
  "empty_request = \<lparr>req_method = [], req_uri = [], http_version_major = 0,
     http_version_minor = 0, req_headers = [], req_data = []\<rparr>"

definition empty_header :: header where
  "empty_header = \<lparr>hdr_name = [], hdr_value = []\<rparr>"

section \<open>Parser\<close>

datatype result_type = Good | Bad | Indeterminate

datatype parser_state =
    Method_start
  | Method
  | Uri
  | Http_version_h
  | Http_version_t_1
  | Http_version_t_2
  | Http_version_p
  | Http_version_slash
  | Http_version_major_start
  | Http_version_major
  | Http_version_minor_start
  | Http_version_minor
  | Expecting_newline_1
  | Header_line_start
  | Header_lws
  | Header_name
  | Space_before_header_value
  | Header_value
  | Expecting_newline_2
  | Expecting_newline_3

definition reset :: "parser_state \<Rightarrow> parser_state" where
  "reset st = Method_start"

definition is_char :: "int \<Rightarrow> bool" where
  "is_char c \<longleftrightarrow> c \<ge> 0 \<and> c \<le> 127"

definition is_ctl :: "int \<Rightarrow> bool" where
  "is_ctl c \<longleftrightarrow> (c \<ge> 0 \<and> c \<le> 31) \<or> c = 127"

text \<open>In source order: \<^verbatim>\<open>( ) < > @ , ; : \ " / [ ] ? = { } space tab\<close>.\<close>

definition is_tspecial :: "int \<Rightarrow> bool" where
  "is_tspecial c \<longleftrightarrow> c \<in> {40, 41, 60, 62, 64, 44, 59, 58, 92, 34, 47, 91, 93, 63, 61, 123, 125, 32, 9}"

definition is_digit :: "int \<Rightarrow> bool" where
  "is_digit c \<longleftrightarrow> c \<ge> 48 \<and> c \<le> 57"

text \<open>
  \<open>headers.back()\<close> is only defined on a non-empty vector; \<open>parser_inv\<close> below shows that every
  call has one.
\<close>

definition back_upd :: "('a \<Rightarrow> 'a) \<Rightarrow> 'a list \<Rightarrow> 'a list" where
  "back_upd f xs = (if xs = [] then [] else butlast xs @ [f (last xs)])"

definition add_header :: "request \<Rightarrow> request" where
  "add_header req = req\<lparr>req_headers := req_headers req @ [empty_header]\<rparr>"

definition push_name :: "char \<Rightarrow> request \<Rightarrow> request" where
  "push_name c req = req\<lparr>req_headers :=
     back_upd (\<lambda>h. h\<lparr>hdr_name := hdr_name h @ [tolower c]\<rparr>) (req_headers req)\<rparr>"

definition push_value :: "char \<Rightarrow> request \<Rightarrow> request" where
  "push_value c req = req\<lparr>req_headers :=
     back_upd (\<lambda>h. h\<lparr>hdr_value := hdr_value h @ [c]\<rparr>) (req_headers req)\<rparr>"

fun consume :: "parser_state \<Rightarrow> request \<Rightarrow> char \<Rightarrow> result_type \<times> parser_state \<times> request" where
  "consume Method_start req input =
     (if \<not> is_char (char_int input) \<or> is_ctl (char_int input) \<or> is_tspecial (char_int input)
      then (Bad, Method_start, req)
      else (Indeterminate, Method, req\<lparr>req_method := req_method req @ [input]\<rparr>))"
| "consume Method req input =
     (if input = CHR '' '' then (Indeterminate, Uri, req)
      else if \<not> is_char (char_int input) \<or> is_ctl (char_int input) \<or> is_tspecial (char_int input)
      then (Bad, Method, req)
      else (Indeterminate, Method, req\<lparr>req_method := req_method req @ [input]\<rparr>))"
| "consume Uri req input =
     (if input = CHR '' '' then (Indeterminate, Http_version_h, req)
      else if is_ctl (char_int input) then (Bad, Uri, req)
      else (Indeterminate, Uri, req\<lparr>req_uri := req_uri req @ [input]\<rparr>))"
| "consume Http_version_h req input =
     (if input = CHR ''H'' then (Indeterminate, Http_version_t_1, req)
      else (Bad, Http_version_h, req))"
| "consume Http_version_t_1 req input =
     (if input = CHR ''T'' then (Indeterminate, Http_version_t_2, req)
      else (Bad, Http_version_t_1, req))"
| "consume Http_version_t_2 req input =
     (if input = CHR ''T'' then (Indeterminate, Http_version_p, req)
      else (Bad, Http_version_t_2, req))"
| "consume Http_version_p req input =
     (if input = CHR ''P'' then (Indeterminate, Http_version_slash, req)
      else (Bad, Http_version_p, req))"
| "consume Http_version_slash req input =
     (if input = CHR ''/'' then
        (Indeterminate, Http_version_major_start,
         req\<lparr>http_version_major := 0, http_version_minor := 0\<rparr>)
      else (Bad, Http_version_slash, req))"
| "consume Http_version_major_start req input =
     (if is_digit (char_int input) then
        (Indeterminate, Http_version_major,
         req\<lparr>http_version_major := int32 (http_version_major req * 10 + char_int input - 48)\<rparr>)
      else (Bad, Http_version_major_start, req))"
| "consume Http_version_major req input =
     (if input = CHR ''.'' then (Indeterminate, Http_version_minor_start, req)
      else if is_digit (char_int input) then
        (Indeterminate, Http_version_major,
         req\<lparr>http_version_major := int32 (http_version_major req * 10 + char_int input - 48)\<rparr>)
      else (Bad, Http_version_major, req))"
| "consume Http_version_minor_start req input =
     (if is_digit (char_int input) then
        (Indeterminate, Http_version_minor,
         req\<lparr>http_version_minor := int32 (http_version_minor req * 10 + char_int input - 48)\<rparr>)
      else (Bad, Http_version_minor_start, req))"
| "consume Http_version_minor req input =
     (if input = CHR 0x0D then (Indeterminate, Expecting_newline_1, req)
      else if is_digit (char_int input) then
        (Indeterminate, Http_version_minor,
         req\<lparr>http_version_minor := int32 (http_version_minor req * 10 + char_int input - 48)\<rparr>)
      else (Bad, Http_version_minor, req))"
| "consume Expecting_newline_1 req input =
     (if input = CHR 0x0A then (Indeterminate, Header_line_start, req)
      else (Bad, Expecting_newline_1, req))"
| "consume Header_line_start req input =
     (if input = CHR 0x0D then (Indeterminate, Expecting_newline_3, req)
      else if req_headers req \<noteq> [] \<and> (input = CHR '' '' \<or> input = CHR 0x09)
      then (Indeterminate, Header_lws, req)
      else if \<not> is_char (char_int input) \<or> is_ctl (char_int input) \<or> is_tspecial (char_int input)
      then (Bad, Header_line_start, req)
      else (Indeterminate, Header_name, push_name input (add_header req)))"
| "consume Header_lws req input =
     (if input = CHR 0x0D then (Indeterminate, Expecting_newline_2, req)
      else if input = CHR '' '' \<or> input = CHR 0x09 then (Indeterminate, Header_lws, req)
      else if is_ctl (char_int input) then (Bad, Header_lws, req)
      else (Indeterminate, Header_value, push_value input req))"
| "consume Header_name req input =
     (if input = CHR '':'' then (Indeterminate, Space_before_header_value, req)
      else if \<not> is_char (char_int input) \<or> is_ctl (char_int input) \<or> is_tspecial (char_int input)
      then (Bad, Header_name, req)
      else (Indeterminate, Header_name, push_name input req))"
| "consume Space_before_header_value req input =
     (if input = CHR '' '' then (Indeterminate, Header_value, req)
      else (Bad, Space_before_header_value, req))"
| "consume Header_value req input =
     (if input = CHR 0x0D then (Indeterminate, Expecting_newline_2, req)
      else if is_ctl (char_int input) then (Bad, Header_value, req)
      else (Indeterminate, Header_value, push_value input req))"
| "consume Expecting_newline_2 req input =
     (if input = CHR 0x0A then (Indeterminate, Header_line_start, req)
      else (Bad, Expecting_newline_2, req))"
| "consume Expecting_newline_3 req input =
     ((if input = CHR 0x0A then Good else Bad), Expecting_newline_3, req)"

text \<open>The driver returns the result and the unconsumed input, with the parser's new state.\<close>

fun parse :: "parser_state \<Rightarrow> request \<Rightarrow> string \<Rightarrow>
    result_type \<times> string \<times> parser_state \<times> request" where
  "parse st req [] = (Indeterminate, [], st, req)"
| "parse st req (c # cs) =
     (case consume st req c of (result, st', req') \<Rightarrow>
        if result = Good \<or> result = Bad then (result, cs, st', req') else parse st' req' cs)"

section \<open>Well-formed requests\<close>

text \<open>The byte classes the transition function tests, as predicates on bytes.\<close>

definition token_char :: "char \<Rightarrow> bool" where
  "token_char c \<longleftrightarrow>
     \<not> (\<not> is_char (char_int c) \<or> is_ctl (char_int c) \<or> is_tspecial (char_int c))"

definition text_char :: "char \<Rightarrow> bool" where
  "text_char c \<longleftrightarrow> \<not> is_ctl (char_int c)"

definition wf_header :: "header \<Rightarrow> bool" where
  "wf_header h \<longleftrightarrow> hdr_name h \<noteq> [] \<and> list_all token_char (hdr_name h) \<and>
     list_all text_char (hdr_value h)"

definition wf_request :: "request \<Rightarrow> bool" where
  "wf_request r \<longleftrightarrow> req_method r \<noteq> [] \<and> list_all token_char (req_method r) \<and>
     list_all (\<lambda>c. text_char c \<and> c \<noteq> CHR '' '') (req_uri r) \<and>
     list_all wf_header (req_headers r)"

definition version_ok :: "request \<Rightarrow> bool" where
  "version_ok r \<longleftrightarrow> 0 \<le> http_version_major r \<and> http_version_major r < 2147483648 \<and>
     0 \<le> http_version_minor r \<and> http_version_minor r < 2147483648"

lemma char_int_consts [simp]:
  "char_int CHR '' '' = 32" "char_int CHR '':'' = 58" "char_int CHR ''.'' = 46"
  "char_int CHR 0x0D = 13" "char_int CHR 0x0A = 10" "char_int CHR 0x09 = 9"
  by (simp_all add: char_int_def)

lemma token_char_facts:
  assumes "token_char c"
  shows "c \<noteq> CHR '' ''" "c \<noteq> CHR '':''" "c \<noteq> CHR 0x0D" "c \<noteq> CHR 0x09"
  using assms by (auto simp: token_char_def is_char_def is_ctl_def is_tspecial_def)

lemma text_char_no_cr: "text_char c \<Longrightarrow> c \<noteq> CHR 0x0D \<and> c \<noteq> CHR 0x0A"
  by (auto simp: text_char_def is_ctl_def)

lemma token_char_text: "token_char c \<Longrightarrow> text_char c"
  by (simp add: token_char_def text_char_def)

lemma token_char_tolower [simp]: "token_char c \<Longrightarrow> token_char (tolower c)"
  by (auto simp: token_char_def char_int_tolower is_char_def is_ctl_def is_tspecial_def)

lemma digit_char_not_dot: "is_digit (char_int c) \<Longrightarrow> c \<noteq> CHR ''.'' \<and> c \<noteq> CHR 0x0D"
  by (auto simp: is_digit_def)

lemma back_upd_snoc [simp]: "back_upd f (xs @ [x]) = xs @ [f x]"
  by (simp add: back_upd_def)

lemma back_upd_eq_Nil [simp]: "back_upd f xs = [] \<longleftrightarrow> xs = []"
  by (simp add: back_upd_def)

section \<open>Invariant of the parser\<close>

text \<open>
  In the states that append to the last header there is one, the header whose name is being read
  has a non-empty name, and everything stored so far is made of permitted bytes.
\<close>

definition needs_header :: "parser_state \<Rightarrow> bool" where
  "needs_header st \<longleftrightarrow>
     st \<in> {Header_lws, Header_name, Space_before_header_value, Header_value, Expecting_newline_2}"

definition hdrs_ok :: "header list \<Rightarrow> bool" where
  "hdrs_ok hs \<longleftrightarrow> list_all (\<lambda>h. wf_header h \<and> map tolower (hdr_name h) = hdr_name h) hs"

definition parser_inv :: "parser_state \<Rightarrow> request \<Rightarrow> bool" where
  "parser_inv st req \<longleftrightarrow>
     (st \<noteq> Method_start \<longrightarrow> req_method req \<noteq> []) \<and>
     list_all token_char (req_method req) \<and>
     list_all (\<lambda>c. text_char c \<and> c \<noteq> CHR '' '') (req_uri req) \<and>
     hdrs_ok (req_headers req) \<and>
     (needs_header st \<longrightarrow> req_headers req \<noteq> [])"

lemma parser_inv_start: "parser_inv Method_start empty_request"
  by (simp add: parser_inv_def empty_request_def needs_header_def hdrs_ok_def)

lemma hdrs_ok_new_name:
  "hdrs_ok (req_headers req) \<Longrightarrow> token_char c \<Longrightarrow> hdrs_ok (req_headers (push_name c (add_header req)))"
  by (simp add: push_name_def add_header_def hdrs_ok_def wf_header_def empty_header_def)

lemma hdrs_ok_push_name:
  "hdrs_ok (req_headers req) \<Longrightarrow> token_char c \<Longrightarrow> hdrs_ok (req_headers (push_name c req))"
  by (cases "req_headers req" rule: rev_cases)
    (simp_all add: push_name_def hdrs_ok_def wf_header_def back_upd_def)

lemma hdrs_ok_push_value:
  "hdrs_ok (req_headers req) \<Longrightarrow> text_char c \<Longrightarrow> hdrs_ok (req_headers (push_value c req))"
  by (cases "req_headers req" rule: rev_cases)
    (simp_all add: push_value_def hdrs_ok_def wf_header_def back_upd_def)

lemmas hdrs_ok_push = hdrs_ok_new_name hdrs_ok_push_name hdrs_ok_push_value

lemma push_fields [simp]:
  "req_method (push_name c r) = req_method r" "req_uri (push_name c r) = req_uri r"
  "req_method (push_value c r) = req_method r" "req_uri (push_value c r) = req_uri r"
  "req_headers (push_name c r) = [] \<longleftrightarrow> req_headers r = []"
  "req_headers (push_value c r) = [] \<longleftrightarrow> req_headers r = []"
  "http_version_major (push_name c r) = http_version_major r"
  "http_version_minor (push_name c r) = http_version_minor r"
  "http_version_major (push_value c r) = http_version_major r"
  "http_version_minor (push_value c r) = http_version_minor r"
  "req_data (push_name c r) = req_data r" "req_data (push_value c r) = req_data r"
  "req_method (add_header r) = req_method r" "req_uri (add_header r) = req_uri r"
  "http_version_major (add_header r) = http_version_major r"
  "http_version_minor (add_header r) = http_version_minor r"
  "req_data (add_header r) = req_data r" "req_headers (add_header r) \<noteq> []"
  by (simp_all add: push_name_def push_value_def add_header_def)

lemma consume_inv [step_inv]:
  assumes "parser_inv st req" and "consume st req c = (res, st', req')"
  shows "parser_inv st' req'"
  using assms
  by (cases st)
    (auto simp: parser_inv_def needs_header_def text_char_def token_char_def hdrs_ok_push
      split: if_splits)

lemma parse_inv:
  "parser_inv st req \<Longrightarrow> parse st req cs = (res, rest, st', req') \<Longrightarrow> parser_inv st' req'"
proof (induction cs arbitrary: st req)
  case (Cons c cs)
  obtain r1 st1 req1 where c: "consume st req c = (r1, st1, req1)"
    by (cases "consume st req c") auto
  with Cons.prems(1) have i: "parser_inv st1 req1" by (rule consume_inv)
  from Cons.prems(2) c i Cons.IH show ?case by (auto split: if_splits)
qed simp

lemma consume_good: "consume st req c = (Good, st', req') \<Longrightarrow> st = Expecting_newline_3 \<and> st' = st \<and> req' = req"
  by (cases st) (auto split: if_splits)

section \<open>Feeding the input in pieces\<close>

lemma parse_append:
  "parse st req (xs @ ys) =
     (case parse st req xs of (res, rest, st', req') \<Rightarrow>
        if res = Indeterminate then parse st' req' ys else (res, rest @ ys, st', req'))"
proof (induction xs arbitrary: st req)
  case (Cons c cs)
  then show ?case
    by (cases "consume st req c") (auto split: prod.splits result_type.splits)
qed simp

lemma parse_indeterminate_append:
  "parse st req xs = (Indeterminate, [], st', req') \<Longrightarrow> parse st req (xs @ ys) = parse st' req' ys"
  by (simp add: parse_append)

lemma parse_rest: "parse st req cs = (res, rest, st', req') \<Longrightarrow> suffix rest cs"
proof (induction cs arbitrary: st req)
  case (Cons c cs)
  then show ?case
    by (cases "consume st req c") (auto simp: suffix_ConsI split: if_splits)
qed simp

lemma parse_bad_or_good_nonempty:
  "parse st req cs = (res, rest, st', req') \<Longrightarrow> res \<noteq> Indeterminate \<Longrightarrow> length rest < length cs"
proof (induction cs arbitrary: st req)
  case (Cons c cs)
  then show ?case
    by (cases "consume st req c") (fastforce split: if_splits)
qed simp

lemma parse_good_state:
  "parse st req cs = (Good, rest, st', req') \<Longrightarrow> st' = Expecting_newline_3"
proof (induction cs arbitrary: st req)
  case (Cons c cs)
  then show ?case
    by (cases "consume st req c") (auto split: if_splits dest: consume_good)
qed simp

section \<open>Printing a request and reading it back\<close>

definition crlf :: string where
  "crlf = [CHR 0x0D, CHR 0x0A]"

definition print_header :: "header \<Rightarrow> string" where
  "print_header h = hdr_name h @ '': '' @ hdr_value h @ crlf"

definition print_head :: "request \<Rightarrow> string" where
  "print_head r = req_method r @ '' '' @ req_uri r @ '' HTTP/'' @
     to_string (nat (http_version_major r)) @ ''.'' @ to_string (nat (http_version_minor r)) @ crlf @
     concat (map print_header (req_headers r))"

definition print_request :: "request \<Rightarrow> string" where
  "print_request r = print_head r @ crlf"

definition lower_header :: "header \<Rightarrow> header" where
  "lower_header h = h\<lparr>hdr_name := map tolower (hdr_name h)\<rparr>"

lemma parse_method:
  "list_all token_char m \<Longrightarrow>
     parse Method req (m @ cs) = parse Method (req\<lparr>req_method := req_method req @ m\<rparr>) cs"
proof (induction m arbitrary: req)
  case (Cons c m)
  then have "token_char c" by simp
  then have "consume Method req c = (Indeterminate, Method, req\<lparr>req_method := req_method req @ [c]\<rparr>)"
    using token_char_facts by (auto simp: token_char_def)
  with Cons show ?case by simp
qed simp

lemma parse_method_start:
  "m \<noteq> [] \<Longrightarrow> list_all token_char m \<Longrightarrow>
     parse Method_start req (m @ cs) = parse Method (req\<lparr>req_method := req_method req @ m\<rparr>) cs"
proof -
  assume "m \<noteq> []" and m: "list_all token_char m"
  then obtain c m' where c: "m = c # m'" by (cases m) auto
  with m have "consume Method_start req c = (Indeterminate, Method, req\<lparr>req_method := req_method req @ [c]\<rparr>)"
    by (auto simp: token_char_def)
  with c m show ?thesis by (simp add: parse_method)
qed

lemma parse_uri:
  "list_all (\<lambda>c. text_char c \<and> c \<noteq> CHR '' '') u \<Longrightarrow>
     parse Uri req (u @ cs) = parse Uri (req\<lparr>req_uri := req_uri req @ u\<rparr>) cs"
  by (induction u arbitrary: req) (auto simp: text_char_def)

text \<open>A run of digits accumulates in base ten as long as the value stays in range.\<close>

lemma foldl_digits_ge: "n \<le> foldl (\<lambda>n c. 10 * n + digit_val c) n ds"
proof (induction ds arbitrary: n)
  case (Cons d ds)
  have "n \<le> 10 * n + digit_val d" by simp
  also have "\<dots> \<le> foldl (\<lambda>n c. 10 * n + digit_val c) (10 * n + digit_val d) ds" by (rule Cons.IH)
  finally show ?case by simp
qed simp

lemma digit_step:
  assumes "is_digit_char d" and "foldl (\<lambda>n c. 10 * n + digit_val c) n (d # ds) < 2147483648"
  shows "int32 (int n * 10 + char_int d - 48) = int (10 * n + digit_val d)"
proof -
  have "10 * n + digit_val d < 2147483648"
    using foldl_digits_ge [of "10 * n + digit_val d" ds] assms(2) by simp
  moreover have "int (digit_val d) = char_int d - 48"
    using assms(1) by (simp add: is_digit_char_def digit_val_def)
  ultimately have "int n * 10 + char_int d - 48 = int (10 * n + digit_val d)"
    and "int32 (int (10 * n + digit_val d)) = int (10 * n + digit_val d)"
    by (simp_all add: int32_id)
  then show ?thesis by (simp only:)
qed

lemma parse_major_digits:
  assumes "list_all is_digit_char ds" and "foldl (\<lambda>n c. 10 * n + digit_val c) n ds < 2147483648"
  shows "parse Http_version_major (req\<lparr>http_version_major := int n\<rparr>) (ds @ cs) =
     parse Http_version_major
       (req\<lparr>http_version_major := int (foldl (\<lambda>n c. 10 * n + digit_val c) n ds)\<rparr>) cs"
  using assms
proof (induction ds arbitrary: n)
  case (Cons d ds)
  then have d: "is_digit_char d" by simp
  have s: "int32 (int n * 10 + char_int d - 48) = int (10 * n + digit_val d)"
    using d Cons.prems(2) by (rule digit_step)
  from d have g: "is_digit (char_int d)" by (simp add: is_digit_char_def is_digit_def)
  then have "d \<noteq> CHR ''.''" using digit_char_not_dot by blast
  with g s have "parse Http_version_major (req\<lparr>http_version_major := int n\<rparr>) ((d # ds) @ cs) =
     parse Http_version_major (req\<lparr>http_version_major := int (10 * n + digit_val d)\<rparr>) (ds @ cs)"
    by (simp del: of_nat_add of_nat_mult)
  also have "\<dots> = parse Http_version_major (req\<lparr>http_version_major :=
      int (foldl (\<lambda>n c. 10 * n + digit_val c) (10 * n + digit_val d) ds)\<rparr>) cs"
    using Cons.prems by (intro Cons.IH) simp_all
  finally show ?case by simp
qed simp

lemma parse_minor_digits:
  assumes "list_all is_digit_char ds" and "foldl (\<lambda>n c. 10 * n + digit_val c) n ds < 2147483648"
  shows "parse Http_version_minor (req\<lparr>http_version_minor := int n\<rparr>) (ds @ cs) =
     parse Http_version_minor
       (req\<lparr>http_version_minor := int (foldl (\<lambda>n c. 10 * n + digit_val c) n ds)\<rparr>) cs"
  using assms
proof (induction ds arbitrary: n)
  case (Cons d ds)
  then have d: "is_digit_char d" by simp
  have s: "int32 (int n * 10 + char_int d - 48) = int (10 * n + digit_val d)"
    using d Cons.prems(2) by (rule digit_step)
  from d have g: "is_digit (char_int d)" by (simp add: is_digit_char_def is_digit_def)
  then have "d \<noteq> CHR 0x0D" using digit_char_not_dot by blast
  with g s have "parse Http_version_minor (req\<lparr>http_version_minor := int n\<rparr>) ((d # ds) @ cs) =
     parse Http_version_minor (req\<lparr>http_version_minor := int (10 * n + digit_val d)\<rparr>) (ds @ cs)"
    by (simp del: of_nat_add of_nat_mult)
  also have "\<dots> = parse Http_version_minor (req\<lparr>http_version_minor :=
      int (foldl (\<lambda>n c. 10 * n + digit_val c) (10 * n + digit_val d) ds)\<rparr>) cs"
    using Cons.prems by (intro Cons.IH) simp_all
  finally show ?case by simp
qed simp

lemma is_digit_conv: "is_digit (char_int c) \<longleftrightarrow> is_digit_char c"
  by (simp add: is_digit_def is_digit_char_def)

lemma to_string_split:
  "\<exists>d ds. to_string n = d # ds \<and> is_digit_char d \<and> list_all is_digit_char ds \<and>
     foldl (\<lambda>n c. 10 * n + digit_val c) (digit_val d) ds = n"
proof -
  obtain d ds where t: "to_string n = d # ds"
    by (cases "to_string n") auto
  then have "list_all is_digit_char (d # ds)"
    using to_string_digits [of _ n] by (auto simp: list_all_iff)
  moreover have "foldl (\<lambda>n c. 10 * n + digit_val c) (digit_val d) ds = n"
    using dec_value_to_string [of n] t by (simp add: dec_value_def)
  ultimately show ?thesis using t by auto
qed

lemma first_digit: "is_digit_char d \<Longrightarrow> int32 (0 * 10 + char_int d - 48) = int (digit_val d)"
  unfolding is_digit_char_def digit_val_def by (simp add: int32_id)

lemma parse_version_major:
  assumes "n < 2147483648" and "http_version_major req = 0"
  shows "parse Http_version_major_start req (to_string n @ cs) =
     parse Http_version_major (req\<lparr>http_version_major := int n\<rparr>) cs"
proof -
  obtain d ds where t: "to_string n = d # ds" and d: "is_digit_char d" "list_all is_digit_char ds"
    and v: "foldl (\<lambda>n c. 10 * n + digit_val c) (digit_val d) ds = n"
    using to_string_split by blast
  have "parse Http_version_major_start req (to_string n @ cs) =
     parse Http_version_major (req\<lparr>http_version_major := int (digit_val d)\<rparr>) (ds @ cs)"
    using t d(1) assms(2) first_digit [OF d(1)] by (simp add: is_digit_conv)
  with parse_major_digits [OF d(2), of "digit_val d" req cs] assms(1) v show ?thesis by simp
qed

lemma parse_version_minor:
  assumes "n < 2147483648" and "http_version_minor req = 0"
  shows "parse Http_version_minor_start req (to_string n @ cs) =
     parse Http_version_minor (req\<lparr>http_version_minor := int n\<rparr>) cs"
proof -
  obtain d ds where t: "to_string n = d # ds" and d: "is_digit_char d" "list_all is_digit_char ds"
    and v: "foldl (\<lambda>n c. 10 * n + digit_val c) (digit_val d) ds = n"
    using to_string_split by blast
  have "parse Http_version_minor_start req (to_string n @ cs) =
     parse Http_version_minor (req\<lparr>http_version_minor := int (digit_val d)\<rparr>) (ds @ cs)"
    using t d(1) assms(2) first_digit [OF d(1)] by (simp add: is_digit_conv)
  with parse_minor_digits [OF d(2), of "digit_val d" req cs] assms(1) v show ?thesis by simp
qed

text \<open>One header line, from the start of the line to the start of the next.\<close>

lemma parse_name:
  "list_all token_char n \<Longrightarrow>
     parse Header_name (req\<lparr>req_headers := hs @ [h]\<rparr>) (n @ cs) =
     parse Header_name (req\<lparr>req_headers := hs @ [h\<lparr>hdr_name := hdr_name h @ map tolower n\<rparr>]\<rparr>) cs"
proof (induction n arbitrary: h)
  case (Cons c n)
  then have "token_char c" by simp
  then have "consume Header_name (req\<lparr>req_headers := hs @ [h]\<rparr>) c =
     (Indeterminate, Header_name,
      req\<lparr>req_headers := hs @ [h\<lparr>hdr_name := hdr_name h @ [tolower c]\<rparr>]\<rparr>)"
    using token_char_facts by (auto simp: token_char_def push_name_def)
  with Cons show ?case by simp
qed simp

lemma parse_value:
  "list_all text_char v \<Longrightarrow>
     parse Header_value (req\<lparr>req_headers := hs @ [h]\<rparr>) (v @ cs) =
     parse Header_value (req\<lparr>req_headers := hs @ [h\<lparr>hdr_value := hdr_value h @ v\<rparr>]\<rparr>) cs"
proof (induction v arbitrary: h)
  case (Cons c v)
  then have "text_char c" by simp
  then have "consume Header_value (req\<lparr>req_headers := hs @ [h]\<rparr>) c =
     (Indeterminate, Header_value,
      req\<lparr>req_headers := hs @ [h\<lparr>hdr_value := hdr_value h @ [c]\<rparr>]\<rparr>)"
    using text_char_no_cr by (auto simp: text_char_def push_value_def)
  with Cons show ?case by simp
qed simp

lemma parse_header_line:
  assumes "wf_header h"
  shows "parse Header_line_start req (print_header h @ cs) =
     parse Header_line_start (req\<lparr>req_headers := req_headers req @ [lower_header h]\<rparr>) cs"
proof -
  from assms obtain c n where n: "hdr_name h = c # n" and t: "token_char c" "list_all token_char n"
    and v: "list_all text_char (hdr_value h)"
    by (cases "hdr_name h") (auto simp: wf_header_def)
  have first: "consume Header_line_start req c =
      (Indeterminate, Header_name,
       req\<lparr>req_headers := req_headers req @ [\<lparr>hdr_name = [tolower c], hdr_value = []\<rparr>]\<rparr>)"
    using t(1) token_char_facts [OF t(1)]
    by (auto simp: token_char_def push_name_def add_header_def empty_header_def)
  have "\<lparr>hdr_name = tolower c # map tolower n, hdr_value = hdr_value h\<rparr> = lower_header h"
    using n by (cases h) (simp add: lower_header_def)
  then show ?thesis
    using n first t v
    by (simp add: print_header_def crlf_def parse_name parse_value)
qed

lemma parse_header_lines:
  "list_all wf_header hs \<Longrightarrow>
     parse Header_line_start req (concat (map print_header hs) @ cs) =
     parse Header_line_start (req\<lparr>req_headers := req_headers req @ map lower_header hs\<rparr>) cs"
  by (induction hs arbitrary: req) (simp_all add: parse_header_line)

lemma parse_head:
  assumes "wf_request r" and "version_ok r"
    and "req_method q = []" and "req_uri q = []" and "req_headers q = []"
  shows "parse Method_start q (print_head r @ rest) =
    parse Header_line_start
      (r\<lparr>req_headers := map lower_header (req_headers r), req_data := req_data q\<rparr>) rest"
proof -
  from assms(2) have v: "nat (http_version_major r) < 2147483648" "nat (http_version_minor r) < 2147483648"
    "int (nat (http_version_major r)) = http_version_major r"
    "int (nat (http_version_minor r)) = http_version_minor r"
    by (auto simp: version_ok_def)
  note w = assms(1) [unfolded wf_request_def]
  have e: "q\<lparr>req_method := req_method r, req_uri := req_uri r, http_version_major := http_version_major r,
      http_version_minor := http_version_minor r, req_headers := hs\<rparr> =
    r\<lparr>req_headers := hs, req_data := req_data q\<rparr>" for hs
    by (cases r; cases q) simp
  show ?thesis
    using w v assms(3-5)
    by (simp add: print_head_def crlf_def parse_method_start parse_uri parse_version_major
        parse_version_minor parse_header_lines) (simp only: e)
qed

lemma parse_printed:
  assumes "wf_request r" and "version_ok r"
    and "req_method q = []" and "req_uri q = []" and "req_headers q = []"
  shows "parse Method_start q (print_request r @ rest) =
    (Good, rest, Expecting_newline_3,
     r\<lparr>req_headers := map lower_header (req_headers r), req_data := req_data q\<rparr>)"
  using parse_head [OF assms] by (simp add: print_request_def) (simp add: crlf_def)

text \<open>
  C22: a well-formed request, printed as it travels on the wire, is accepted by the parser, which
  stops exactly after the blank line and stores the method, the URI, the version and every header
  (with its name in lower case), whatever follows and whatever the version fields held before.
\<close>

theorem parse_print_request:
  assumes "wf_request r" and "version_ok r"
    and "req_method q = []" and "req_uri q = []" and "req_headers q = []"
  shows "parse Method_start q (print_request r @ rest) =
    (Good, rest, Expecting_newline_3,
     r\<lparr>req_headers := map lower_header (req_headers r), req_data := req_data q\<rparr>)"
  using assms by (rule parse_printed)

definition sample_request :: request where
  "sample_request = \<lparr>req_method = ''POST'', req_uri = ''/bid/1'', http_version_major = 1,
     http_version_minor = 1,
     req_headers = [\<lparr>hdr_name = ''Content-Length'', hdr_value = ''2''\<rparr>], req_data = []\<rparr>"

theorem parse_print_request_witness:
  "parse Method_start empty_request (print_request sample_request @ ''{}'') =
    (Good, ''{}'', Expecting_newline_3,
     sample_request\<lparr>req_headers := [\<lparr>hdr_name = ''content-length'', hdr_value = ''2''\<rparr>]\<rparr>)"
proof -
  have w: "wf_request sample_request" by code_simp
  have v: "version_ok sample_request" by code_simp
  have "map lower_header (req_headers sample_request) =
      [\<lparr>hdr_name = ''content-length'', hdr_value = ''2''\<rparr>]" by code_simp
  with parse_print_request [OF w v, of empty_request "''{}''"] show ?thesis
    by (simp add: empty_request_def) (simp add: sample_request_def)
qed

text \<open>
  C23: whenever the parser reports a complete request, what it stored is well formed (a non-empty
  method made of token bytes, a URI without spaces and control bytes, headers with non-empty
  token names and control-free values), all header names are lower case, and the unconsumed input
  is a proper suffix of what was given.
\<close>

theorem parse_good_sound:
  assumes "parse Method_start empty_request cs = (Good, rest, st, r)"
  shows "wf_request r \<and> list_all (\<lambda>h. map tolower (hdr_name h) = hdr_name h) (req_headers r) \<and>
    strict_suffix rest cs"
proof -
  have "parser_inv st r" using parser_inv_start assms by (rule parse_inv)
  moreover have "st = Expecting_newline_3" using assms by (rule parse_good_state)
  moreover have "suffix rest cs \<and> length rest < length cs"
    using parse_rest [OF assms] parse_bad_or_good_nonempty [OF assms] by simp
  ultimately show ?thesis
    by (auto simp: parser_inv_def wf_request_def hdrs_ok_def list_all_iff strict_suffix_def)
qed

theorem parse_good_sound_witness:
  "wf_request \<lparr>req_method = ''G'', req_uri = ''/'', http_version_major = 1, http_version_minor = 0,
     req_headers = [], req_data = []\<rparr>"
proof -
  have "parse Method_start empty_request (''G / HTTP/1.0'' @ crlf @ crlf) =
     (Good, [], Expecting_newline_3, \<lparr>req_method = ''G'', req_uri = ''/'', http_version_major = 1,
       http_version_minor = 0, req_headers = [], req_data = []\<rparr>)"
    by code_simp
  from parse_good_sound [OF this] show ?thesis by simp
qed

text \<open>
  How the network cuts a request into segments does not matter. Parsing a concatenation is
  parsing the first part and, if it ended in the middle of the request, continuing with the second
  part from the state reached; a verdict reached in the first part stands, with the second part
  left unconsumed.
\<close>

theorem parse_segments:
  "parse st req (xs @ ys) =
     (case parse st req xs of (res, rest, st', req') \<Rightarrow>
        (case res of Indeterminate \<Rightarrow> parse st' req' ys
         | Good \<Rightarrow> (Good, rest @ ys, st', req')
         | Bad \<Rightarrow> (Bad, rest @ ys, st', req')))"
  by (auto simp: parse_append split: prod.splits result_type.splits)

text \<open>
  C24: in every state reachable from the start, the header list is non-empty whenever the next byte
  may be appended to its last element, so \<open>headers.back()\<close> is never called on an empty vector.
\<close>

theorem parse_back_defined:
  assumes "parse Method_start empty_request cs = (res, rest, st, r)"
    and "st \<in> {Header_lws, Header_name, Space_before_header_value, Header_value, Expecting_newline_2}"
  shows "req_headers r \<noteq> []"
proof -
  have "parser_inv st r" using parser_inv_start assms(1) by (rule parse_inv)
  with assms(2) show ?thesis by (auto simp: parser_inv_def needs_header_def)
qed

theorem parse_back_defined_witness:
  "req_headers \<lparr>req_method = ''G'', req_uri = [], http_version_major = 1, http_version_minor = 0,
     req_headers = [\<lparr>hdr_name = ''a'', hdr_value = []\<rparr>], req_data = []\<rparr> \<noteq> []"
proof -
  have "parse Method_start empty_request (''G  HTTP/1.0'' @ crlf @ ''A'') =
     (Indeterminate, [], Header_name, \<lparr>req_method = ''G'', req_uri = [], http_version_major = 1,
       http_version_minor = 0, req_headers = [\<lparr>hdr_name = ''a'', hdr_value = []\<rparr>], req_data = []\<rparr>)"
    by code_simp
  from parse_back_defined [OF this] show ?thesis by simp
qed

end
