(* ===== verification/Http_Reply.thy ===== *)
theory Http_Reply
  imports Http_Parser
begin

text \<open>
  Replies of \<^verbatim>\<open>CRUD/service/reply\<close> and the media-type table of \<^verbatim>\<open>CRUD/service/mime_types\<close>: the
  status codes with their status lines and stock pages, \<open>to_buffers\<close>, the stock replies and the
  stream operators that fill and flush a reply. A reference reader of the wire format shows that a
  client recovers status, headers and body, and that the length header frames the body.
\<close>

section \<open>Media types\<close>

definition mappings :: "(string \<times> string) list" where
  "mappings =
    [(''gif'', ''image/gif''),
     (''htm'', ''text/html''),
     (''html'', ''text/html''),
     (''jpg'', ''image/jpeg''),
     (''png'', ''image/png''),
     (''json'', ''application/json''),
     (''css'', ''text/css'')]"

text \<open>
  Comparison of two zero-terminated strings, given as the lists of the bytes before their
  terminators: the loop ends when both pointers are at a terminator, and returns false at the
  first difference (a terminator differs from every byte of the other string).
\<close>

fun equal_cstr :: "string \<Rightarrow> string \<Rightarrow> bool" where
  "equal_cstr [] [] = True"
| "equal_cstr (a # as) (b # bs) = (if a \<noteq> b then False else equal_cstr as bs)"
| "equal_cstr [] (b # bs) = False"
| "equal_cstr (a # as) [] = False"

fun find_mapping :: "(string \<Rightarrow> bool) \<Rightarrow> (string \<times> string) list \<Rightarrow> string" where
  "find_mapping eq [] = ''text/plain''"
| "find_mapping eq (m # ms) = (if eq (fst m) then snd m else find_mapping eq ms)"

definition extension_to_type_constexpr :: "string \<Rightarrow> string" where
  "extension_to_type_constexpr extension = find_mapping (\<lambda>e. equal_cstr e extension) mappings"

definition extension_to_type :: "string \<Rightarrow> string" where
  "extension_to_type extension = find_mapping (\<lambda>e. e = extension) mappings"

definition mime_HTML :: string where
  "mime_HTML = extension_to_type_constexpr ''html''"

definition mime_JSON :: string where
  "mime_JSON = extension_to_type_constexpr ''json''"

lemma equal_cstr_eq [simp]: "equal_cstr a b \<longleftrightarrow> a = b"
  by (induction a b rule: equal_cstr.induct) auto

section \<open>Status codes\<close>

text \<open>
  The enumerators, and any other value of the underlying integer, which takes the \<open>default\<close> branch
  of both tables.
\<close>

datatype status_type =
    Ok | Created | Accepted | No_content
  | Multiple_choices | Moved_permanently | Moved_temporarily | Not_modified
  | Bad_request | Unauthorized | Forbidden | Not_found
  | Internal_server_error | Not_implemented | Bad_gateway | Service_unavailable
  | Other_status int

fun status_code :: "status_type \<Rightarrow> int" where
  "status_code Ok = 200"
| "status_code Created = 201"
| "status_code Accepted = 202"
| "status_code No_content = 204"
| "status_code Multiple_choices = 300"
| "status_code Moved_permanently = 301"
| "status_code Moved_temporarily = 302"
| "status_code Not_modified = 304"
| "status_code Bad_request = 400"
| "status_code Unauthorized = 401"
| "status_code Forbidden = 403"
| "status_code Not_found = 404"
| "status_code Internal_server_error = 500"
| "status_code Not_implemented = 501"
| "status_code Bad_gateway = 502"
| "status_code Service_unavailable = 503"
| "status_code (Other_status n) = n"

fun to_buffer :: "status_type \<Rightarrow> string" where
  "to_buffer Ok = ''HTTP/1.0 200 OK'' @ crlf"
| "to_buffer Created = ''HTTP/1.0 201 Created'' @ crlf"
| "to_buffer Accepted = ''HTTP/1.0 202 Accepted'' @ crlf"
| "to_buffer No_content = ''HTTP/1.0 204 No Content'' @ crlf"
| "to_buffer Multiple_choices = ''HTTP/1.0 300 Multiple Choices'' @ crlf"
| "to_buffer Moved_permanently = ''HTTP/1.0 301 Moved Permanently'' @ crlf"
| "to_buffer Moved_temporarily = ''HTTP/1.0 302 Moved Temporarily'' @ crlf"
| "to_buffer Not_modified = ''HTTP/1.0 304 Not Modified'' @ crlf"
| "to_buffer Bad_request = ''HTTP/1.0 400 Bad Request'' @ crlf"
| "to_buffer Unauthorized = ''HTTP/1.0 401 Unauthorized'' @ crlf"
| "to_buffer Forbidden = ''HTTP/1.0 403 Forbidden'' @ crlf"
| "to_buffer Not_found = ''HTTP/1.0 404 Not Found'' @ crlf"
| "to_buffer Internal_server_error = ''HTTP/1.0 500 Internal Server Error'' @ crlf"
| "to_buffer Not_implemented = ''HTTP/1.0 501 Not Implemented'' @ crlf"
| "to_buffer Bad_gateway = ''HTTP/1.0 502 Bad Gateway'' @ crlf"
| "to_buffer Service_unavailable = ''HTTP/1.0 503 Service Unavailable'' @ crlf"
| "to_buffer (Other_status n) = ''HTTP/1.0 500 Internal Server Error'' @ crlf"

section \<open>Stock pages\<close>

definition html_page :: "string \<Rightarrow> string \<Rightarrow> string" where
  "html_page title heading = ''<html>'' @ ''<head><title>'' @ title @ ''</title></head>'' @
     ''<body><h1>'' @ heading @ ''</h1></body>'' @ ''</html>''"

fun stock_content :: "status_type \<Rightarrow> string" where
  "stock_content Ok = ''''"
| "stock_content Created = html_page ''Created'' ''201 Created''"
| "stock_content Accepted = html_page ''Accepted'' ''202 Accepted''"
| "stock_content No_content = html_page ''No Content'' ''204 Content''"
| "stock_content Multiple_choices = html_page ''Multiple Choices'' ''300 Multiple Choices''"
| "stock_content Moved_permanently = html_page ''Moved Permanently'' ''301 Moved Permanently''"
| "stock_content Moved_temporarily = html_page ''Moved Temporarily'' ''302 Moved Temporarily''"
| "stock_content Not_modified = html_page ''Not Modified'' ''304 Not Modified''"
| "stock_content Bad_request = html_page ''Bad Request'' ''400 Bad Request''"
| "stock_content Unauthorized = html_page ''Unauthorized'' ''401 Unauthorized''"
| "stock_content Forbidden = html_page ''Forbidden'' ''403 Forbidden''"
| "stock_content Not_found = html_page ''Not Found'' ''404 Not Found''"
| "stock_content Internal_server_error =
     html_page ''Internal Server Error'' ''500 Internal Server Error''"
| "stock_content Not_implemented = html_page ''Not Implemented'' ''501 Not Implemented''"
| "stock_content Bad_gateway = html_page ''Bad Gateway'' ''502 Bad Gateway''"
| "stock_content Service_unavailable =
     html_page ''Service Unavailable'' ''503 Service Unavailable''"
| "stock_content (Other_status n) =
     html_page ''Internal Server Error'' ''500 Internal Server Error''"

section \<open>Replies\<close>

record reply =
  rep_status :: status_type
  rep_headers :: "header list"
  rep_content :: string

text \<open>A default-constructed \<open>reply\<close>: its status is not initialised and has an arbitrary value.\<close>

definition new_reply :: "status_type \<Rightarrow> reply" where
  "new_reply garbage = \<lparr>rep_status = garbage, rep_headers = [], rep_content = []\<rparr>"

fun header_buffers :: "header list \<Rightarrow> string list" where
  "header_buffers [] = []"
| "header_buffers (h # hs) = [hdr_name h, '': '', hdr_value h, crlf] @ header_buffers hs"

definition to_buffers :: "reply \<Rightarrow> string list" where
  "to_buffers rep =
     [to_buffer (rep_status rep)] @ header_buffers (rep_headers rep) @ [crlf] @ [rep_content rep]"

text \<open>The two headers that \<open>stock_reply\<close>, \<open>flush_impl\<close> and \<open>handle_request\<close> set, on a header vector
  that has been resized to two elements.\<close>

definition set_length_and_type :: "reply \<Rightarrow> string \<Rightarrow> reply" where
  "set_length_and_type rep type =
     (let hs = resize 2 empty_header (rep_headers rep) in
      rep\<lparr>rep_headers :=
        [(hs ! 0)\<lparr>hdr_name := ''Content-Length'', hdr_value := to_string (length (rep_content rep))\<rparr>,
         (hs ! 1)\<lparr>hdr_name := ''Content-Type'', hdr_value := type\<rparr>]\<rparr>)"

definition stock_reply :: "status_type \<Rightarrow> string \<Rightarrow> reply" where
  "stock_reply status mime =
     (let rep = (new_reply (Other_status 0))\<lparr>rep_status := status\<rparr> in
      if status \<noteq> No_content
      then set_length_and_type (rep\<lparr>rep_content := stock_content status\<rparr>) mime
      else rep)"

definition flush_impl :: "reply \<Rightarrow> status_type \<Rightarrow> string \<Rightarrow> reply" where
  "flush_impl r status f = set_length_and_type (r\<lparr>rep_status := status\<rparr>) (extension_to_type f)"

definition reply_append :: "reply \<Rightarrow> string \<Rightarrow> reply" where
  "reply_append r value = r\<lparr>rep_content := rep_content r @ value\<rparr>"

definition reply_flush :: "reply \<Rightarrow> string \<Rightarrow> reply" where
  "reply_flush r f = flush_impl r Ok f"

section \<open>A reader of the wire format\<close>

text \<open>What an HTTP client does with the bytes: lines up to the empty one, then the body.\<close>

fun read_line :: "string \<Rightarrow> (string \<times> string) option" where
  "read_line (c # d # cs) =
     (if c = CHR 0x0D \<and> d = CHR 0x0A then Some ([], cs)
      else map_option (\<lambda>(l, rest). (c # l, rest)) (read_line (d # cs)))"
| "read_line _ = None"

definition split_header :: "string \<Rightarrow> header option" where
  "split_header l =
     (case dropWhile (\<lambda>c. c \<noteq> CHR '':'') l of
        a # b # v \<Rightarrow> if b = CHR '' '' then Some \<lparr>hdr_name = takeWhile (\<lambda>c. c \<noteq> CHR '':'') l, hdr_value = v\<rparr>
                     else None
      | _ \<Rightarrow> None)"

lemma read_line_shorter: "read_line cs = Some (l, rest) \<Longrightarrow> length rest < length cs"
proof (induction cs arbitrary: l rest rule: read_line.induct)
  case (1 c d cs)
  then show ?case by (fastforce split: if_splits)
qed simp_all

function read_headers :: "string \<Rightarrow> (header list \<times> string) option" where
  "read_headers cs =
     (case read_line cs of
        None \<Rightarrow> None
      | Some ([], rest) \<Rightarrow> Some ([], rest)
      | Some (a # l, rest) \<Rightarrow>
          (case split_header (a # l) of
             None \<Rightarrow> None
           | Some h \<Rightarrow> map_option (\<lambda>(hs, body). (h # hs, body)) (read_headers rest)))"
  by pat_completeness auto
termination by (relation "measure length") (auto dest: read_line_shorter)

declare read_headers.simps [simp del]

text \<open>The three-digit code of the status line, the headers and the body.\<close>

definition read_reply :: "string \<Rightarrow> (string \<times> header list \<times> string) option" where
  "read_reply cs =
     (case read_line cs of
        None \<Rightarrow> None
      | Some (l, rest) \<Rightarrow>
          map_option (\<lambda>(hs, body). (take 3 (drop 9 l), hs, body)) (read_headers rest))"

definition sendable_header :: "header \<Rightarrow> bool" where
  "sendable_header h \<longleftrightarrow> hdr_name h \<noteq> [] \<and> CHR '':'' \<notin> set (hdr_name h) \<and>
     CHR 0x0D \<notin> set (hdr_name h) \<and> CHR 0x0D \<notin> set (hdr_value h)"

lemma read_line_append:
  "CHR 0x0D \<notin> set l \<Longrightarrow> read_line (l @ crlf @ cs) = Some (l, cs)"
proof (induction l)
  case (Cons c l)
  then show ?case by (cases l) (auto simp: crlf_def)
qed (simp add: crlf_def)

lemma split_header_print:
  "CHR '':'' \<notin> set n \<Longrightarrow> split_header (n @ '': '' @ v) = Some \<lparr>hdr_name = n, hdr_value = v\<rparr>"
proof -
  assume a: "CHR '':'' \<notin> set n"
  then have "takeWhile (\<lambda>c. c \<noteq> CHR '':'') (n @ '': '' @ v) = n"
    and "dropWhile (\<lambda>c. c \<noteq> CHR '':'') (n @ '': '' @ v) = '': '' @ v"
    by (auto simp: takeWhile_append dropWhile_append)
  then show ?thesis by (simp add: split_header_def)
qed

lemma read_headers_print:
  "list_all sendable_header hs \<Longrightarrow> read_headers (concat (header_buffers hs) @ crlf @ body) = Some (hs, body)"
proof (induction hs)
  case Nil
  have "read_line ([] @ crlf @ body) = Some ([], body)" by (rule read_line_append) simp
  then show ?case by (subst read_headers.simps) simp
next
  case (Cons h hs)
  let ?rest = "concat (header_buffers hs) @ crlf @ body"
  have h: "sendable_header h" using Cons.prems by simp
  then obtain a n where n: "hdr_name h = a # n" by (cases "hdr_name h") (auto simp: sendable_header_def)
  have w: "concat (header_buffers (h # hs)) @ crlf @ body =
      (hdr_name h @ '': '' @ hdr_value h) @ crlf @ ?rest" by simp
  have "read_line ((hdr_name h @ '': '' @ hdr_value h) @ crlf @ ?rest) =
      Some (hdr_name h @ '': '' @ hdr_value h, ?rest)"
    using h by (intro read_line_append) (auto simp: sendable_header_def)
  moreover have "split_header (hdr_name h @ '': '' @ hdr_value h) = Some h"
    using h by (subst split_header_print) (auto simp: sendable_header_def)
  moreover have "read_headers ?rest = Some (hs, body)" using Cons by simp
  ultimately show ?case unfolding w n by (subst read_headers.simps) (simp add: n)
qed

text \<open>The code a client sees: values outside the enumeration are sent as 500.\<close>

definition wire_code :: "status_type \<Rightarrow> nat" where
  "wire_code s = nat (case s of Other_status _ \<Rightarrow> 500 | _ \<Rightarrow> status_code s)"

lemma to_buffer_shape:
  "\<exists>l. to_buffer s = l @ crlf \<and> CHR 0x0D \<notin> set l \<and> take 3 (drop 9 l) =
     to_string (wire_code s)"
  by (cases s)
    (simp_all only: to_buffer.simps append_same_eq wire_code_def status_type.case status_code.simps
      nat_numeral ex_simps(1) simp_thms(39), simp_all add: to_string.simps)

lemma read_reply_print:
  assumes "list_all sendable_header (rep_headers rep)"
  shows "read_reply (concat (to_buffers rep)) =
    Some (to_string (wire_code (rep_status rep)), rep_headers rep, rep_content rep)"
proof -
  obtain l where l: "to_buffer (rep_status rep) = l @ crlf" "CHR 0x0D \<notin> set l"
    "take 3 (drop 9 l) = to_string (wire_code (rep_status rep))"
    using to_buffer_shape by blast
  let ?rest = "concat (header_buffers (rep_headers rep)) @ crlf @ rep_content rep"
  have "concat (to_buffers rep) = l @ crlf @ ?rest" by (simp add: to_buffers_def l(1))
  moreover have "read_line (l @ crlf @ ?rest) = Some (l, ?rest)" using l(2) by (rule read_line_append)
  ultimately show ?thesis
    using read_headers_print [OF assms] l(3) by (simp add: read_reply_def)
qed

section \<open>Properties\<close>

text \<open>
  C25: a reply whose header names and values are sendable (no line break in them, no colon in a
  name) is recovered from the bytes of \<open>to_buffers\<close>: the reader gets the status code, exactly the
  headers of the reply in order, and exactly its content, whatever bytes the content has.
\<close>

theorem read_reply_to_buffers:
  assumes "list_all sendable_header (rep_headers rep)"
  shows "read_reply (concat (to_buffers rep)) =
    Some (to_string (wire_code (rep_status rep)), rep_headers rep, rep_content rep)"
  using assms by (rule read_reply_print)

theorem read_reply_to_buffers_witness:
  "read_reply (concat (to_buffers (stock_reply Not_found mime_HTML))) =
    Some (''404'', [\<lparr>hdr_name = ''Content-Length'', hdr_value = ''85''\<rparr>,
       \<lparr>hdr_name = ''Content-Type'', hdr_value = ''text/html''\<rparr>], stock_content Not_found)"
proof -
  have h: "rep_headers (stock_reply Not_found mime_HTML) =
      [\<lparr>hdr_name = ''Content-Length'', hdr_value = ''85''\<rparr>,
       \<lparr>hdr_name = ''Content-Type'', hdr_value = ''text/html''\<rparr>]" by code_simp
  have s: "list_all sendable_header (rep_headers (stock_reply Not_found mime_HTML))" by code_simp
  have "rep_status (stock_reply Not_found mime_HTML) = Not_found"
    "rep_content (stock_reply Not_found mime_HTML) = stock_content Not_found" by code_simp+
  with read_reply_to_buffers [OF s] h show ?thesis by (simp add: wire_code_def to_string.simps)
qed

lemma set_length_and_type_fields [simp]:
  "rep_status (set_length_and_type r t) = rep_status r"
  "rep_content (set_length_and_type r t) = rep_content r"
  "rep_headers (set_length_and_type r t) =
    [\<lparr>hdr_name = ''Content-Length'', hdr_value = to_string (length (rep_content r))\<rparr>,
     \<lparr>hdr_name = ''Content-Type'', hdr_value = t\<rparr>]"
  by (simp_all add: set_length_and_type_def Let_def)

lemma to_string_no_cr: "CHR 0x0D \<notin> set (to_string n)"
  using to_string_digits [of "CHR 0x0D" n] by (auto simp: is_digit_char_def)

lemma find_mapping_in: "find_mapping eq ms \<in> insert ''text/plain'' (set (map snd ms))"
  by (induction ms) auto

lemma extension_to_type_no_cr: "CHR 0x0D \<notin> set (extension_to_type e)"
proof -
  have "\<forall>t \<in> insert ''text/plain'' (set (map snd mappings)). CHR 0x0D \<notin> set t"
    by (simp add: mappings_def)
  then show ?thesis using find_mapping_in unfolding extension_to_type_def by blast
qed

lemma set_length_and_type_sendable [wf_simps]:
  "CHR 0x0D \<notin> set t \<Longrightarrow> list_all sendable_header (rep_headers (set_length_and_type r t))"
  by (simp add: sendable_header_def to_string_no_cr)

lemma stock_reply_sendable [wf_simps]:
  "CHR 0x0D \<notin> set t \<Longrightarrow> list_all sendable_header (rep_headers (stock_reply st t))"
  by (auto simp: stock_reply_def Let_def new_reply_def set_length_and_type_sendable
      simp del: set_length_and_type_fields(3))

lemma mime_HTML_no_cr [simp]: "CHR 0x0D \<notin> set mime_HTML" "CHR 0x0D \<notin> set mime_JSON"
  by code_simp+

text \<open>A flushed reply as a client reads it, whatever headers and status it had before.\<close>

lemma flushed_read:
  "read_reply (concat (to_buffers (reply_flush r ext))) =
     Some (''200'', [\<lparr>hdr_name = ''Content-Length'', hdr_value = to_string (length (rep_content r))\<rparr>,
       \<lparr>hdr_name = ''Content-Type'', hdr_value = extension_to_type ext\<rparr>], rep_content r)"
proof -
  let ?r = "reply_flush r ext"
  have s: "list_all sendable_header (rep_headers ?r)"
    unfolding reply_flush_def flush_impl_def
    by (rule set_length_and_type_sendable) (rule extension_to_type_no_cr)
  have f: "rep_status ?r = Ok" "rep_content ?r = rep_content r"
    "rep_headers ?r = [\<lparr>hdr_name = ''Content-Length'', hdr_value = to_string (length (rep_content r))\<rparr>,
       \<lparr>hdr_name = ''Content-Type'', hdr_value = extension_to_type ext\<rparr>]"
    by (simp_all add: reply_flush_def flush_impl_def)
  show ?thesis using read_reply_print [OF s] by (simp only: f) (simp add: wire_code_def to_string.simps)
qed

text \<open>
  Writing any number of pieces into a fresh reply and flushing it with any extension gives a
  reply that a client reads back as status 200 with exactly two headers, the first of which
  announces the exact number of body bytes, and the body is the concatenation of the pieces. Both
  overloads of the media-type lookup agree.
\<close>

theorem flushed_reply_framed:
  "\<exists>hs body. read_reply (concat (to_buffers (reply_flush (foldl reply_append (new_reply g) vs) ext))) =
       Some (''200'', hs, body) \<and>
     body = concat vs \<and>
     map hdr_name hs = [''Content-Length'', ''Content-Type''] \<and>
     dec_value (hdr_value (hs ! 0)) = length body \<and>
     hdr_value (hs ! 1) = extension_to_type_constexpr ext"
proof -
  have c: "rep_content (foldl reply_append r vs) = rep_content r @ concat vs" for r
    by (induction vs arbitrary: r) (simp_all add: reply_append_def)
  show ?thesis
    unfolding flushed_read by (simp add: c new_reply_def extension_to_type_def extension_to_type_constexpr_def)
qed

section \<open>The interface of a request handler\<close>

text \<open>
  What the connections rely on: a handler with state \<open>h\<close> that fills a reply. Its law is that, from a
  reply without headers, it only produces headers that can be sent; the state stays within its
  invariant. The file server and the dispatchers provide it.
\<close>

locale http_request_handler =
  fixes handle :: "'h \<Rightarrow> request \<Rightarrow> reply \<Rightarrow> 'h \<times> reply"
    and handler_inv :: "'h \<Rightarrow> bool"
  assumes handle_inv: "handler_inv h \<Longrightarrow> handler_inv (fst (handle h req rep))"
    and handle_sendable: "handler_inv h \<Longrightarrow> rep_headers rep = [] \<Longrightarrow>
      list_all sendable_header (rep_headers (snd (handle h req rep)))"
begin

lemma handled_reply_read:
  assumes "handler_inv h" and "rep_headers rep = []"
  shows "read_reply (concat (to_buffers (snd (handle h req rep)))) =
    Some (to_string (wire_code (rep_status (snd (handle h req rep)))),
      rep_headers (snd (handle h req rep)), rep_content (snd (handle h req rep)))"
  using handle_sendable [OF assms] by (rule read_reply_print)

end

end
