(* ===== verification/Http_Handler.thy ===== *)
theory Http_Handler
  imports Http_Reply
begin

text \<open>
  The file server of \<^verbatim>\<open>CRUD/service/request_handler\<close>: URL decoding and \<open>handle_request\<close>. The file
  system is a parameter, the function from the path given to \<open>ifstream\<close> to the bytes of the file
  (or none when it cannot be opened). The lemmas show the round trip of percent encoding, that no
  request reads outside the paths below the document root, and the reply of every branch.
\<close>

section \<open>Reading a hexadecimal number from a stream\<close>

definition is_space :: "char \<Rightarrow> bool" where
  "is_space c \<longleftrightarrow> char_int c = 32 \<or> (9 \<le> char_int c \<and> char_int c \<le> 13)"

definition hex_val :: "char \<Rightarrow> int option" where
  "hex_val c =
     (let n = char_int c in
      if 48 \<le> n \<and> n \<le> 57 then Some (n - 48)
      else if 97 \<le> n \<and> n \<le> 102 then Some (n - 87)
      else if 65 \<le> n \<and> n \<le> 70 then Some (n - 55)
      else None)"

text \<open>
  \<open>is >> std::hex >> value\<close> on the at most two characters the caller passes: leading white space is
  skipped, a sign and a \<open>0x\<close> prefix are accepted, the longest run of digits is converted, and the
  extraction fails when there is no digit. Two characters cannot overflow an \<open>int\<close>.
\<close>

fun hex_digits :: "string \<Rightarrow> int \<Rightarrow> int" where
  "hex_digits [] acc = acc"
| "hex_digits (c # cs) acc =
     (case hex_val c of None \<Rightarrow> acc | Some d \<Rightarrow> hex_digits cs (16 * acc + d))"

fun hex_number :: "string \<Rightarrow> int option" where
  "hex_number (c # cs) =
     (if c = CHR ''0'' \<and> cs \<noteq> [] \<and> (hd cs = CHR ''x'' \<or> hd cs = CHR ''X'') then
        (case tl cs of
           [] \<Rightarrow> None
         | d # ds \<Rightarrow> if hex_val d = None then None else Some (hex_digits (d # ds) 0))
      else if hex_val c = None then None else Some (hex_digits (c # cs) 0))"
| "hex_number [] = None"

definition hex_extract :: "string \<Rightarrow> int option" where
  "hex_extract s =
     (case dropWhile is_space s of
        [] \<Rightarrow> None
      | c # cs \<Rightarrow>
          if c = CHR ''-'' then map_option uminus (hex_number cs)
          else if c = CHR ''+'' then hex_number cs
          else hex_number (c # cs))"

section \<open>Decoding a URL\<close>

fun url_decode :: "string \<Rightarrow> string option" where
  "url_decode [] = Some []"
| "url_decode (c # cs) =
     (if c = CHR ''%'' then
        (case cs of
           a # b # rest \<Rightarrow>
             (case hex_extract [a, b] of
                Some value \<Rightarrow> map_option (\<lambda>out. int_char value # out) (url_decode rest)
              | None \<Rightarrow> None)
         | _ \<Rightarrow> None)
      else if c = CHR ''+'' then map_option (\<lambda>out. CHR '' '' # out) (url_decode cs)
      else map_option (\<lambda>out. c # out) (url_decode cs))"

section \<open>Serving a file\<close>

text \<open>\<open>std::string::find_last_of\<close> of one character.\<close>

fun find_last_of :: "char \<Rightarrow> string \<Rightarrow> nat option" where
  "find_last_of c [] = None"
| "find_last_of c (a # s) =
     (case find_last_of c s of
        Some i \<Rightarrow> Some (Suc i)
      | None \<Rightarrow> if a = c then Some 0 else None)"

text \<open>The extension; \<open>npos\<close> is larger than every position.\<close>

definition file_extension :: "string \<Rightarrow> string" where
  "file_extension request_path =
     (case (find_last_of CHR ''.'' request_path, find_last_of CHR ''/'' request_path) of
        (Some last_dot_pos, Some last_slash_pos) \<Rightarrow>
          if last_dot_pos > last_slash_pos then drop (last_dot_pos + 1) request_path else []
      | _ \<Rightarrow> [])"

text \<open>The loop that reads the file in blocks of 512 bytes and appends them.\<close>

function read_blocks :: "string \<Rightarrow> string \<Rightarrow> string" where
  "read_blocks file content =
     (if take 512 file = [] then content
      else read_blocks (drop 512 file) (content @ take 512 file))"
  by pat_completeness auto
termination by (relation "measure (\<lambda>(file, content). length file)") auto

declare read_blocks.simps [simp del]

definition handle_request ::
  "string \<Rightarrow> (string \<Rightarrow> string option) \<Rightarrow> request \<Rightarrow> reply \<Rightarrow> reply" where
  "handle_request doc_root open_file req rep =
     (case url_decode (req_uri req) of
        None \<Rightarrow> stock_reply Bad_request mime_HTML
      | Some request_path \<Rightarrow>
          if request_path = [] \<or> request_path ! 0 \<noteq> CHR ''/'' \<or> sublist ''..'' request_path
          then stock_reply Bad_request mime_HTML
          else
            (let request_path =
                   (if request_path ! (length request_path - 1) = CHR ''/''
                    then request_path @ ''index.html'' else request_path);
                 extension = file_extension request_path;
                 full_path = doc_root @ request_path
             in case open_file (c_str full_path) of
                  None \<Rightarrow> stock_reply Not_found mime_HTML
                | Some file \<Rightarrow>
                    set_length_and_type
                      (rep\<lparr>rep_status := Ok, rep_content := read_blocks file (rep_content rep)\<rparr>)
                      (extension_to_type extension)))"

lemma read_blocks_eq: "read_blocks f ct = ct @ f"
proof (induction f ct rule: read_blocks.induct)
  case (1 f ct)
  then show ?case by (subst read_blocks.simps) (cases "f = []"; simp)
qed

section \<open>Percent encoding\<close>

definition hex_char :: "nat \<Rightarrow> char" where
  "hex_char d = (if d < 10 then digit_char d else char_of (87 + d))"

definition encode_char :: "char \<Rightarrow> string" where
  "encode_char c = [CHR ''%'', hex_char (of_char c div 16), hex_char (of_char c mod 16)]"

definition url_encode :: "string \<Rightarrow> string" where
  "url_encode s = concat (map encode_char s)"

lemma char_int_hex_char:
  "d < 16 \<Longrightarrow> char_int (hex_char d) = (if d < 10 then 48 + int d else 87 + int d)"
  by (simp add: hex_char_def char_int_digit_char) (simp add: char_int_def Let_def)

lemma hex_val_hex_char [simp]: "d < 16 \<Longrightarrow> hex_val (hex_char d) = Some (int d)"
  by (auto simp: hex_val_def char_int_hex_char Let_def)

lemma hex_char_neq:
  assumes "d < 16"
  shows "hex_char d \<noteq> CHR ''x''" "hex_char d \<noteq> CHR ''X''" "hex_char d \<noteq> CHR ''-''"
    "hex_char d \<noteq> CHR ''+''" "\<not> is_space (hex_char d)"
proof -
  have r: "48 \<le> char_int (hex_char d)" "char_int (hex_char d) \<le> 57 \<or> 97 \<le> char_int (hex_char d)"
      "char_int (hex_char d) \<le> 102"
    using assms by (auto simp: char_int_hex_char)
  have "char_int CHR ''x'' = 120" "char_int CHR ''X'' = 88" "char_int CHR ''-'' = 45"
    "char_int CHR ''+'' = 43" by (simp_all add: char_int_def)
  with r show "hex_char d \<noteq> CHR ''x''" "hex_char d \<noteq> CHR ''X''" "hex_char d \<noteq> CHR ''-''"
    "hex_char d \<noteq> CHR ''+''" "\<not> is_space (hex_char d)"
    by (auto simp: is_space_def)
qed

lemma hex_extract_pair:
  "a < 16 \<Longrightarrow> b < 16 \<Longrightarrow> hex_extract [hex_char a, hex_char b] = Some (16 * int a + int b)"
  by (simp add: hex_extract_def hex_char_neq)

lemma url_decode_encode_char:
  "url_decode (encode_char c @ s) = map_option (\<lambda>out. c # out) (url_decode s)"
proof -
  have n: "of_char c < (256 :: nat)" by (rule nat_of_char_less_256)
  have "16 * int (of_char c div 16) + int (of_char c mod 16) = int (of_char c)"
    by (metis mult_div_mod_eq of_nat_add of_nat_mult of_nat_numeral)
  moreover have "of_char c div 16 < (16 :: nat)" using n by (simp add: less_mult_imp_div_less)
  ultimately have "hex_extract [hex_char (of_char c div 16), hex_char (of_char c mod 16)] =
      Some (int (of_char c))"
    by (subst hex_extract_pair) simp_all
  moreover have "int_char (int (of_char c)) = c" by (simp add: int_char_def)
  ultimately show ?thesis by (simp add: encode_char_def)
qed

lemma url_decode_url_encode_append:
  "url_decode (url_encode s @ t) = map_option (\<lambda>out. s @ out) (url_decode t)"
proof (induction s)
  case (Cons c s)
  then show ?case by (simp add: url_encode_def url_decode_encode_char option.map_comp comp_def)
qed (simp add: url_encode_def option.map_ident)

lemma url_decode_plain:
  "CHR ''%'' \<notin> set s \<Longrightarrow> CHR ''+'' \<notin> set s \<Longrightarrow> url_decode (s @ t) = map_option (\<lambda>out. s @ out) (url_decode t)"
  by (induction s; cases "url_decode t") auto

text \<open>
  Percent encoding is undone. A URL in which every byte of a string is percent-encoded, or
  which has neither a percent nor a plus sign, decodes to that string, also when the two kinds of
  text alternate; a plus sign decodes to a space.
\<close>

theorem url_decode_round_trip:
  "url_decode (url_encode s) = Some s \<and>
   url_decode (url_encode s @ CHR ''+'' # url_encode t) = Some (s @ CHR '' '' # t) \<and>
   (CHR ''%'' \<notin> set u \<and> CHR ''+'' \<notin> set u \<longrightarrow>
     url_decode (u @ url_encode s @ u) = Some (u @ s @ u))"
  using url_decode_url_encode_append [of s "[]"] url_decode_url_encode_append [of t "[]"]
    url_decode_plain [of u "[]"]
  by (simp add: url_decode_url_encode_append url_decode_plain)

theorem url_decode_round_trip_witness:
  "url_decode (''/a'' @ url_encode ''%+'' @ ''/a'') = Some ''/a%+/a''"
  using url_decode_round_trip [of "''%+''" "[]" "''/a''"] by simp

section \<open>Confinement to the document root\<close>

definition safe_path :: "string \<Rightarrow> bool" where
  "safe_path p \<longleftrightarrow> p \<noteq> [] \<and> hd p = CHR ''/'' \<and> \<not> sublist ''..'' p \<and> CHR 0x00 \<notin> set p"

lemma suffix_Cons_last: "suffix (xs @ [a]) p \<Longrightarrow> p \<noteq> [] \<and> last p = a"
  by (auto simp: suffix_def)

lemma no_dotdot_index:
  assumes "\<not> sublist ''..'' p" and "p \<noteq> []" and "last p = CHR ''/''"
  shows "\<not> sublist ''..'' (p @ ''index.html'')"
proof
  assume "sublist ''..'' (p @ ''index.html'')"
  then consider "sublist ''..'' p" | "sublist ''..'' ''index.html''"
    | xs ys where "''..'' = xs @ ys" "suffix xs p" "prefix ys ''index.html''"
    unfolding sublist_append by blast
  then show False
  proof cases
    case 3
    then have "xs = [] \<and> ys = ''..'' \<or> xs = ''.'' \<and> ys = ''.'' \<or> xs = ''..''"
      by (auto simp: Cons_eq_append_conv)
    then show False using 3 assms suffix_Cons_last [of "[]" "CHR ''.''" p] suffix_Cons_last [of "''.''" "CHR ''.''" p] by auto
  qed (use assms in \<open>simp_all add: sublist_Cons_right\<close>)
qed

lemma c_str_append: "CHR 0x00 \<notin> set d \<Longrightarrow> c_str (d @ p) = d @ c_str p"
  unfolding c_str_def by (subst takeWhile_append2) auto

lemma safe_c_str:
  assumes "p \<noteq> []" and "p ! 0 = CHR ''/''" and "\<not> sublist ''..'' p"
  shows "safe_path (c_str p)"
proof -
  obtain q where q: "p = CHR ''/'' # q" using assms(1,2) by (cases p) auto
  have "\<not> sublist ''..'' (c_str p)" using assms(3) c_str_prefix prefix_sublist_trans by blast
  moreover have "CHR 0x00 \<notin> set (c_str p)" by (auto simp: c_str_def dest: set_takeWhileD)
  moreover have "c_str p \<noteq> [] \<and> hd (c_str p) = CHR ''/''" by (simp add: q c_str_def)
  ultimately show ?thesis by (simp add: safe_path_def)
qed

text \<open>
  C26: a request can only observe files below the document root. Whatever the request, two file
  systems that agree on the paths made of the document root followed by a path that starts with a
  slash and has no dot-dot sequence produce the same reply, also for requests with encoded dots,
  slashes or zero bytes.
\<close>

theorem handle_request_confined:
  assumes "CHR 0x00 \<notin> set doc_root"
    and "\<And>p. safe_path p \<Longrightarrow> open1 (doc_root @ p) = open2 (doc_root @ p)"
  shows "handle_request doc_root open1 req rep = handle_request doc_root open2 req rep"
proof (cases "url_decode (req_uri req)")
  case (Some p)
  show ?thesis
  proof (cases "p = [] \<or> p ! 0 \<noteq> CHR ''/'' \<or> sublist ''..'' p")
    case False
    define q where "q = (if p ! (length p - 1) = CHR ''/'' then p @ ''index.html'' else p)"
    from False have "q \<noteq> []" "q ! 0 = CHR ''/''" "\<not> sublist ''..'' q"
      unfolding q_def using no_dotdot_index [of p] by (auto simp: last_conv_nth nth_append)
    then have "open1 (c_str (doc_root @ q)) = open2 (c_str (doc_root @ q))"
      using assms safe_c_str by (simp add: c_str_append)
    then show ?thesis unfolding handle_request_def Some Let_def q_def by simp
  qed (simp add: handle_request_def Some)
qed (simp add: handle_request_def)

definition small_root :: "(string \<times> string) list \<Rightarrow> string \<Rightarrow> string option" where
  "small_root files p = map_of files p"

theorem handle_request_confined_witness:
  "handle_request ''www'' (small_root [(''secret'', ''s'')])
      (empty_request\<lparr>req_uri := ''/%2e%2e/secret''\<rparr>) (new_reply Ok) =
   handle_request ''www'' (small_root []) (empty_request\<lparr>req_uri := ''/%2e%2e/secret''\<rparr>) (new_reply Ok)"
  by (rule handle_request_confined) (simp_all add: small_root_def)

text \<open>
  A file below the document root is served byte for byte. When a client asks for its path in
  percent-encoded form, it reads back status 200, the exact bytes of the file as the body, the
  length of the file in the length header and the media type of its extension.
\<close>

theorem handle_request_serves:
  assumes "safe_path p" and "last p \<noteq> CHR ''/''" and "CHR 0x00 \<notin> set doc_root"
    and "open_file (doc_root @ p) = Some file"
  shows "read_reply (concat (to_buffers
      (handle_request doc_root open_file (req\<lparr>req_uri := url_encode p\<rparr>) (new_reply g)))) =
    Some (''200'', [\<lparr>hdr_name = ''Content-Length'', hdr_value = to_string (length file)\<rparr>,
        \<lparr>hdr_name = ''Content-Type'', hdr_value = extension_to_type (file_extension p)\<rparr>], file)"
proof -
  let ?r = "(new_reply g)\<lparr>rep_status := Ok, rep_content := file\<rparr>"
  let ?t = "extension_to_type (file_extension p)"
  have p: "p \<noteq> []" "p ! 0 = CHR ''/''" "\<not> sublist ''..'' p" "c_str p = p" "p ! (length p - 1) \<noteq> CHR ''/''"
    using assms(1,2) by (auto simp: safe_path_def hd_conv_nth last_conv_nth c_str_def takeWhile_eq_all_conv)
  have "url_decode (url_encode p) = Some p" using url_decode_url_encode_append [of p "[]"] by simp
  then have "handle_request doc_root open_file (req\<lparr>req_uri := url_encode p\<rparr>) (new_reply g) =
      set_length_and_type ?r ?t"
    using p assms(3,4)
    by (simp add: handle_request_def Let_def c_str_append read_blocks_eq) (simp add: new_reply_def)
  moreover have "read_reply (concat (to_buffers (set_length_and_type ?r ?t))) =
      Some (to_string 200, rep_headers (set_length_and_type ?r ?t), file)"
    by (subst read_reply_print) (simp_all add: set_length_and_type_sendable extension_to_type_no_cr wire_code_def
        del: set_length_and_type_fields(3))
  ultimately show ?thesis by (simp add: to_string.simps)
qed

theorem handle_request_serves_witness:
  "read_reply (concat (to_buffers (handle_request ''www'' (small_root [(''www/a.json'', ''{}'')])
      (empty_request\<lparr>req_uri := url_encode ''/a.json''\<rparr>) (new_reply Ok)))) =
    Some (''200'', [\<lparr>hdr_name = ''Content-Length'', hdr_value = to_string 2\<rparr>,
        \<lparr>hdr_name = ''Content-Type'', hdr_value = ''application/json''\<rparr>], ''{}'')"
proof -
  have "safe_path ''/a.json''" "extension_to_type (file_extension ''/a.json'') = ''application/json''"
    by code_simp+
  with handle_request_serves [of "''/a.json''" "''www''" "small_root [(''www/a.json'', ''{}'')]" "''{}''"
      empty_request Ok]
  show ?thesis by (simp add: small_root_def eval_nat_numeral)
qed

text \<open>
  The stream extraction is lenient: an escape with one hexadecimal digit and another byte is
  accepted and the byte is dropped.
\<close>

lemma hex_val_SomeD: "hex_val c = Some v \<Longrightarrow> 48 \<le> char_int c"
  by (auto simp: hex_val_def Let_def split: if_splits)

lemma url_decode_lenient_escape:
  assumes "hex_val d = Some v" "d \<noteq> CHR ''0''" "hex_val x = None"
  shows "url_decode (CHR ''%'' # d # x # rest) = map_option (\<lambda>out. int_char v # out) (url_decode rest)"
proof -
  have "char_int CHR ''-'' = 45" "char_int CHR ''+'' = 43" by (simp_all add: char_int_def)
  then have "\<not> is_space d" "d \<noteq> CHR ''-''" "d \<noteq> CHR ''+''"
    using hex_val_SomeD [OF assms(1)] by (auto simp: is_space_def)
  with assms have "hex_extract [d, x] = Some v" by (simp add: hex_extract_def)
  then show ?thesis by simp
qed

section \<open>The file server as a request handler\<close>

text \<open>The handler object has no state of its own besides its document root.\<close>

definition file_server :: "(string \<Rightarrow> string option) \<Rightarrow> string \<Rightarrow> request \<Rightarrow> reply \<Rightarrow> string \<times> reply" where
  "file_server open_file doc_root req rep = (doc_root, handle_request doc_root open_file req rep)"

lemma handle_request_sendable:
  "list_all sendable_header (rep_headers (handle_request doc_root open_file req rep))"
  unfolding handle_request_def Let_def
  by (auto simp: stock_reply_sendable set_length_and_type_sendable extension_to_type_no_cr
      simp del: set_length_and_type_fields(3) split: option.split)

interpretation file_handler: http_request_handler "file_server open_file" "\<lambda>_. True"
  for open_file
  by unfold_locales (simp_all add: file_server_def handle_request_sendable)

end
