(* ===== verification/Crud_Dispatch.thy ===== *)
theory Crud_Dispatch
  imports Http_Reply "HOL-Library.List_Lexorder" "HOL-Library.Char_ord"
begin

text \<open>
  The REST dispatcher of \<^verbatim>\<open>CRUD/handlers\<close>: matchers with a handler per HTTP method, and the
  dispatcher, an ordered map from expressions to matchers that runs the handler of every matching
  expression. Regular-expression matching is library code and a parameter; the string variant
  (substring search) is defined here. The lemmas show that the map stays sorted and duplicate-free,
  that dispatching runs exactly the registered handlers of the matching expressions in the order of
  the map, and that it never changes the registered handlers.
\<close>

section \<open>Matchers\<close>

record 'what crud_match_data =
  match_what :: 'what
  match_data :: string

type_synonym ('resp, 'what) request_handler_type = "'resp \<Rightarrow> 'what crud_match_data \<Rightarrow> 'resp"

text \<open>
  The handler table maps a method to a \<open>std::function\<close>, which may be empty (\<^term>\<open>None\<close>): the
  subscript operator of the map inserts an empty function for a method that is not there.
\<close>

record ('expr, 'resp, 'what) crud_matcher =
  m_expression :: 'expr
  m_handlers :: "string \<rightharpoonup> ('resp, 'what) request_handler_type option"

definition new_matcher :: "'expr \<Rightarrow> ('expr, 'resp, 'what) crud_matcher" where
  "new_matcher expression = \<lparr>m_expression = expression, m_handlers = Map.empty\<rparr>"

definition on_method :: "string \<Rightarrow> ('resp, 'what) request_handler_type \<Rightarrow>
    ('expr, 'resp, 'what) crud_matcher \<Rightarrow> ('expr, 'resp, 'what) crud_matcher" where
  "on_method method handler m = m\<lparr>m_handlers := (m_handlers m)(method \<mapsto> Some handler)\<rparr>"

definition on_get where "on_get handler m = on_method ''GET'' handler m"
definition on_post where "on_post handler m = on_method ''POST'' handler m"
definition on_del where "on_del handler m = on_method ''DELETE'' handler m"
definition on_put where "on_put handler m = on_method ''PUT'' handler m"

definition matcher_handle_request :: "request \<Rightarrow> 'resp \<Rightarrow> 'what \<Rightarrow>
    ('expr, 'resp, 'what) crud_matcher \<Rightarrow> ('expr, 'resp, 'what) crud_matcher \<times> 'resp" where
  "matcher_handle_request req response what m =
     (let match = \<lparr>match_what = what, match_data = req_data req\<rparr>;
          handlers = (if req_method req \<in> dom (m_handlers m) then m_handlers m
                      else (m_handlers m)(req_method req \<mapsto> None));
          handler = the (handlers (req_method req))
      in (m\<lparr>m_handlers := handlers\<rparr>,
          case handler of Some h \<Rightarrow> h response match | None \<Rightarrow> response))"

section \<open>The dispatcher\<close>

text \<open>
  \<open>std::map\<close> from expressions to matchers, as the list of its entries in iteration order: sorted by
  key, without duplicates. Strings are ordered lexicographically by unsigned byte, as the order of
  \<^typ>\<open>string\<close> in the library.
\<close>

record ('expr, 'resp, 'what) crud_dispatcher =
  d_base_path :: string
  d_matchers :: "('expr \<times> ('expr, 'resp, 'what) crud_matcher) list"

definition new_dispatcher :: "string \<Rightarrow> ('expr, 'resp, 'what) crud_dispatcher" where
  "new_dispatcher base_path = \<lparr>d_base_path = base_path, d_matchers = []\<rparr>"

text \<open>\<open>_crud_matchers[expression]\<close> followed by the creation of the matcher when there is none, and the
  chained registrations \<open>f\<close> on the reference returned.\<close>

fun upsert :: "'e::linorder \<Rightarrow> 'm \<Rightarrow> ('m \<Rightarrow> 'm) \<Rightarrow> ('e \<times> 'm) list \<Rightarrow> ('e \<times> 'm) list" where
  "upsert e m f [] = [(e, f m)]"
| "upsert e m f ((k, v) # kvs) =
     (if e < k then (e, f m) # (k, v) # kvs
      else if e = k then (k, f v) # kvs
      else (k, v) # upsert e m f kvs)"

definition crud_match :: "'expr::linorder \<Rightarrow>
    (('expr, 'resp, 'what) crud_matcher \<Rightarrow> ('expr, 'resp, 'what) crud_matcher) \<Rightarrow>
    ('expr, 'resp, 'what) crud_dispatcher \<Rightarrow> ('expr, 'resp, 'what) crud_dispatcher" where
  "crud_match expression f d =
     d\<lparr>d_matchers := upsert expression (new_matcher expression) f (d_matchers d)\<rparr>"

fun dispatch_loop :: "('expr \<Rightarrow> 'what option) \<Rightarrow> request \<Rightarrow>
    ('expr \<times> ('expr, 'resp, 'what) crud_matcher) list \<Rightarrow> 'resp \<Rightarrow>
    ('expr \<times> ('expr, 'resp, 'what) crud_matcher) list \<times> 'resp" where
  "dispatch_loop matches req [] response = ([], response)"
| "dispatch_loop matches req ((e, m) # rest) response =
     (let (m', response') =
            (case matches e of
               Some what \<Rightarrow> matcher_handle_request req response what m
             | None \<Rightarrow> (m, response));
          (rest', response'') = dispatch_loop matches req rest response'
      in ((e, m') # rest', response''))"

text \<open>The regular-expression variant, over the library's \<open>regex_match\<close> on the C string of the URI.\<close>

definition handle_request_regex :: "(string \<Rightarrow> 'expr \<Rightarrow> 'what option) \<Rightarrow> request \<Rightarrow>
    ('expr, 'resp, 'what) crud_dispatcher \<Rightarrow> 'resp \<Rightarrow> ('expr, 'resp, 'what) crud_dispatcher \<times> 'resp" where
  "handle_request_regex regex_match req d response =
     (let (ms, response') =
        dispatch_loop (\<lambda>e. regex_match (c_str (req_uri req)) e) req (d_matchers d) response
      in (d\<lparr>d_matchers := ms\<rparr>, response'))"

text \<open>The string variant: the expression occurs in the URI, and the match is the expression.\<close>

definition handle_request_string :: "request \<Rightarrow> (string, 'resp, string) crud_dispatcher \<Rightarrow> 'resp \<Rightarrow>
    (string, 'resp, string) crud_dispatcher \<times> 'resp" where
  "handle_request_string req d response =
     (let (ms, response') =
        dispatch_loop (\<lambda>e. if sublist e (req_uri req) then Some e else None) req (d_matchers d) response
      in (d\<lparr>d_matchers := ms\<rparr>, response'))"

section \<open>Invariant of the map\<close>

definition dispatcher_inv :: "('expr::linorder, 'resp, 'what) crud_dispatcher \<Rightarrow> bool" where
  "dispatcher_inv d \<longleftrightarrow> sorted_wrt (<) (map fst (d_matchers d)) \<and>
     list_all (\<lambda>(e, m). m_expression m = e) (d_matchers d)"

lemma set_upsert: "fst ` set (upsert e m f kvs) = insert e (fst ` set kvs)"
  by (induction e m f kvs rule: upsert.induct) (simp_all add: insert_commute)

lemma sorted_upsert: "sorted_wrt (<) (map fst kvs) \<Longrightarrow> sorted_wrt (<) (map fst (upsert e m f kvs))"
proof (induction kvs)
  case (Cons kv kvs)
  obtain k v where kv: "kv = (k, v)" by (cases kv)
  have "\<forall>x \<in> set (upsert e m f kvs). fst x = e \<or> fst x \<in> fst ` set kvs"
    using set_upsert [of e m f kvs] by blast
  then show ?case using Cons kv by auto force+
qed simp

lemma map_of_upsert:
  "sorted_wrt (<) (map fst kvs) \<Longrightarrow> map_of (upsert e m f kvs) =
     (map_of kvs)(e \<mapsto> f (case map_of kvs e of Some v \<Rightarrow> v | None \<Rightarrow> m))"
proof (induction kvs)
  case (Cons kv kvs)
  obtain k v where kv: "kv = (k, v)" by (cases kv)
  have k: "e < k \<Longrightarrow> map_of kvs e = None"
    using Cons.prems unfolding kv map_of_eq_None_iff by fastforce
  show ?case using Cons k unfolding kv by (auto simp: fun_eq_iff)
qed (auto simp: fun_eq_iff)

text \<open>The effective table: the handlers that can be called.\<close>

definition live_handler :: "('expr, 'resp, 'what) crud_matcher \<Rightarrow> string \<Rightarrow>
    ('resp, 'what) request_handler_type option" where
  "live_handler m method = (case m_handlers m method of Some h \<Rightarrow> h | None \<Rightarrow> None)"

lemma matcher_handle_request_live [simp]:
  "live_handler (fst (matcher_handle_request req r w m)) = live_handler m"
  by (auto simp: matcher_handle_request_def live_handler_def Let_def fun_eq_iff split: option.splits)

lemma matcher_handle_request_expression [simp]:
  "m_expression (fst (matcher_handle_request req r w m)) = m_expression m"
  by (simp add: matcher_handle_request_def Let_def)

lemma matcher_handle_request_response:
  "snd (matcher_handle_request req r w m) =
     (case live_handler m (req_method req) of
        Some h \<Rightarrow> h r \<lparr>match_what = w, match_data = req_data req\<rparr> | None \<Rightarrow> r)"
  by (auto simp: matcher_handle_request_def live_handler_def Let_def split: option.splits)

lemma dispatch_loop_table:
  "map (\<lambda>(e, m). (e, m_expression m, live_handler m)) (fst (dispatch_loop f req ms r)) =
     map (\<lambda>(e, m). (e, m_expression m, live_handler m)) ms"
proof (induction f req ms r rule: dispatch_loop.induct)
  case (2 matches req e m rest response)
  then show ?case by (auto simp: Let_def split: option.splits prod.splits) (metis fst_conv matcher_handle_request_expression matcher_handle_request_live)+
qed simp

text \<open>The calls of a dispatch in the order they are made.\<close>

definition calls :: "('expr \<Rightarrow> 'what option) \<Rightarrow> request \<Rightarrow>
    ('expr \<times> ('expr, 'resp, 'what) crud_matcher) list \<Rightarrow> ('resp \<Rightarrow> 'resp) list" where
  "calls matches req ms =
     concat (map (\<lambda>(e, m).
       (case (matches e, live_handler m (req_method req)) of
          (Some w, Some h) \<Rightarrow> [\<lambda>r. h r \<lparr>match_what = w, match_data = req_data req\<rparr>]
        | _ \<Rightarrow> [])) ms)"

lemma dispatch_loop_response: "snd (dispatch_loop f req ms r) = fold (\<lambda>h r. h r) (calls f req ms) r"
proof (induction f req ms r rule: dispatch_loop.induct)
  case (2 matches req e m rest response)
  let ?p = "case matches e of Some w \<Rightarrow> matcher_handle_request req response w m | None \<Rightarrow> (m, response)"
  have "snd ?p = fold (\<lambda>h r. h r) (calls matches req [(e, m)]) response"
    by (auto simp: calls_def matcher_handle_request_response split: option.splits)
  moreover have "snd (dispatch_loop matches req rest (snd ?p)) = fold (\<lambda>h r. h r) (calls matches req rest) (snd ?p)"
    using 2 [OF refl prod.collapse] by simp
  moreover have "calls matches req ((e, m) # rest) = calls matches req [(e, m)] @ calls matches req rest"
    by (simp add: calls_def)
  ultimately show ?case by (simp add: Let_def split_beta)
qed (simp add: calls_def)

definition effective_table :: "('expr, 'resp, 'what) crud_dispatcher \<Rightarrow>
    ('expr \<times> (string \<Rightarrow> ('resp, 'what) request_handler_type option)) list" where
  "effective_table d = map (\<lambda>(e, m). (e, live_handler m)) (d_matchers d)"

lemma dispatch_loop_effective:
  "map (\<lambda>(e, m). (e, live_handler m)) (fst (dispatch_loop f req ms r)) =
     map (\<lambda>(e, m). (e, live_handler m)) ms"
  using arg_cong [OF dispatch_loop_table [of f req ms r], of "map (\<lambda>(e, x, l). (e, l))"]
  by (simp add: case_prod_unfold comp_def)

lemma effective_table_string [simp]:
  "effective_table (fst (handle_request_string req d r)) = effective_table d"
  by (simp add: effective_table_def handle_request_string_def split_beta Let_def dispatch_loop_effective)

lemma calls_effective:
  "calls f req ms = concat (map (\<lambda>(e, l). (case (f e, l (req_method req)) of
     (Some w, Some h) \<Rightarrow> [\<lambda>r. h r \<lparr>match_what = w, match_data = req_data req\<rparr>] | _ \<Rightarrow> []))
     (map (\<lambda>(e, m). (e, live_handler m)) ms))"
  by (induction ms) (auto simp: calls_def split: option.splits)

section \<open>Properties\<close>

text \<open>
  Dispatching is exact. For the string and for the regular-expression dispatcher, the response
  is the result of calling, in the order of the map, the handler registered for the request's
  method at every expression that matches the URI, each with the match and the request body, and
  no other; the expressions and the handlers that can be called are the same before and after.
\<close>

theorem dispatch_exact:
  "snd (handle_request_string req ds r) =
     fold (\<lambda>h r. h r)
       (calls (\<lambda>e. if sublist e (req_uri req) then Some e else None) req (d_matchers ds)) r \<and>
   snd (handle_request_regex rx req dr r') =
     fold (\<lambda>h r. h r) (calls (rx (c_str (req_uri req))) req (d_matchers dr)) r' \<and>
   effective_table (fst (handle_request_string req ds r)) = effective_table ds \<and>
   effective_table (fst (handle_request_regex rx req dr r')) = effective_table dr"
  by (simp add: handle_request_string_def handle_request_regex_def effective_table_def split_beta
      dispatch_loop_response dispatch_loop_effective Let_def)

text \<open>
  Registration is an update of the table. After \<open>crud_match(e).method(h)\<close> on a dispatcher whose
  map is sorted, the map is sorted, expression \<open>e\<close> has handler \<open>h\<close> for that method, keeps its handlers
  for the other methods, and every other expression keeps its matcher.
\<close>

theorem crud_match_registers:
  assumes "dispatcher_inv d" and "d' = crud_match e (on_method method h) d"
  shows "dispatcher_inv d' \<and>
    (\<exists>m'. map_of (d_matchers d') e = Some m' \<and> live_handler m' method = Some h \<and>
      (\<forall>other. other \<noteq> method \<longrightarrow> live_handler m' other =
        (case map_of (d_matchers d) e of Some m \<Rightarrow> live_handler m other | None \<Rightarrow> None))) \<and>
    (\<forall>k. k \<noteq> e \<longrightarrow> map_of (d_matchers d') k = map_of (d_matchers d) k)"
proof -
  let ?m = "case map_of (d_matchers d) e of Some v \<Rightarrow> v | None \<Rightarrow> new_matcher e"
  have s: "sorted_wrt (<) (map fst (d_matchers d))" using assms(1) by (simp add: dispatcher_inv_def)
  have m: "map_of (d_matchers d') = (map_of (d_matchers d))(e \<mapsto> on_method method h ?m)"
    unfolding assms(2) crud_match_def by (simp add: map_of_upsert [OF s])
  have x: "list_all (\<lambda>(e, m). m_expression m = e) kvs \<Longrightarrow>
      list_all (\<lambda>(e, m). m_expression m = e) (upsert e (new_matcher e) (on_method method h) kvs)" for kvs
    by (induction kvs) (auto simp: new_matcher_def on_method_def)
  have "dispatcher_inv d'"
    using assms(1) sorted_upsert [OF s] x by (simp add: dispatcher_inv_def assms(2) crud_match_def)
  then show ?thesis unfolding m
    by (auto simp: on_method_def live_handler_def new_matcher_def split: option.splits)
qed

theorem crud_match_registers_witness:
  "\<exists>m. map_of (d_matchers (crud_match ''/a'' (on_method ''GET'' (\<lambda>r w. r @ match_what w :: string))
     (new_dispatcher []))) ''/a'' = Some m \<and> live_handler m ''GET'' = Some (\<lambda>r w. r @ match_what w)"
proof -
  have "dispatcher_inv (new_dispatcher [] :: (string, string, string) crud_dispatcher)"
    by (simp add: dispatcher_inv_def new_dispatcher_def)
  from crud_match_registers [OF this refl, of "''/a''" "''GET''" "\<lambda>r w. r @ match_what w"]
  show ?thesis by (elim conjE exE) (rule exI, rule conjI, assumption+)
qed

text \<open>
  A method no handler was registered for leaves an entry behind: the table of a matcher grows with
  every new method token a client sends.
\<close>

lemma unknown_method_grows_table:
  assumes "req_method req \<notin> dom (m_handlers m)"
  shows "dom (m_handlers (fst (matcher_handle_request req r w m))) =
    insert (req_method req) (dom (m_handlers m))"
  using assms by (auto simp: matcher_handle_request_def Let_def)

section \<open>The dispatchers of the example server\<close>

text \<open>The handlers of \<^verbatim>\<open>CRUD/main.cpp\<close>: the sub-matches of a regular expression are a list of strings.\<close>

definition main_regex_dispatcher :: "string \<Rightarrow> (string, reply, string list) crud_dispatcher" where
  "main_regex_dispatcher base_path =
     crud_match (''/venue_handler/('' @ CHR 0x5C # ''w+)'')
       (on_post (\<lambda>r m. reply_flush (reply_append (reply_append r ''name: '') (match_what m ! 1)) ''text''))
     (crud_match (''/venue_handler/('' @ CHR 0x5C # ''w+)/('' @ CHR 0x5C # ''d+)'')
       (on_post (\<lambda>r m. reply_flush (reply_append (reply_append (reply_append (reply_append r ''name: '')
            (match_what m ! 1)) '', instance number: '') (match_what m ! 2)) ''test'') \<circ>
        on_get (\<lambda>r m. reply_flush (reply_append (reply_append (reply_append (reply_append r ''name: '')
            (match_what m ! 1)) '', instance number: '') (match_what m ! 2)) ''text''))
     (new_dispatcher base_path))"

definition main_simple_dispatcher :: "string \<Rightarrow> (string, reply, string) crud_dispatcher" where
  "main_simple_dispatcher base_path =
     crud_match ''/venue_handler/RTB'' (on_post (\<lambda>r m. reply_flush (reply_append r ''{}'') ''json''))
       (new_dispatcher base_path)"

lemma main_simple_table:
  "effective_table (main_simple_dispatcher b) =
     [(''/venue_handler/RTB'', [''POST'' \<mapsto> (\<lambda>r m. reply_flush (reply_append r ''{}'') ''json'')])]"
  by (simp add: effective_table_def main_simple_dispatcher_def crud_match_def new_dispatcher_def
      new_matcher_def on_post_def on_method_def live_handler_def fun_eq_iff)

lemma reply_flush_sendable [wf_simps]: "list_all sendable_header (rep_headers (reply_flush r e))"
  unfolding reply_flush_def flush_impl_def
  by (rule set_length_and_type_sendable) (rule extension_to_type_no_cr)

lemma main_simple_sendable:
  assumes "effective_table d = effective_table (main_simple_dispatcher b)" and "rep_headers rep = []"
  shows "list_all sendable_header (rep_headers (snd (handle_request_string req d rep)))"
  using assms reply_flush_sendable
  by (auto simp: handle_request_string_def split_beta Let_def dispatch_loop_response calls_effective
      effective_table_def [symmetric] main_simple_table)

interpretation main_handler: http_request_handler
  "\<lambda>d req rep. handle_request_string req d rep"
  "\<lambda>d. effective_table d = effective_table (main_simple_dispatcher b)"
  for b
  by unfold_locales (use main_simple_sendable in auto)

end
