(* ===== verification/Http_Connection.thy ===== *)
theory Http_Connection
  imports Http_Handler Crud_Dispatch
begin

text \<open>
  Connections and the server loop of \<^verbatim>\<open>CRUD/service/connection.hpp\<close>,
  \<^verbatim>\<open>persistent_connection.hpp\<close>, \<^verbatim>\<open>connection_manager.hpp\<close> and \<^verbatim>\<open>server.hpp\<close>. The completion
  handlers passed to the I/O library are functions on the state of a connection; what the network
  delivers and how operations complete are events. \<open>boost::lexical_cast<long>\<close> is a parameter.
  The theorems show that complete requests are served with exactly their body, on one-shot and on
  kept-alive connections, and what happens to requests whose body or headers are split.
\<close>

section \<open>Connections\<close>

datatype io_result = Io_ok | Io_aborted | Io_error

text \<open>The asynchronous operation a connection has outstanding.\<close>

datatype pending_op = Reading | Writing | Idle

record connection =
  c_buffer :: string
  c_request :: request
  c_parser :: parser_state
  c_reply :: reply
  c_open :: bool
  c_pending :: pending_op

definition buffer_size :: nat where
  "buffer_size = 8192"

text \<open>
  A constructed connection: the buffer, the version numbers of the request and the status of the
  reply are not initialised and take arbitrary values.
\<close>

definition new_connection :: "string \<Rightarrow> int \<Rightarrow> int \<Rightarrow> status_type \<Rightarrow> connection" where
  "new_connection garbage g1 g2 g3 =
     \<lparr>c_buffer = resize buffer_size CHR 0x00 garbage,
      c_request = empty_request\<lparr>http_version_major := g1, http_version_minor := g2\<rparr>,
      c_parser = Method_start, c_reply = new_reply g3, c_open = True, c_pending = Idle\<rparr>"

definition do_read :: "connection \<Rightarrow> connection" where
  "do_read c = c\<lparr>c_pending := Reading\<rparr>"

definition start :: "connection \<Rightarrow> connection" where
  "start c = do_read c"

definition stop :: "connection \<Rightarrow> connection" where
  "stop c = c\<lparr>c_open := False\<rparr>"

text \<open>
  Exceptions that leave a completion handler: a failed \<open>lexical_cast\<close>, a negative length converted
  to a size, and a read past the end of the buffer, which C++ leaves undefined.
\<close>

datatype conn_error = Bad_lexical_cast | Length_error | Out_of_bounds

definition take_body :: "(string \<Rightarrow> int option) \<Rightarrow> string \<Rightarrow> nat \<Rightarrow> request \<Rightarrow> conn_error + request" where
  "take_body lexical_cast buf pos req =
     (case find (\<lambda>h. hdr_name h = ''content-length'') (req_headers req) of
        None \<Rightarrow> Inr req
      | Some itr \<Rightarrow>
          (case lexical_cast (hdr_value itr) of
             None \<Rightarrow> Inl Bad_lexical_cast
           | Some n \<Rightarrow>
               if n < 0 then Inl Length_error
               else if pos + nat n > length buf then Inl Out_of_bounds
               else Inr (req\<lparr>req_data := take (nat n) (drop pos buf)\<rparr>)))"

text \<open>The completion of a read without error, the same in both kinds of connection up to \<open>do_write\<close>.\<close>

definition on_read_with :: "(connection \<Rightarrow> connection) \<Rightarrow> (string \<Rightarrow> int option) \<Rightarrow>
    ('h \<Rightarrow> request \<Rightarrow> reply \<Rightarrow> 'h \<times> reply) \<Rightarrow> string \<Rightarrow> 'h \<Rightarrow> connection \<Rightarrow>
    conn_error + ('h \<times> connection)" where
  "on_read_with do_write lexical_cast handle bytes h c =
     (let buf = bytes @ drop (length bytes) (c_buffer c);
          (result, rest, st, req) = parse (c_parser c) (c_request c) bytes;
          pos = length bytes - length rest;
          c1 = c\<lparr>c_buffer := buf, c_parser := st\<rparr>
      in case take_body lexical_cast buf pos req of
           Inl e \<Rightarrow> Inl e
         | Inr req' \<Rightarrow>
             (case result of
                Good \<Rightarrow>
                  (let (h', rep) = handle h req' (c_reply c)
                   in Inr (h', do_write (c1\<lparr>c_request := req', c_reply := rep\<rparr>)))
              | Bad \<Rightarrow>
                  Inr (h, do_write (c1\<lparr>c_request := req', c_reply := stock_reply Bad_request mime_HTML\<rparr>))
              | Indeterminate \<Rightarrow> Inr (h, do_read (c1\<lparr>c_request := req'\<rparr>))))"

definition do_write :: "connection \<Rightarrow> connection" where
  "do_write c = c\<lparr>c_pending := Writing\<rparr>"

definition persistent_do_write :: "connection \<Rightarrow> connection" where
  "persistent_do_write c =
     c\<lparr>c_reply := (c_reply c)\<lparr>rep_headers := rep_headers (c_reply c) @
          [\<lparr>hdr_name = ''Connection:'', hdr_value = ''keep-alive''\<rparr>]\<rparr>,
       c_pending := Writing\<rparr>"

text \<open>The bytes handed to the outstanding write.\<close>

definition wire :: "connection \<Rightarrow> string" where
  "wire c = concat (to_buffers (c_reply c))"

definition on_read where "on_read = on_read_with do_write"

definition persistent_on_read where "persistent_on_read = on_read_with persistent_do_write"

text \<open>
  A read that failed, and the completion of a write of a one-shot connection: the new connection
  and whether the connection manager is told to stop it.
\<close>

definition on_read_error :: "io_result \<Rightarrow> connection \<Rightarrow> connection \<times> bool" where
  "on_read_error ec c = (c\<lparr>c_pending := Idle\<rparr>, ec \<noteq> Io_aborted)"

definition on_write :: "io_result \<Rightarrow> connection \<Rightarrow> connection \<times> bool" where
  "on_write ec c = (c\<lparr>c_pending := Idle\<rparr>, ec \<noteq> Io_aborted)"

text \<open>The completion of a write of a persistent connection, whatever the error code.\<close>

definition persistent_on_write :: "io_result \<Rightarrow> connection \<Rightarrow> connection" where
  "persistent_on_write ec c =
     do_read (c\<lparr>c_parser := reset (c_parser c),
        c_reply := (c_reply c)\<lparr>rep_headers := resize 0 empty_header (rep_headers (c_reply c)),
           rep_status := Ok, rep_content := []\<rparr>,
        c_request := empty_request\<rparr>)"

section \<open>Messages that arrive in one segment\<close>

definition content_length_header :: "header list \<Rightarrow> header option" where
  "content_length_header hs = find (\<lambda>h. map tolower (hdr_name h) = ''content-length'') hs"

text \<open>A request with its body: the length header, when there is one, announces the body.\<close>

definition complete_message :: "request \<Rightarrow> bool" where
  "complete_message r \<longleftrightarrow> wf_request r \<and> version_ok r \<and>
     (case content_length_header (req_headers r) of
        None \<Rightarrow> req_data r = []
      | Some h \<Rightarrow> hdr_value h = to_string (length (req_data r))) \<and>
     length (print_request r) + length (req_data r) \<le> buffer_size"

definition message_bytes :: "request \<Rightarrow> string" where
  "message_bytes r = print_request r @ req_data r"

text \<open>What the handler is given for it.\<close>

definition received :: "request \<Rightarrow> request" where
  "received r = r\<lparr>req_headers := map lower_header (req_headers r)\<rparr>"

definition ready :: "connection \<Rightarrow> bool" where
  "ready c \<longleftrightarrow> c_parser c = Method_start \<and> req_method (c_request c) = [] \<and> req_uri (c_request c) = [] \<and>
     req_headers (c_request c) = [] \<and> req_data (c_request c) = [] \<and> length (c_buffer c) = buffer_size"

text \<open>\<open>boost::lexical_cast<long>\<close> converts the decimal form of every number a \<open>long\<close> can hold.\<close>

definition lexical_cast_ok :: "(string \<Rightarrow> int option) \<Rightarrow> bool" where
  "lexical_cast_ok lexical_cast \<longleftrightarrow>
     (\<forall>n. n < 2 ^ 63 \<longrightarrow> lexical_cast (to_string n) = Some (int n))"

lemma find_lower_header:
  "find (\<lambda>h. hdr_name h = n) (map lower_header hs) =
     map_option lower_header (find (\<lambda>h. map tolower (hdr_name h) = n) hs)"
  by (induction hs) (auto simp: lower_header_def)

lemma find_append_None: "find P xs = None \<Longrightarrow> find P (xs @ ys) = find P ys"
  by (induction xs) (auto split: if_splits)

lemma received_data [simp]: "req_data (received r) = req_data r"
  by (simp add: received_def)

lemma take_body_complete:
  assumes "complete_message r" and lc: "lexical_cast_ok lexical_cast"
    and "buf = message_bytes r @ stale"
  shows "take_body lexical_cast buf (length (print_request r)) ((received r)\<lparr>req_data := []\<rparr>) =
    Inr (received r)"
proof (cases "content_length_header (req_headers r)")
  case None
  with assms(1) have "req_data r = []" by (simp add: complete_message_def)
  with None show ?thesis
    by (simp add: take_body_def received_def find_lower_header content_length_header_def)
next
  case (Some h)
  with assms(1) have "hdr_value h = to_string (length (req_data r))" "length (req_data r) < 2 ^ 63"
    by (simp_all add: complete_message_def buffer_size_def)
  with Some lc show ?thesis
    by (simp add: take_body_def received_def find_lower_header content_length_header_def lower_header_def
        lexical_cast_ok_def assms(3) message_bytes_def)
qed

lemma on_read_complete:
  assumes "complete_message r" and "ready c" and "lexical_cast_ok lexical_cast"
  shows "on_read_with w lexical_cast handle (message_bytes r) h c =
    Inr (fst (handle h (received r) (c_reply c)),
      w (c\<lparr>c_buffer := message_bytes r @ drop (length (message_bytes r)) (c_buffer c),
           c_parser := Expecting_newline_3, c_request := received r,
           c_reply := snd (handle h (received r) (c_reply c))\<rparr>))"
proof -
  let ?buf = "message_bytes r @ drop (length (message_bytes r)) (c_buffer c)"
  have "parse (c_parser c) (c_request c) (message_bytes r) =
      (Good, req_data r, Expecting_newline_3, (received r)\<lparr>req_data := []\<rparr>)"
    using assms(1,2) parse_printed [of r "c_request c" "req_data r"]
    by (simp add: complete_message_def ready_def message_bytes_def received_def)
  moreover have "take_body lexical_cast ?buf (length (print_request r)) ((received r)\<lparr>req_data := []\<rparr>) =
      Inr (received r)"
    using assms(1,3) by (rule take_body_complete) simp
  moreover have "length (message_bytes r) - length (req_data r) = length (print_request r)"
    by (simp add: message_bytes_def)
  ultimately show ?thesis by (simp add: on_read_with_def Let_def split_beta)
qed

section \<open>Sessions on a persistent connection\<close>

text \<open>One segment after the other, each reply written before the next segment is read.\<close>

fun persistent_session :: "(string \<Rightarrow> int option) \<Rightarrow> ('h \<Rightarrow> request \<Rightarrow> reply \<Rightarrow> 'h \<times> reply) \<Rightarrow>
    'h \<Rightarrow> connection \<Rightarrow> string list \<Rightarrow> conn_error + ('h \<times> string list)" where
  "persistent_session lexical_cast handle h c [] = Inr (h, [])"
| "persistent_session lexical_cast handle h c (m # ms) =
     (case persistent_on_read lexical_cast handle m h c of
        Inl e \<Rightarrow> Inl e
      | Inr (h', c') \<Rightarrow>
          if c_pending c' = Writing then
            (case persistent_session lexical_cast handle h' (persistent_on_write Io_ok c') ms of
               Inl e \<Rightarrow> Inl e
             | Inr (h'', outs) \<Rightarrow> Inr (h'', wire c' # outs))
          else persistent_session lexical_cast handle h' c' ms)"

text \<open>What a client expects: each request handled once, from an empty reply.\<close>

definition keep_alive :: "reply \<Rightarrow> reply" where
  "keep_alive rep =
     rep\<lparr>rep_headers := rep_headers rep @ [\<lparr>hdr_name = ''Connection:'', hdr_value = ''keep-alive''\<rparr>]\<rparr>"

fun session_spec :: "('h \<Rightarrow> request \<Rightarrow> reply \<Rightarrow> 'h \<times> reply) \<Rightarrow> 'h \<Rightarrow> reply \<Rightarrow> request list \<Rightarrow>
    'h \<times> string list" where
  "session_spec handle h rep [] = (h, [])"
| "session_spec handle h rep (r # rs) =
     (let (h', rep') = handle h (received r) rep;
          (h'', outs) = session_spec handle h' (new_reply Ok) rs
      in (h'', concat (to_buffers (keep_alive rep')) # outs))"

lemma ready_after_write:
  assumes "complete_message r" and "length b = buffer_size" and "c_buffer c = message_bytes r @ drop (length (message_bytes r)) b"
  shows "ready (persistent_on_write ec c) \<and> c_reply (persistent_on_write ec c) = new_reply Ok"
  using assms
  by (simp add: ready_def persistent_on_write_def do_read_def reset_def empty_request_def resize_def
      new_reply_def complete_message_def message_bytes_def)

lemma persistent_session_spec:
  assumes "list_all complete_message rs" and "ready c" and "lexical_cast_ok lexical_cast"
  shows "persistent_session lexical_cast handle h c (map message_bytes rs) =
    Inr (session_spec handle h (c_reply c) rs)"
  using assms(1,2)
proof (induction rs arbitrary: h c)
  case (Cons r rs)
  let ?c = "persistent_do_write (c\<lparr>c_buffer := message_bytes r @ drop (length (message_bytes r)) (c_buffer c),
     c_parser := Expecting_newline_3, c_request := received r,
     c_reply := snd (handle h (received r) (c_reply c))\<rparr>)"
  let ?h = "fst (handle h (received r) (c_reply c))"
  have r: "complete_message r" using Cons.prems by simp
  have "persistent_on_read lexical_cast handle (message_bytes r) h c = Inr (?h, ?c)"
    unfolding persistent_on_read_def using r Cons.prems(2) assms(3) by (rule on_read_complete)
  moreover have n: "ready (persistent_on_write Io_ok ?c)" "c_reply (persistent_on_write Io_ok ?c) = new_reply Ok"
    using ready_after_write [OF r, of "c_buffer c" ?c] Cons.prems(2)
    by (auto simp: ready_def persistent_do_write_def)
  moreover have "persistent_session lexical_cast handle ?h (persistent_on_write Io_ok ?c) (map message_bytes rs) =
      Inr (session_spec handle ?h (new_reply Ok) rs)"
    using Cons.IH [OF _ n(1)] n(2) Cons.prems(1) by simp
  moreover have "wire ?c = concat (to_buffers (keep_alive (snd (handle h (received r) (c_reply c)))))"
    by (simp add: wire_def persistent_do_write_def keep_alive_def)
  moreover have "c_pending ?c = Writing" by (simp add: persistent_do_write_def)
  ultimately show ?case by (simp add: split_beta Let_def)
qed simp

lemma main_simple_reply:
  assumes "effective_table d = effective_table (main_simple_dispatcher b)"
  shows "snd (handle_request_string req d rep) =
    (if req_method req = ''POST'' \<and> sublist ''/venue_handler/RTB'' (req_uri req)
     then reply_flush (reply_append rep ''{}'') ''json'' else rep)"
  unfolding handle_request_string_def split_beta Let_def snd_conv dispatch_loop_response
    calls_effective effective_table_def [symmetric] assms main_simple_table
  by simp

lemma json_reply_fields:
  "rep_status (reply_flush (reply_append (new_reply g) ''{}'') ''json'') = Ok"
  "rep_content (reply_flush (reply_append (new_reply g) ''{}'') ''json'') = ''{}''"
  "rep_headers (reply_flush (reply_append (new_reply g) ''{}'') ''json'') =
     [\<lparr>hdr_name = ''Content-Length'', hdr_value = ''2''\<rparr>,
      \<lparr>hdr_name = ''Content-Type'', hdr_value = ''application/json''\<rparr>]"
proof -
  have "extension_to_type ''json'' = ''application/json''" by code_simp
  then show "rep_status (reply_flush (reply_append (new_reply g) ''{}'') ''json'') = Ok"
    "rep_content (reply_flush (reply_append (new_reply g) ''{}'') ''json'') = ''{}''"
    "rep_headers (reply_flush (reply_append (new_reply g) ''{}'') ''json'') =
       [\<lparr>hdr_name = ''Content-Length'', hdr_value = ''2''\<rparr>,
        \<lparr>hdr_name = ''Content-Type'', hdr_value = ''application/json''\<rparr>]"
    by (simp_all add: reply_flush_def flush_impl_def reply_append_def new_reply_def to_string.simps
        numeral_2_eq_2 [symmetric])
qed

section \<open>Properties of connections\<close>

text \<open>
  A complete request that arrives in one segment on a new connection of the example server is
  answered in full: a POST whose URI contains the registered path is read back by the client as
  status 200 with the JSON body and its length; every other request is answered from the reply as
  it was constructed, whose status was never initialised, with no headers and no body. Nothing the
  network buffer held before plays a role.
\<close>

theorem main_server_answers:
  assumes "complete_message r" and "lexical_cast_ok lexical_cast"
    and "effective_table d = effective_table (main_simple_dispatcher b)"
  shows "\<exists>d' c. on_read lexical_cast (\<lambda>d req rep. handle_request_string req d rep) (message_bytes r) d
        (start (new_connection garbage g1 g2 g)) = Inr (d', c) \<and>
      c_pending c = Writing \<and> effective_table d' = effective_table d \<and>
      read_reply (wire c) =
        (if req_method r = ''POST'' \<and> sublist ''/venue_handler/RTB'' (req_uri r)
         then Some (''200'', [\<lparr>hdr_name = ''Content-Length'', hdr_value = ''2''\<rparr>,
                \<lparr>hdr_name = ''Content-Type'', hdr_value = ''application/json''\<rparr>], ''{}'')
         else Some (to_string (wire_code g), [], []))"
proof -
  let ?c = "start (new_connection garbage g1 g2 g)"
  let ?rep = "snd (handle_request_string (received r) d (new_reply g))"
  have c: "ready ?c" "c_reply ?c = new_reply g"
    by (simp_all add: ready_def start_def do_read_def new_connection_def empty_request_def)
  have "read_reply (concat (to_buffers ?rep)) =
      Some (to_string (wire_code (rep_status ?rep)), rep_headers ?rep, rep_content ?rep)"
    by (rule main_handler.handled_reply_read [OF assms(3)]) (simp add: new_reply_def)
  moreover have "?rep = (if req_method r = ''POST'' \<and> sublist ''/venue_handler/RTB'' (req_uri r)
      then reply_flush (reply_append (new_reply g) ''{}'') ''json'' else new_reply g)"
    unfolding main_simple_reply [OF assms(3)] by (simp add: received_def)
  moreover have "to_string (wire_code Ok) = ''200''" by (simp add: wire_code_def to_string.simps)
  moreover have "rep_status (new_reply g) = g" "rep_headers (new_reply g) = []" "rep_content (new_reply g) = []"
    by (simp_all add: new_reply_def)
  ultimately have "read_reply (concat (to_buffers ?rep)) =
        (if req_method r = ''POST'' \<and> sublist ''/venue_handler/RTB'' (req_uri r)
         then Some (''200'', [\<lparr>hdr_name = ''Content-Length'', hdr_value = ''2''\<rparr>,
                \<lparr>hdr_name = ''Content-Type'', hdr_value = ''application/json''\<rparr>], ''{}'')
         else Some (to_string (wire_code g), [], []))"
    by (simp only: json_reply_fields split: if_split) simp
  note answer = this
  let ?c' = "do_write (?c\<lparr>c_buffer := message_bytes r @ drop (length (message_bytes r)) (c_buffer ?c),
     c_parser := Expecting_newline_3, c_request := received r, c_reply := ?rep\<rparr>)"
  have "on_read lexical_cast (\<lambda>d req rep. handle_request_string req d rep) (message_bytes r) d ?c =
      Inr (fst (handle_request_string (received r) d (new_reply g)), ?c')"
    unfolding on_read_def using on_read_complete [OF assms(1) c(1) assms(2)] c(2) by simp
  moreover have "c_pending ?c' = Writing" "wire ?c' = concat (to_buffers ?rep)"
    by (simp_all add: do_write_def wire_def)
  ultimately show ?thesis using answer by (intro exI conjI) (assumption | simp)+
qed

text \<open>
  C32: a persistent connection serves any number of complete requests, one segment each, as if each
  had a connection of its own: the bytes sent are those of the handler's replies to the requests in
  order, each computed from an empty reply, and the handler's state is threaded through; nothing of
  an earlier request, reply or buffer content reaches a later one.
\<close>

theorem persistent_connection_session:
  assumes "list_all complete_message rs" and "ready c" and "lexical_cast_ok lexical_cast"
  shows "persistent_session lexical_cast handle h c (map message_bytes rs) =
    Inr (session_spec handle h (c_reply c) rs)"
  using assms by (rule persistent_session_spec)

definition dec_cast :: "string \<Rightarrow> int option" where
  "dec_cast s = (if s \<noteq> [] \<and> list_all is_digit_char s \<and> dec_value s < 2 ^ 63
     then Some (int (dec_value s)) else None)"

lemma dec_cast_ok: "lexical_cast_ok dec_cast"
  by (simp add: lexical_cast_ok_def dec_cast_def list_all_iff to_string_digits)

definition sample_message :: request where
  "sample_message = sample_request\<lparr>req_data := ''{}''\<rparr>"

lemma sample_message_complete: "complete_message sample_message"
  by code_simp

theorem main_server_answers_witness:
  "\<exists>d' c. on_read dec_cast (\<lambda>d req rep. handle_request_string req d rep) (message_bytes sample_message)
        (main_simple_dispatcher []) (start (new_connection [] 0 0 Not_found)) = Inr (d', c) \<and>
      read_reply (wire c) = Some (''404'', [], [])"
proof -
  have m: "req_uri sample_message = ''/bid/1''" by (simp add: sample_message_def sample_request_def)
  have "\<not> sublist ''/venue_handler/RTB'' ''/bid/1''" by code_simp
  moreover have "to_string (wire_code Not_found) = ''404''" by code_simp
  ultimately show ?thesis
    using main_server_answers [OF sample_message_complete dec_cast_ok refl, of "[]" "[]" 0 0 Not_found] m
    by (simp only: if_False simp_thms) blast
qed

theorem persistent_connection_session_witness:
  "persistent_session dec_cast (\<lambda>h req rep. (Suc h, reply_flush (reply_append rep (req_data req)) ''json'')) 0
     (new_connection [] 0 0 Ok) (map message_bytes [sample_message, sample_message]) =
   Inr (session_spec (\<lambda>h req rep. (Suc h, reply_flush (reply_append rep (req_data req)) ''json'')) 0
     (c_reply (new_connection [] 0 0 Ok)) [sample_message, sample_message])"
  by (rule persistent_connection_session)
    (simp_all add: sample_message_complete dec_cast_ok ready_def new_connection_def empty_request_def)

text \<open>
  C33: when the segment with the blank line does not hold the whole body, the handler is called at
  once with whatever the receive buffer held behind the header, up to the announced length: bytes
  of an earlier message, never the body that arrives later.
\<close>

theorem split_body_uses_stale_bytes:
  assumes "wf_request r" and "version_ok r" and "ready c" and "lexical_cast_ok lexical_cast"
    and "content_length_header (req_headers r) = Some h" and "hdr_value h = to_string n"
    and "length (print_request r) + n \<le> buffer_size"
  shows "on_read lexical_cast handle (print_request r) hs c =
    (let stale = take n (drop (length (print_request r)) (c_buffer c));
         (hs', rep) = handle hs ((received r)\<lparr>req_data := stale\<rparr>) (c_reply c)
     in Inr (hs', c\<lparr>c_buffer := print_request r @ drop (length (print_request r)) (c_buffer c),
           c_parser := Expecting_newline_3, c_request := (received r)\<lparr>req_data := stale\<rparr>,
           c_reply := rep, c_pending := Writing\<rparr>))"
proof -
  have p: "parse (c_parser c) (c_request c) (print_request r) =
      (Good, [], Expecting_newline_3, (received r)\<lparr>req_data := []\<rparr>)"
    using assms(1-3) parse_printed [of r "c_request c" "[]"] by (simp add: ready_def received_def)
  have "find (\<lambda>h. hdr_name h = ''content-length'') (req_headers (received r)) = Some (lower_header h)"
    using assms(5) by (simp add: received_def find_lower_header content_length_header_def)
  moreover have "lexical_cast (hdr_value (lower_header h)) = Some (int n)"
    using assms(4,6,7) by (simp add: lexical_cast_ok_def lower_header_def buffer_size_def)
  ultimately have "take_body lexical_cast (print_request r @ drop (length (print_request r)) (c_buffer c))
      (length (print_request r)) ((received r)\<lparr>req_data := []\<rparr>) =
      Inr ((received r)\<lparr>req_data := take n (drop (length (print_request r)) (c_buffer c))\<rparr>)"
    using assms(3,7) by (simp add: take_body_def ready_def)
  then show ?thesis
    by (simp add: on_read_def on_read_with_def p Let_def split_beta do_write_def)
qed

theorem split_body_uses_stale_bytes_witness:
  "\<exists>c. on_read dec_cast (\<lambda>h req rep. (req_data req, rep)) (print_request sample_request) []
     (new_connection (replicate (length (print_request sample_request)) CHR 0x00 @ ''ab'') 0 0 Ok) =
     Inr (''ab'', c)"
proof -
  let ?c = "new_connection (replicate (length (print_request sample_request)) CHR 0x00 @ ''ab'') 0 0 Ok"
  let ?h = "\<lparr>hdr_name = ''Content-Length'', hdr_value = ''2''\<rparr>"
  have "wf_request sample_request" "version_ok sample_request"
    "content_length_header (req_headers sample_request) = Some ?h"
    "length (print_request sample_request) + 2 \<le> buffer_size" by code_simp+
  moreover have "ready ?c" by (simp add: ready_def new_connection_def empty_request_def)
  moreover have "hdr_value ?h = to_string 2" by code_simp
  moreover have "take 2 (drop (length (print_request sample_request)) (c_buffer ?c)) = ''ab''"
    using calculation(4) by (simp add: new_connection_def resize_def)
  ultimately show ?thesis
    using split_body_uses_stale_bytes [of sample_request ?c dec_cast ?h 2 "\<lambda>h req rep. (req_data req, rep)" "[]"]
      dec_cast_ok by (simp add: Let_def)
qed

text \<open>
  A segment that ends after the name of the length header makes the completion handler throw:
  the conversion is attempted on the empty value read so far. This holds for every well-formed
  request up to that header, and the exception leaves the event loop.
\<close>

theorem split_length_header_throws:
  assumes "wf_request r" and "version_ok r" and "ready c"
    and "content_length_header (req_headers r) = None" and "lexical_cast [] = None"
  shows "on_read lexical_cast handle (print_head r @ ''Content-Length:'') hs c = Inl Bad_lexical_cast"
proof -
  let ?q = "(received r)\<lparr>req_data := []\<rparr>"
  let ?l = "\<lparr>hdr_name = ''content-length'', hdr_value = []\<rparr>"
  have "token_char CHR ''C''" "list_all token_char ''ontent-Length''" by code_simp+
  moreover have "tolower CHR ''C'' = CHR ''c''" "map tolower ''ontent-Length'' = ''ontent-length''" by code_simp+
  moreover note parse_name [where n = "''ontent-Length''" and req = ?q and cs = "'':''" and
      hs = "map lower_header (req_headers r)" and h = "\<lparr>hdr_name = ''c'', hdr_value = []\<rparr>"]
  ultimately have "parse Header_line_start ?q (CHR ''C'' # ''ontent-Length'' @ '':'') =
      (Indeterminate, [], Space_before_header_value,
       ?q\<lparr>req_headers := map lower_header (req_headers r) @ [?l]\<rparr>)"
    by (simp add: token_char_def push_name_def add_header_def empty_header_def received_def
        del: append_Cons)
  moreover have "parse (c_parser c) (c_request c) (print_head r @ ''Content-Length:'') =
      parse Header_line_start ?q ''Content-Length:''"
    using assms(1-3) parse_head [of r "c_request c" "''Content-Length:''"] by (simp add: ready_def received_def)
  moreover have "find (\<lambda>h. hdr_name h = ''content-length'') (map lower_header (req_headers r) @ [?l]) = Some ?l"
    using assms(4) find_lower_header [of "''content-length''" "req_headers r"]
    by (simp add: content_length_header_def find_append_None)
  ultimately show ?thesis
    by (simp add: on_read_def on_read_with_def Let_def take_body_def assms(5))
qed

theorem split_length_header_throws_witness:
  "on_read dec_cast (\<lambda>h req rep. (h, rep)) (print_head (sample_request\<lparr>req_headers := []\<rparr>) @ ''Content-Length:'') ()
     (new_connection [] 0 0 Ok) = Inl Bad_lexical_cast"
proof -
  have "wf_request (sample_request\<lparr>req_headers := []\<rparr>)" "version_ok (sample_request\<lparr>req_headers := []\<rparr>)"
    "content_length_header (req_headers (sample_request\<lparr>req_headers := []\<rparr>)) = None" by code_simp+
  then show ?thesis
    by (intro split_length_header_throws)
      (simp_all add: ready_def new_connection_def empty_request_def dec_cast_def)
qed

end
