(* ===== verification/Http_Server.thy ===== *)
theory Http_Server
  imports Http_Connection
begin

text \<open>
  The connection manager and the accept/stop logic of \<^verbatim>\<open>CRUD/service/connection_manager.hpp\<close> and
  \<^verbatim>\<open>server.hpp\<close>, with the completion handlers of the connections they own: one event per completion
  handler, run one at a time by the event loop. Every reachable state has only open connections with
  an outstanding operation under management, and stopping the server closes everything.
\<close>

section \<open>State and connection manager\<close>

datatype conn_kind = One_shot | Persistent

record 'h server =
  s_accepting :: bool
  s_managed :: "nat set"
  s_conns :: "nat \<rightharpoonup> connection"
  s_next :: nat
  s_handler :: 'h

definition new_server :: "'h \<Rightarrow> 'h server" where
  "new_server handler = \<lparr>s_accepting = True, s_managed = {}, s_conns = Map.empty, s_next = 0,
     s_handler = handler\<rparr>"

definition upd_conn :: "nat \<Rightarrow> connection \<Rightarrow> 'h server \<Rightarrow> 'h server" where
  "upd_conn i c s = s\<lparr>s_conns := (s_conns s)(i \<mapsto> c)\<rparr>"

definition manager_start :: "nat \<Rightarrow> connection \<Rightarrow> 'h server \<Rightarrow> 'h server" where
  "manager_start i c s = upd_conn i (start c) (s\<lparr>s_managed := insert i (s_managed s)\<rparr>)"

definition manager_stop :: "nat \<Rightarrow> connection \<Rightarrow> 'h server \<Rightarrow> 'h server" where
  "manager_stop i c s = upd_conn i (stop c) (s\<lparr>s_managed := s_managed s - {i}\<rparr>)"

definition manager_stop_all :: "'h server \<Rightarrow> 'h server" where
  "manager_stop_all s =
     s\<lparr>s_conns := (\<lambda>i. if i \<in> s_managed s then map_option stop (s_conns s i) else s_conns s i),
       s_managed := {}\<rparr>"

section \<open>Events\<close>

text \<open>
  Completions: an accept (with the uninitialised contents of the new connection), a read with its
  bytes, a failed read, a write, and the arrival of a termination signal.
\<close>

datatype event =
    Accepted string int int status_type
  | Accept_failed
  | Read_done nat string
  | Read_failed nat io_result
  | Write_done nat io_result
  | Stop_signal

text \<open>
  When the event loop may run a handler. Operations are only aborted by closing their socket; a
  read delivers at least one byte and no more than the buffer holds.
\<close>

definition enabled :: "'h server \<Rightarrow> event \<Rightarrow> bool" where
  "enabled s ev =
     (case ev of
        Read_done i bytes \<Rightarrow> bytes \<noteq> [] \<and> length bytes \<le> buffer_size \<and>
          (case s_conns s i of Some c \<Rightarrow> c_pending c = Reading | None \<Rightarrow> False)
      | Read_failed i ec \<Rightarrow>
          (case s_conns s i of
             Some c \<Rightarrow> c_pending c = Reading \<and> ec \<noteq> Io_ok \<and> (ec = Io_aborted \<longrightarrow> \<not> c_open c)
           | None \<Rightarrow> False)
      | Write_done i ec \<Rightarrow>
          (case s_conns s i of
             Some c \<Rightarrow> c_pending c = Writing \<and> (ec = Io_aborted \<longrightarrow> \<not> c_open c)
           | None \<Rightarrow> False)
      | _ \<Rightarrow> True)"

definition read_handler where
  "read_handler kind = (case kind of One_shot \<Rightarrow> on_read | Persistent \<Rightarrow> persistent_on_read)"

fun server_event :: "conn_kind \<Rightarrow> (string \<Rightarrow> int option) \<Rightarrow> ('h \<Rightarrow> request \<Rightarrow> reply \<Rightarrow> 'h \<times> reply) \<Rightarrow>
    event \<Rightarrow> 'h server \<Rightarrow> conn_error + 'h server" where
  "server_event kind lexical_cast handle (Accepted garbage g1 g2 g3) s =
     (if \<not> s_accepting s then Inr s
      else Inr (manager_start (s_next s) (new_connection garbage g1 g2 g3) (s\<lparr>s_next := s_next s + 1\<rparr>)))"
| "server_event kind lexical_cast handle Accept_failed s = Inr s"
| "server_event kind lexical_cast handle (Read_done i bytes) s =
     (case s_conns s i of
        None \<Rightarrow> Inr s
      | Some c \<Rightarrow>
          (case read_handler kind lexical_cast handle bytes (s_handler s) c of
             Inl e \<Rightarrow> Inl e
           | Inr (h', c') \<Rightarrow> Inr (upd_conn i c' (s\<lparr>s_handler := h'\<rparr>))))"
| "server_event kind lexical_cast handle (Read_failed i ec) s =
     (case s_conns s i of
        None \<Rightarrow> Inr s
      | Some c \<Rightarrow>
          (let (c', told) = on_read_error ec c
           in Inr (if told then manager_stop i c' s else upd_conn i c' s)))"
| "server_event kind lexical_cast handle (Write_done i ec) s =
     (case s_conns s i of
        None \<Rightarrow> Inr s
      | Some c \<Rightarrow>
          (case kind of
             One_shot \<Rightarrow>
               (let (c', told) = on_write ec c
                in Inr (if told then manager_stop i c' s else upd_conn i c' s))
           | Persistent \<Rightarrow> Inr (upd_conn i (persistent_on_write ec c) s)))"
| "server_event kind lexical_cast handle Stop_signal s = Inr (manager_stop_all (s\<lparr>s_accepting := False\<rparr>))"

inductive reachable :: "conn_kind \<Rightarrow> (string \<Rightarrow> int option) \<Rightarrow>
    ('h \<Rightarrow> request \<Rightarrow> reply \<Rightarrow> 'h \<times> reply) \<Rightarrow> 'h \<Rightarrow> 'h server \<Rightarrow> bool"
  for kind lexical_cast handle h where
  reach_init: "reachable kind lexical_cast handle h (new_server h)"
| reach_step: "reachable kind lexical_cast handle h s \<Longrightarrow> enabled s ev \<Longrightarrow>
     server_event kind lexical_cast handle ev s = Inr s' \<Longrightarrow> reachable kind lexical_cast handle h s'"

section \<open>Invariant\<close>

definition server_inv :: "'h server \<Rightarrow> bool" where
  "server_inv s \<longleftrightarrow>
     (\<forall>i \<in> s_managed s. \<exists>c. s_conns s i = Some c \<and> c_open c \<and> c_pending c \<noteq> Idle) \<and>
     (\<forall>i c. s_conns s i = Some c \<longrightarrow> length (c_buffer c) = buffer_size \<and> (i \<notin> s_managed s \<longrightarrow> \<not> c_open c)) \<and>
     (\<forall>i \<ge> s_next s. s_conns s i = None) \<and>
     (\<not> s_accepting s \<longrightarrow> s_managed s = {})"

lemma on_read_with_fields:
  assumes "on_read_with w lexical_cast handle bytes h c = Inr (h', c')" and "length bytes \<le> buffer_size"
    and "length (c_buffer c) = buffer_size"
    and "\<And>d. c_open (w d) = c_open d \<and> c_buffer (w d) = c_buffer d \<and> c_pending (w d) = Writing"
  shows "c_open c' = c_open c \<and> length (c_buffer c') = buffer_size \<and> c_pending c' \<noteq> Idle"
proof -
  obtain res rest st req where p: "parse (c_parser c) (c_request c) bytes = (res, rest, st, req)"
    by (cases "parse (c_parser c) (c_request c) bytes") auto
  let ?buf = "bytes @ drop (length bytes) (c_buffer c)"
  have len: "length ?buf = buffer_size" using assms(2,3) by simp
  obtain req' where t: "take_body lexical_cast ?buf (length bytes - length rest) req = Inr req'"
    using assms(1)
    by (cases "take_body lexical_cast ?buf (length bytes - length rest) req")
      (simp_all add: on_read_with_def p Let_def)
  show ?thesis
  proof (cases res)
    case Indeterminate
    then show ?thesis
      using assms(1) len unfolding on_read_with_def p Let_def by (auto simp: t do_read_def)
  next
    case Good
    then show ?thesis
      using assms(1) len unfolding on_read_with_def p Let_def by (auto simp: t split_beta assms(4))
  next
    case Bad
    then show ?thesis
      using assms(1) len unfolding on_read_with_def p Let_def by (auto simp: t assms(4))
  qed
qed

lemma read_handler_fields:
  assumes "read_handler kind lexical_cast handle bytes h c = Inr (h', c')" and "length bytes \<le> buffer_size"
    and "length (c_buffer c) = buffer_size"
  shows "c_open c' = c_open c \<and> length (c_buffer c') = buffer_size \<and> c_pending c' \<noteq> Idle"
proof (cases kind)
  case One_shot
  then have "on_read_with do_write lexical_cast handle bytes h c = Inr (h', c')"
    using assms(1) by (simp add: read_handler_def on_read_def)
  then show ?thesis using assms(2,3) by (rule on_read_with_fields) (simp add: do_write_def)
next
  case Persistent
  then have "on_read_with persistent_do_write lexical_cast handle bytes h c = Inr (h', c')"
    using assms(1) by (simp add: read_handler_def persistent_on_read_def)
  then show ?thesis using assms(2,3) by (rule on_read_with_fields) (simp add: persistent_do_write_def)
qed

lemma inv_upd_conn:
  assumes "server_inv s" and "s_conns s i = Some c" and "c_open c' = c_open c"
    and "length (c_buffer c') = buffer_size" and "c_pending c' \<noteq> Idle \<or> i \<notin> s_managed s"
  shows "server_inv (upd_conn i c' s)"
proof -
  have "i < s_next s" using assms(1,2) by (force simp: server_inv_def not_le [symmetric])
  then show ?thesis using assms by (auto simp: server_inv_def upd_conn_def)
qed

lemma inv_manager_stop:
  assumes "server_inv s" and "s_conns s i = Some c" and "length (c_buffer c') = buffer_size"
  shows "server_inv (manager_stop i c' s)"
proof -
  have "i < s_next s" using assms(1,2) by (force simp: server_inv_def not_le [symmetric])
  then show ?thesis using assms by (auto simp: server_inv_def manager_stop_def upd_conn_def stop_def)
qed

lemma inv_manager_start:
  assumes "server_inv s" and "s_accepting s"
  shows "server_inv (manager_start (s_next s) (new_connection a b d e) (s\<lparr>s_next := s_next s + 1\<rparr>))"
  using assms
  by (auto simp: server_inv_def manager_start_def upd_conn_def start_def do_read_def new_connection_def)

lemma inv_stop_all: "server_inv s \<Longrightarrow> server_inv (manager_stop_all (s\<lparr>s_accepting := False\<rparr>))"
  by (auto simp: server_inv_def manager_stop_all_def stop_def split: if_splits)

lemma inv_handler_irrelevant [simp]: "server_inv (s\<lparr>s_handler := h\<rparr>) = server_inv s"
  by (simp add: server_inv_def)

lemma server_event_inv [step_inv]:
  assumes "server_inv s" and "enabled s ev" and "server_event kind lexical_cast handle ev s = Inr s'"
  shows "server_inv s'"
proof (cases ev)
  case (Accepted g a b d)
  then show ?thesis using assms inv_manager_start by (auto split: if_splits)
next
  case (Read_done i bytes)
  then obtain c where c: "s_conns s i = Some c" "length bytes \<le> buffer_size"
    using assms(2) by (auto simp: enabled_def split: option.splits)
  then obtain h' c' where r: "read_handler kind lexical_cast handle bytes (s_handler s) c = Inr (h', c')"
    and s': "s' = upd_conn i c' (s\<lparr>s_handler := h'\<rparr>)"
    using assms(3) Read_done by (auto split: sum.splits)
  have b: "length (c_buffer c) = buffer_size" using assms(1) c(1) by (simp add: server_inv_def)
  show ?thesis unfolding s'
    by (rule inv_upd_conn [of _ i c]) (use assms(1) c read_handler_fields [OF r c(2) b] in auto)
next
  case (Read_failed i ec)
  then obtain c where c: "s_conns s i = Some c" "ec = Io_aborted \<longrightarrow> \<not> c_open c"
    using assms(2) by (auto simp: enabled_def split: option.splits)
  have b: "length (c_buffer c) = buffer_size" "i \<in> s_managed s \<longrightarrow> c_open c"
    using assms(1) c(1) by (auto simp: server_inv_def)
  show ?thesis
    using assms(1,3) Read_failed c b inv_manager_stop [OF assms(1) c(1)] inv_upd_conn [OF assms(1) c(1)]
    by (auto simp: on_read_error_def split: if_splits)
next
  case (Write_done i ec)
  then obtain c where c: "s_conns s i = Some c" "ec = Io_aborted \<longrightarrow> \<not> c_open c"
    using assms(2) by (auto simp: enabled_def split: option.splits)
  have b: "length (c_buffer c) = buffer_size" "i \<in> s_managed s \<longrightarrow> c_open c"
    using assms(1) c(1) by (auto simp: server_inv_def)
  show ?thesis
    using assms(1,3) Write_done c b inv_manager_stop [OF assms(1) c(1)] inv_upd_conn [OF assms(1) c(1)]
    by (auto simp: on_write_def persistent_on_write_def do_read_def split: if_splits conn_kind.splits)
qed (use assms inv_stop_all in auto)

lemma reachable_inv: "reachable kind lexical_cast handle h s \<Longrightarrow> server_inv s"
proof (induction rule: reachable.induct)
  case reach_init
  then show ?case by (simp add: server_inv_def new_server_def)
qed (rule server_event_inv)

section \<open>Properties\<close>

text \<open>
  C34: in every reachable state of the server, for both kinds of connection and whatever the
  network does, each managed connection exists, has an open socket and has an operation outstanding
  (none is leaked or stuck), each connection that is not managed has been closed, and once the
  server was stopped no connection is managed and every socket is closed.
\<close>

theorem server_reachable_safe:
  assumes "reachable kind lexical_cast handle h s"
  shows "(\<forall>i \<in> s_managed s. \<exists>c. s_conns s i = Some c \<and> c_open c \<and> c_pending c \<noteq> Idle) \<and>
    (\<forall>i c. s_conns s i = Some c \<longrightarrow> i \<notin> s_managed s \<longrightarrow> \<not> c_open c) \<and>
    (\<not> s_accepting s \<longrightarrow> s_managed s = {} \<and> (\<forall>i c. s_conns s i = Some c \<longrightarrow> \<not> c_open c))"
  using reachable_inv [OF assms] by (auto simp: server_inv_def)

theorem server_reachable_safe_witness:
  "s_managed (manager_stop_all ((manager_start 0 (new_connection [] 0 0 Ok)
     (new_server ()\<lparr>s_next := 1\<rparr>))\<lparr>s_accepting := False\<rparr>)) = {}"
proof -
  let ?s1 = "manager_start 0 (new_connection [] 0 0 Ok) (new_server ()\<lparr>s_next := 1\<rparr>)"
  let ?h = "\<lambda>h req rep. (h, rep)"
  have "server_event One_shot dec_cast ?h (Accepted [] 0 0 Ok) (new_server ()) = Inr ?s1"
    by (simp add: new_server_def)
  then have "reachable One_shot dec_cast ?h () ?s1"
    by (rule reach_step [OF reach_init, rotated]) (simp add: enabled_def)
  then have "reachable One_shot dec_cast ?h () (manager_stop_all (?s1\<lparr>s_accepting := False\<rparr>))"
    by (rule reach_step [where ev = Stop_signal]) (simp_all add: enabled_def)
  from server_reachable_safe [OF this] show ?thesis by (simp add: manager_stop_all_def)
qed

text \<open>
  C35: a persistent connection is used after it was released. Its completion handlers hold no reference to it, and the
  connection manager holds the only one, so the connection is destroyed when the manager is told to stop all
  connections. From the start of the server, a complete request and a stop lead to a state in which the connection is
  not managed any more while its write is outstanding; the write completes as aborted, and its handler changes the
  reply of the connection all the same and starts another read on it. The handler of a one-shot connection looks at the
  error first: for a connection that is not managed it changes no member and starts nothing.
\<close>

theorem persistent_write_after_free:
  assumes "complete_message r" and "lexical_cast_ok lexical_cast"
  shows "(\<exists>s c s' c'. reachable Persistent lexical_cast handle h s \<and> 0 \<notin> s_managed s \<and> s_conns s 0 = Some c \<and>
      enabled s (Write_done 0 Io_aborted) \<and>
      server_event Persistent lexical_cast handle (Write_done 0 Io_aborted) s = Inr s' \<and> 0 \<notin> s_managed s' \<and>
      s_conns s' 0 = Some c' \<and> c_reply c' \<noteq> c_reply c \<and> c_pending c' = Reading) \<and>
    (\<forall>s i c s' c'. i \<notin> s_managed s \<longrightarrow> s_conns s i = Some c \<longrightarrow>
      server_event One_shot lexical_cast handle (Write_done i Io_aborted) s = Inr s' \<longrightarrow> s_conns s' i = Some c' \<longrightarrow>
      c' = c\<lparr>c_pending := Idle\<rparr> \<and> s_managed s' = s_managed s)"
proof -
  let ?c0 = "start (new_connection [] 0 0 Ok)"
  let ?s1 = "manager_start 0 (new_connection [] 0 0 Ok) (new_server h\<lparr>s_next := 1\<rparr>)"
  have c0: "ready ?c0" "c_reply ?c0 = new_reply Ok"
    by (simp_all add: ready_def start_def do_read_def new_connection_def empty_request_def)
  define h' where "h' = fst (handle h (received r) (new_reply Ok))"
  obtain c1 where c1: "persistent_on_read lexical_cast handle (message_bytes r) h ?c0 = Inr (h', c1)"
    "c_pending c1 = Writing" "rep_headers (c_reply c1) \<noteq> []"
    unfolding persistent_on_read_def on_read_complete [OF assms(1) c0(1) assms(2)] c0(2) h'_def
    by (simp add: persistent_do_write_def)
  let ?s2 = "upd_conn 0 c1 (?s1\<lparr>s_handler := h'\<rparr>)"
  let ?s3 = "manager_stop_all (?s2\<lparr>s_accepting := False\<rparr>)"
  have "server_event Persistent lexical_cast handle (Accepted [] 0 0 Ok) (new_server h) = Inr ?s1"
    by (simp add: new_server_def)
  then have 1: "reachable Persistent lexical_cast handle h ?s1"
    by (rule reach_step [OF reach_init, rotated]) (simp add: enabled_def)
  have s1: "s_conns ?s1 0 = Some ?c0" "s_handler ?s1 = h"
    by (simp_all add: manager_start_def upd_conn_def new_server_def)
  have "message_bytes r \<noteq> [] \<and> length (message_bytes r) \<le> buffer_size"
    using assms(1) by (auto simp: complete_message_def message_bytes_def print_request_def crlf_def)
  then have "enabled ?s1 (Read_done 0 (message_bytes r))"
    using s1 by (simp add: enabled_def start_def do_read_def)
  moreover have "server_event Persistent lexical_cast handle (Read_done 0 (message_bytes r)) ?s1 = Inr ?s2"
    using s1 c1(1) by (simp add: read_handler_def)
  ultimately have "reachable Persistent lexical_cast handle h ?s2" by (rule reach_step [OF 1])
  then have 3: "reachable Persistent lexical_cast handle h ?s3"
    by (rule reach_step [where ev = Stop_signal]) (simp_all add: enabled_def)
  have c3: "s_conns ?s3 0 = Some (stop c1)" "0 \<notin> s_managed ?s3"
    by (simp_all add: manager_stop_all_def upd_conn_def manager_start_def)
  let ?c4 = "persistent_on_write Io_aborted (stop c1)"
  have "enabled ?s3 (Write_done 0 Io_aborted)"
    using c1(2) c3 by (simp add: enabled_def stop_def)
  moreover have "server_event Persistent lexical_cast handle (Write_done 0 Io_aborted) ?s3 = Inr (upd_conn 0 ?c4 ?s3)"
    using c3 by simp
  moreover have "0 \<notin> s_managed (upd_conn 0 ?c4 ?s3)" "s_conns (upd_conn 0 ?c4 ?s3) 0 = Some ?c4"
    using c3 by (simp_all add: upd_conn_def)
  moreover have "rep_headers (c_reply ?c4) = []" "rep_headers (c_reply (stop c1)) \<noteq> []" "c_pending ?c4 = Reading"
    using c1(3) by (simp_all add: persistent_on_write_def do_read_def stop_def resize_def)
  then have "c_reply ?c4 \<noteq> c_reply (stop c1)" "c_pending ?c4 = Reading" by auto
  moreover have "c' = c\<lparr>c_pending := Idle\<rparr> \<and> s_managed s' = s_managed s"
    if "s_conns s i = Some c" "server_event One_shot lexical_cast handle (Write_done i Io_aborted) s = Inr s'" "s_conns s' i = Some c'" for s i c s' c'
    using that by (auto simp: on_write_def upd_conn_def)
  ultimately show ?thesis using 3 c3 by blast
qed

theorem persistent_write_after_free_witness:
  "\<exists>s c s' c'. reachable Persistent dec_cast (\<lambda>h req rep. (h, rep)) () s \<and> 0 \<notin> s_managed s \<and> s_conns s 0 = Some c \<and>
     server_event Persistent dec_cast (\<lambda>h req rep. (h, rep)) (Write_done 0 Io_aborted) s = Inr s' \<and>
     s_conns s' 0 = Some c' \<and> c_reply c' \<noteq> c_reply c"
  using persistent_write_after_free [OF sample_message_complete dec_cast_ok, of "\<lambda>h req rep. (h, rep)" "()"] by blast

end
