(* ===== verification/Openrtb.thy ===== *)
theory Openrtb
  imports RTB_Prelude Complex_Main
begin

text \<open>
  The OpenRTB 2.x object model of \<^verbatim>\<open>rtb/core/openrtb.hpp\<close>: every enumeration with its codes, every
  structure as a record (with \<open>std::string\<close> for the string type parameter), and the operations on
  them. Floating-point members hold the exact rational value of the double.
\<close>

type_synonym double = rat

section \<open>Enumerations\<close>

datatype AuctionType =
    AT_FIRST_PRICE | AT_SECOND_PRICE | AT_UNDEFINED

fun AuctionType_code :: "AuctionType \<Rightarrow> int" where
  "AuctionType_code AT_FIRST_PRICE = 1"
| "AuctionType_code AT_SECOND_PRICE = 2"
| "AuctionType_code AT_UNDEFINED = - 1"

datatype AdPosition =
    POS_UNKNOWN | POS_ABOVE | POS_BETWEEN_DEPRECATED | POS_BELOW | POS_HEADER | POS_FOOTER
  | POS_SIDEBAR | POS_FULLSCREEN | POS_UNDEFINED

fun AdPosition_code :: "AdPosition \<Rightarrow> int" where
  "AdPosition_code POS_UNKNOWN = 0"
| "AdPosition_code POS_ABOVE = 1"
| "AdPosition_code POS_BETWEEN_DEPRECATED = 2"
| "AdPosition_code POS_BELOW = 3"
| "AdPosition_code POS_HEADER = 4"
| "AdPosition_code POS_FOOTER = 5"
| "AdPosition_code POS_SIDEBAR = 6"
| "AdPosition_code POS_FULLSCREEN = 7"
| "AdPosition_code POS_UNDEFINED = - 1"

datatype BannerAdType =
    BAT_UNDEFINED | BAT_XHTML_TEXT | BAT_XHTML_BANNER | BAT_JAVASCRIPT | BAT_IFRAME

fun BannerAdType_code :: "BannerAdType \<Rightarrow> int" where
  "BannerAdType_code BAT_UNDEFINED = - 1"
| "BannerAdType_code BAT_XHTML_TEXT = 1"
| "BannerAdType_code BAT_XHTML_BANNER = 2"
| "BannerAdType_code BAT_JAVASCRIPT = 3"
| "BannerAdType_code BAT_IFRAME = 4"

datatype CreativeAttribute =
    CA_UNDEFINED | CA_AUDIO_AD_AUTO_PLAY | CA_AUDIO_AD_USER_INITIATED
  | CA_EXPANDABLE_AUTOMATIC | CA_EXPANDABLE_USER_INITIATED_CLICK
  | CA_EXPANDABLE_USER_INITIATED_ROLLOVER | CA_IN_BANNER_VIDEO_AD_AUTO_PLAY
  | CA_IN_BANNER_VIDEO_AD_USER_INITIATED | CA_POP | CA_PROVOCATIVE_OR_SUGGESTIVE_IMAGERY
  | CA_SHAKY_FLASHING_FLICKERING_EXTREME_ANIMATION_SMILEYS | CA_SURVEYS | CA_TEXT_ONLY
  | CA_USER_INTERACTIVE | CA_WINDOWS_DIALOG_OR_ALERT_STYLE | CA_HAS_AUDIO_ON_OFF_BUTTON
  | CA_AD_CAN_BE_SKIPPED

fun CreativeAttribute_code :: "CreativeAttribute \<Rightarrow> int" where
  "CreativeAttribute_code CA_UNDEFINED = - 1"
| "CreativeAttribute_code CA_AUDIO_AD_AUTO_PLAY = 1"
| "CreativeAttribute_code CA_AUDIO_AD_USER_INITIATED = 2"
| "CreativeAttribute_code CA_EXPANDABLE_AUTOMATIC = 3"
| "CreativeAttribute_code CA_EXPANDABLE_USER_INITIATED_CLICK = 4"
| "CreativeAttribute_code CA_EXPANDABLE_USER_INITIATED_ROLLOVER = 5"
| "CreativeAttribute_code CA_IN_BANNER_VIDEO_AD_AUTO_PLAY = 6"
| "CreativeAttribute_code CA_IN_BANNER_VIDEO_AD_USER_INITIATED = 7"
| "CreativeAttribute_code CA_POP = 8"
| "CreativeAttribute_code CA_PROVOCATIVE_OR_SUGGESTIVE_IMAGERY = 9"
| "CreativeAttribute_code CA_SHAKY_FLASHING_FLICKERING_EXTREME_ANIMATION_SMILEYS = 10"
| "CreativeAttribute_code CA_SURVEYS = 11"
| "CreativeAttribute_code CA_TEXT_ONLY = 12"
| "CreativeAttribute_code CA_USER_INTERACTIVE = 13"
| "CreativeAttribute_code CA_WINDOWS_DIALOG_OR_ALERT_STYLE = 14"
| "CreativeAttribute_code CA_HAS_AUDIO_ON_OFF_BUTTON = 15"
| "CreativeAttribute_code CA_AD_CAN_BE_SKIPPED = 16"

datatype FramePosition =
    FP_UNDEFINED | FP_IFRAME | FP_TOP_FRAME

fun FramePosition_code :: "FramePosition \<Rightarrow> int" where
  "FramePosition_code FP_UNDEFINED = - 1"
| "FramePosition_code FP_IFRAME = 0"
| "FramePosition_code FP_TOP_FRAME = 1"

datatype ExpandableDirection =
    ED_UNDEFINED | ED_LEFT | ED_RIGHT | ED_UP | ED_DOWN | ED_FULLSCREEN

fun ExpandableDirection_code :: "ExpandableDirection \<Rightarrow> int" where
  "ExpandableDirection_code ED_UNDEFINED = - 1"
| "ExpandableDirection_code ED_LEFT = 1"
| "ExpandableDirection_code ED_RIGHT = 2"
| "ExpandableDirection_code ED_UP = 3"
| "ExpandableDirection_code ED_DOWN = 4"
| "ExpandableDirection_code ED_FULLSCREEN = 5"

datatype ApiFramework =
    API_UNDEFINED | API_VPAID_1 | API_VPAID_2 | API_MRAID | API_ORMMA | API_MRAID2

fun ApiFramework_code :: "ApiFramework \<Rightarrow> int" where
  "ApiFramework_code API_UNDEFINED = - 1"
| "ApiFramework_code API_VPAID_1 = 1"
| "ApiFramework_code API_VPAID_2 = 2"
| "ApiFramework_code API_MRAID = 3"
| "ApiFramework_code API_ORMMA = 4"
| "ApiFramework_code API_MRAID2 = 5"

datatype NoBidReason =
    NBR_UNSPECIFIED | NBR_UNKNOWN_ERROR | NBR_TECHNICAL_ERROR | NBR_INVALID_REQUEST
  | NBR_KNOWN_WEB_SPIDER | NBR_SUSPECTED_NON_HUMAN_TRAFFIC
  | NBR_CLOUD_DATACENTER_OR_PROXY_IP | NBR_UNSUPPORTED_DEVICE
  | NBR_BLOCKED_PUBLISHER_OR_SITE | NBR_UNMATCHED_USER

fun NoBidReason_code :: "NoBidReason \<Rightarrow> int" where
  "NoBidReason_code NBR_UNSPECIFIED = - 1"
| "NoBidReason_code NBR_UNKNOWN_ERROR = 0"
| "NoBidReason_code NBR_TECHNICAL_ERROR = 1"
| "NoBidReason_code NBR_INVALID_REQUEST = 2"
| "NoBidReason_code NBR_KNOWN_WEB_SPIDER = 3"
| "NoBidReason_code NBR_SUSPECTED_NON_HUMAN_TRAFFIC = 4"
| "NoBidReason_code NBR_CLOUD_DATACENTER_OR_PROXY_IP = 5"
| "NoBidReason_code NBR_UNSUPPORTED_DEVICE = 6"
| "NoBidReason_code NBR_BLOCKED_PUBLISHER_OR_SITE = 7"
| "NoBidReason_code NBR_UNMATCHED_USER = 8"

datatype Protocol =
    PROTO_UNKNOWN | PROTO_VAST_1_0 | PROTO_VAST_2_0 | PROTO_VAST_3_0
  | PROTO_VAST_1_0_WRAPPER | PROTO_VAST_2_0_WRAPPER | PROTO_VAST_3_0_WRAPPER
  | PROTO_VAST_4_0 | PROTO_VAST_4_0_WRAPPER | PROTO_DAAST_1_0 | PROTO_DAAST_1_0_WRAPPER

fun Protocol_code :: "Protocol \<Rightarrow> int" where
  "Protocol_code PROTO_UNKNOWN = 0"
| "Protocol_code PROTO_VAST_1_0 = 1"
| "Protocol_code PROTO_VAST_2_0 = 2"
| "Protocol_code PROTO_VAST_3_0 = 3"
| "Protocol_code PROTO_VAST_1_0_WRAPPER = 4"
| "Protocol_code PROTO_VAST_2_0_WRAPPER = 5"
| "Protocol_code PROTO_VAST_3_0_WRAPPER = 6"
| "Protocol_code PROTO_VAST_4_0 = 7"
| "Protocol_code PROTO_VAST_4_0_WRAPPER = 8"
| "Protocol_code PROTO_DAAST_1_0 = 9"
| "Protocol_code PROTO_DAAST_1_0_WRAPPER = 10"

datatype VideoPlacement =
    VP_UNKNOWN | VP_IN_STREAM | VP_IN_BANNER | VP_IN_ARTICLE | VP_IN_FEED | VP_FLOATING

fun VideoPlacement_code :: "VideoPlacement \<Rightarrow> int" where
  "VideoPlacement_code VP_UNKNOWN = 0"
| "VideoPlacement_code VP_IN_STREAM = 1"
| "VideoPlacement_code VP_IN_BANNER = 2"
| "VideoPlacement_code VP_IN_ARTICLE = 3"
| "VideoPlacement_code VP_IN_FEED = 4"
| "VideoPlacement_code VP_FLOATING = 5"

datatype PlaybackMethod =
    PM_UNKNOWN | PM_ON_PAGE_SOUND_ON | PM_ON_PAGE_SOUND_OFF | PM_ON_CLICK_SOUND_ON
  | PM_ON_MOVER_SOUND_ON | PM_ON_VIEWPORT_SOUND_ON | PM_ON_VIEWPORT_SOUND_OFF

fun PlaybackMethod_code :: "PlaybackMethod \<Rightarrow> int" where
  "PlaybackMethod_code PM_UNKNOWN = 0"
| "PlaybackMethod_code PM_ON_PAGE_SOUND_ON = 1"
| "PlaybackMethod_code PM_ON_PAGE_SOUND_OFF = 2"
| "PlaybackMethod_code PM_ON_CLICK_SOUND_ON = 3"
| "PlaybackMethod_code PM_ON_MOVER_SOUND_ON = 4"
| "PlaybackMethod_code PM_ON_VIEWPORT_SOUND_ON = 5"
| "PlaybackMethod_code PM_ON_VIEWPORT_SOUND_OFF = 6"

datatype PlaybackCessationModes =
    PCM_UNKNOWN | PCM_COMPLEETION | PCM_VIEWPORT | PCM_FLOATING

fun PlaybackCessationModes_code :: "PlaybackCessationModes \<Rightarrow> int" where
  "PlaybackCessationModes_code PCM_UNKNOWN = 0"
| "PlaybackCessationModes_code PCM_COMPLEETION = 1"
| "PlaybackCessationModes_code PCM_VIEWPORT = 2"
| "PlaybackCessationModes_code PCM_FLOATING = 3"

datatype DeliveryMethod =
    DM_UNKNOWN | DM_STREAMING | DM_PROGRESSIVE | DM_DOWNLOAD

fun DeliveryMethod_code :: "DeliveryMethod \<Rightarrow> int" where
  "DeliveryMethod_code DM_UNKNOWN = 0"
| "DeliveryMethod_code DM_STREAMING = 1"
| "DeliveryMethod_code DM_PROGRESSIVE = 2"
| "DeliveryMethod_code DM_DOWNLOAD = 3"

datatype CompanionType =
    CT_UNKNOWN | CT_STATIC | CT_HTML | CT_IFRAME

fun CompanionType_code :: "CompanionType \<Rightarrow> int" where
  "CompanionType_code CT_UNKNOWN = 0"
| "CompanionType_code CT_STATIC = 1"
| "CompanionType_code CT_HTML = 2"
| "CompanionType_code CT_IFRAME = 3"

datatype GeoType =
    GEO_UNDEFINED | GEO_GPS | GEO_IP | GEO_USER

fun GeoType_code :: "GeoType \<Rightarrow> int" where
  "GeoType_code GEO_UNDEFINED = - 1"
| "GeoType_code GEO_GPS = 1"
| "GeoType_code GEO_IP = 2"
| "GeoType_code GEO_USER = 3"

text \<open>An enumeration without enumerators: any value of its underlying \<open>int\<close>.\<close>

type_synonym VideoLinearity = int

section \<open>Bid requests\<close>

record MimeType =
  mime_type :: string

record Banner =
  bn_w :: u16
  bn_h :: u16
  bn_wmax :: "int option"
  bn_hmax :: "int option"
  bn_wmin :: "int option"
  bn_hmin :: "int option"
  bn_id :: string
  bn_pos :: AdPosition
  bn_btype :: "BannerAdType list"
  bn_battr :: "CreativeAttribute list"
  bn_mimes :: "MimeType list"
  bn_topframe :: FramePosition
  bn_expdir :: "ExpandableDirection list"
  bn_api :: "ApiFramework list"
  bn_ext :: string

record Video =
  vd_mimes :: "MimeType list"
  vd_minduration :: u32
  vd_maxduration :: u32
  vd_protocols :: "Protocol list"
  vd_protocol :: Protocol
  vd_w :: u16
  vd_h :: u16
  vd_startdelay :: u32
  vd_placement :: VideoPlacement
  vd_linearity :: VideoLinearity
  vd_skip :: u8
  vd_skipmin :: u32
  vd_skipafter :: u32
  vd_sequence :: u16
  vd_battr :: "CreativeAttribute list"
  vd_maxextended :: int
  vd_minbitrate :: u32
  vd_maxbitrate :: u32
  vd_boxingallowed :: u8
  vd_playbackmethod :: "PlaybackMethod list"
  vd_playbackend :: PlaybackCessationModes
  vd_delivery :: DeliveryMethod
  vd_pos :: AdPosition
  vd_companiontype :: CompanionType
  vd_ext :: string

datatype PMP = PMP

type_synonym ContentCategory = string

record Publisher =
  pub_id :: string
  pub_name :: string
  pub_cat :: "ContentCategory list"
  pub_domain :: string
  pub_ext :: string

text \<open>\<open>Site\<close> inherits \<open>Context\<close> and \<open>SiteImpl\<close>.\<close>

record Context =
  ctx_name :: string
  ctx_domain :: string
  ctx_cat :: "ContentCategory list"
  ctx_sectioncat :: "ContentCategory list"
  ctx_pagecat :: "ContentCategory list"
  ctx_privacypolicy :: bool
  ctx_publisher :: "Publisher option"
  ctx_keywords :: "string list"
  ctx_ext :: string

record SiteImpl = Context +
  site_page :: string
  site_ref :: string

record Site = SiteImpl +
  site_id :: string

record Geo =
  geo_lat :: double
  geo_lon :: double
  geo_type :: GeoType
  geo_utcoffset :: int
  geo_city :: string
  geo_country :: string
  geo_region :: string
  geo_regionfips104 :: string
  geo_metro :: string
  geo_zip :: string
  geo_ext :: string

datatype App = App
datatype Device = Device

record UserDataSegment =
  seg_id :: string
  seg_name :: string
  seg_value :: string
  seg_ext :: string

record UserData =
  ud_id :: string
  ud_name :: string
  ud_segment :: "UserDataSegment list"
  ud_ext :: string

record User =
  user_yob :: int
  user_id :: string
  user_buyeruid :: string
  user_gender :: string
  user_keywords :: string
  user_customdata :: string
  user_geo :: "Geo option"
  user_data :: "UserData list"
  user_ext :: string

datatype Regulations = Regulations

record Native =
  nat_request :: string
  nat_ver :: string
  nat_api :: "ApiFramework list"
  nat_battr :: "CreativeAttribute list"
  nat_ext :: string

record Impression =
  imp_id :: string
  imp_banner :: "Banner option"
  imp_video :: "Video option"
  imp_native :: "Native option"
  imp_displaymanager :: string
  imp_displaymanagerver :: string
  imp_instl :: bool
  imp_tagid :: string
  imp_bidfloor :: double
  imp_bidfloorcur :: string
  imp_secure :: int
  imp_iframebuster :: "string list"
  imp_pmp :: "PMP option"
  imp_ext :: string

record BidRequest =
  brq_id :: string
  brq_imp :: "Impression list"
  brq_site :: "Site option"
  brq_app :: "App option"
  brq_device :: "Device option"
  brq_user :: "User option"
  brq_at :: AuctionType
  brq_tmax :: int
  brq_wseat :: "string list"
  brq_allimps :: bool
  brq_cur :: "string list"
  brq_bcat :: "ContentCategory list"
  brq_badv :: "string list"
  brq_regs :: "Regulations option"
  brq_ext :: string
  brq_unparseable :: string

section \<open>Bid responses\<close>

record Bid =
  bid_id :: string
  bid_impid :: string
  bid_price :: double
  bid_adid :: string
  bid_nurl :: string
  bid_adm :: string
  bid_adomain :: "string list"
  bid_iurl :: string
  bid_cid :: string
  bid_crid :: string
  bid_attr :: "CreativeAttribute list"
  bid_dealid :: string
  bid_w :: int
  bid_h :: int
  bid_ext :: string

record SeatBid =
  sb_bid :: "Bid list"
  sb_seat :: string
  sb_group :: int
  sb_ext :: string

record BidResponse =
  brs_id :: string
  brs_seatbid :: "SeatBid list"
  brs_bidid :: string
  brs_cur :: string
  brs_customdata :: string
  brs_nbr :: NoBidReason
  brs_ext :: string

text \<open>Default-constructed objects; members without an initialiser take the value given.\<close>

definition new_Bid :: Bid where
  "new_Bid = \<lparr>bid_id = [], bid_impid = [], bid_price = 0, bid_adid = [], bid_nurl = [], bid_adm = [],
     bid_adomain = [], bid_iurl = [], bid_cid = [], bid_crid = [], bid_attr = [], bid_dealid = [],
     bid_w = 0, bid_h = 0, bid_ext = []\<rparr>"

definition new_SeatBid :: SeatBid where
  "new_SeatBid = \<lparr>sb_bid = [], sb_seat = [], sb_group = 0, sb_ext = []\<rparr>"

definition new_BidResponse :: "NoBidReason \<Rightarrow> BidResponse" where
  "new_BidResponse nbr = \<lparr>brs_id = [], brs_seatbid = [], brs_bidid = [], brs_cur = [],
     brs_customdata = [], brs_nbr = nbr, brs_ext = []\<rparr>"

definition new_Impression :: Impression where
  "new_Impression = \<lparr>imp_id = [], imp_banner = None, imp_video = None, imp_native = None,
     imp_displaymanager = [], imp_displaymanagerver = [], imp_instl = False, imp_tagid = [],
     imp_bidfloor = 0, imp_bidfloorcur = [], imp_secure = 0, imp_iframebuster = [], imp_pmp = None,
     imp_ext = []\<rparr>"

definition new_Banner :: "AdPosition \<Rightarrow> FramePosition \<Rightarrow> Banner" where
  "new_Banner pos topframe = \<lparr>bn_w = 0, bn_h = 0, bn_wmax = None, bn_hmax = None, bn_wmin = None,
     bn_hmin = None, bn_id = [], bn_pos = pos, bn_btype = [], bn_battr = [], bn_mimes = [],
     bn_topframe = topframe, bn_expdir = [], bn_api = [], bn_ext = []\<rparr>"

definition new_Geo :: Geo where
  "new_Geo = \<lparr>geo_lat = 0, geo_lon = 0, geo_type = GEO_UNDEFINED, geo_utcoffset = 0, geo_city = [],
     geo_country = [], geo_region = [], geo_regionfips104 = [], geo_metro = [], geo_zip = [], geo_ext = []\<rparr>"

definition new_User :: User where
  "new_User = \<lparr>user_yob = 0, user_id = [], user_buyeruid = [], user_gender = [], user_keywords = [],
     user_customdata = [], user_geo = None, user_data = [], user_ext = []\<rparr>"

definition new_Site :: "bool \<Rightarrow> Site" where
  "new_Site privacypolicy = \<lparr>ctx_name = [], ctx_domain = [], ctx_cat = [], ctx_sectioncat = [],
     ctx_pagecat = [], ctx_privacypolicy = privacypolicy, ctx_publisher = None, ctx_keywords = [],
     ctx_ext = [], site_page = [], site_ref = [], site_id = []\<rparr>"

definition new_BidRequest :: "AuctionType \<Rightarrow> BidRequest" where
  "new_BidRequest auction = \<lparr>brq_id = [], brq_imp = [], brq_site = None, brq_app = None, brq_device = None,
     brq_user = None, brq_at = auction, brq_tmax = 0, brq_wseat = [], brq_allimps = False, brq_cur = [],
     brq_bcat = [], brq_badv = [], brq_regs = None, brq_ext = [], brq_unparseable = []\<rparr>"

definition BidResponse_clear :: "BidResponse \<Rightarrow> BidResponse" where
  "BidResponse_clear r = r\<lparr>brs_id := [], brs_seatbid := [], brs_bidid := [], brs_cur := [],
     brs_customdata := [], brs_nbr := NBR_UNKNOWN_ERROR, brs_ext := []\<rparr>"

lemma BidResponse_clear_new [simp]: "BidResponse_clear r = new_BidResponse NBR_UNKNOWN_ERROR"
  by (cases r) (simp add: BidResponse_clear_def new_BidResponse_def)

text \<open>The codes of an enumeration identify its enumerators.\<close>

lemma CreativeAttribute_code_inject [simp]: "CreativeAttribute_code a = CreativeAttribute_code b \<longleftrightarrow> a = b"
  by (cases a; cases b; simp)

lemma NoBidReason_code_inject [simp]: "NoBidReason_code a = NoBidReason_code b \<longleftrightarrow> a = b"
  by (cases a; cases b; simp)

lemma AdPosition_code_inject [simp]: "AdPosition_code a = AdPosition_code b \<longleftrightarrow> a = b"
  by (cases a; cases b; simp)

end
