(* ===== verification/Entity_Cache.thy ===== *)
theory Entity_Cache
  imports RTB_Prelude "HOL-Library.List_Lexorder" "HOL-Library.Char_ord" "HOL-Library.Product_Lexorder"
begin

text \<open>
  The shared-memory entity caches of \<^verbatim>\<open>rtb/datacache\<close>: the generic \<open>entity_cache\<close> over a
  multi-index container, the three kinds of memory segment and the entity types. The container and
  the memory manager are library code: the cache takes their operations as a parameter, and the
  locale \<open>ordered_unique_index\<close> states the documented laws of a container whose first index is
  ordered and unique. Inside it the cache is shown to behave as a finite map; the locale is
  interpreted on the sorted sequences of every entity type of the program.
\<close>

section \<open>Containers\<close>

record ('e, 'c) index_ops =
  ix_entries :: "'c \<Rightarrow> 'e list"
  ix_insert :: "'e \<Rightarrow> 'c \<Rightarrow> bool \<times> 'c"
  ix_erase :: "('e \<Rightarrow> bool) \<Rightarrow> 'c \<Rightarrow> 'c"
  ix_modify :: "'e \<Rightarrow> 'e \<Rightarrow> 'c \<Rightarrow> bool \<times> 'c"
  ix_clear :: "'c \<Rightarrow> 'c"

text \<open>
  A search key may cover only the leading members of a composite key, so a search is a predicate on
  entries: \<open>find\<close> gives the first matching entry, \<open>equal_range\<close> all of them in order.
\<close>

definition find_in :: "('e, 'c) index_ops \<Rightarrow> ('e \<Rightarrow> bool) \<Rightarrow> 'c \<Rightarrow> 'e option" where
  "find_in ops p c = List.find p (ix_entries ops c)"

definition equal_range :: "('e, 'c) index_ops \<Rightarrow> ('e \<Rightarrow> bool) \<Rightarrow> 'c \<Rightarrow> 'e list" where
  "equal_range ops p c = filter p (ix_entries ops c)"

section \<open>Memory segments\<close>

datatype memory_kind = Shared | Mapped | Heap

definition MEMORY_SIZE :: nat where
  "MEMORY_SIZE = 67108864"

definition convert_base_dir :: "memory_kind \<Rightarrow> string \<Rightarrow> string" where
  "convert_base_dir k base_dir = (case k of Shared \<Rightarrow> [] | Mapped \<Rightarrow> base_dir @ ''/'' | Heap \<Rightarrow> [])"

text \<open>
  Failures: an allocation that does not fit, a null segment pointer, and a container reference used
  after its segment was unmapped.
\<close>

datatype cache_error = Bad_alloc | Null_segment | Dangling_container

record 'c entity_cache =
  ch_store_name :: string
  ch_container :: 'c
  ch_free :: nat

definition new_entity_cache :: "memory_kind \<Rightarrow> 'c \<Rightarrow> string \<Rightarrow> 'c entity_cache" where
  "new_entity_cache k container name =
     \<lparr>ch_store_name = convert_base_dir k ''/tmp/CACHE'' @ name, ch_container = container, ch_free = MEMORY_SIZE\<rparr>"

text \<open>
  \<open>Memory::grow\<close> and \<open>grow_memory\<close>. The segment pointer is reset first; growing a heap segment then
  goes through the null pointer. For the other kinds the segment is closed, grown by the operating
  system (\<open>grown\<close> is the free memory it then has) and opened again, with the container found in it.
\<close>

definition grow_memory :: "memory_kind \<Rightarrow> (nat \<Rightarrow> nat \<Rightarrow> nat) \<Rightarrow> nat \<Rightarrow> 'c entity_cache \<Rightarrow>
    cache_error + 'c entity_cache" where
  "grow_memory k grown n ch =
     (case k of
        Heap \<Rightarrow> Inl Null_segment
      | _ \<Rightarrow> Inr (ch\<lparr>ch_free := grown (ch_free ch) n\<rparr>))"

section \<open>Cache operations\<close>

text \<open>
  \<open>store key data\<close> builds the entity, \<open>need\<close> is the free memory its copy into the segment takes.
\<close>

definition insert_data :: "('e, 'c) index_ops \<Rightarrow> ('e \<Rightarrow> nat) \<Rightarrow> ('k \<Rightarrow> 'd \<Rightarrow> 'e) \<Rightarrow> 'k \<Rightarrow> 'd \<Rightarrow>
    'c entity_cache \<Rightarrow> cache_error + (bool \<times> 'c entity_cache)" where
  "insert_data ops need store key data ch =
     (let item = store key data in
      if need item > ch_free ch then Inl Bad_alloc
      else (let (ok, c) = ix_insert ops item (ch_container ch)
            in Inr (ok, ch\<lparr>ch_container := c, ch_free := (if ok then ch_free ch - need item else ch_free ch)\<rparr>)))"

definition cache_insert :: "('e, 'c) index_ops \<Rightarrow> memory_kind \<Rightarrow> (nat \<Rightarrow> nat \<Rightarrow> nat) \<Rightarrow> ('e \<Rightarrow> nat) \<Rightarrow>
    ('k \<Rightarrow> 'd \<Rightarrow> 'e) \<Rightarrow> 'k \<Rightarrow> 'd \<Rightarrow> 'c entity_cache \<Rightarrow> cache_error + (bool \<times> 'c entity_cache)" where
  "cache_insert ops k grown need store key data ch =
     (case insert_data ops need store key data ch of
        Inr r \<Rightarrow> Inr r
      | Inl _ \<Rightarrow>
          (case grow_memory k grown MEMORY_SIZE ch of
             Inl e \<Rightarrow> Inl e
           | Inr ch' \<Rightarrow> insert_data ops need store key data ch'))"

text \<open>
  \<open>update\<close>: the new entity is assigned to every entry of the range in turn. When its copy does not
  fit, the segment is grown, after which the index reference and the iterators taken before the
  loop refer to the unmapped segment.
\<close>

fun update_loop :: "('e, 'c) index_ops \<Rightarrow> 'e \<Rightarrow> 'e list \<Rightarrow> bool \<Rightarrow> 'c \<Rightarrow> bool \<times> 'c" where
  "update_loop ops item [] is_success c = (is_success, c)"
| "update_loop ops item (itr # rest) is_success c =
     (let (ok, c') = ix_modify ops itr item c in update_loop ops item rest (is_success \<or> ok) c')"

definition cache_update :: "('e, 'c) index_ops \<Rightarrow> memory_kind \<Rightarrow> (nat \<Rightarrow> nat \<Rightarrow> nat) \<Rightarrow> ('e \<Rightarrow> nat) \<Rightarrow>
    ('k \<Rightarrow> 'd \<Rightarrow> 'e) \<Rightarrow> 'k \<Rightarrow> 'd \<Rightarrow> ('e \<Rightarrow> bool) \<Rightarrow> 'c entity_cache \<Rightarrow>
    cache_error + (bool \<times> 'c entity_cache)" where
  "cache_update ops k grown need store key data p ch =
     (let item = store key data;
          range = equal_range ops p (ch_container ch)
      in if range \<noteq> [] \<and> need item > ch_free ch then
           (case grow_memory k grown MEMORY_SIZE ch of Inl e \<Rightarrow> Inl e | Inr _ \<Rightarrow> Inl Dangling_container)
         else (let (ok, c) = update_loop ops item range False (ch_container ch)
               in Inr (ok, ch\<lparr>ch_container := c\<rparr>)))"

definition cache_retrieve_one :: "('e, 'c) index_ops \<Rightarrow> ('e \<Rightarrow> 'd) \<Rightarrow> ('e \<Rightarrow> bool) \<Rightarrow> 'c entity_cache \<Rightarrow> 'd option" where
  "cache_retrieve_one ops retrieve p ch = map_option retrieve (find_in ops p (ch_container ch))"

text \<open>Retrieval of a range appends to the vector given and reports whether the vector is non-empty.\<close>

definition cache_retrieve :: "('e, 'c) index_ops \<Rightarrow> ('e \<Rightarrow> 'd) \<Rightarrow> ('e \<Rightarrow> bool) \<Rightarrow> 'd list \<Rightarrow>
    'c entity_cache \<Rightarrow> bool \<times> 'd list" where
  "cache_retrieve ops retrieve p entries ch =
     (let entries' = entries @ map retrieve (equal_range ops p (ch_container ch))
      in (entries' \<noteq> [], entries'))"

definition cache_retrieve_raw :: "('e, 'c) index_ops \<Rightarrow> ('e \<Rightarrow> bool) \<Rightarrow> 'c entity_cache \<Rightarrow> 'e list" where
  "cache_retrieve_raw ops p ch = equal_range ops p (ch_container ch)"

definition cache_retrieve_all :: "('e, 'c) index_ops \<Rightarrow> ('e \<Rightarrow> 'd) \<Rightarrow> 'd list \<Rightarrow> 'c entity_cache \<Rightarrow>
    bool \<times> 'd list" where
  "cache_retrieve_all ops retrieve entries ch =
     (let entries' = entries @ map retrieve (ix_entries ops (ch_container ch))
      in (entries' \<noteq> [], entries'))"

definition cache_remove :: "('e, 'c) index_ops \<Rightarrow> ('e \<Rightarrow> bool) \<Rightarrow> 'c entity_cache \<Rightarrow> 'c entity_cache" where
  "cache_remove ops p ch = ch\<lparr>ch_container := ix_erase ops p (ch_container ch)\<rparr>"

definition cache_clear :: "('e, 'c) index_ops \<Rightarrow> 'c entity_cache \<Rightarrow> 'c entity_cache" where
  "cache_clear ops ch = ch\<lparr>ch_container := ix_clear ops (ch_container ch)\<rparr>"

section \<open>The contract of an ordered unique index\<close>

locale ordered_unique_index =
  fixes ops :: "('e, 'c) index_ops" and key :: "'e \<Rightarrow> 'k::linorder" and wf_index :: "'c \<Rightarrow> bool"
  assumes entries_sorted: "wf_index c \<Longrightarrow> sorted_wrt (<) (map key (ix_entries ops c))"
    and insert_dup: "wf_index c \<Longrightarrow> key e \<in> key ` set (ix_entries ops c) \<Longrightarrow> ix_insert ops e c = (False, c)"
    and insert_new: "wf_index c \<Longrightarrow> key e \<notin> key ` set (ix_entries ops c) \<Longrightarrow>
      fst (ix_insert ops e c) \<and> wf_index (snd (ix_insert ops e c)) \<and>
      set (ix_entries ops (snd (ix_insert ops e c))) = insert e (set (ix_entries ops c))"
    and erase_entries: "wf_index c \<Longrightarrow> wf_index (ix_erase ops p c) \<and>
      set (ix_entries ops (ix_erase ops p c)) = {e \<in> set (ix_entries ops c). \<not> p e}"
    and modify_ok: "wf_index c \<Longrightarrow> old \<in> set (ix_entries ops c) \<Longrightarrow>
      key new \<notin> key ` (set (ix_entries ops c) - {old}) \<Longrightarrow>
      fst (ix_modify ops old new c) \<and> wf_index (snd (ix_modify ops old new c)) \<and>
      set (ix_entries ops (snd (ix_modify ops old new c))) = insert new (set (ix_entries ops c) - {old})"
    and modify_clash: "wf_index c \<Longrightarrow> old \<in> set (ix_entries ops c) \<Longrightarrow>
      key new \<in> key ` (set (ix_entries ops c) - {old}) \<Longrightarrow>
      \<not> fst (ix_modify ops old new c) \<and> wf_index (snd (ix_modify ops old new c)) \<and>
      set (ix_entries ops (snd (ix_modify ops old new c))) = set (ix_entries ops c) - {old}"
    and clear_entries: "wf_index (ix_clear ops c) \<and> ix_entries ops (ix_clear ops c) = []"
begin

text \<open>A cache as a finite map from keys to entities.\<close>

definition lookup :: "'c entity_cache \<Rightarrow> 'k \<rightharpoonup> 'e" where
  "lookup ch k = find_in ops (\<lambda>e. key e = k) (ch_container ch)"

lemma lookup_cong: "ch_container a = ch_container b \<Longrightarrow> lookup a = lookup b"
  by (simp add: lookup_def fun_eq_iff)

lemma lookup_free [simp]: "lookup (ch\<lparr>ch_free := f\<rparr>) = lookup ch"
  by (rule lookup_cong) simp

lemma keys_inj: "wf_index c \<Longrightarrow> inj_on key (set (ix_entries ops c))"
  using entries_sorted [of c] strict_sorted_iff [of "map key (ix_entries ops c)"]
  by (simp add: distinct_map)

lemma lookup_eq:
  assumes "wf_index (ch_container ch)"
  shows "lookup ch k = Some e \<longleftrightarrow> e \<in> set (ix_entries ops (ch_container ch)) \<and> key e = k"
proof
  assume "lookup ch k = Some e"
  then show "e \<in> set (ix_entries ops (ch_container ch)) \<and> key e = k"
    by (auto simp: lookup_def find_in_def find_Some_iff)
next
  assume a: "e \<in> set (ix_entries ops (ch_container ch)) \<and> key e = k"
  then obtain e' where e': "lookup ch k = Some e'"
    by (cases "lookup ch k") (auto simp: lookup_def find_in_def find_None_iff)
  then have "e' \<in> set (ix_entries ops (ch_container ch)) \<and> key e' = k"
    by (auto simp: lookup_def find_in_def find_Some_iff)
  with a have "e' = e" using inj_onD [OF keys_inj [OF assms], of e' e] by simp
  with e' show "lookup ch k = Some e" by simp
qed

lemma lookup_none:
  "wf_index (ch_container ch) \<Longrightarrow> lookup ch k = None \<longleftrightarrow> k \<notin> key ` set (ix_entries ops (ch_container ch))"
  by (auto simp: lookup_def find_in_def find_None_iff)

lemma lookup_ext:
  assumes "wf_index (ch_container a)" and "\<And>k e. m k = Some e \<longleftrightarrow> e \<in> set (ix_entries ops (ch_container a)) \<and> key e = k"
  shows "lookup a = m"
proof
  fix k
  have "lookup a k = Some e \<longleftrightarrow> m k = Some e" for e
    unfolding assms(2) by (rule lookup_eq [OF assms(1)])
  then show "lookup a k = m k" by (metis option.exhaust)
qed

lemma insert_data_lookup:
  assumes "wf_index (ch_container ch)" and "insert_data ops need store k d ch = Inr (ok, ch')"
  shows "wf_index (ch_container ch') \<and> (ok \<longleftrightarrow> lookup ch (key (store k d)) = None) \<and>
    lookup ch' = (if ok then (lookup ch)(key (store k d) \<mapsto> store k d) else lookup ch)"
proof (cases "key (store k d) \<in> key ` set (ix_entries ops (ch_container ch))")
  case True
  then have "ix_insert ops (store k d) (ch_container ch) = (False, ch_container ch)"
    using assms(1) by (rule insert_dup [rotated])
  then have "\<not> ok" "ch_container ch' = ch_container ch"
    using assms(2) by (auto simp: insert_data_def Let_def split: if_splits)
  moreover have "lookup ch (key (store k d)) \<noteq> None" using True lookup_none [OF assms(1)] by blast
  ultimately show ?thesis using assms(1) lookup_cong [of ch' ch] by simp
next
  case False
  note n = insert_new [OF assms(1) False]
  have x: "e \<in> set (ix_entries ops (ch_container ch)) \<Longrightarrow> key e \<noteq> key (store k d)" for e
    using False by (metis imageI)
  have ch': "ok" "ch_container ch' = snd (ix_insert ops (store k d) (ch_container ch))"
    using assms(2) n by (auto simp: insert_data_def Let_def split_beta split: if_splits)
  have "lookup ch' = (lookup ch)(key (store k d) \<mapsto> store k d)"
  proof (rule lookup_ext)
    show "wf_index (ch_container ch')" using n ch' by simp
  next
    fix q e
    show "((lookup ch)(key (store k d) \<mapsto> store k d)) q = Some e \<longleftrightarrow>
        e \<in> set (ix_entries ops (ch_container ch')) \<and> key e = q"
      using n ch' x lookup_eq [OF assms(1)] by (auto split: if_splits)
  qed
  with ch' n False assms(1) show ?thesis by (simp add: lookup_none)
qed

lemma cache_insert_lookup:
  assumes "wf_index (ch_container ch)" and "cache_insert ops m grown need store k d ch = Inr (ok, ch')"
  shows "wf_index (ch_container ch') \<and> (ok \<longleftrightarrow> lookup ch (key (store k d)) = None) \<and>
    lookup ch' = (if ok then (lookup ch)(key (store k d) \<mapsto> store k d) else lookup ch)"
proof -
  have "\<exists>f. insert_data ops need store k d (ch\<lparr>ch_free := f\<rparr>) = Inr (ok, ch')"
    using assms(2) unfolding cache_insert_def grow_memory_def
    by (auto split: sum.splits memory_kind.splits) (metis entity_cache.surjective entity_cache.update_convs(3))+
  then obtain f where "insert_data ops need store k d (ch\<lparr>ch_free := f\<rparr>) = Inr (ok, ch')" by blast
  with assms(1) insert_data_lookup [of "ch\<lparr>ch_free := f\<rparr>" need store k d ok ch'] show ?thesis by simp
qed

lemma cache_remove_lookup:
  assumes "wf_index (ch_container ch)"
  shows "wf_index (ch_container (cache_remove ops p ch)) \<and>
    lookup (cache_remove ops p ch) = (\<lambda>k. case lookup ch k of Some e \<Rightarrow> if p e then None else Some e | None \<Rightarrow> None)"
proof -
  have w: "wf_index (ch_container (cache_remove ops p ch))"
    using erase_entries [OF assms] by (simp add: cache_remove_def)
  moreover have "lookup (cache_remove ops p ch) =
      (\<lambda>k. case lookup ch k of Some e \<Rightarrow> if p e then None else Some e | None \<Rightarrow> None)"
  proof (rule lookup_ext [OF w])
    fix k e
    have "(case lookup ch k of Some e \<Rightarrow> if p e then None else Some e | None \<Rightarrow> None) = Some e \<longleftrightarrow>
        lookup ch k = Some e \<and> \<not> p e" by (auto split: option.splits)
    then show "(case lookup ch k of Some e \<Rightarrow> if p e then None else Some e | None \<Rightarrow> None) = Some e \<longleftrightarrow>
        e \<in> set (ix_entries ops (ch_container (cache_remove ops p ch))) \<and> key e = k"
      using erase_entries [OF assms, of p] lookup_eq [OF assms, of k e] by (auto simp: cache_remove_def)
  qed
  ultimately show ?thesis by blast
qed

lemma cache_clear_lookup: "wf_index (ch_container (cache_clear ops ch)) \<and> lookup (cache_clear ops ch) = Map.empty"
  using clear_entries by (auto simp: cache_clear_def lookup_def find_in_def fun_eq_iff)

lemma range_unique:
  assumes "wf_index (ch_container ch)"
  shows "equal_range ops (\<lambda>e. key e = k) (ch_container ch) =
    (case lookup ch k of Some e \<Rightarrow> [e] | None \<Rightarrow> [])"
proof (cases "lookup ch k")
  case None
  then have "filter (\<lambda>e. key e = k) (ix_entries ops (ch_container ch)) = []"
    by (simp add: lookup_def find_in_def find_None_iff filter_empty_conv)
  with None show ?thesis by (simp add: equal_range_def)
next
  case (Some old)
  let ?es = "ix_entries ops (ch_container ch)"
  have old: "old \<in> set ?es" "key old = k" using Some lookup_eq [OF assms] by auto
  have "distinct ?es"
    using entries_sorted [OF assms] strict_sorted_iff [of "map key ?es"] by (simp add: distinct_map)
  then have d: "distinct (filter (\<lambda>e. key e = k) ?es)" by simp
  have "set (filter (\<lambda>e. key e = k) ?es) = {old}"
    using old inj_onD [OF keys_inj [OF assms]] by auto
  with d have "filter (\<lambda>e. key e = k) ?es = [old]"
    by (cases "filter (\<lambda>e. key e = k) ?es") (auto simp: insert_eq_iff subset_singleton_iff)
  with Some show ?thesis by (simp add: equal_range_def)
qed

text \<open>Updating the entry of one key with a new entity of the same key.\<close>

lemma cache_update_unique:
  assumes "wf_index (ch_container ch)" and "lookup ch k = Some old" and "key (store q d) = k"
    and "need (store q d) \<le> ch_free ch"
  shows "\<exists>ch'. cache_update ops m grown need store q d (\<lambda>e. key e = k) ch = Inr (True, ch') \<and>
    wf_index (ch_container ch') \<and> lookup ch' = (lookup ch)(k \<mapsto> store q d)"
proof -
  let ?es = "ix_entries ops (ch_container ch)"
  have old: "old \<in> set ?es" "key old = k" using assms(1,2) lookup_eq by auto
  have r: "equal_range ops (\<lambda>e. key e = k) (ch_container ch) = [old]"
    using range_unique [OF assms(1)] assms(2) by simp
  have n: "key (store q d) \<notin> key ` (set ?es - {old})"
    using old assms(3) inj_onD [OF keys_inj [OF assms(1)]] by fastforce
  note m = modify_ok [OF assms(1) old(1) n]
  let ?c = "snd (ix_modify ops old (store q d) (ch_container ch))"
  have u: "cache_update ops m grown need store q d (\<lambda>e. key e = k) ch = Inr (True, ch\<lparr>ch_container := ?c\<rparr>)"
    using r m assms(4) by (simp add: cache_update_def Let_def split_beta)
  have "lookup (ch\<lparr>ch_container := ?c\<rparr>) = (lookup ch)(k \<mapsto> store q d)"
    by (rule lookup_ext)
      (use m old assms(3) lookup_eq [OF assms(1)] inj_onD [OF keys_inj [OF assms(1)]] in \<open>auto split: if_splits\<close>)
  with u m show ?thesis by (intro exI [of _ "ch\<lparr>ch_container := ?c\<rparr>"]) simp
qed

end

section \<open>Sorted sequences\<close>

text \<open>The reference container: a list in the order of the index.\<close>

definition list_ops :: "('e \<Rightarrow> 'k::linorder) \<Rightarrow> ('e, 'e list) index_ops" where
  "list_ops key =
     \<lparr>ix_entries = (\<lambda>c. c),
      ix_insert = (\<lambda>e c. if key e \<in> key ` set c then (False, c) else (True, insort_key key e c)),
      ix_erase = (\<lambda>p c. filter (\<lambda>e. \<not> p e) c),
      ix_modify = (\<lambda>old new c. let c0 = remove1 old c in
         if key new \<in> key ` set c0 then (False, c0) else (True, insort_key key new c0)),
      ix_clear = (\<lambda>c. [])\<rparr>"

definition list_wf :: "('e \<Rightarrow> 'k::linorder) \<Rightarrow> 'e list \<Rightarrow> bool" where
  "list_wf key c \<longleftrightarrow> sorted_wrt (<) (map key c)"

lemma list_wf_iff: "list_wf key c \<longleftrightarrow> sorted (map key c) \<and> distinct (map key c)"
  by (simp add: list_wf_def strict_sorted_iff)

lemma map_insort_key: "map key (insort_key key e c) = insort (key e) (map key c)"
  by (induction c) auto

lemma list_wf_insort: "list_wf key c \<Longrightarrow> key e \<notin> key ` set c \<Longrightarrow> list_wf key (insort_key key e c)"
  by (simp add: list_wf_iff map_insort_key sorted_insort distinct_insort)

lemma list_wf_filter: "list_wf key c \<Longrightarrow> list_wf key (filter p c)"
  by (simp add: list_wf_def sorted_wrt_filter sorted_wrt_map)

lemma list_wf_distinct: "list_wf key c \<Longrightarrow> distinct c"
  by (simp add: list_wf_iff distinct_map)

lemma list_wf_remove1: "list_wf key c \<Longrightarrow> list_wf key (remove1 e c)"
  by (simp add: list_wf_distinct distinct_remove1_removeAll removeAll_filter_not_eq list_wf_filter)

lemma list_ops_index: "ordered_unique_index (list_ops key) key (list_wf key)"
  by unfold_locales
    (auto simp: list_ops_def list_wf_insort list_wf_filter list_wf_remove1 list_wf_distinct set_insort_key Let_def,
     auto simp: list_wf_def)

section \<open>Filling a cache\<close>

text \<open>Inserting a sequence of rows, stopping at the first failure.\<close>

fun insert_all :: "('e, 'c) index_ops \<Rightarrow> memory_kind \<Rightarrow> (nat \<Rightarrow> nat \<Rightarrow> nat) \<Rightarrow> ('e \<Rightarrow> nat) \<Rightarrow>
    ('k \<Rightarrow> 'd \<Rightarrow> 'e) \<Rightarrow> ('k \<times> 'd) list \<Rightarrow> 'c entity_cache \<Rightarrow> cache_error + 'c entity_cache" where
  "insert_all ops m grown need store [] ch = Inr ch"
| "insert_all ops m grown need store ((k, d) # rows) ch =
     (case cache_insert ops m grown need store k d ch of
        Inl e \<Rightarrow> Inl e
      | Inr (_, ch') \<Rightarrow> insert_all ops m grown need store rows ch')"

context ordered_unique_index
begin

text \<open>The first row of a key stays; later rows with the same key are refused.\<close>

lemma insert_all_lookup:
  assumes "wf_index (ch_container ch)" and "insert_all ops m grown need store rows ch = Inr ch'"
  shows "wf_index (ch_container ch') \<and>
    lookup ch' = (\<lambda>k. case lookup ch k of Some e \<Rightarrow> Some e
       | None \<Rightarrow> List.find (\<lambda>e. key e = k) (map (\<lambda>(q, d). store q d) rows))"
  using assms
proof (induction rows arbitrary: ch)
  case Nil
  then show ?case by (auto simp: fun_eq_iff split: option.splits)
next
  case (Cons row rows)
  obtain q d where row: "row = (q, d)" by (cases row)
  from Cons.prems(2) row obtain ok ch1 where
    i: "cache_insert ops m grown need store q d ch = Inr (ok, ch1)"
    and r: "insert_all ops m grown need store rows ch1 = Inr ch'"
    by (auto split: sum.splits)
  note l = cache_insert_lookup [OF Cons.prems(1) i]
  show ?case
    using Cons.IH [OF _ r] l
    by (cases ok) (auto simp: row fun_eq_iff split: option.splits)
qed

lemma entries_lookup:
  assumes "wf_index (ch_container ch)"
  shows "set (ix_entries ops (ch_container ch)) = ran (lookup ch)"
  using lookup_eq [OF assms] by (auto simp: ran_def)

lemma range_sorted:
  assumes "wf_index (ch_container ch)"
  shows "sorted_wrt (<) (map key (equal_range ops p (ch_container ch)))"
  using entries_sorted [OF assms] by (simp add: equal_range_def sorted_wrt_map sorted_wrt_filter)

text \<open>A range holds the first rows of the matching keys, in the order of the keys.\<close>

lemma insert_all_range:
  assumes "wf_index c" and "ix_entries ops c = []" and "ch_container ch = c"
    and "insert_all ops m grown need store rows ch = Inr ch'"
  shows "set (equal_range ops p (ch_container ch')) =
      {e. p e \<and> List.find (\<lambda>x. key x = key e) (map (\<lambda>(q, d). store q d) rows) = Some e} \<and>
    sorted_wrt (<) (map key (equal_range ops p (ch_container ch')))"
proof -
  have w: "wf_index (ch_container ch)" using assms(1,3) by simp
  have "lookup ch = Map.empty" using assms(2,3) by (auto simp: lookup_def find_in_def)
  then have l: "wf_index (ch_container ch')"
      "lookup ch' = (\<lambda>k. List.find (\<lambda>e. key e = k) (map (\<lambda>(q, d). store q d) rows))"
    using insert_all_lookup [OF w assms(4)] by simp_all
  have "set (equal_range ops p (ch_container ch')) =
      {e. p e \<and> List.find (\<lambda>x. key x = key e) (map (\<lambda>(q, d). store q d) rows) = Some e}"
    using lookup_eq [OF l(1)] by (auto simp: equal_range_def l(2))
  with range_sorted [OF l(1)] show ?thesis by blast
qed

end

section \<open>Entities of the library\<close>

text \<open>
  The payload is kept as a binary archive; \<open>archive\<close> and \<open>unarchive\<close> are the archive library's
  output and input. Storing appends the archive to the blob.
\<close>

record base_entity =
  be_blob :: string

definition base_store :: "('d \<Rightarrow> string) \<Rightarrow> 'd \<Rightarrow> 'a base_entity_scheme \<Rightarrow> 'a base_entity_scheme" where
  "base_store archive d e = e\<lparr>be_blob := be_blob e @ archive d\<rparr>"

definition base_retrieve :: "(string \<Rightarrow> 'd) \<Rightarrow> 'a base_entity_scheme \<Rightarrow> 'd" where
  "base_retrieve unarchive e = unarchive (be_blob e)"

definition base_apply :: "'a base_entity_scheme \<Rightarrow> 'b base_entity_scheme \<Rightarrow> 'b base_entity_scheme" where
  "base_apply self entry = entry\<lparr>be_blob := be_blob self\<rparr>"

record ad_entity = base_entity +
  ade_campaign_id :: u32
  ade_width :: u16
  ade_height :: u16
  ade_ad_id :: u64

definition new_ad_entity :: ad_entity where
  "new_ad_entity = \<lparr>be_blob = [], ade_campaign_id = 0, ade_width = 0, ade_height = 0, ade_ad_id = 0\<rparr>"

definition ad_store :: "('d \<Rightarrow> string) \<Rightarrow> u32 \<times> u16 \<times> u16 \<times> u64 \<Rightarrow> 'd \<Rightarrow> ad_entity" where
  "ad_store archive k d =
     (case k of (campaign_id, width, height, ad_id) \<Rightarrow>
        (base_store archive d new_ad_entity)\<lparr>ade_campaign_id := campaign_id, ade_width := width,
          ade_height := height, ade_ad_id := ad_id\<rparr>)"

definition ad_retrieve :: "(string \<Rightarrow> 'd) \<Rightarrow> ad_entity \<Rightarrow> 'd" where
  "ad_retrieve unarchive e = base_retrieve unarchive e"

definition ad_apply :: "ad_entity \<Rightarrow> ad_entity \<Rightarrow> ad_entity" where
  "ad_apply self entry = (base_apply self entry)\<lparr>ade_campaign_id := ade_campaign_id self,
     ade_width := ade_width self, ade_height := ade_height self, ade_ad_id := ade_ad_id self\<rparr>"

definition ad_key :: "ad_entity \<Rightarrow> u32 \<times> u16 \<times> u16 \<times> u64" where
  "ad_key e = (ade_campaign_id e, ade_width e, ade_height e, ade_ad_id e)"

record campaign_entity = base_entity +
  ce_campaign_id :: u32

definition campaign_store :: "('d \<Rightarrow> string) \<Rightarrow> u32 \<Rightarrow> 'd \<Rightarrow> campaign_entity" where
  "campaign_store archive k d =
     (base_store archive d \<lparr>be_blob = [], ce_campaign_id = 0\<rparr>)\<lparr>ce_campaign_id := k\<rparr>"

definition campaign_retrieve :: "(string \<Rightarrow> 'd) \<Rightarrow> campaign_entity \<Rightarrow> 'd" where
  "campaign_retrieve unarchive e = base_retrieve unarchive e"

definition campaign_apply :: "campaign_entity \<Rightarrow> campaign_entity \<Rightarrow> campaign_entity" where
  "campaign_apply self entry = (base_apply self entry)\<lparr>ce_campaign_id := ce_campaign_id self\<rparr>"

record account_entity =
  ac_parent_account :: string
  ac_child_account :: string
  ac_blob :: string

definition account_store :: "('d \<Rightarrow> string) \<Rightarrow> string \<times> string \<Rightarrow> 'd \<Rightarrow> account_entity" where
  "account_store archive k d =
     (case k of (key_parent, key_child) \<Rightarrow>
        \<lparr>ac_parent_account = key_parent, ac_child_account = key_child, ac_blob = archive d\<rparr>)"

definition account_retrieve :: "(string \<Rightarrow> 'd) \<Rightarrow> account_entity \<Rightarrow> 'd" where
  "account_retrieve unarchive e = unarchive (ac_blob e)"

definition account_apply :: "account_entity \<Rightarrow> account_entity \<Rightarrow> account_entity" where
  "account_apply self entry = entry\<lparr>ac_parent_account := ac_parent_account self,
     ac_child_account := ac_child_account self, ac_blob := ac_blob self\<rparr>"

definition campaign_key :: "campaign_entity \<Rightarrow> u32" where
  "campaign_key e = ce_campaign_id e"

definition account_key :: "account_entity \<Rightarrow> string \<times> string" where
  "account_key e = (ac_parent_account e, ac_child_account e)"

interpretation ad_index: ordered_unique_index "list_ops ad_key" ad_key "list_wf ad_key"
  by (rule list_ops_index)

interpretation campaign_index: ordered_unique_index "list_ops campaign_key" campaign_key "list_wf campaign_key"
  by (rule list_ops_index)

interpretation account_index: ordered_unique_index "list_ops account_key" account_key "list_wf account_key"
  by (rule list_ops_index)

text \<open>Assigning an entity over another, as \<open>modify\<close> does, makes them equal.\<close>

lemma apply_is_assignment [simp]:
  "ad_apply a b = a" "campaign_apply c d = c" "account_apply e f = e"
  by (simp_all add: ad_apply_def campaign_apply_def account_apply_def base_apply_def)

lemma ad_key_store [simp]: "ad_key (ad_store archive k d) = k"
  by (simp add: ad_key_def ad_store_def split_beta)

lemma ad_retrieve_store [simp]: "ad_retrieve unarchive (ad_store archive k d) = unarchive (archive d)"
  by (simp add: ad_retrieve_def base_retrieve_def ad_store_def base_store_def new_ad_entity_def split_beta)

section \<open>Properties\<close>

text \<open>
  C37: the ad cache is a map from (campaign, width, height, ad) to payloads, on any container that
  obeys the laws of an ordered unique index. When an insertion returns, it reports success exactly
  if the key was not there; then a retrieval by that key gives the inserted payload, otherwise the
  one that was there, and a retrieval by any other key gives what it gave before.
\<close>

theorem ad_cache_insert_retrieve:
  assumes "ordered_unique_index ops ad_key wf_index" and "wf_index (ch_container ch)"
    and "\<And>d. unarchive (archive d) = d"
    and "cache_insert ops m grown need (ad_store archive) k d ch = Inr (ok, ch')"
  shows "let get = (\<lambda>c q. cache_retrieve_one ops (ad_retrieve unarchive) (\<lambda>e. ad_key e = q) c) in
    wf_index (ch_container ch') \<and> (ok \<longleftrightarrow> get ch k = None) \<and>
    get ch' k = (if ok then Some d else get ch k) \<and> (\<forall>q. q \<noteq> k \<longrightarrow> get ch' q = get ch q)"
proof -
  note l = ordered_unique_index.cache_insert_lookup [OF assms(1,2,4)]
    and d = ordered_unique_index.lookup_def [OF assms(1)]
  have g: "cache_retrieve_one ops (ad_retrieve unarchive) (\<lambda>e. ad_key e = q) c =
      map_option (ad_retrieve unarchive) (ordered_unique_index.lookup ops ad_key c q)" for c q
    by (simp add: cache_retrieve_one_def d)
  show ?thesis unfolding Let_def g using l assms(3) by auto
qed

theorem ad_cache_insert_retrieve_witness:
  "let ch = new_entity_cache Shared [] ''ads'';
       ch' = snd (sum.projr (cache_insert (list_ops ad_key) Shared (+) (\<lambda>_. 1) (ad_store id) (1, 2, 3, 4) ''x'' ch))
   in cache_retrieve_one (list_ops ad_key) (ad_retrieve id) (\<lambda>e. ad_key e = (1, 2, 3, 4)) ch' = Some ''x''"
proof -
  let ?ch = "new_entity_cache Shared [] ''ads''"
  let ?i = "cache_insert (list_ops ad_key) Shared (+) (\<lambda>_. 1) (ad_store id) (1, 2, 3, 4) ''x'' ?ch"
  have i: "?i = Inr (True, ?ch\<lparr>ch_container := [ad_store id (1, 2, 3, 4) ''x''], ch_free := MEMORY_SIZE - 1\<rparr>)"
    by (simp add: cache_insert_def insert_data_def new_entity_cache_def list_ops_def MEMORY_SIZE_def)
  have "ordered_unique_index (list_ops ad_key) ad_key (list_wf ad_key)"
    by (rule ad_index.ordered_unique_index_axioms)
  note r = ad_cache_insert_retrieve [OF this, of ?ch id id, OF _ _ i]
  show ?thesis unfolding Let_def i
    using r by (simp add: Let_def list_wf_def new_entity_cache_def)
qed

text \<open>
  Running out of memory. An insertion that does not fit is retried after the segment was grown
  and succeeds when the grown segment has room, for shared and mapped memory; on heap memory it
  fails on the null segment. An update of a non-empty range that does not fit fails in every case,
  because it goes on with the container of the segment that was unmapped.
\<close>

theorem cache_out_of_memory:
  assumes "need (store k d) > ch_free ch"
  shows "(m \<noteq> Heap \<and> need (store k d) \<le> grown (ch_free ch) MEMORY_SIZE \<longrightarrow>
      (\<exists>ok ch'. cache_insert ops m grown need store k d ch = Inr (ok, ch') \<and>
         ok = fst (ix_insert ops (store k d) (ch_container ch)) \<and>
         ch_container ch' = snd (ix_insert ops (store k d) (ch_container ch)))) \<and>
    (m = Heap \<longrightarrow> cache_insert ops m grown need store k d ch = Inl Null_segment) \<and>
    (equal_range ops p (ch_container ch) \<noteq> [] \<longrightarrow>
      cache_update ops m grown need store k d p ch = Inl (if m = Heap then Null_segment else Dangling_container))"
  using assms
  by (cases m)
    (auto simp: cache_insert_def insert_data_def cache_update_def grow_memory_def Let_def split_beta)

theorem cache_out_of_memory_witness:
  "cache_insert (list_ops ad_key) Heap (+) (\<lambda>_. 1) (ad_store id) (1, 2, 3, 4) ''x''
     \<lparr>ch_store_name = [], ch_container = [], ch_free = 0\<rparr> = Inl Null_segment"
  using cache_out_of_memory [of "\<lparr>ch_store_name = [], ch_container = [], ch_free = 0\<rparr>"
      "\<lambda>_. 1" "ad_store id" "(1, 2, 3, 4)" "''x''" Heap "(+)" "list_ops ad_key" "\<lambda>_. True"]
  by simp

end
