(* ===== verification/Text_Records.thy ===== *)
theory Text_Records
  imports RTB_Prelude
begin

text \<open>
  Reading tab-separated data files: \<open>split_string\<close> of \<^verbatim>\<open>rtb/common/split_string.hpp\<close>, the line reader
  and the numeric conversions of the C library the matchers use.
\<close>

section \<open>Splitting a record\<close>

text \<open>\<open>strpbrk\<close>: the position of the first delimiter before the terminator.\<close>

fun strpbrk :: "string \<Rightarrow> string \<Rightarrow> nat option" where
  "strpbrk delims [] = None"
| "strpbrk delims (c # cs) =
     (if c = CHR 0x00 then None
      else if c \<in> set delims then Some 0
      else map_option Suc (strpbrk delims cs))"

lemma strpbrk_less: "strpbrk delims s = Some i \<Longrightarrow> i < length s"
  by (induction s arbitrary: i) (auto split: if_splits)

function split_loop :: "string \<Rightarrow> string \<Rightarrow> string list" where
  "split_loop delims rest =
     (case strpbrk delims rest of
        Some i \<Rightarrow> take i rest # split_loop delims (drop (i + 1) rest)
      | None \<Rightarrow> if rest = [] then [] else [rest])"
  by pat_completeness auto
termination by (relation "measure (\<lambda>(delims, rest). length rest)") (auto dest: strpbrk_less)

declare split_loop.simps [simp del]

text \<open>
  The first search starts at the second character. On an empty record that is behind the
  terminator, a read out of bounds: no result.
\<close>

definition split_string :: "string \<Rightarrow> string \<Rightarrow> string list option" where
  "split_string s delims =
     (if s = [] then None
      else Some
        (case strpbrk delims (tl s) of
           Some i \<Rightarrow> take (i + 1) s # split_loop delims (drop (i + 2) s)
         | None \<Rightarrow> [s]))"

text \<open>Joining fields with a separator.\<close>

fun join :: "char \<Rightarrow> string list \<Rightarrow> string" where
  "join sep [] = []"
| "join sep [f] = f"
| "join sep (f # g # fs) = f @ sep # join sep (g # fs)"

definition clean_field :: "char \<Rightarrow> string \<Rightarrow> bool" where
  "clean_field sep f \<longleftrightarrow> sep \<notin> set f \<and> CHR 0x00 \<notin> set f"

lemma strpbrk_clean: "clean_field sep f \<Longrightarrow> sep \<noteq> CHR 0x00 \<Longrightarrow>
    strpbrk [sep] (f @ sep # rest) = Some (length f)"
  by (induction f) (auto simp: clean_field_def)

lemma strpbrk_clean_none: "clean_field sep f \<Longrightarrow> strpbrk [sep] f = None"
  by (induction f) (auto simp: clean_field_def)

lemma split_loop_join:
  "fs \<noteq> [] \<Longrightarrow> list_all (clean_field sep) fs \<Longrightarrow> last fs \<noteq> [] \<Longrightarrow> sep \<noteq> CHR 0x00 \<Longrightarrow>
     split_loop [sep] (join sep fs) = fs"
proof (induction sep fs rule: join.induct)
  case (2 sep f)
  then show ?case by (subst split_loop.simps) (simp add: strpbrk_clean_none)
next
  case (3 sep f g fs)
  then show ?case by (subst split_loop.simps) (simp add: strpbrk_clean)
qed simp

lemma split_string_joined:
  assumes "fs \<noteq> []" and "list_all (clean_field sep) fs" and "hd fs \<noteq> []" and "last fs \<noteq> []"
    and "sep \<noteq> CHR 0x00"
  shows "split_string (join sep fs) [sep] = Some fs"
proof -
  obtain a f where f: "hd fs = a # f" using assms(3) by (cases "hd fs") auto
  have cf: "clean_field sep (a # f)" using assms(1,2) f by (cases fs) auto
  then have c: "clean_field sep f" by (simp add: clean_field_def)
  show ?thesis
  proof (cases "tl fs")
    case Nil
    then have "fs = [a # f]" using assms(1) f by (cases fs) auto
    then show ?thesis using c by (simp add: split_string_def strpbrk_clean_none)
  next
    case (Cons g gs)
    then have fs: "fs = (a # f) # g # gs" using assms(1) f by (cases fs) auto
    have "split_loop [sep] (join sep (g # gs)) = g # gs"
      using assms fs by (intro split_loop_join) auto
    moreover have "strpbrk [sep] (f @ sep # join sep (g # gs)) = Some (length f)"
      using c assms(5) by (rule strpbrk_clean)
    ultimately show ?thesis by (simp add: fs split_string_def)
  qed
qed

text \<open>
  Splitting undoes joining. A record of fields without separators and zero bytes whose first
  and last fields are not empty is split into exactly these fields.
\<close>

theorem split_string_join:
  assumes "fs \<noteq> []" and "list_all (clean_field sep) fs" and "hd fs \<noteq> []" and "last fs \<noteq> []"
    and "sep \<noteq> CHR 0x00"
  shows "split_string (join sep fs) [sep] = Some fs"
  using assms by (rule split_string_joined)

theorem split_string_join_witness:
  "split_string (join (CHR 0x09) [''1'', [], ''ab'']) [CHR 0x09] = Some [''1'', [], ''ab'']"
  by (rule split_string_join) (simp_all add: clean_field_def)

text \<open>An empty first field is not recognised: its separator becomes part of the first field.\<close>

lemma split_string_leading_separator:
  "clean_field sep f \<Longrightarrow> split_string (sep # f) [sep] = Some [sep # f]"
  by (simp add: split_string_def strpbrk_clean_none)

section \<open>Lines and numbers\<close>

text \<open>The records \<open>std::getline\<close> delivers until the end of the file.\<close>

fun getlines_from :: "string \<Rightarrow> string \<Rightarrow> string list" where
  "getlines_from acc [] = (if acc = [] then [] else [acc])"
| "getlines_from acc (c # cs) =
     (if c = CHR 0x0A then acc # getlines_from [] cs else getlines_from (acc @ [c]) cs)"

definition getlines :: "string \<Rightarrow> string list" where
  "getlines s = getlines_from [] s"

definition unlines :: "string list \<Rightarrow> string" where
  "unlines ls = concat (map (\<lambda>l. l @ [CHR 0x0A]) ls)"

lemma getlines_from_line: "CHR 0x0A \<notin> set l \<Longrightarrow> getlines_from acc (l @ CHR 0x0A # cs) = (acc @ l) # getlines_from [] cs"
  by (induction l arbitrary: acc) auto

lemma getlines_unlines: "list_all (\<lambda>l. CHR 0x0A \<notin> set l) ls \<Longrightarrow> getlines (unlines ls) = ls"
  by (induction ls) (simp_all add: getlines_def unlines_def getlines_from_line)

text \<open>\<open>atol\<close> of a decimal string: leading white space and a sign are accepted, the longest run of
  digits is converted. Values beyond \<open>long\<close> are not represented.\<close>

definition atol :: "string \<Rightarrow> int" where
  "atol s =
     (let s1 = dropWhile (\<lambda>c. char_int c = 32 \<or> (9 \<le> char_int c \<and> char_int c \<le> 13)) s
      in case s1 of
           [] \<Rightarrow> 0
         | c # cs \<Rightarrow>
             if c = CHR ''-'' then - int (dec_value (takeWhile is_digit_char cs))
             else if c = CHR ''+'' then int (dec_value (takeWhile is_digit_char cs))
             else int (dec_value (takeWhile is_digit_char s1)))"

lemma atol_to_string: "atol (to_string n) = int n"
proof -
  obtain c cs where c: "to_string n = c # cs" by (cases "to_string n") auto
  have d: "is_digit_char x" if "x \<in> set (c # cs)" for x using that c to_string_digits by metis
  then have "takeWhile is_digit_char (c # cs) = c # cs" by (simp add: takeWhile_eq_all_conv)
  moreover have "48 \<le> char_int c" using d [of c] by (simp add: is_digit_char_def)
  moreover have "char_int CHR ''-'' = 45" "char_int CHR ''+'' = 43" by (simp_all add: char_int_def)
  ultimately have "atol (c # cs) = int (dec_value (c # cs))" by (auto simp: atol_def Let_def)
  with c show ?thesis by (metis dec_value_to_string)
qed

end
