(* ===== verification/Matchers.thy ===== *)
theory Matchers
  imports Entity_Cache Text_Records
begin

text \<open>
  The data matchers of \<^verbatim>\<open>examples/matchers\<close> with the entities of \<^verbatim>\<open>examples/datacache\<close>: ads, geo
  locations, geo campaigns, domains and ICO campaigns. Each reads a tab-separated file into an
  entity cache and answers queries by the leading members of the key. \<open>boost::lexical_cast\<close> and
  \<open>boost::split\<close> are parameters.
\<close>

section \<open>Loading a file\<close>

datatype load_error =
    Could_not_open string
  | Bad_field
  | Field_out_of_range
  | Empty_record
  | Cache_failed cache_error

text \<open>
  The stream iterator keeps one row, which each line is read into; \<open>read\<close> leaves it unchanged on a
  line with too few fields. Every row read is inserted.
\<close>

fun load_loop :: "('r \<Rightarrow> string \<Rightarrow> load_error + 'r) \<Rightarrow>
    ('r \<Rightarrow> 'c entity_cache \<Rightarrow> cache_error + (bool \<times> 'c entity_cache)) \<Rightarrow>
    'r \<Rightarrow> string list \<Rightarrow> 'c entity_cache \<Rightarrow> load_error + 'c entity_cache" where
  "load_loop read ins r [] ch = Inr ch"
| "load_loop read ins r (l # ls) ch =
     (case read r l of
        Inl e \<Rightarrow> Inl e
      | Inr r' \<Rightarrow>
          (case ins r' ch of
             Inl e \<Rightarrow> Inl (Cache_failed e)
           | Inr (_, ch') \<Rightarrow> load_loop read ins r' ls ch'))"

definition load_file :: "(string \<Rightarrow> string option) \<Rightarrow> string \<Rightarrow> ('e, 'c) index_ops \<Rightarrow>
    ('r \<Rightarrow> string \<Rightarrow> load_error + 'r) \<Rightarrow>
    ('r \<Rightarrow> 'c entity_cache \<Rightarrow> cache_error + (bool \<times> 'c entity_cache)) \<Rightarrow> 'r \<Rightarrow>
    'c entity_cache \<Rightarrow> load_error + 'c entity_cache" where
  "load_file open_file source ops read ins r0 ch =
     (case open_file source of
        None \<Rightarrow> Inl (Could_not_open source)
      | Some text \<Rightarrow> load_loop read ins r0 (getlines text) (cache_clear ops ch))"

text \<open>The rows a sequence of lines is read as.\<close>

fun read_rows :: "('r \<Rightarrow> string \<Rightarrow> load_error + 'r) \<Rightarrow> 'r \<Rightarrow> string list \<Rightarrow> load_error + 'r list" where
  "read_rows read r [] = Inr []"
| "read_rows read r (l # ls) =
     (case read r l of
        Inl e \<Rightarrow> Inl e
      | Inr r' \<Rightarrow> (case read_rows read r' ls of Inl e \<Rightarrow> Inl e | Inr rs \<Rightarrow> Inr (r' # rs)))"

lemma load_loop_insert_all:
  assumes "load_loop read (\<lambda>r. cache_insert ops m grown need store (k r) r) r ls ch = Inr ch'"
  shows "\<exists>rs. read_rows read r ls = Inr rs \<and>
    insert_all ops m grown need store (map (\<lambda>r. (k r, r)) rs) ch = Inr ch'"
  using assms
proof (induction ls arbitrary: r ch)
  case (Cons l ls)
  then obtain r' where r': "read r l = Inr r'" by (auto split: sum.splits)
  with Cons.prems obtain ok ch1 where
    i: "cache_insert ops m grown need store (k r') r' ch = Inr (ok, ch1)"
    and "load_loop read (\<lambda>r. cache_insert ops m grown need store (k r) r) r' ls ch1 = Inr ch'"
    by (auto split: sum.splits)
  with Cons.IH obtain rs where "read_rows read r' ls = Inr rs"
    "insert_all ops m grown need store (map (\<lambda>r. (k r, r)) rs) ch1 = Inr ch'" by blast
  with r' i show ?case by auto
qed simp

section \<open>Ads\<close>

record Ad =
  ad_id :: u64
  ad_campaign_id :: u32
  ad_width :: u16
  ad_height :: u16
  ad_position :: u16
  ad_max_bid_micros :: u64
  ad_auth_bid_micros :: "u64 option"
  ad_code :: string

definition new_Ad :: Ad where
  "new_Ad = \<lparr>ad_id = 0, ad_campaign_id = 0, ad_width = 0, ad_height = 0, ad_position = 0,
     ad_max_bid_micros = 0, ad_auth_bid_micros = None, ad_code = []\<rparr>"

definition print_Ad :: "Ad \<Rightarrow> string" where
  "print_Ad v = to_string (unat (ad_id v)) @ ''|'' @ to_string (unat (ad_campaign_id v)) @ ''|'' @
     to_string (unat (ad_width v)) @ ''|'' @ to_string (unat (ad_height v)) @ ''|'' @
     to_string (unat (ad_position v)) @ ''|'' @ to_string (unat (ad_max_bid_micros v)) @ ''|'' @ ad_code v"

text \<open>
  Reading a row. The code is the C string that starts at the seventh field, so it extends over the
  rest of the record; the check only asks for six fields.
\<close>

definition read_Ad :: "(string \<Rightarrow> u64 option) \<Rightarrow> (string \<Rightarrow> u16 option) \<Rightarrow> Ad \<Rightarrow> string \<Rightarrow> load_error + Ad" where
  "read_Ad cast64 cast16 l line =
     (case split_string line [CHR 0x09] of
        None \<Rightarrow> Inl Empty_record
      | Some cols \<Rightarrow>
          if length cols < 6 then Inr l
          else
            (case (cast64 (cols ! 0), cast64 (cols ! 1), cast16 (cols ! 2), cast16 (cols ! 3),
                   cast16 (cols ! 4), cast64 (cols ! 5)) of
               (Some i, Some c, Some w, Some h, Some p, Some b) \<Rightarrow>
                 if length cols < 7 then Inl Field_out_of_range
                 else Inr (l\<lparr>ad_id := i, ad_campaign_id := ucast c, ad_width := w, ad_height := h,
                   ad_position := p, ad_max_bid_micros := b,
                   ad_code := c_str (drop (sum_list (map (\<lambda>f. length f + 1) (take 6 cols))) line)\<rparr>)
             | _ \<Rightarrow> Inl Bad_field))"

record example_ad_entity =
  xad_ad_id :: u64
  xad_campaign_id :: u32
  xad_width :: u16
  xad_height :: u16
  xad_position :: u64
  xad_max_bid_micros :: u64
  xad_code :: string

type_synonym ad_keys = "u32 \<times> u16 \<times> u16 \<times> u64"

definition xad_store :: "ad_keys \<Rightarrow> Ad \<Rightarrow> example_ad_entity" where
  "xad_store k d =
     (case k of (campaign_id, width, height, aid) \<Rightarrow>
        \<lparr>xad_ad_id = aid, xad_campaign_id = campaign_id, xad_width = width, xad_height = height,
         xad_position = ucast (ad_position d), xad_max_bid_micros = ad_max_bid_micros d,
         xad_code = ad_code d\<rparr>)"

definition xad_retrieve :: "example_ad_entity \<Rightarrow> Ad" where
  "xad_retrieve e = new_Ad\<lparr>ad_campaign_id := xad_campaign_id e, ad_width := xad_width e,
     ad_height := xad_height e, ad_id := xad_ad_id e, ad_position := ucast (xad_position e),
     ad_max_bid_micros := xad_max_bid_micros e, ad_code := xad_code e\<rparr>"

definition xad_apply :: "example_ad_entity \<Rightarrow> example_ad_entity \<Rightarrow> example_ad_entity" where
  "xad_apply self entry = entry\<lparr>xad_campaign_id := xad_campaign_id self, xad_width := xad_width self,
     xad_height := xad_height self, xad_ad_id := xad_ad_id self, xad_position := xad_position self,
     xad_max_bid_micros := xad_max_bid_micros self, xad_code := xad_code self\<rparr>"

definition xad_key :: "example_ad_entity \<Rightarrow> ad_keys" where
  "xad_key e = (xad_campaign_id e, xad_width e, xad_height e, xad_ad_id e)"

definition Ad_keys :: "Ad \<Rightarrow> ad_keys" where
  "Ad_keys a = (ad_campaign_id a, ad_width a, ad_height a, ad_id a)"

definition AdDataEntity_load where
  "AdDataEntity_load open_file ads_source ops m grown need cast64 cast16 ch =
     load_file open_file ads_source ops (read_Ad cast64 cast16)
       (\<lambda>ad. cache_insert ops m grown need xad_store (Ad_keys ad) ad) new_Ad ch"

text \<open>Retrieval by campaign, width and height: the matching ads are appended.\<close>

definition AdDataEntity_retrieve :: "(example_ad_entity, 'c) index_ops \<Rightarrow> Ad list \<Rightarrow> u32 \<Rightarrow> u16 \<Rightarrow> u16 \<Rightarrow>
    'c entity_cache \<Rightarrow> bool \<times> Ad list" where
  "AdDataEntity_retrieve ops ads campaign_id width height ch =
     (let range = cache_retrieve_raw ops
        (\<lambda>e. xad_campaign_id e = campaign_id \<and> xad_width e = width \<and> xad_height e = height) ch
      in (range \<noteq> [], ads @ map xad_retrieve range))"

section \<open>Geo locations\<close>

record GeoRow =
  gr_geo_id :: u32
  gr_city :: string
  gr_country :: string
  gr_record :: string

definition new_GeoRow :: GeoRow where
  "new_GeoRow = \<lparr>gr_geo_id = 0, gr_city = [], gr_country = [], gr_record = []\<rparr>"

definition read_GeoRow :: "(string \<Rightarrow> string list) \<Rightarrow> GeoRow \<Rightarrow> string \<Rightarrow> load_error + GeoRow" where
  "read_GeoRow split_compress l line =
     (let l1 = l\<lparr>gr_record := line\<rparr>; cols = split_compress line
      in if length cols < 3 then Inr l1
         else Inr (l1\<lparr>gr_geo_id := word_of_int (atol (c_str (cols ! 0))), gr_city := cols ! 1,
           gr_country := cols ! 2\<rparr>))"

record city_country_entity =
  cc_city :: string
  cc_country :: string
  cc_geo_id :: u32

definition cc_store :: "string \<times> string \<Rightarrow> GeoRow \<Rightarrow> city_country_entity" where
  "cc_store k d = (case k of (city, country) \<Rightarrow>
     \<lparr>cc_city = city, cc_country = country, cc_geo_id = gr_geo_id d\<rparr>)"

definition cc_retrieve :: "city_country_entity \<Rightarrow> GeoRow" where
  "cc_retrieve e = new_GeoRow\<lparr>gr_city := cc_city e, gr_country := cc_country e, gr_geo_id := cc_geo_id e\<rparr>"

definition cc_apply :: "city_country_entity \<Rightarrow> city_country_entity \<Rightarrow> city_country_entity" where
  "cc_apply self entry = entry\<lparr>cc_city := cc_city self, cc_country := cc_country self, cc_geo_id := cc_geo_id self\<rparr>"

definition cc_key :: "city_country_entity \<Rightarrow> string \<times> string" where
  "cc_key e = (cc_city e, cc_country e)"

definition GeoDataEntity_load where
  "GeoDataEntity_load open_file geo_source ops m grown need split_compress ch =
     load_file open_file geo_source ops (read_GeoRow split_compress)
       (\<lambda>g. cache_insert ops m grown need cc_store (to_lower_copy (gr_city g), to_lower_copy (gr_country g)) g)
       new_GeoRow ch"

definition GeoDataEntity_retrieve :: "(city_country_entity, 'c) index_ops \<Rightarrow> string \<Rightarrow> string \<Rightarrow>
    'c entity_cache \<Rightarrow> GeoRow option" where
  "GeoDataEntity_retrieve ops city country ch =
     cache_retrieve_one ops cc_retrieve (\<lambda>e. cc_key e = (city, country)) ch"

definition GeoDataEntity_retrieve_vect :: "(city_country_entity, 'c) index_ops \<Rightarrow> GeoRow list \<Rightarrow> string \<Rightarrow> string \<Rightarrow>
    'c entity_cache \<Rightarrow> bool \<times> GeoRow list" where
  "GeoDataEntity_retrieve_vect ops vect city country ch =
     cache_retrieve ops cc_retrieve (\<lambda>e. cc_key e = (city, country)) vect ch"

section \<open>Geo campaigns\<close>

record GeoCampaign =
  gc_geo_id :: u32
  gc_campaign_id :: u32

definition new_GeoCampaign :: GeoCampaign where
  "new_GeoCampaign = \<lparr>gc_geo_id = 0, gc_campaign_id = 0\<rparr>"

definition print_GeoCampaign :: "GeoCampaign \<Rightarrow> string" where
  "print_GeoCampaign v = ''{'' @ to_string (unat (gc_geo_id v)) @ ''|'' @ to_string (unat (gc_campaign_id v)) @ ''}''"

definition read_GeoCampaign :: "(string \<Rightarrow> u32 option) \<Rightarrow> GeoCampaign \<Rightarrow> string \<Rightarrow> load_error + GeoCampaign" where
  "read_GeoCampaign cast32 d line =
     (case split_string line [CHR 0x09] of
        None \<Rightarrow> Inl Empty_record
      | Some cols \<Rightarrow>
          if length cols < 2 then Inr d
          else (case (cast32 (cols ! 0), cast32 (cols ! 1)) of
                  (Some g, Some c) \<Rightarrow> Inr (d\<lparr>gc_geo_id := g, gc_campaign_id := c\<rparr>)
                | _ \<Rightarrow> Inl Bad_field))"

definition gc_store :: "u32 \<Rightarrow> GeoCampaign \<Rightarrow> GeoCampaign" where
  "gc_store k d = new_GeoCampaign\<lparr>gc_geo_id := k, gc_campaign_id := gc_campaign_id d\<rparr>"

definition gc_retrieve :: "GeoCampaign \<Rightarrow> GeoCampaign" where
  "gc_retrieve e = new_GeoCampaign\<lparr>gc_geo_id := gc_geo_id e, gc_campaign_id := gc_campaign_id e\<rparr>"

definition gc_apply :: "GeoCampaign \<Rightarrow> GeoCampaign \<Rightarrow> GeoCampaign" where
  "gc_apply self entry = entry\<lparr>gc_geo_id := gc_geo_id self, gc_campaign_id := gc_campaign_id self\<rparr>"

definition gc_key :: "GeoCampaign \<Rightarrow> u32 \<times> u32" where
  "gc_key e = (gc_geo_id e, gc_campaign_id e)"

definition GeoCampaignEntity_load where
  "GeoCampaignEntity_load open_file source ops m grown need cast32 ch =
     load_file open_file source ops (read_GeoCampaign cast32)
       (\<lambda>d. cache_insert ops m grown need gc_store (gc_geo_id d) d) new_GeoCampaign ch"

definition GeoCampaignEntity_retrieve :: "(GeoCampaign, 'c) index_ops \<Rightarrow> GeoCampaign list \<Rightarrow> u32 \<Rightarrow>
    'c entity_cache \<Rightarrow> bool \<times> GeoCampaign list" where
  "GeoCampaignEntity_retrieve ops geo_campaigns geo_id ch =
     (let range = cache_retrieve_raw ops (\<lambda>e. gc_geo_id e = geo_id) ch
      in (range \<noteq> [], geo_campaigns @ map gc_retrieve range))"

section \<open>Domains and ICO campaigns\<close>

record Domain =
  dom_name :: string
  dom_id :: u32

text \<open>The identifier of a default-constructed domain is not initialised.\<close>

definition new_Domain :: "u32 \<Rightarrow> Domain" where
  "new_Domain garbage = \<lparr>dom_name = [], dom_id = garbage\<rparr>"

definition read_Domain :: "(string \<Rightarrow> string list) \<Rightarrow> Domain \<Rightarrow> string \<Rightarrow> load_error + Domain" where
  "read_Domain split_compress d line =
     (let cols = split_compress line
      in if length cols < 2 then Inr d
         else Inr (d\<lparr>dom_name := cols ! 0, dom_id := word_of_int (atol (c_str (cols ! 1)))\<rparr>))"

definition dom_store :: "string \<Rightarrow> Domain \<Rightarrow> Domain" where
  "dom_store k d = \<lparr>dom_name = k, dom_id = dom_id d\<rparr>"

definition dom_retrieve :: "Domain \<Rightarrow> Domain" where
  "dom_retrieve e = \<lparr>dom_name = dom_name e, dom_id = dom_id e\<rparr>"

definition dom_key :: "Domain \<Rightarrow> string \<times> u32" where
  "dom_key e = (dom_name e, dom_id e)"

definition DomainEntity_load where
  "DomainEntity_load open_file source ops m grown need split_compress garbage ch =
     load_file open_file source ops (read_Domain split_compress)
       (\<lambda>d. cache_insert ops m grown need dom_store (to_lower_copy (dom_name d)) d) (new_Domain garbage) ch"

text \<open>Retrieval by the host of a URL; \<open>parse_host\<close> is the host the URI parser finds.\<close>

definition DomainEntity_retrieve :: "(string \<Rightarrow> string option) \<Rightarrow> (Domain, 'c) index_ops \<Rightarrow> string \<Rightarrow>
    'c entity_cache \<Rightarrow> Domain option" where
  "DomainEntity_retrieve parse_host ops url ch =
     (case parse_host url of
        Some host \<Rightarrow> cache_retrieve_one ops dom_retrieve (\<lambda>e. dom_name e = host) ch
      | None \<Rightarrow> None)"

record ICOCampaign =
  ico_domain_id :: u32
  ico_campaign_id :: u32

definition new_ICOCampaign :: ICOCampaign where
  "new_ICOCampaign = \<lparr>ico_domain_id = 0, ico_campaign_id = 0\<rparr>"

definition read_ICOCampaign :: "(string \<Rightarrow> u32 option) \<Rightarrow> ICOCampaign \<Rightarrow> string \<Rightarrow> load_error + ICOCampaign" where
  "read_ICOCampaign cast32 d line =
     (case split_string line [CHR 0x09] of
        None \<Rightarrow> Inl Empty_record
      | Some cols \<Rightarrow>
          if length cols < 2 then Inr d
          else (case (cast32 (cols ! 0), cast32 (cols ! 1)) of
                  (Some g, Some c) \<Rightarrow> Inr (d\<lparr>ico_domain_id := g, ico_campaign_id := c\<rparr>)
                | _ \<Rightarrow> Inl Bad_field))"

definition ico_store :: "u32 \<Rightarrow> ICOCampaign \<Rightarrow> ICOCampaign" where
  "ico_store k d = new_ICOCampaign\<lparr>ico_domain_id := k, ico_campaign_id := ico_campaign_id d\<rparr>"

definition ico_retrieve :: "ICOCampaign \<Rightarrow> ICOCampaign" where
  "ico_retrieve e = new_ICOCampaign\<lparr>ico_domain_id := ico_domain_id e, ico_campaign_id := ico_campaign_id e\<rparr>"

definition ico_key :: "ICOCampaign \<Rightarrow> u32 \<times> u32" where
  "ico_key e = (ico_domain_id e, ico_campaign_id e)"

definition ICOCampaignEntity_load where
  "ICOCampaignEntity_load open_file source ops m grown need cast32 ch =
     load_file open_file source ops (read_ICOCampaign cast32)
       (\<lambda>d. cache_insert ops m grown need ico_store (ico_domain_id d) d) new_ICOCampaign ch"

definition ICOCampaignEntity_retrieve :: "(ICOCampaign, 'c) index_ops \<Rightarrow> ICOCampaign list \<Rightarrow> u32 \<Rightarrow>
    'c entity_cache \<Rightarrow> bool \<times> ICOCampaign list" where
  "ICOCampaignEntity_retrieve ops ico_campaigns domain_id ch =
     (let range = cache_retrieve_raw ops (\<lambda>e. ico_domain_id e = domain_id) ch
      in (range \<noteq> [], ico_campaigns @ map ico_retrieve range))"

section \<open>Entities on sorted sequences\<close>

interpretation example_ad_index: ordered_unique_index "list_ops xad_key" xad_key "list_wf xad_key"
  by (rule list_ops_index)

interpretation city_country_index: ordered_unique_index "list_ops cc_key" cc_key "list_wf cc_key"
  by (rule list_ops_index)

interpretation geo_campaign_index: ordered_unique_index "list_ops gc_key" gc_key "list_wf gc_key"
  by (rule list_ops_index)

interpretation domain_index: ordered_unique_index "list_ops dom_key" dom_key "list_wf dom_key"
  by (rule list_ops_index)

interpretation ico_campaign_index: ordered_unique_index "list_ops ico_key" ico_key "list_wf ico_key"
  by (rule list_ops_index)

section \<open>Round trips of rows\<close>

lemma join_append: "xs \<noteq> [] \<Longrightarrow> ys \<noteq> [] \<Longrightarrow> join sep (xs @ ys) = join sep xs @ sep # join sep ys"
proof (induction sep xs rule: join.induct)
  case (2 sep f)
  then show ?case by (cases ys) auto
next
  case (3 sep f g fs)
  then show ?case by simp
qed simp

lemma length_join: "xs \<noteq> [] \<Longrightarrow> length (join sep xs) + 1 = sum_list (map (\<lambda>f. length f + 1) xs)"
  by (induction sep xs rule: join.induct) auto

lemma drop_join:
  assumes "xs \<noteq> []" and "ys \<noteq> []"
  shows "drop (sum_list (map (\<lambda>f. length f + 1) xs)) (join sep (xs @ ys)) = join sep ys"
  unfolding join_append [OF assms] length_join [OF assms(1), of sep, symmetric] by simp

lemma tab_not_digit: "\<not> is_digit_char (CHR 0x09)" "\<not> is_digit_char (CHR 0x00)" "\<not> is_digit_char (CHR 0x0A)"
  by (simp_all add: is_digit_char_def char_int_def)

lemma clean_number: "clean_field (CHR 0x09) (to_string n)"
  using to_string_digits tab_not_digit by (fastforce simp: clean_field_def)

lemma ucast_up_down [simp]:
  "ucast (ucast (w :: u32) :: u64) = w" "ucast (ucast (v :: u16) :: u64) = v"
  by (transfer; simp)+

lemma unat_ucast_up: "unat (ucast (w :: u32) :: u64) = unat w"
  by (transfer; simp)

text \<open>The library's conversion of decimal numbers that fit.\<close>

definition cast_ok :: "(string \<Rightarrow> 'a::len word option) \<Rightarrow> bool" where
  "cast_ok cast \<longleftrightarrow> (\<forall>w. cast (to_string (unat w)) = Some w)"

text \<open>The line of an ad in the data file; the code may be several fields.\<close>

definition Ad_line :: "Ad \<Rightarrow> string list \<Rightarrow> string" where
  "Ad_line a code = join (CHR 0x09)
     ([to_string (unat (ad_id a)), to_string (unat (ad_campaign_id a)), to_string (unat (ad_width a)),
       to_string (unat (ad_height a)), to_string (unat (ad_position a)),
       to_string (unat (ad_max_bid_micros a))] @ code)"

lemma c_str_clean: "CHR 0x00 \<notin> set s \<Longrightarrow> c_str s = s"
  by (auto simp: c_str_def takeWhile_eq_all_conv)

lemma join_no_nul: "list_all (clean_field sep) fs \<Longrightarrow> sep \<noteq> CHR 0x00 \<Longrightarrow> CHR 0x00 \<notin> set (join sep fs)"
  by (induction sep fs rule: join.induct) (auto simp: clean_field_def)

text \<open>
  A line of the ads file is read back. For every ad and every code made of fields without
  separators and zero bytes, the last of them not empty, the line with the six numbers and the code
  is read as that ad, whatever the row held before; the code keeps its tabulators.
\<close>

theorem read_Ad_line:
  assumes "cast_ok cast64" and "cast_ok cast16"
    and "code \<noteq> []" and "list_all (clean_field (CHR 0x09)) code" and "last code \<noteq> []"
  shows "read_Ad cast64 cast16 l (Ad_line a code) =
    Inr (a\<lparr>ad_auth_bid_micros := ad_auth_bid_micros l, ad_code := join (CHR 0x09) code\<rparr>)"
proof -
  let ?six = "[to_string (unat (ad_id a)), to_string (unat (ad_campaign_id a)), to_string (unat (ad_width a)),
       to_string (unat (ad_height a)), to_string (unat (ad_position a)), to_string (unat (ad_max_bid_micros a))]"
  have s: "split_string (Ad_line a code) [CHR 0x09] = Some (?six @ code)"
    unfolding Ad_line_def
    by (rule split_string_joined) (use assms(3-5) in \<open>simp_all add: clean_number\<close>)
  have "to_string (unat (ad_campaign_id a)) = to_string (unat (ucast (ad_campaign_id a) :: u64))"
    by (simp add: unat_ucast_up)
  then have c: "cast64 (to_string (unat (ad_campaign_id a))) = Some (ucast (ad_campaign_id a))"
    using assms(1) unfolding cast_ok_def by metis
  have d: "drop (sum_list (map (\<lambda>f. length f + 1) ?six)) (Ad_line a code) = join (CHR 0x09) code"
    unfolding Ad_line_def by (rule drop_join) (use assms(3) in simp_all)
  have "c_str (join (CHR 0x09) code) = join (CHR 0x09) code"
    using assms(4) by (intro c_str_clean join_no_nul) simp_all
  then have "read_Ad cast64 cast16 l (Ad_line a code) =
      Inr (l\<lparr>ad_id := ad_id a, ad_campaign_id := ucast (ucast (ad_campaign_id a) :: u64), ad_width := ad_width a,
        ad_height := ad_height a, ad_position := ad_position a, ad_max_bid_micros := ad_max_bid_micros a,
        ad_code := join (CHR 0x09) code\<rparr>)"
    using assms(1-3) c d by (simp add: read_Ad_def s cast_ok_def)
  then show ?thesis by (cases a; cases l) simp
qed

definition cast_dec :: "string \<Rightarrow> 'a::len word option" where
  "cast_dec s = (if s \<noteq> [] \<and> list_all is_digit_char s \<and> dec_value s < 2 ^ LENGTH('a)
     then Some (word_of_nat (dec_value s)) else None)"

lemma cast_dec_ok: "cast_ok cast_dec"
  by (simp add: cast_ok_def cast_dec_def list_all_iff to_string_digits)

theorem read_Ad_line_witness:
  "read_Ad cast_dec cast_dec new_Ad (Ad_line (new_Ad\<lparr>ad_id := 7, ad_width := 300\<rparr>) [''<a'', ''b>'']) =
     Inr (new_Ad\<lparr>ad_id := 7, ad_width := 300, ad_code := ''<a'' @ CHR 0x09 # ''b>''\<rparr>)"
  using read_Ad_line [OF cast_dec_ok cast_dec_ok, of "[''<a'', ''b>'']" new_Ad "new_Ad\<lparr>ad_id := 7, ad_width := 300\<rparr>"]
  by (simp add: clean_field_def new_Ad_def)

text \<open>A line with exactly six fields passes the check but has no seventh field.\<close>

lemma read_Ad_six_fields:
  assumes "cast_ok cast64" and "cast_ok cast16"
  shows "read_Ad cast64 cast16 l (join (CHR 0x09)
      [to_string (unat (ad_id a)), to_string (unat (ucast (ad_campaign_id a) :: u64)), to_string (unat (ad_width a)),
       to_string (unat (ad_height a)), to_string (unat (ad_position a)), to_string (unat (ad_max_bid_micros a))]) =
    Inl Field_out_of_range"
proof -
  let ?six = "[to_string (unat (ad_id a)), to_string (unat (ucast (ad_campaign_id a) :: u64)), to_string (unat (ad_width a)),
       to_string (unat (ad_height a)), to_string (unat (ad_position a)), to_string (unat (ad_max_bid_micros a))]"
  have "split_string (join (CHR 0x09) ?six) [CHR 0x09] = Some ?six"
    by (rule split_string_joined) (simp_all add: clean_number)
  then show ?thesis using assms unfolding read_Ad_def cast_ok_def by (simp del: join.simps)
qed

section \<open>Loading and querying\<close>

lemma xad_key_store [simp]: "xad_key (xad_store k a) = k"
  by (cases k) (simp add: xad_key_def xad_store_def)

lemma xad_retrieve_store [simp]: "xad_retrieve (xad_store (Ad_keys a) a) = a\<lparr>ad_auth_bid_micros := None\<rparr>"
  by (cases a) (simp add: xad_retrieve_def xad_store_def Ad_keys_def new_Ad_def)

lemma gc_key_store [simp]: "gc_key (gc_store (gc_geo_id d) d) = gc_key d" "gc_store (gc_geo_id d) d = d"
  by (cases d; simp add: gc_key_def gc_store_def new_GeoCampaign_def)+

lemma gc_retrieve_id [simp]: "gc_retrieve = id"
proof
  fix d show "gc_retrieve d = id d" by (cases d) (simp add: gc_retrieve_def new_GeoCampaign_def)
qed

lemma gc_key_inject: "gc_key a = gc_key b \<longleftrightarrow> a = b"
  by (cases a; cases b) (simp add: gc_key_def)

lemma load_file_range:
  assumes "ordered_unique_index ops key wf_index" and "open_file source = Some text"
    and "load_file open_file source ops read (\<lambda>r. cache_insert ops m grown need store (k r) r) r0 ch = Inr ch'"
  shows "\<exists>rows. read_rows read r0 (getlines text) = Inr rows \<and>
    set (equal_range ops p (ch_container ch')) =
      {e. p e \<and> List.find (\<lambda>x. key x = key e) (map (\<lambda>r. store (k r) r) rows) = Some e} \<and>
    sorted_wrt (<) (map key (equal_range ops p (ch_container ch')))"
proof -
  have l: "load_loop read (\<lambda>r. cache_insert ops m grown need store (k r) r) r0 (getlines text)
      (cache_clear ops ch) = Inr ch'"
    using assms(2,3) by (simp add: load_file_def)
  obtain rows where rows: "read_rows read r0 (getlines text) = Inr rows"
    "insert_all ops m grown need store (map (\<lambda>r. (k r, r)) rows) (cache_clear ops ch) = Inr ch'"
    using load_loop_insert_all [OF l] by blast
  note c = ordered_unique_index.clear_entries [OF assms(1), of "ch_container ch"]
  have "ch_container (cache_clear ops ch) = ix_clear ops (ch_container ch)" by (simp add: cache_clear_def)
  from ordered_unique_index.insert_all_range [OF assms(1) conjunct1 [OF c] conjunct2 [OF c] this rows(2), of p]
  show ?thesis using rows(1) by (auto simp: comp_def)
qed

text \<open>
  After the ads file was loaded, asking for the ads of a campaign with a given size returns
  exactly the ads of the file with that campaign and size, in increasing order of their
  identifiers, the first line of each identifier only, and reports whether there is one.
\<close>

theorem ads_load_retrieve:
  assumes "ordered_unique_index ops xad_key wf_index" and "open_file ads_source = Some text"
    and "AdDataEntity_load open_file ads_source ops m grown need cast64 cast16 ch = Inr ch'"
    and "AdDataEntity_retrieve ops [] c w h ch' = (found, ads)"
  shows "\<exists>rows. read_rows (read_Ad cast64 cast16) new_Ad (getlines text) = Inr rows \<and>
    set ads = (\<lambda>a. a\<lparr>ad_auth_bid_micros := None\<rparr>) ` {a. List.find (\<lambda>x. Ad_keys x = Ad_keys a) rows = Some a \<and>
        ad_campaign_id a = c \<and> ad_width a = w \<and> ad_height a = h} \<and>
    sorted_wrt (<) (map ad_id ads) \<and> (found \<longleftrightarrow> ads \<noteq> [])"
proof -
  define p where "p = (\<lambda>e :: example_ad_entity. xad_campaign_id e = c \<and> xad_width e = w \<and> xad_height e = h)"
  have l: "load_file open_file ads_source ops (read_Ad cast64 cast16)
       (\<lambda>ad. cache_insert ops m grown need xad_store (Ad_keys ad) ad) new_Ad ch = Inr ch'"
    using assms(3) by (simp add: AdDataEntity_load_def)
  let ?range = "equal_range ops p (ch_container ch')"
  obtain rows where r: "read_rows (read_Ad cast64 cast16) new_Ad (getlines text) = Inr rows"
    "set ?range = {e. p e \<and> List.find (\<lambda>x. xad_key x = xad_key e) (map (\<lambda>r. xad_store (Ad_keys r) r) rows) = Some e}"
    "sorted_wrt (<) (map xad_key ?range)"
    using load_file_range [OF assms(1,2) l, of p] by blast
  have ads: "ads = map xad_retrieve ?range" "found \<longleftrightarrow> ?range \<noteq> []"
    using assms(4) by (auto simp: AdDataEntity_retrieve_def cache_retrieve_raw_def p_def Let_def)
  have f: "List.find (\<lambda>x. xad_key x = q) (map (\<lambda>r. xad_store (Ad_keys r) r) rs) =
      map_option (\<lambda>r. xad_store (Ad_keys r) r) (List.find (\<lambda>x. Ad_keys x = q) rs)" for q rs
    by (induction rs) auto
  have p: "p (xad_store (Ad_keys a) a) \<longleftrightarrow> ad_campaign_id a = c \<and> ad_width a = w \<and> ad_height a = h" for a
    by (simp add: p_def xad_store_def Ad_keys_def)
  have fk: "List.find (\<lambda>x. Ad_keys x = q) rs = Some a \<Longrightarrow> Ad_keys a = q" for q rs a
    by (auto simp: find_Some_iff)
  have e: "set ?range = (\<lambda>a. xad_store (Ad_keys a) a) ` {a. List.find (\<lambda>x. Ad_keys x = Ad_keys a) rows = Some a \<and>
      ad_campaign_id a = c \<and> ad_width a = w \<and> ad_height a = h}" (is "_ = ?S ` ?A")
  proof (intro set_eqI iffI)
    fix x assume "x \<in> set ?range"
    then have x: "p x" "map_option ?S (List.find (\<lambda>r. Ad_keys r = xad_key x) rows) = Some x"
      unfolding r(2) f by simp_all
    then obtain a where a: "List.find (\<lambda>r. Ad_keys r = xad_key x) rows = Some a" "x = ?S a" by auto
    with x(1) p [of a] show "x \<in> ?S ` ?A" by auto
  next
    fix x assume "x \<in> ?S ` ?A"
    then show "x \<in> set ?range" unfolding r(2) f using p by auto
  qed
  have "set ads = (\<lambda>a. a\<lparr>ad_auth_bid_micros := None\<rparr>) ` {a. List.find (\<lambda>x. Ad_keys x = Ad_keys a) rows = Some a \<and>
        ad_campaign_id a = c \<and> ad_width a = w \<and> ad_height a = h}"
    unfolding ads(1) set_map e image_image by simp
  moreover have "sorted_wrt (<) (map ad_id ads)"
  proof -
    have px: "x \<in> set ?range \<Longrightarrow> p x" for x by (simp add: equal_range_def)
    show ?thesis unfolding ads(1) sorted_wrt_map
    proof (rule sorted_wrt_mono_rel [OF _ r(3) [unfolded sorted_wrt_map]])
      fix x y assume "x \<in> set ?range" "y \<in> set ?range" "xad_key x < xad_key y"
      then show "ad_id (xad_retrieve x) < ad_id (xad_retrieve y)"
        using px [of x] px [of y] by (auto simp: xad_key_def p_def xad_retrieve_def)
    qed
  qed
  ultimately show ?thesis using r(1) ads by auto
qed

text \<open>
  After the geo-campaign file was loaded, asking for the campaigns of a location returns each
  campaign the file pairs with it exactly once, in increasing order, and reports whether there is one.
\<close>

theorem geo_campaigns_load_retrieve:
  assumes "ordered_unique_index ops gc_key wf_index" and "open_file source = Some text"
    and "GeoCampaignEntity_load open_file source ops m grown need cast32 ch = Inr ch'"
    and "GeoCampaignEntity_retrieve ops [] geo ch' = (found, cs)"
  shows "\<exists>rows. read_rows (read_GeoCampaign cast32) new_GeoCampaign (getlines text) = Inr rows \<and>
    set cs = {d \<in> set rows. gc_geo_id d = geo} \<and> sorted_wrt (<) (map gc_campaign_id cs) \<and> (found \<longleftrightarrow> cs \<noteq> [])"
proof -
  define p where "p = (\<lambda>e :: GeoCampaign. gc_geo_id e = geo)"
  have l: "load_file open_file source ops (read_GeoCampaign cast32)
       (\<lambda>d. cache_insert ops m grown need gc_store (gc_geo_id d) d) new_GeoCampaign ch = Inr ch'"
    using assms(3) by (simp add: GeoCampaignEntity_load_def)
  obtain rows where r: "read_rows (read_GeoCampaign cast32) new_GeoCampaign (getlines text) = Inr rows"
    "set (equal_range ops p (ch_container ch')) =
      {e. p e \<and> List.find (\<lambda>x. gc_key x = gc_key e) rows = Some e}"
    "sorted_wrt (<) (map gc_key (equal_range ops p (ch_container ch')))"
    using load_file_range [OF assms(1,2) l, of p] by auto
  have cs: "cs = equal_range ops p (ch_container ch')" "found \<longleftrightarrow> cs \<noteq> []"
    using assms(4) by (auto simp: GeoCampaignEntity_retrieve_def cache_retrieve_raw_def p_def Let_def)
  have "List.find (\<lambda>x. x = e) rs = Some e \<longleftrightarrow> e \<in> set rs" for e :: GeoCampaign and rs
    by (induction rs) auto
  then have "set cs = {d \<in> set rows. gc_geo_id d = geo}"
    unfolding cs(1) r(2) by (auto simp: gc_key_inject p_def)
  moreover have "sorted_wrt (<) (map gc_campaign_id cs)"
  proof -
    have px: "x \<in> set cs \<Longrightarrow> p x" for x unfolding cs by (simp add: equal_range_def)
    show ?thesis unfolding sorted_wrt_map
    proof (rule sorted_wrt_mono_rel [OF _ r(3) [unfolded sorted_wrt_map, folded cs(1)]])
      fix x y assume "x \<in> set cs" "y \<in> set cs" "gc_key x < gc_key y"
      then show "gc_campaign_id x < gc_campaign_id y"
        using px [of x] px [of y] by (auto simp: gc_key_def p_def)
    qed
  qed
  ultimately show ?thesis using r(1) cs(2) by blast
qed

definition sample_geo_campaigns :: string where
  "sample_geo_campaigns = unlines [''1'' @ CHR 0x09 # ''5'', ''1'' @ CHR 0x09 # ''3'', ''2'' @ CHR 0x09 # ''9'']"

definition sample_cast :: "string \<Rightarrow> u32 option" where
  "sample_cast = map_of [(''1'', 1), (''2'', 2), (''3'', 3), (''5'', 5), (''9'', 9)]"

definition sample_cache :: "'e list \<Rightarrow> nat \<Rightarrow> 'e list entity_cache" where
  "sample_cache es n = \<lparr>ch_store_name = [], ch_container = es, ch_free = n\<rparr>"

theorem geo_campaigns_load_retrieve_witness:
  "\<exists>ch'. GeoCampaignEntity_load (\<lambda>_. Some sample_geo_campaigns) [] (list_ops gc_key) Shared (+) (\<lambda>_. 1) sample_cast
      (sample_cache [] 9) = Inr ch' \<and>
    set (snd (GeoCampaignEntity_retrieve (list_ops gc_key) [] 1 ch')) =
      {\<lparr>gc_geo_id = 1, gc_campaign_id = 5\<rparr>, \<lparr>gc_geo_id = 1, gc_campaign_id = 3\<rparr>}"
proof -
  let ?ch = "sample_cache
     [\<lparr>gc_geo_id = 1, gc_campaign_id = 3\<rparr>, \<lparr>gc_geo_id = 1, gc_campaign_id = 5\<rparr>, \<lparr>gc_geo_id = 2, gc_campaign_id = 9\<rparr>] 6"
  have l: "GeoCampaignEntity_load (\<lambda>_. Some sample_geo_campaigns) [] (list_ops gc_key) Shared (+) (\<lambda>_. 1) sample_cast
      (sample_cache [] 9) = Inr ?ch" by code_simp
  have r: "read_rows (read_GeoCampaign sample_cast) new_GeoCampaign (getlines sample_geo_campaigns) =
      Inr [\<lparr>gc_geo_id = 1, gc_campaign_id = 5\<rparr>, \<lparr>gc_geo_id = 1, gc_campaign_id = 3\<rparr>,
        \<lparr>gc_geo_id = 2, gc_campaign_id = 9\<rparr>]" by code_simp
  obtain found cs where g: "GeoCampaignEntity_retrieve (list_ops gc_key) [] 1 ?ch = (found, cs)" by fastforce
  have "set cs = {d \<in> set [\<lparr>gc_geo_id = 1, gc_campaign_id = 5\<rparr>, \<lparr>gc_geo_id = 1, gc_campaign_id = 3\<rparr>,
        \<lparr>gc_geo_id = 2, gc_campaign_id = 9\<rparr>]. gc_geo_id d = 1}"
    using geo_campaigns_load_retrieve [OF geo_campaign_index.ordered_unique_index_axioms refl l g]
    unfolding r by blast
  also have "\<dots> = {\<lparr>gc_geo_id = 1, gc_campaign_id = 5\<rparr>, \<lparr>gc_geo_id = 1, gc_campaign_id = 3\<rparr>}" by auto
  finally have "set (snd (GeoCampaignEntity_retrieve (list_ops gc_key) [] 1 ?ch)) =
      {\<lparr>gc_geo_id = 1, gc_campaign_id = 5\<rparr>, \<lparr>gc_geo_id = 1, gc_campaign_id = 3\<rparr>}" unfolding g by simp
  with l show ?thesis by blast
qed

text \<open>A file with two ads of one campaign and size, and another with the same key as the first.\<close>

definition sample_ads :: string where
  "sample_ads = unlines
     [join (CHR 0x09) [''9'', ''1'', ''3'', ''2'', ''0'', ''5'', ''x''],
      join (CHR 0x09) [''2'', ''1'', ''3'', ''2'', ''0'', ''5'', ''y''],
      join (CHR 0x09) [''9'', ''1'', ''3'', ''2'', ''0'', ''5'', ''z'']]"

definition sample_casts :: "string \<Rightarrow> 'a::len word option" where
  "sample_casts = map_of [(''0'', 0), (''1'', 1), (''2'', 2), (''3'', 3), (''5'', 5), (''9'', 9)]"

definition sample_ad :: "u64 \<Rightarrow> string \<Rightarrow> Ad" where
  "sample_ad i code = new_Ad\<lparr>ad_id := i, ad_campaign_id := 1, ad_width := 3, ad_height := 2, ad_max_bid_micros := 5,
     ad_code := code\<rparr>"

theorem ads_load_retrieve_witness:
  "\<exists>ch'. AdDataEntity_load (\<lambda>_. Some sample_ads) [] (list_ops xad_key) Shared (+) (\<lambda>_. 1) sample_casts sample_casts
      (sample_cache [] 9) = Inr ch' \<and>
    set (snd (AdDataEntity_retrieve (list_ops xad_key) [] 1 3 2 ch')) = {sample_ad 9 ''x'', sample_ad 2 ''y''}"
proof -
  let ?e = "\<lambda>i code. xad_store (Ad_keys (sample_ad i code)) (sample_ad i code)"
  let ?ch = "sample_cache [?e 2 ''y'', ?e 9 ''x''] 7"
  have l: "AdDataEntity_load (\<lambda>_. Some sample_ads) [] (list_ops xad_key) Shared (+) (\<lambda>_. 1) sample_casts sample_casts
      (sample_cache [] 9) = Inr ?ch" by code_simp
  have r: "read_rows (read_Ad sample_casts sample_casts) new_Ad (getlines sample_ads) =
      Inr [sample_ad 9 ''x'', sample_ad 2 ''y'', sample_ad 9 ''z'']" by code_simp
  obtain found ads where g: "AdDataEntity_retrieve (list_ops xad_key) [] 1 3 2 ?ch = (found, ads)" by fastforce
  have s: "set ads = (\<lambda>a. a\<lparr>ad_auth_bid_micros := None\<rparr>) `
     {a. List.find (\<lambda>x. Ad_keys x = Ad_keys a) [sample_ad 9 ''x'', sample_ad 2 ''y'', sample_ad 9 ''z''] = Some a \<and>
        ad_campaign_id a = 1 \<and> ad_width a = 3 \<and> ad_height a = 2}"
    using ads_load_retrieve [OF example_ad_index.ordered_unique_index_axioms refl l g] unfolding r by blast
  have "{a. List.find (\<lambda>x. Ad_keys x = Ad_keys a) [sample_ad 9 ''x'', sample_ad 2 ''y'', sample_ad 9 ''z''] = Some a \<and>
        ad_campaign_id a = 1 \<and> ad_width a = 3 \<and> ad_height a = 2} = {sample_ad 9 ''x'', sample_ad 2 ''y''}"
    by (auto simp: sample_ad_def Ad_keys_def split: if_splits)
  with s have "set ads = {sample_ad 9 ''x'', sample_ad 2 ''y''}"
    by (simp add: sample_ad_def new_Ad_def)
  then have "set (snd (AdDataEntity_retrieve (list_ops xad_key) [] 1 3 2 ?ch)) =
      {sample_ad 9 ''x'', sample_ad 2 ''y''}" unfolding g by simp
  with l show ?thesis by blast
qed

end
