(* ===== verification/Archive.thy ===== *)
theory Archive
  imports RTB_Prelude Complex_Main
begin

text \<open>
  The interface of the serialization library as the program uses it: \<open>ar & x\<close> appends a primitive
  value to the archive or takes the next one from it. An archive is the sequence of its primitive
  values; a reader returns the value and the rest, or none when the next value is of another type.
\<close>

datatype ar_val = Ar_int int | Ar_str string | Ar_dbl rat | Ar_bool bool

fun get_int :: "ar_val list \<Rightarrow> (int \<times> ar_val list) option" where
  "get_int (Ar_int i # ar) = Some (i, ar)"
| "get_int _ = None"

fun get_str :: "ar_val list \<Rightarrow> (string \<times> ar_val list) option" where
  "get_str (Ar_str s # ar) = Some (s, ar)"
| "get_str _ = None"

fun get_dbl :: "ar_val list \<Rightarrow> (rat \<times> ar_val list) option" where
  "get_dbl (Ar_dbl d # ar) = Some (d, ar)"
| "get_dbl _ = None"

text \<open>A container: its size, then its elements.\<close>

definition put_list :: "('a \<Rightarrow> ar_val list) \<Rightarrow> 'a list \<Rightarrow> ar_val list" where
  "put_list put xs = Ar_int (int (length xs)) # concat (map put xs)"

fun get_many :: "(ar_val list \<Rightarrow> ('a \<times> ar_val list) option) \<Rightarrow> nat \<Rightarrow> ar_val list \<Rightarrow> ('a list \<times> ar_val list) option" where
  "get_many get 0 ar = Some ([], ar)"
| "get_many get (Suc n) ar =
     (case get ar of
        None \<Rightarrow> None
      | Some (x, ar') \<Rightarrow> map_option (\<lambda>(xs, rest). (x # xs, rest)) (get_many get n ar'))"

definition get_list :: "(ar_val list \<Rightarrow> ('a \<times> ar_val list) option) \<Rightarrow> ar_val list \<Rightarrow> ('a list \<times> ar_val list) option" where
  "get_list get ar = (case get_int ar of None \<Rightarrow> None | Some (n, ar') \<Rightarrow> get_many get (nat n) ar')"

definition put_option :: "('a \<Rightarrow> ar_val list) \<Rightarrow> 'a option \<Rightarrow> ar_val list" where
  "put_option put v = (case v of None \<Rightarrow> [Ar_bool False] | Some x \<Rightarrow> Ar_bool True # put x)"

fun get_option :: "(ar_val list \<Rightarrow> ('a \<times> ar_val list) option) \<Rightarrow> ar_val list \<Rightarrow> ('a option \<times> ar_val list) option" where
  "get_option get (Ar_bool False # ar) = Some (None, ar)"
| "get_option get (Ar_bool True # ar) = map_option (\<lambda>(x, rest). (Some x, rest)) (get ar)"
| "get_option get _ = None"

lemma get_many_put:
  "(\<And>x ar. x \<in> set xs \<Longrightarrow> get (put x @ ar) = Some (f x, ar)) \<Longrightarrow>
     get_many get (length xs) (concat (map put xs) @ ar) = Some (map f xs, ar)"
  by (induction xs) simp_all

lemma get_list_put:
  "(\<And>x ar. x \<in> set xs \<Longrightarrow> get (put x @ ar) = Some (f x, ar)) \<Longrightarrow>
     get_list get (put_list put xs @ ar) = Some (map f xs, ar)"
  by (simp add: get_list_def put_list_def get_many_put)

lemma get_option_put:
  "(\<And>x ar. v = Some x \<Longrightarrow> get (put x @ ar) = Some (f x, ar)) \<Longrightarrow>
     get_option get (put_option put v @ ar) = Some (map_option f v, ar)"
  by (cases v) (simp_all add: put_option_def)

end
