(* ===== verification/Campaign.thy ===== *)
theory Campaign
  imports Matchers Http_Reply Archive
begin

text \<open>
  Campaign budgets: \<^verbatim>\<open>examples/campaign/campaign_cache.hpp\<close> with its serialization, the banker of
  \<^verbatim>\<open>rtb/core/banker.hpp\<close>, the win-notification service and the slave banker. Amounts are unsigned
  64-bit micro dollars. The theorems account for every micro dollar of a sequence of wins, bound what
  the budget manager authorises, and follow a win from the notification to the caches.
\<close>

section \<open>Budgets\<close>

text \<open>The metric is cast from an integer, so values outside the enumeration occur.\<close>

datatype MetricType = MT_UNDEFINED | MT_CPM | MT_CPC | MT_CPA | MT_other int

definition MetricType_of_int :: "int \<Rightarrow> MetricType" where
  "MetricType_of_int n =
     (if n = 0 then MT_UNDEFINED else if n = 1 then MT_CPM else if n = 2 then MT_CPC
      else if n = 3 then MT_CPA else MT_other n)"

fun MetricType_code :: "MetricType \<Rightarrow> int" where
  "MetricType_code MT_UNDEFINED = 0"
| "MetricType_code MT_CPM = 1"
| "MetricType_code MT_CPC = 2"
| "MetricType_code MT_CPA = 3"
| "MetricType_code (MT_other n) = n"

record Metric =
  mt_type :: MetricType
  mt_value :: u64

record CampaignBudget =
  cb_campaign_id :: u32
  cb_limit :: u64
  cb_spent :: u64
  cb_overdraft :: u64
  cb_metric :: Metric

definition new_CampaignBudget :: CampaignBudget where
  "new_CampaignBudget = \<lparr>cb_campaign_id = 0, cb_limit = 0, cb_spent = 0, cb_overdraft = 0,
     cb_metric = \<lparr>mt_type = MT_UNDEFINED, mt_value = 0\<rparr>\<rparr>"

definition update_budget :: "u64 \<Rightarrow> CampaignBudget \<Rightarrow> CampaignBudget" where
  "update_budget v b = b\<lparr>cb_limit := v\<rparr>"

definition update_price :: "u64 \<Rightarrow> CampaignBudget \<Rightarrow> CampaignBudget" where
  "update_price v b =
     (let min_value = min (cb_limit b) v;
          b1 = b\<lparr>cb_limit := cb_limit b - min_value, cb_spent := cb_spent b + min_value\<rparr>
      in if min_value < v then b1\<lparr>cb_overdraft := cb_overdraft b1 + (v - min_value)\<rparr> else b1)"

definition print_CampaignBudget :: "CampaignBudget \<Rightarrow> string" where
  "print_CampaignBudget v = to_string (unat (cb_campaign_id v)) @ ''|'' @ to_string (unat (cb_limit v)) @ ''|'' @
     to_string (unat (cb_spent v)) @ ''|''"

definition read_CampaignBudget :: "(string \<Rightarrow> u32 option) \<Rightarrow> (string \<Rightarrow> u64 option) \<Rightarrow> CampaignBudget \<Rightarrow> string \<Rightarrow>
    load_error + CampaignBudget" where
  "read_CampaignBudget cast32 cast64 l line =
     (case split_string line [CHR 0x09] of
        None \<Rightarrow> Inl Empty_record
      | Some cols \<Rightarrow>
          if length cols < 5 then Inr l
          else
            (case (cast32 (cols ! 0), cast64 (cols ! 1), cast64 (cols ! 2), cast32 (cols ! 3), cast64 (cols ! 4)) of
               (Some i, Some bl, Some bs, Some t, Some v) \<Rightarrow>
                 Inr (l\<lparr>cb_campaign_id := i, cb_limit := bl, cb_spent := bs, cb_overdraft := 0,
                   cb_metric := \<lparr>mt_type = MetricType_of_int (sint (ucast t :: u8)), mt_value = v\<rparr>\<rparr>)
             | _ \<Rightarrow> Inl Bad_field))"

text \<open>\<open>BudgetManager::authorize\<close>.\<close>

definition authorize :: "CampaignBudget \<Rightarrow> u64" where
  "authorize budget =
     (if cb_spent budget \<ge> cb_limit budget then 0
      else (case mt_type (cb_metric budget) of
              MT_CPM \<Rightarrow> min (cb_limit budget - cb_spent budget) (mt_value (cb_metric budget) div 1000)
            | MT_CPC \<Rightarrow> min (cb_limit budget - cb_spent budget) (mt_value (cb_metric budget))
            | _ \<Rightarrow> 0))"

section \<open>Serialization\<close>

text \<open>The archive writes and reads the members in turn; the overdraft is not among them.\<close>

definition save_Metric :: "Metric \<Rightarrow> ar_val list" where
  "save_Metric mt = [Ar_int (MetricType_code (mt_type mt)), Ar_int (uint (mt_value mt))]"

definition save_CampaignBudget :: "CampaignBudget \<Rightarrow> ar_val list" where
  "save_CampaignBudget b = [Ar_int (uint (cb_campaign_id b)), Ar_int (uint (cb_limit b)), Ar_int (uint (cb_spent b))] @
     save_Metric (cb_metric b)"

text \<open>Loading into an existing object.\<close>

fun load_CampaignBudget :: "ar_val list \<Rightarrow> CampaignBudget \<Rightarrow> CampaignBudget option" where
  "load_CampaignBudget [Ar_int i, Ar_int bl, Ar_int bs, Ar_int t, Ar_int v] b =
     Some (b\<lparr>cb_campaign_id := word_of_int i, cb_limit := word_of_int bl, cb_spent := word_of_int bs,
       cb_metric := \<lparr>mt_type = MetricType_of_int t, mt_value = word_of_int v\<rparr>\<rparr>)"
| "load_CampaignBudget _ b = None"

section \<open>The campaign cache\<close>

record example_campaign_entity =
  xce_campaign_id :: u32
  xce_data :: CampaignBudget

definition xce_store :: "u32 \<Rightarrow> CampaignBudget \<Rightarrow> example_campaign_entity" where
  "xce_store k d = \<lparr>xce_campaign_id = k, xce_data = d\<rparr>"

definition xce_retrieve :: "example_campaign_entity \<Rightarrow> CampaignBudget" where
  "xce_retrieve e = xce_data e"

definition xce_apply :: "example_campaign_entity \<Rightarrow> example_campaign_entity \<Rightarrow> example_campaign_entity" where
  "xce_apply self entry = entry\<lparr>xce_campaign_id := xce_campaign_id self, xce_data := xce_data self\<rparr>"

definition xce_key :: "example_campaign_entity \<Rightarrow> u32" where
  "xce_key e = xce_campaign_id e"

definition by_id :: "u32 \<Rightarrow> example_campaign_entity \<Rightarrow> bool" where
  "by_id campaign_id e \<longleftrightarrow> xce_key e = campaign_id"

text \<open>Retrieval for the banker: a budget of zeros when the campaign is not there.\<close>

definition CampaignCache_get :: "(example_campaign_entity, 'c) index_ops \<Rightarrow> u32 \<Rightarrow> 'c entity_cache \<Rightarrow> CampaignBudget" where
  "CampaignCache_get ops campaign_id ch =
     (case cache_retrieve_one ops xce_retrieve (by_id campaign_id) ch of Some b \<Rightarrow> b | None \<Rightarrow> new_CampaignBudget)"

definition CampaignCache_retrieve :: "(example_campaign_entity, 'c) index_ops \<Rightarrow> CampaignBudget list \<Rightarrow> u32 \<Rightarrow>
    'c entity_cache \<Rightarrow> bool \<times> CampaignBudget list" where
  "CampaignCache_retrieve ops d campaign_id ch = cache_retrieve ops xce_retrieve (by_id campaign_id) d ch"

definition CampaignCache_retrieve_all :: "(example_campaign_entity, 'c) index_ops \<Rightarrow> CampaignBudget list \<Rightarrow>
    'c entity_cache \<Rightarrow> bool \<times> CampaignBudget list" where
  "CampaignCache_retrieve_all ops d ch = cache_retrieve_all ops xce_retrieve d ch"

text \<open>The memory kind, the growth of the segment and the size of an entity, fixed per cache.\<close>

record memory_env =
  me_kind :: memory_kind
  me_grown :: "nat \<Rightarrow> nat \<Rightarrow> nat"
  me_need :: "example_campaign_entity \<Rightarrow> nat"

definition CampaignCache_insert :: "(example_campaign_entity, 'c) index_ops \<Rightarrow> memory_env \<Rightarrow> CampaignBudget \<Rightarrow> u32 \<Rightarrow>
    'c entity_cache \<Rightarrow> cache_error + (bool \<times> 'c entity_cache)" where
  "CampaignCache_insert ops me budget campaign_id ch =
     cache_insert ops (me_kind me) (me_grown me) (me_need me) xce_store campaign_id budget ch"

definition CampaignCache_update :: "(example_campaign_entity, 'c) index_ops \<Rightarrow> memory_env \<Rightarrow> CampaignBudget \<Rightarrow> u32 \<Rightarrow>
    'c entity_cache \<Rightarrow> cache_error + (bool \<times> 'c entity_cache)" where
  "CampaignCache_update ops me budget campaign_id ch =
     cache_update ops (me_kind me) (me_grown me) (me_need me) xce_store campaign_id budget (by_id campaign_id) ch"

definition CampaignCache_rename :: "(example_campaign_entity, 'c) index_ops \<Rightarrow> memory_env \<Rightarrow> CampaignBudget \<Rightarrow> u32 \<Rightarrow> u32 \<Rightarrow>
    'c entity_cache \<Rightarrow> cache_error + (bool \<times> 'c entity_cache)" where
  "CampaignCache_rename ops me budget old_campaign_id new_campaign_id ch =
     cache_update ops (me_kind me) (me_grown me) (me_need me) xce_store new_campaign_id budget (by_id old_campaign_id) ch"

definition CampaignCache_remove :: "(example_campaign_entity, 'c) index_ops \<Rightarrow> u32 \<Rightarrow> 'c entity_cache \<Rightarrow>
    bool \<times> 'c entity_cache" where
  "CampaignCache_remove ops campaign_id ch = (True, cache_remove ops (by_id campaign_id) ch)"

definition CampaignCache_load where
  "CampaignCache_load open_file campaign_budget_source ops me cast32 cast64 ch =
     load_file open_file campaign_budget_source ops (read_CampaignBudget cast32 cast64)
       (\<lambda>c. CampaignCache_insert ops me c (cb_campaign_id c)) new_CampaignBudget ch"

text \<open>\<open>Banker::authorize\<close>.\<close>

definition Banker_authorize :: "(example_campaign_entity, 'c) index_ops \<Rightarrow> 'c entity_cache \<Rightarrow> u32 \<Rightarrow> u64" where
  "Banker_authorize ops ch campaign_id = authorize (CampaignCache_get ops campaign_id ch)"

section \<open>Win notifications\<close>

record notification_service_status =
  ns_win_notice_count :: u64
  ns_day_budget_limit :: u64
  ns_total_spent :: u64

datatype notice_error = Bad_number | Notice_cache cache_error

text \<open>
  The handler of a win notice, with the price and the campaign as matched in the URL: the new status
  and cache, the budget broadcast to the slave bankers, if any, and the reply. The replies of the
  source are built by a static function whose result is dropped, so the reply is left as it is.
\<close>

definition win_notice :: "(string \<Rightarrow> u32 option) \<Rightarrow> (string \<Rightarrow> u64 option) \<Rightarrow> (example_campaign_entity, 'c) index_ops \<Rightarrow>
    memory_env \<Rightarrow> string \<Rightarrow> string \<Rightarrow> notification_service_status \<times> 'c entity_cache \<Rightarrow> reply \<Rightarrow>
    notice_error + ((notification_service_status \<times> 'c entity_cache) \<times> ar_val list option \<times> reply)" where
  "win_notice cast32 cast64 ops me price_str campaign_id_str st r =
     (case (if campaign_id_str \<noteq> [] then map_option Some (cast32 campaign_id_str) else Some None) of
        None \<Rightarrow> Inl Bad_number
      | Some campaign_id \<Rightarrow>
          (case (if price_str \<noteq> [] then map_option Some (cast64 price_str) else Some None) of
             None \<Rightarrow> Inl Bad_number
           | Some price \<Rightarrow>
               (case (campaign_id, price) of
                  (Some i, Some p) \<Rightarrow>
                    (case CampaignCache_retrieve ops [] i (snd st) of
                       (False, _) \<Rightarrow> Inr (st, None, r)
                     | (True, budgets) \<Rightarrow>
                         (let b = update_price p (budgets ! 0);
                              status = (fst st)\<lparr>ns_day_budget_limit := cb_limit b, ns_total_spent := cb_spent b,
                                ns_win_notice_count := ns_win_notice_count (fst st) + 1\<rparr>
                          in case CampaignCache_update ops me b i (snd st) of
                               Inl e \<Rightarrow> Inl (Notice_cache e)
                             | Inr (_, ch) \<Rightarrow> Inr ((status, ch), Some (save_CampaignBudget b), r)))
                | _ \<Rightarrow> Inr (st, None, r))))"

text \<open>A slave banker that receives a broadcast: the budget is read into a fresh object and its entry
  updated.\<close>

definition slave_consume :: "(example_campaign_entity, 'c) index_ops \<Rightarrow> memory_env \<Rightarrow> ar_val list \<Rightarrow> 'c entity_cache \<Rightarrow>
    cache_error + 'c entity_cache" where
  "slave_consume ops me msg ch =
     (case load_CampaignBudget msg new_CampaignBudget of
        None \<Rightarrow> Inr ch
      | Some b \<Rightarrow>
          (case CampaignCache_update ops me b (cb_campaign_id b) ch of Inl e \<Rightarrow> Inl e | Inr (_, ch') \<Rightarrow> Inr ch'))"

section \<open>The campaign manager\<close>

text \<open>
  The handlers of \<^verbatim>\<open>campaign_manager_test.cpp\<close>, with the two groups matched in the URL: the command
  and the digits. Parsing the body (\<open>extract\<close>) and printing budgets (\<open>json_one\<close>, \<open>json_all\<close>) is the
  JSON library's work. Exceptions are caught and logged, and leave cache and reply as they are; an
  unknown command calls an empty function, which throws.
\<close>

definition caught :: "'c entity_cache \<Rightarrow> cache_error + (bool \<times> 'c entity_cache) \<Rightarrow> cache_error + 'c entity_cache" where
  "caught ch r = (case r of Inl Bad_alloc \<Rightarrow> Inr ch | Inl e \<Rightarrow> Inl e | Inr (_, ch') \<Rightarrow> Inr ch')"

definition manager_put :: "(string \<Rightarrow> CampaignBudget option) \<Rightarrow> (string \<Rightarrow> u32 option) \<Rightarrow>
    (example_campaign_entity, 'c) index_ops \<Rightarrow> memory_env \<Rightarrow> string \<Rightarrow> string \<Rightarrow> string \<Rightarrow> 'c entity_cache \<Rightarrow>
    cache_error + 'c entity_cache" where
  "manager_put extract cast32 ops me command digits body ch =
     (case (extract body, cast32 digits) of
        (Some b, Some i) \<Rightarrow>
          if command = ''budget/id/'' then caught ch (CampaignCache_insert ops me b i ch) else Inr ch
      | _ \<Rightarrow> Inr ch)"

definition manager_post :: "(string \<Rightarrow> CampaignBudget option) \<Rightarrow> (string \<Rightarrow> u32 option) \<Rightarrow>
    (example_campaign_entity, 'c) index_ops \<Rightarrow> memory_env \<Rightarrow> string \<Rightarrow> string \<Rightarrow> string \<Rightarrow> 'c entity_cache \<Rightarrow>
    cache_error + 'c entity_cache" where
  "manager_post extract cast32 ops me command digits body ch =
     (case (extract body, cast32 digits) of
        (Some b, Some i) \<Rightarrow>
          if command = ''budget/id/'' then caught ch (CampaignCache_update ops me b i ch) else Inr ch
      | _ \<Rightarrow> Inr ch)"

definition manager_del :: "(string \<Rightarrow> u32 option) \<Rightarrow> (example_campaign_entity, 'c) index_ops \<Rightarrow> string \<Rightarrow> string \<Rightarrow>
    'c entity_cache \<Rightarrow> 'c entity_cache" where
  "manager_del cast32 ops command digits ch =
     (case cast32 digits of
        Some i \<Rightarrow> if command = ''budget/id/'' then snd (CampaignCache_remove ops i ch) else ch
      | None \<Rightarrow> ch)"

definition manager_get :: "(CampaignBudget \<Rightarrow> string) \<Rightarrow> (CampaignBudget list \<Rightarrow> string) \<Rightarrow> (string \<Rightarrow> u32 option) \<Rightarrow>
    (example_campaign_entity, 'c) index_ops \<Rightarrow> string \<Rightarrow> string \<Rightarrow> 'c entity_cache \<Rightarrow> reply \<Rightarrow> reply" where
  "manager_get json_one json_all cast32 ops command digits ch r =
     (case (if digits \<noteq> [] then map_option Some (cast32 digits) else Some None) of
        None \<Rightarrow> r
      | Some campaign_id \<Rightarrow>
          (let i = (case campaign_id of Some i \<Rightarrow> i | None \<Rightarrow> 0);
               found = (if command = ''budget/id/'' then Some (snd (CampaignCache_retrieve ops [] i ch))
                        else if command = ''budget'' then Some (snd (CampaignCache_retrieve_all ops [] ch))
                        else None)
           in case found of
                None \<Rightarrow> r
              | Some d \<Rightarrow>
                  (let response = (if campaign_id \<noteq> None \<and> d \<noteq> [] then json_one (d ! 0) else json_all d);
                       r1 = reply_flush (reply_append r response) ''json''
                   in r1\<lparr>rep_headers := rep_headers r1 @
                        [\<lparr>hdr_name = ''Access-Control-Allow-Origin'', hdr_value = ''*''\<rparr>]\<rparr>)))"

section \<open>The budget after a sequence of wins\<close>

lemma MetricType_code_inv:
  "(\<And>n. t = MT_other n \<Longrightarrow> n \<notin> {0, 1, 2, 3}) \<Longrightarrow> MetricType_of_int (MetricType_code t) = t"
  by (cases t) (auto simp: MetricType_of_int_def)

lemma unat_min: "unat (min (a :: 'a::len word) b) = min (unat a) (unat b)"
  by (simp add: min_def word_le_nat_alt)

lemma unat_add_small: "unat (a :: 'a::len word) + unat b < 2 ^ LENGTH('a) \<Longrightarrow> unat (a + b) = unat a + unat b"
  by (simp add: unat_word_ariths(1))

lemma unat_sub_le: "b \<le> (a :: 'a::len word) \<Longrightarrow> unat (a - b) = unat a - unat b"
  by (simp add: unat_sub)

lemma word_div_le: "(a :: 'a::len word) div b \<le> a"
  by (simp add: word_le_nat_alt unat_div)

lemma update_price_unat:
  assumes "unat (cb_spent b) + unat v < 2 ^ 64" and "unat (cb_overdraft b) + unat v < 2 ^ 64"
  shows "unat (cb_limit (update_price v b)) = unat (cb_limit b) - unat v"
    "unat (cb_spent (update_price v b)) = unat (cb_spent b) + min (unat (cb_limit b)) (unat v)"
    "unat (cb_overdraft (update_price v b)) = unat (cb_overdraft b) + (unat v - unat (cb_limit b))"
proof -
  let ?m = "min (cb_limit b) v"
  have m: "unat ?m = min (unat (cb_limit b)) (unat v)" by (rule unat_min)
  have "unat (cb_limit b - ?m) = unat (cb_limit b) - unat ?m" by (rule unat_sub_le) simp
  then show "unat (cb_limit (update_price v b)) = unat (cb_limit b) - unat v"
    using m by (simp add: update_price_def Let_def)
  have "unat (cb_spent b + ?m) = unat (cb_spent b) + unat ?m"
    by (rule unat_add_small) (use assms(1) m in simp)
  then show "unat (cb_spent (update_price v b)) = unat (cb_spent b) + min (unat (cb_limit b)) (unat v)"
    using m by (simp add: update_price_def Let_def)
  have o: "unat (v - ?m) = unat v - unat ?m" by (rule unat_sub_le) simp
  have "unat (cb_overdraft b + (v - ?m)) = unat (cb_overdraft b) + unat (v - ?m)"
    by (rule unat_add_small) (use assms(2) o in simp)
  then show "unat (cb_overdraft (update_price v b)) = unat (cb_overdraft b) + (unat v - unat (cb_limit b))"
    using m o by (auto simp: update_price_def Let_def word_less_nat_alt)
qed

lemma update_price_other [simp]:
  "cb_campaign_id (update_price v b) = cb_campaign_id b" "cb_metric (update_price v b) = cb_metric b"
  by (simp_all add: update_price_def Let_def)

lemma authorize_overdraft: "authorize (b\<lparr>cb_overdraft := x\<rparr>) = authorize b"
  by (simp add: authorize_def split: MetricType.split)

definition wins :: "u64 list \<Rightarrow> CampaignBudget \<Rightarrow> CampaignBudget" where
  "wins ps b = fold update_price ps b"

lemma wins_account:
  assumes "unat (cb_spent b) + sum_list (map unat ps) < 2 ^ 64"
    and "unat (cb_overdraft b) + sum_list (map unat ps) < 2 ^ 64"
  shows "unat (cb_limit (wins ps b)) = unat (cb_limit b) - sum_list (map unat ps) \<and>
    unat (cb_spent (wins ps b)) = unat (cb_spent b) + min (unat (cb_limit b)) (sum_list (map unat ps)) \<and>
    unat (cb_overdraft (wins ps b)) = unat (cb_overdraft b) + (sum_list (map unat ps) - unat (cb_limit b)) \<and>
    cb_metric (wins ps b) = cb_metric b"
  using assms
proof (induction ps arbitrary: b)
  case (Cons p ps)
  have p: "unat (cb_spent b) + unat p < 2 ^ 64" "unat (cb_overdraft b) + unat p < 2 ^ 64"
    using Cons.prems by simp_all
  note u = update_price_unat [OF p]
  have "unat (cb_spent (update_price p b)) + sum_list (map unat ps) < 2 ^ 64"
    "unat (cb_overdraft (update_price p b)) + sum_list (map unat ps) < 2 ^ 64"
    using Cons.prems u by simp_all
  note ih = Cons.IH [OF this]
  have a: "min l q + min (l - q) t = min l (q + t)" "q - l + (t - (l - q)) = q + t - l" for l q t :: nat
    by arith+
  show ?case using ih u
    by (simp add: wins_def add.assoc a)
qed (simp add: wins_def)

section \<open>The campaign cache as a map\<close>

interpretation campaign_budget_index: ordered_unique_index "list_ops xce_key" xce_key "list_wf xce_key"
  by (rule list_ops_index)

lemma by_id_key: "by_id i = (\<lambda>e. xce_key e = i)"
  by (simp add: by_id_def fun_eq_iff)

lemma xce_key_store [simp]: "xce_key (xce_store i b) = i"
  by (simp add: xce_key_def xce_store_def)

lemma cache_get_lookup:
  assumes "ordered_unique_index ops xce_key wf_index"
  shows "cache_retrieve_one ops xce_retrieve (by_id i) ch =
    map_option xce_data (ordered_unique_index.lookup ops xce_key ch i)"
  by (simp add: cache_retrieve_one_def by_id_key ordered_unique_index.lookup_def [OF assms] xce_retrieve_def [abs_def])

lemma campaign_update:
  assumes "ordered_unique_index ops xce_key wf_index" and "wf_index (ch_container ch)"
    and "cache_retrieve_one ops xce_retrieve (by_id i) ch = Some old"
    and "me_need me (xce_store i b) \<le> ch_free ch"
  shows "\<exists>ch'. CampaignCache_update ops me b i ch = Inr (True, ch') \<and> wf_index (ch_container ch') \<and>
    (\<forall>j. CampaignCache_get ops j ch' = (if j = i then b else CampaignCache_get ops j ch))"
proof -
  obtain e where e: "ordered_unique_index.lookup ops xce_key ch i = Some e"
    using assms(3) unfolding cache_get_lookup [OF assms(1)] by blast
  have k: "xce_key (xce_store i b) = i" by simp
  obtain ch' where c: "cache_update ops (me_kind me) (me_grown me) (me_need me) xce_store i b (\<lambda>e. xce_key e = i) ch =
      Inr (True, ch')" "wf_index (ch_container ch')"
    "ordered_unique_index.lookup ops xce_key ch' =
      (ordered_unique_index.lookup ops xce_key ch)(i \<mapsto> xce_store i b)"
    using ordered_unique_index.cache_update_unique
      [OF assms(1,2) e, where m = "me_kind me" and grown = "me_grown me" and need = "me_need me" and
        store = xce_store and q = i and d = b] assms(4) by auto
  have "CampaignCache_get ops j ch' = (if j = i then b else CampaignCache_get ops j ch)" for j
    by (simp add: CampaignCache_get_def cache_get_lookup [OF assms(1)] c(3) xce_store_def)
  with c show ?thesis by (auto simp: CampaignCache_update_def by_id_key)
qed

lemma campaign_retrieve_range:
  assumes "ordered_unique_index ops xce_key wf_index" and "wf_index (ch_container ch)"
    and "cache_retrieve_one ops xce_retrieve (by_id i) ch = Some b"
  shows "CampaignCache_retrieve ops [] i ch = (True, [b])"
proof -
  obtain e where e: "ordered_unique_index.lookup ops xce_key ch i = Some e" "xce_data e = b"
    using assms(3) unfolding cache_get_lookup [OF assms(1)] by blast
  have "equal_range ops (by_id i) (ch_container ch) = [e]"
    unfolding by_id_key using ordered_unique_index.range_unique [OF assms(1,2), of i] e by simp
  with e show ?thesis by (simp add: CampaignCache_retrieve_def cache_retrieve_def Let_def xce_retrieve_def)
qed

section \<open>Properties\<close>

text \<open>
  C38: a sequence of wins is accounted for exactly. As long as the sums fit in 64 bits, after any
  list of win prices the limit has decreased by their sum (down to zero), the spent amount has
  grown by the part of the sum that the limit covered, and the overdraft by the rest, whatever the
  order and size of the single prices.
\<close>

theorem wins_accounted:
  assumes "unat (cb_spent b) + sum_list (map unat ps) < 2 ^ 64"
    and "unat (cb_overdraft b) + sum_list (map unat ps) < 2 ^ 64"
  shows "unat (cb_limit (wins ps b)) = unat (cb_limit b) - sum_list (map unat ps) \<and>
    unat (cb_spent (wins ps b)) = unat (cb_spent b) + min (unat (cb_limit b)) (sum_list (map unat ps)) \<and>
    unat (cb_overdraft (wins ps b)) = unat (cb_overdraft b) + (sum_list (map unat ps) - unat (cb_limit b))"
  using wins_account [OF assms] by blast

theorem wins_accounted_witness:
  "unat (cb_overdraft (wins [30, 80] (new_CampaignBudget\<lparr>cb_limit := 100\<rparr>))) = 10"
  using wins_accounted [of "new_CampaignBudget\<lparr>cb_limit := 100\<rparr>" "[30, 80]"] by (simp add: new_CampaignBudget_def)

text \<open>
  C39: what may still be bid after a sequence of wins. The manager never authorises more than the
  value of the metric, and never more than the initial limit less twice the amount won: every win
  both lowers the limit and raises the spent amount it is compared with, so a campaign that has
  spent half of its budget is not authorised to bid any more.
\<close>

theorem authorize_after_wins:
  assumes "cb_spent b = 0" and "cb_overdraft b = 0" and "sum_list (map unat ps) < 2 ^ 64"
  shows "unat (authorize (wins ps b)) \<le> unat (cb_limit b) - 2 * sum_list (map unat ps) \<and>
    authorize (wins ps b) \<le> mt_value (cb_metric b)"
proof -
  let ?w = "wins ps b" and ?S = "sum_list (map unat ps)"
  have w: "unat (cb_limit ?w) = unat (cb_limit b) - ?S" "unat (cb_spent ?w) = min (unat (cb_limit b)) ?S"
      "cb_metric ?w = cb_metric b"
    using wins_account [of b ps] assms by simp_all
  show ?thesis
  proof (cases "cb_spent ?w \<ge> cb_limit ?w")
    case True
    then show ?thesis by (simp add: authorize_def)
  next
    case False
    then have l: "cb_spent ?w \<le> cb_limit ?w" by simp
    have a: "authorize ?w \<le> cb_limit ?w - cb_spent ?w" "authorize ?w \<le> mt_value (cb_metric b)"
      using False w(3) word_div_le [of "mt_value (cb_metric b)" 1000]
      by (auto simp: authorize_def split: MetricType.splits intro: min.coboundedI2)
    have "unat (cb_limit ?w - cb_spent ?w) = unat (cb_limit b) - 2 * ?S"
      using unat_sub_le [OF l] w(1,2) False by (auto simp: word_le_nat_alt)
    with a show ?thesis by (simp add: word_le_nat_alt)
  qed
qed

theorem authorize_after_wins_witness:
  "authorize (wins [50] (new_CampaignBudget\<lparr>cb_limit := 100, cb_metric := \<lparr>mt_type = MT_CPC, mt_value = 10\<rparr>\<rparr>)) = 0"
  using authorize_after_wins [of "new_CampaignBudget\<lparr>cb_limit := 100, cb_metric := \<lparr>mt_type = MT_CPC, mt_value = 10\<rparr>\<rparr>" "[50]"]
  by (simp add: new_CampaignBudget_def word_unat_eq_iff)

text \<open>
  C40: a win notice for a campaign in the cache. On any container with the laws of an ordered unique
  index and with room for the entry, the handler charges the price to that campaign and to no other,
  counts the notice, reports the new limit and spent amount, and broadcasts the budget. A slave
  banker that has the campaign and receives the broadcast then authorises exactly what the master
  authorises, although the overdraft is not transmitted.
\<close>

theorem win_notice_reaches_slaves:
  assumes "ordered_unique_index ops xce_key wf_index" and "wf_index (ch_container ch)"
    and "wf_index (ch_container slave)"
    and "id_str \<noteq> []" and "cast32 id_str = Some i" and "price_str \<noteq> []" and "cast64 price_str = Some p"
    and "cache_retrieve_one ops xce_retrieve (by_id i) ch = Some b"
    and "cb_campaign_id b = i" and "mt_type (cb_metric b) \<in> {MT_UNDEFINED, MT_CPM, MT_CPC, MT_CPA}"
    and "cache_retrieve_one ops xce_retrieve (by_id i) slave = Some sb"
    and "\<And>e. me_need me e \<le> ch_free ch \<and> me_need me e \<le> ch_free slave"
  shows "\<exists>ch' msg slave'. win_notice cast32 cast64 ops me price_str id_str (st, ch) r =
      Inr ((st\<lparr>ns_day_budget_limit := cb_limit (update_price p b), ns_total_spent := cb_spent (update_price p b),
               ns_win_notice_count := ns_win_notice_count st + 1\<rparr>, ch'), Some msg, r) \<and>
    (\<forall>j. CampaignCache_get ops j ch' = (if j = i then update_price p b else CampaignCache_get ops j ch)) \<and>
    slave_consume ops me msg slave = Inr slave' \<and>
    Banker_authorize ops slave' i = Banker_authorize ops ch' i"
proof -
  let ?b = "update_price p b"
  let ?s = "?b\<lparr>cb_overdraft := 0\<rparr>"
  have "CampaignCache_retrieve ops [] i ch = (True, [b])"
    using campaign_retrieve_range [OF assms(1,2,8)] .
  moreover obtain ch' where ch': "CampaignCache_update ops me ?b i ch = Inr (True, ch')"
    "\<forall>j. CampaignCache_get ops j ch' = (if j = i then ?b else CampaignCache_get ops j ch)"
    using campaign_update [OF assms(1,2,8)] assms(12) by blast
  ultimately have w: "win_notice cast32 cast64 ops me price_str id_str (st, ch) r =
      Inr ((st\<lparr>ns_day_budget_limit := cb_limit ?b, ns_total_spent := cb_spent ?b,
             ns_win_notice_count := ns_win_notice_count st + 1\<rparr>, ch'), Some (save_CampaignBudget ?b), r)"
    using assms(4-7) by (simp add: win_notice_def Let_def)
  have mt: "MetricType_of_int (MetricType_code (mt_type (cb_metric b))) = mt_type (cb_metric b)"
    using assms(10) by (intro MetricType_code_inv) auto
  then have l: "load_CampaignBudget (save_CampaignBudget ?b) new_CampaignBudget = Some ?s"
    by (simp add: save_CampaignBudget_def save_Metric_def new_CampaignBudget_def)
  obtain slave' where s': "CampaignCache_update ops me ?s i slave = Inr (True, slave')"
    "\<forall>j. CampaignCache_get ops j slave' = (if j = i then ?s else CampaignCache_get ops j slave)"
    using campaign_update [OF assms(1,3,11)] assms(12) by blast
  have c: "slave_consume ops me (save_CampaignBudget ?b) slave = Inr slave'"
    using s'(1) assms(9) by (simp add: slave_consume_def l)
  have "authorize ?s = authorize ?b" by (rule authorize_overdraft)
  then have "Banker_authorize ops slave' i = Banker_authorize ops ch' i"
    using ch'(2) s'(2) by (simp add: Banker_authorize_def)
  with w ch'(2) c show ?thesis by blast
qed

definition sample_env :: memory_env where
  "sample_env = \<lparr>me_kind = Shared, me_grown = (+), me_need = (\<lambda>_. 1)\<rparr>"

definition sample_budget :: CampaignBudget where
  "sample_budget = new_CampaignBudget\<lparr>cb_campaign_id := 5, cb_limit := 100,
     cb_metric := \<lparr>mt_type = MT_CPC, mt_value = 10\<rparr>\<rparr>"

theorem win_notice_reaches_slaves_witness:
  "\<exists>ch' msg slave'. win_notice (map_of [(''5'', 5)]) (map_of [(''9'', 9)]) (list_ops xce_key) sample_env ''9'' ''5''
      (\<lparr>ns_win_notice_count = 0, ns_day_budget_limit = 0, ns_total_spent = 0\<rparr>, sample_cache [xce_store 5 sample_budget] 3)
      (new_reply Not_found) =
      Inr ((\<lparr>ns_win_notice_count = 1, ns_day_budget_limit = 91, ns_total_spent = 9\<rparr>, ch'), Some msg, new_reply Not_found) \<and>
    slave_consume (list_ops xce_key) sample_env msg (sample_cache [xce_store 5 sample_budget] 3) = Inr slave' \<and>
    Banker_authorize (list_ops xce_key) slave' 5 = Banker_authorize (list_ops xce_key) ch' 5"
proof -
  let ?ch = "sample_cache [xce_store 5 sample_budget] 3"
  let ?st = "\<lparr>ns_win_notice_count = 0, ns_day_budget_limit = 0, ns_total_spent = 0\<rparr>"
  have w: "list_wf xce_key (ch_container ?ch)" by (simp add: list_wf_def sample_cache_def)
  have g: "cache_retrieve_one (list_ops xce_key) xce_retrieve (by_id 5) ?ch = Some sample_budget"
    by (simp add: cache_retrieve_one_def find_in_def list_ops_def sample_cache_def by_id_def xce_retrieve_def)
      (simp add: xce_store_def)
  have n: "me_need sample_env e \<le> ch_free ?ch \<and> me_need sample_env e \<le> ch_free ?ch" for e
    by (simp add: sample_env_def sample_cache_def)
  have u: "cb_limit (update_price 9 sample_budget) = 91" "cb_spent (update_price 9 sample_budget) = 9"
    by (simp_all add: sample_budget_def new_CampaignBudget_def update_price_def)
  have c: "map_of [(''5'', 5 :: u32)] ''5'' = Some 5" "map_of [(''9'', 9 :: u64)] ''9'' = Some 9" by simp_all
  have b: "cb_campaign_id sample_budget = 5"
    "mt_type (cb_metric sample_budget) \<in> {MT_UNDEFINED, MT_CPM, MT_CPC, MT_CPA}" by (simp_all add: sample_budget_def)
  note win_notice_reaches_slaves [where ops = "list_ops xce_key" and wf_index = "list_wf xce_key" and ch = ?ch
      and slave = ?ch and id_str = "''5''" and ?cast32.0 = "map_of [(''5'', 5)]" and i = 5 and price_str = "''9''"
      and ?cast64.0 = "map_of [(''9'', 9)]" and p = 9 and b = sample_budget and sb = sample_budget and me = sample_env
      and st = ?st and r = "new_reply Not_found",
    OF campaign_budget_index.ordered_unique_index_axioms w w _ c(1) _ c(2) g b g n]
  with u
  show ?thesis by simp blast
qed

text \<open>
  Creating a budget and reading it back through the manager. A PUT of a budget for a campaign
  that is not there, with room in the segment, is followed by a GET of that campaign that is read by
  the client as status 200 with the JSON text of exactly that budget, its length and the CORS header.
\<close>

theorem manager_put_get:
  assumes "ordered_unique_index ops xce_key wf_index" and "wf_index (ch_container ch)"
    and "extract body = Some b" and "cast32 digits = Some i" and "digits \<noteq> []"
    and "cache_retrieve_one ops xce_retrieve (by_id i) ch = None"
    and "me_need me (xce_store i b) \<le> ch_free ch"
  shows "\<exists>ch'. manager_put extract cast32 ops me ''budget/id/'' digits body ch = Inr ch' \<and>
    read_reply (concat (to_buffers
      (manager_get json_one json_all cast32 ops ''budget/id/'' digits ch' (new_reply g)))) =
    Some (''200'', [\<lparr>hdr_name = ''Content-Length'', hdr_value = to_string (length (json_one b))\<rparr>,
      \<lparr>hdr_name = ''Content-Type'', hdr_value = ''application/json''\<rparr>,
      \<lparr>hdr_name = ''Access-Control-Allow-Origin'', hdr_value = ''*''\<rparr>], json_one b)"
proof -
  obtain ok ch' where i: "CampaignCache_insert ops me b i ch = Inr (ok, ch')"
    using assms(7) by (auto simp: CampaignCache_insert_def cache_insert_def insert_data_def Let_def split_beta)
  note l = ordered_unique_index.cache_insert_lookup [OF assms(1,2) i [unfolded CampaignCache_insert_def]]
  have "ordered_unique_index.lookup ops xce_key ch i = None"
    using assms(6) unfolding cache_get_lookup [OF assms(1)] by simp
  with l have "wf_index (ch_container ch')" "ordered_unique_index.lookup ops xce_key ch' i = Some (xce_store i b)"
    by simp_all
  then have r: "CampaignCache_retrieve ops [] i ch' = (True, [b])"
    by (intro campaign_retrieve_range [OF assms(1)])
      (simp_all add: cache_get_lookup [OF assms(1)] xce_store_def)
  let ?r1 = "reply_flush (reply_append (new_reply g) (json_one b)) ''json''"
  let ?r2 = "?r1\<lparr>rep_headers := rep_headers ?r1 @ [\<lparr>hdr_name = ''Access-Control-Allow-Origin'', hdr_value = ''*''\<rparr>]\<rparr>"
  have get: "manager_get json_one json_all cast32 ops ''budget/id/'' digits ch' (new_reply g) = ?r2"
    using assms(4,5) r by (simp add: manager_get_def Let_def)
  have t: "extension_to_type ''json'' = ''application/json''" by code_simp
  have h: "rep_headers ?r2 = [\<lparr>hdr_name = ''Content-Length'', hdr_value = to_string (length (json_one b))\<rparr>,
      \<lparr>hdr_name = ''Content-Type'', hdr_value = ''application/json''\<rparr>,
      \<lparr>hdr_name = ''Access-Control-Allow-Origin'', hdr_value = ''*''\<rparr>]"
    "rep_status ?r2 = Ok" "rep_content ?r2 = json_one b"
    by (simp_all add: reply_flush_def flush_impl_def reply_append_def new_reply_def t)
  have "list_all sendable_header (rep_headers ?r2)"
    unfolding h(1) by (simp add: sendable_header_def to_string_no_cr)
  from read_reply_print [OF this] have "read_reply (concat (to_buffers ?r2)) =
      Some (''200'', rep_headers ?r2, json_one b)"
    unfolding h(2,3) by (simp add: wire_code_def to_string.simps)
  then have "read_reply (concat (to_buffers ?r2)) =
      Some (''200'', [\<lparr>hdr_name = ''Content-Length'', hdr_value = to_string (length (json_one b))\<rparr>,
      \<lparr>hdr_name = ''Content-Type'', hdr_value = ''application/json''\<rparr>,
      \<lparr>hdr_name = ''Access-Control-Allow-Origin'', hdr_value = ''*''\<rparr>], json_one b)"
    unfolding h(1) .
  moreover have "manager_put extract cast32 ops me ''budget/id/'' digits body ch = Inr ch'"
    using assms(3,4) i by (simp add: manager_put_def caught_def)
  ultimately show ?thesis unfolding get [symmetric] by blast
qed

theorem manager_put_get_witness:
  "\<exists>ch'. manager_put (\<lambda>_. Some sample_budget) (map_of [(''5'', 5)]) (list_ops xce_key) sample_env ''budget/id/'' ''5'' []
      (sample_cache [] 3) = Inr ch' \<and>
    read_reply (concat (to_buffers (manager_get (\<lambda>_. ''{}'') (\<lambda>_. ''[]'') (map_of [(''5'', 5)]) (list_ops xce_key)
      ''budget/id/'' ''5'' ch' (new_reply Ok)))) =
    Some (''200'', [\<lparr>hdr_name = ''Content-Length'', hdr_value = to_string (length ''{}'')\<rparr>,
      \<lparr>hdr_name = ''Content-Type'', hdr_value = ''application/json''\<rparr>,
      \<lparr>hdr_name = ''Access-Control-Allow-Origin'', hdr_value = ''*''\<rparr>], ''{}'')"
  by (rule manager_put_get [OF campaign_budget_index.ordered_unique_index_axioms])
    (simp_all add: sample_cache_def sample_env_def list_wf_def cache_retrieve_one_def find_in_def list_ops_def)

end
