(* ===== verification/Bidder.thy ===== *)
theory Bidder
  imports Openrtb Campaign
begin

text \<open>
  The bidders: the selection of an ad for an impression (\<^verbatim>\<open>examples/bidder/ad_selector.hpp\<close>,
  \<^verbatim>\<open>rtb/core/ad_selector.hpp\<close>, \<^verbatim>\<open>rtb/core/algos.hpp\<close>), the caches it reads
  (\<^verbatim>\<open>examples/bidder/bidder_caches.hpp\<close>) and the construction of the bid response
  (\<^verbatim>\<open>examples/bidder/bidder.hpp\<close>, \<^verbatim>\<open>rtb/core/bidder.hpp\<close>), for the bidder by location and for the
  bidder by domain (\<^verbatim>\<open>examples/bidder_experimental\<close>). The generator of universally unique
  identifiers is a parameter with its own state. The theorems show that a bid offers the best
  authorised ad of the targeted campaigns and never more than their budgets allow.
\<close>

section \<open>Choosing the best ad\<close>

text \<open>\<open>std::max_element\<close>: the first of the largest elements.\<close>

fun max_element :: "('a \<Rightarrow> 'a \<Rightarrow> bool) \<Rightarrow> 'a \<Rightarrow> 'a list \<Rightarrow> 'a" where
  "max_element lt largest [] = largest"
| "max_element lt largest (x # xs) = max_element lt (if lt largest x then x else largest) xs"

definition less_bid :: "Ad \<Rightarrow> Ad \<Rightarrow> bool" where
  "less_bid first second =
     (case (ad_auth_bid_micros first, ad_auth_bid_micros second) of
        (Some a, Some b) \<Rightarrow> a < b
      | _ \<Rightarrow> ad_max_bid_micros first < ad_max_bid_micros second)"

text \<open>The selector of the bidder by location gives no ad for an empty list, the core algorithm an empty ad.\<close>

definition max_bid :: "Ad list \<Rightarrow> Ad option" where
  "max_bid ads = (case ads of [] \<Rightarrow> None | a # as \<Rightarrow> Some (max_element less_bid a as))"

definition calculate_max_bid :: "Ad list \<Rightarrow> Ad" where
  "calculate_max_bid ads = (case ads of [] \<Rightarrow> new_Ad | a # as \<Rightarrow> max_element less_bid a as)"

section \<open>The caches of the bidder by location\<close>

record ('a, 'g, 'c, 'b) BidderCaches =
  bc_ads_ops :: "(example_ad_entity, 'a) index_ops"
  bc_ads :: "'a entity_cache"
  bc_geo_ops :: "(city_country_entity, 'g) index_ops"
  bc_geo :: "'g entity_cache"
  bc_campaigns_ops :: "(GeoCampaign, 'c) index_ops"
  bc_campaigns :: "'c entity_cache"
  bc_budgets_ops :: "(example_campaign_entity, 'b) index_ops"
  bc_budgets :: "'b entity_cache"

record bidder_sources =
  src_ads :: string
  src_geo :: string
  src_geo_campaign :: string
  src_campaign_budget :: string

text \<open>What loading takes from outside: files, the library's conversions and the memory of each cache.\<close>

record load_env =
  le_open :: "string \<Rightarrow> string option"
  le_cast64 :: "string \<Rightarrow> u64 option"
  le_cast32 :: "string \<Rightarrow> u32 option"
  le_cast16 :: "string \<Rightarrow> u16 option"
  le_split :: "string \<Rightarrow> string list"
  le_kind :: memory_kind
  le_grown :: "nat \<Rightarrow> nat \<Rightarrow> nat"
  le_need_ad :: "example_ad_entity \<Rightarrow> nat"
  le_need_geo :: "city_country_entity \<Rightarrow> nat"
  le_need_campaign :: "GeoCampaign \<Rightarrow> nat"
  le_need_budget :: "example_campaign_entity \<Rightarrow> nat"

definition BidderCaches_load :: "load_env \<Rightarrow> bidder_sources \<Rightarrow> ('a, 'g, 'c, 'b) BidderCaches \<Rightarrow>
    load_error + ('a, 'g, 'c, 'b) BidderCaches" where
  "BidderCaches_load e s bc =
     (case AdDataEntity_load (le_open e) (src_ads s) (bc_ads_ops bc) (le_kind e) (le_grown e) (le_need_ad e)
             (le_cast64 e) (le_cast16 e) (bc_ads bc) of
        Inl er \<Rightarrow> Inl er
      | Inr ads \<Rightarrow>
     (case GeoDataEntity_load (le_open e) (src_geo s) (bc_geo_ops bc) (le_kind e) (le_grown e) (le_need_geo e)
             (le_split e) (bc_geo bc) of
        Inl er \<Rightarrow> Inl er
      | Inr geo \<Rightarrow>
     (case GeoCampaignEntity_load (le_open e) (src_geo_campaign s) (bc_campaigns_ops bc) (le_kind e) (le_grown e)
             (le_need_campaign e) (le_cast32 e) (bc_campaigns bc) of
        Inl er \<Rightarrow> Inl er
      | Inr campaigns \<Rightarrow>
     (case CampaignCache_load (le_open e) (src_campaign_budget s) (bc_budgets_ops bc)
             \<lparr>me_kind = le_kind e, me_grown = le_grown e, me_need = le_need_budget e\<rparr> (le_cast32 e) (le_cast64 e)
             (bc_budgets bc) of
        Inl er \<Rightarrow> Inl er
      | Inr budgets \<Rightarrow>
          Inr (bc\<lparr>bc_ads := ads, bc_geo := geo, bc_campaigns := campaigns, bc_budgets := budgets\<rparr>)))))"

section \<open>The selector of the bidder by location\<close>

text \<open>
  The two vectors are members that keep their contents between calls. Reading the banner of an
  impression that has none, or the site of a request that has none, is undefined in the source.
\<close>

datatype select_error = Null_banner | Null_site

record AdSelector =
  as_geo_campaigns :: "GeoCampaign list"
  as_ads :: "Ad list"
  as_selection_alg :: "(Ad list \<Rightarrow> Ad option) option"

definition new_AdSelector :: AdSelector where
  "new_AdSelector = \<lparr>as_geo_campaigns = [], as_ads = [], as_selection_alg = None\<rparr>"

definition alg :: "(Ad list \<Rightarrow> Ad option) \<Rightarrow> AdSelector \<Rightarrow> AdSelector" where
  "alg selection_alg s = s\<lparr>as_selection_alg := Some selection_alg\<rparr>"

text \<open>A request without a user or without its location keeps the default location.\<close>

definition getGeo :: "('a, 'g, 'c, 'b) BidderCaches \<Rightarrow> BidRequest \<Rightarrow> GeoRow option" where
  "getGeo bc req =
     (case brq_user req of
        None \<Rightarrow> Some new_GeoRow
      | Some user \<Rightarrow>
          (case user_geo user of
             None \<Rightarrow> Some new_GeoRow
           | Some geo \<Rightarrow>
               GeoDataEntity_retrieve (bc_geo_ops bc) (to_lower_copy (geo_city geo))
                 (to_lower_copy (geo_country geo)) (bc_geo bc)))"

definition getGeoCampaigns :: "('a, 'g, 'c, 'b) BidderCaches \<Rightarrow> u32 \<Rightarrow> AdSelector \<Rightarrow> bool \<times> AdSelector" where
  "getGeoCampaigns bc geo_id s =
     (let (found, cs) = GeoCampaignEntity_retrieve (bc_campaigns_ops bc) [] geo_id (bc_campaigns bc)
      in (found, s\<lparr>as_geo_campaigns := cs\<rparr>))"

definition selector_authorize :: "('a, 'g, 'c, 'b) BidderCaches \<Rightarrow> u32 \<Rightarrow> u64" where
  "selector_authorize bc campaign_id = Banker_authorize (bc_budgets_ops bc) (bc_budgets bc) campaign_id"

definition set_auth_bid :: "u64 \<Rightarrow> Ad \<Rightarrow> Ad" where
  "set_auth_bid budget_bid ad = ad\<lparr>ad_auth_bid_micros := Some (min budget_bid (ad_max_bid_micros ad))\<rparr>"

fun campaign_ads_loop :: "('a, 'g, 'c, 'b) BidderCaches \<Rightarrow> Impression \<Rightarrow> GeoCampaign list \<Rightarrow> Ad list \<Rightarrow>
    select_error + Ad list" where
  "campaign_ads_loop bc imp [] ads = Inr ads"
| "campaign_ads_loop bc imp (c # cs) ads =
     (case imp_banner imp of
        None \<Rightarrow> Inl Null_banner
      | Some banner \<Rightarrow>
          (let offset = length ads;
               (found, ads1) = AdDataEntity_retrieve (bc_ads_ops bc) ads (gc_campaign_id c) (bn_w banner) (bn_h banner) (bc_ads bc)
           in if \<not> found then campaign_ads_loop bc imp cs ads1
              else let budget_bid = selector_authorize bc (gc_campaign_id c)
                   in campaign_ads_loop bc imp cs (take offset ads1 @ map (set_auth_bid budget_bid) (drop offset ads1))))"

definition getCampaignAds :: "('a, 'g, 'c, 'b) BidderCaches \<Rightarrow> GeoCampaign list \<Rightarrow> Impression \<Rightarrow> AdSelector \<Rightarrow>
    select_error + (bool \<times> AdSelector)" where
  "getCampaignAds bc campaigns imp s =
     (case campaign_ads_loop bc imp campaigns [] of
        Inl e \<Rightarrow> Inl e
      | Inr ads \<Rightarrow> Inr (length ads > 0, s\<lparr>as_ads := ads\<rparr>))"

definition select :: "('a, 'g, 'c, 'b) BidderCaches \<Rightarrow> BidRequest \<Rightarrow> Impression \<Rightarrow> AdSelector \<Rightarrow>
    select_error + (Ad option \<times> AdSelector)" where
  "select bc req imp s =
     (case getGeo bc req of
        None \<Rightarrow> Inr (None, s)
      | Some geo \<Rightarrow>
          (let (found, s1) = getGeoCampaigns bc (gr_geo_id geo) s
           in if \<not> found then Inr (None, s1)
              else (case getCampaignAds bc (as_geo_campaigns s1) imp s1 of
                      Inl e \<Rightarrow> Inl e
                    | Inr (some_ads, s2) \<Rightarrow>
                        if \<not> some_ads then Inr (None, s2)
                        else (case as_selection_alg s2 of
                                Some f \<Rightarrow> Inr (f (as_ads s2), s2)
                              | None \<Rightarrow> Inr (max_bid (as_ads s2), s2)))))"

section \<open>Building the response\<close>

definition addCurrency :: "BidRequest \<Rightarrow> Impression \<Rightarrow> BidResponse \<Rightarrow> BidResponse" where
  "addCurrency request imp response =
     (if brq_cur request \<noteq> [] then response\<lparr>brs_cur := hd (brq_cur request)\<rparr>
      else if imp_bidfloorcur imp \<noteq> [] then response\<lparr>brs_cur := imp_bidfloorcur imp\<rparr>
      else response)"

definition bid_price_of :: "Ad \<Rightarrow> double" where
  "bid_price_of ad =
     (case ad_auth_bid_micros ad of
        Some a \<Rightarrow> of_nat (unat a) / 1000000
      | None \<Rightarrow> of_nat (unat (ad_max_bid_micros ad)) / 1000000)"

definition make_bid :: "string \<Rightarrow> Impression \<Rightarrow> Ad \<Rightarrow> Bid" where
  "make_bid uuid imp ad =
     new_Bid\<lparr>bid_id := uuid, bid_impid := imp_id imp, bid_price := bid_price_of ad, bid_w := uint (ad_width ad),
       bid_h := uint (ad_height ad), bid_adm := ad_code ad, bid_adid := to_string (unat (ad_id ad))\<rparr>"

text \<open>Appending to the bids of the last seat, which is created when there is none.\<close>

definition push_bid :: "Bid \<Rightarrow> SeatBid list \<Rightarrow> SeatBid list" where
  "push_bid bid seats =
     (let seats1 = (if seats = [] then [new_SeatBid] else seats)
      in butlast seats1 @ [(last seats1)\<lparr>sb_bid := sb_bid (last seats1) @ [bid]\<rparr>])"

definition addBid :: "('u \<Rightarrow> string \<times> 'u) \<Rightarrow> Impression \<Rightarrow> Ad \<Rightarrow> 'u \<times> BidResponse \<Rightarrow> 'u \<times> BidResponse" where
  "addBid uuid_generator imp ad ur =
     (case ur of (u, response) \<Rightarrow>
        let (uuid, u1) = uuid_generator u
        in (u1, response\<lparr>brs_seatbid := push_bid (make_bid uuid imp ad) (brs_seatbid response)\<rparr>))"

text \<open>What \<open>buildImpResponse\<close> does with the ad the selector gives.\<close>

definition respond :: "('u \<Rightarrow> string \<times> 'u) \<Rightarrow> BidRequest \<Rightarrow> Impression \<Rightarrow> Ad option \<Rightarrow> 'u \<times> BidResponse \<Rightarrow>
    'u \<times> BidResponse" where
  "respond uuid_generator request imp ad ur =
     (case ad of
        None \<Rightarrow> ur
      | Some a \<Rightarrow>
          (case ur of (u, response) \<Rightarrow>
             let (uuid, u1) = uuid_generator u
             in addBid uuid_generator imp a (u1, addCurrency request imp (response\<lparr>brs_bidid := uuid\<rparr>))))"

record 'u Bidder =
  bd_selector :: AdSelector
  bd_uuid :: 'u
  bd_response :: BidResponse

definition new_Bidder :: "'u \<Rightarrow> NoBidReason \<Rightarrow> 'u Bidder" where
  "new_Bidder u nbr = \<lparr>bd_selector = new_AdSelector, bd_uuid = u, bd_response = new_BidResponse nbr\<rparr>"

definition buildImpResponse :: "('u \<Rightarrow> string \<times> 'u) \<Rightarrow> ('a, 'g, 'c, 'b) BidderCaches \<Rightarrow> BidRequest \<Rightarrow> Impression \<Rightarrow>
    'u Bidder \<Rightarrow> select_error + 'u Bidder" where
  "buildImpResponse uuid_generator bc request imp b =
     (case select bc request imp (bd_selector b) of
        Inl e \<Rightarrow> Inl e
      | Inr (ad, s) \<Rightarrow>
          (let (u, response) = respond uuid_generator request imp ad (bd_uuid b, bd_response b)
           in Inr \<lparr>bd_selector = s, bd_uuid = u, bd_response = response\<rparr>))"

fun bid_loop :: "(Impression \<Rightarrow> 'b \<Rightarrow> select_error + 'b) \<Rightarrow> Impression list \<Rightarrow> 'b \<Rightarrow> select_error + 'b" where
  "bid_loop build [] b = Inr b"
| "bid_loop build (imp # imps) b =
     (case build imp b of Inl e \<Rightarrow> Inl e | Inr b' \<Rightarrow> bid_loop build imps b')"

definition bid :: "('u \<Rightarrow> string \<times> 'u) \<Rightarrow> ('a, 'g, 'c, 'b) BidderCaches \<Rightarrow> BidRequest \<Rightarrow> 'u Bidder \<Rightarrow>
    select_error + (BidResponse \<times> 'u Bidder)" where
  "bid uuid_generator bc request b =
     (case bid_loop (buildImpResponse uuid_generator bc request) (brq_imp request)
             (b\<lparr>bd_response := BidResponse_clear (bd_response b)\<rparr>) of
        Inl e \<Rightarrow> Inl e
      | Inr b' \<Rightarrow> Inr (bd_response b', b'))"

section \<open>What is offered\<close>

text \<open>
  The entries of the ad cache a request targets: of the banner's size, and of a campaign that the
  campaign cache pairs with the location of the request.
\<close>

definition targeted :: "('a, 'g, 'c, 'b) BidderCaches \<Rightarrow> BidRequest \<Rightarrow> Banner \<Rightarrow> example_ad_entity \<Rightarrow> bool" where
  "targeted bc req bn e \<longleftrightarrow>
     e \<in> set (ix_entries (bc_ads_ops bc) (ch_container (bc_ads bc))) \<and>
     xad_width e = bn_w bn \<and> xad_height e = bn_h bn \<and>
     (\<exists>geo g. getGeo bc req = Some geo \<and>
        g \<in> set (ix_entries (bc_campaigns_ops bc) (ch_container (bc_campaigns bc))) \<and>
        gc_geo_id g = gr_geo_id geo \<and> gc_campaign_id g = xad_campaign_id e)"

definition offer :: "('a, 'g, 'c, 'b) BidderCaches \<Rightarrow> example_ad_entity \<Rightarrow> u64" where
  "offer bc e = min (selector_authorize bc (xad_campaign_id e)) (xad_max_bid_micros e)"

definition best_offer :: "('a, 'g, 'c, 'b) BidderCaches \<Rightarrow> BidRequest \<Rightarrow> Banner \<Rightarrow> Ad \<Rightarrow> bool" where
  "best_offer bc req bn ad \<longleftrightarrow>
     (\<exists>e. targeted bc req bn e \<and> ad = (xad_retrieve e)\<lparr>ad_auth_bid_micros := Some (offer bc e)\<rparr> \<and>
        (\<forall>e'. targeted bc req bn e' \<longrightarrow> offer bc e' \<le> offer bc e))"

definition campaign_offers :: "('a, 'g, 'c, 'b) BidderCaches \<Rightarrow> Banner \<Rightarrow> u32 \<Rightarrow> Ad list" where
  "campaign_offers bc bn c =
     map (\<lambda>e. set_auth_bid (selector_authorize bc c) (xad_retrieve e))
       (equal_range (bc_ads_ops bc)
         (\<lambda>e. xad_campaign_id e = c \<and> xad_width e = bn_w bn \<and> xad_height e = bn_h bn) (ch_container (bc_ads bc)))"

definition geo_offers :: "('a, 'g, 'c, 'b) BidderCaches \<Rightarrow> Banner \<Rightarrow> u32 \<Rightarrow> Ad list" where
  "geo_offers bc bn geo_id =
     concat (map (\<lambda>g. campaign_offers bc bn (gc_campaign_id g))
       (snd (GeoCampaignEntity_retrieve (bc_campaigns_ops bc) [] geo_id (bc_campaigns bc))))"

lemma campaign_ads_loop_offers:
  assumes "imp_banner imp = Some bn"
  shows "campaign_ads_loop bc imp cs ads = Inr (ads @ concat (map (\<lambda>g. campaign_offers bc bn (gc_campaign_id g)) cs))"
  using assms
  by (induction cs arbitrary: ads)
    (auto simp: AdDataEntity_retrieve_def cache_retrieve_raw_def campaign_offers_def Let_def comp_def)

lemma offer_of_entry:
  "set_auth_bid (selector_authorize bc (xad_campaign_id e)) (xad_retrieve e) =
     (xad_retrieve e)\<lparr>ad_auth_bid_micros := Some (offer bc e)\<rparr>"
  by (simp add: set_auth_bid_def offer_def xad_retrieve_def)

lemma set_geo_offers:
  assumes "getGeo bc req = Some geo"
  shows "set (geo_offers bc bn (gr_geo_id geo)) =
    {(xad_retrieve e)\<lparr>ad_auth_bid_micros := Some (offer bc e)\<rparr> | e. targeted bc req bn e}"
proof -
  have "set (geo_offers bc bn (gr_geo_id geo)) =
      {set_auth_bid (selector_authorize bc (xad_campaign_id e)) (xad_retrieve e) | e. targeted bc req bn e}"
    using assms
    by (auto simp: geo_offers_def campaign_offers_def equal_range_def GeoCampaignEntity_retrieve_def
        cache_retrieve_raw_def gc_retrieve_def targeted_def image_iff Let_def) metis+
  then show ?thesis by (simp add: offer_of_entry)
qed

lemma max_element_max:
  assumes "\<And>x y. x \<in> set (a # as) \<Longrightarrow> y \<in> set (a # as) \<Longrightarrow> lt x y \<longleftrightarrow> f x < (f y :: 'b::linorder)"
  shows "max_element lt a as \<in> set (a # as) \<and> (\<forall>x \<in> set (a # as). f x \<le> f (max_element lt a as))"
  using assms
proof (induction as arbitrary: a)
  case (Cons b as)
  let ?c = "if lt a b then b else a"
  have "max_element lt ?c as \<in> set (?c # as) \<and> (\<forall>x \<in> set (?c # as). f x \<le> f (max_element lt ?c as))"
    by (rule Cons.IH) (use Cons.prems in \<open>auto split: if_splits\<close>)
  moreover have "f a \<le> f ?c" "f b \<le> f ?c" using Cons.prems [of a b] by (auto simp: not_less)
  ultimately show ?case by (auto split: if_splits intro: order_trans)
qed simp

lemma max_bid_best:
  assumes "getGeo bc req = Some geo" and "geo_offers bc bn (gr_geo_id geo) = a # as"
  shows "best_offer bc req bn (max_element less_bid a as)"
proof -
  let ?m = "max_element less_bid a as" and ?f = "\<lambda>x. the (ad_auth_bid_micros x)"
  note s = set_geo_offers [OF assms(1), of bn, unfolded assms(2)]
  have some: "\<exists>v. ad_auth_bid_micros x = Some v" if "x \<in> set (a # as)" for x
    using that unfolding s by auto
  have "less_bid x y \<longleftrightarrow> ?f x < ?f y" if xy: "x \<in> set (a # as)" "y \<in> set (a # as)" for x y
    using some [OF xy(1)] some [OF xy(2)] by (auto simp: less_bid_def)
  then have "?m \<in> set (a # as) \<and> (\<forall>x \<in> set (a # as). ?f x \<le> ?f ?m)"
    by (rule max_element_max)
  then have m: "?m \<in> set (a # as)" "\<And>x. x \<in> set (a # as) \<Longrightarrow> ?f x \<le> ?f ?m" by blast+
  from m(1) obtain e where e: "targeted bc req bn e" "?m = (xad_retrieve e)\<lparr>ad_auth_bid_micros := Some (offer bc e)\<rparr>"
    unfolding s by blast
  have "offer bc e' \<le> offer bc e" if "targeted bc req bn e'" for e'
  proof -
    have "(xad_retrieve e')\<lparr>ad_auth_bid_micros := Some (offer bc e')\<rparr> \<in> set (a # as)"
      using that unfolding s by blast
    from m(2) [OF this] e(2) show ?thesis by simp
  qed
  with e show ?thesis unfolding best_offer_def by blast
qed

lemma select_chooses:
  assumes "as_selection_alg s = None" and "imp_banner imp = Some bn"
  shows "\<exists>ad s'. select bc req imp s = Inr (ad, s') \<and> as_selection_alg s' = None \<and>
    (case ad of None \<Rightarrow> (\<forall>e. \<not> targeted bc req bn e) | Some a \<Rightarrow> best_offer bc req bn a)"
proof (cases "getGeo bc req")
  case None
  then show ?thesis using assms(1) by (simp add: select_def targeted_def)
next
  case (Some geo)
  let ?r = "GeoCampaignEntity_retrieve (bc_campaigns_ops bc) [] (gr_geo_id geo) (bc_campaigns bc)"
  let ?os = "geo_offers bc bn (gr_geo_id geo)"
  have f: "fst ?r \<longleftrightarrow> snd ?r \<noteq> []" by (simp add: GeoCampaignEntity_retrieve_def Let_def)
  have l: "campaign_ads_loop bc imp (snd ?r) [] = Inr ?os"
    by (simp add: campaign_ads_loop_offers [OF assms(2)] geo_offers_def)
  have sel: "\<exists>s'. select bc req imp s = Inr (max_bid ?os, s') \<and> as_selection_alg s' = None"
  proof (cases "fst ?r")
    case True
    with Some l assms(1) show ?thesis
      by (auto simp: select_def getGeoCampaigns_def getCampaignAds_def split_beta Let_def max_bid_def split: list.splits)
  next
    case False
    then have "?os = []" using f by (simp add: geo_offers_def)
    with False Some assms(1) show ?thesis
      by (simp add: select_def getGeoCampaigns_def split_beta Let_def max_bid_def)
  qed
  show ?thesis
  proof (cases ?os)
    case Nil
    then have "\<forall>e. \<not> targeted bc req bn e" using set_geo_offers [OF Some, of bn] by auto
    with sel Nil show ?thesis by (auto simp: max_bid_def)
  next
    case (Cons a as)
    with sel max_bid_best [OF Some Cons] show ?thesis by (auto simp: max_bid_def)
  qed
qed

section \<open>The bid response\<close>

definition all_bids :: "BidResponse \<Rightarrow> Bid list" where
  "all_bids r = concat (map sb_bid (brs_seatbid r))"

definition bid_content :: "Bid \<Rightarrow> string \<times> double \<times> int \<times> int \<times> string \<times> string" where
  "bid_content b = (bid_impid b, bid_price b, bid_w b, bid_h b, bid_adm b, bid_adid b)"

definition offered_content :: "Impression \<times> Ad \<Rightarrow> string \<times> double \<times> int \<times> int \<times> string \<times> string" where
  "offered_content w = (case w of (imp, ad) \<Rightarrow>
     (imp_id imp, bid_price_of ad, uint (ad_width ad), uint (ad_height ad), ad_code ad, to_string (unat (ad_id ad))))"

lemma bid_content_make [simp]: "bid_content (make_bid uuid imp ad) = offered_content (imp, ad)"
  by (simp add: bid_content_def make_bid_def offered_content_def)

lemma push_bid_seats:
  "length seats \<le> 1 \<Longrightarrow> length (push_bid b seats) = 1 \<and>
     concat (map sb_bid (push_bid b seats)) = concat (map sb_bid seats) @ [b]"
  by (cases seats) (auto simp: push_bid_def new_SeatBid_def Let_def)

lemma addCurrency_seatbid [simp]: "brs_seatbid (addCurrency request imp r) = brs_seatbid r"
  by (simp add: addCurrency_def)

text \<open>Whatever the selector gives, one seat is used and the bid is appended to it.\<close>

lemma respond_bids:
  assumes "respond g request imp ad (u, r) = (u', r')" and "length (brs_seatbid r) \<le> 1"
  shows "map bid_content (all_bids r') = map bid_content (all_bids r) @ (case ad of None \<Rightarrow> [] | Some a \<Rightarrow> [offered_content (imp, a)]) \<and>
    length (brs_seatbid r') = (if ad = None then length (brs_seatbid r) else 1)"
proof (cases ad)
  case None
  with assms show ?thesis by (auto simp: respond_def)
next
  case (Some a)
  obtain uuid where "brs_seatbid r' = push_bid (make_bid uuid imp a) (brs_seatbid r)"
    using assms(1) Some by (auto simp: respond_def addBid_def Let_def split_beta)
  with push_bid_seats [OF assms(2), of "make_bid uuid imp a"] Some show ?thesis by (simp add: all_bids_def)
qed

definition winners_of :: "('a, 'g, 'c, 'b) BidderCaches \<Rightarrow> BidRequest \<Rightarrow> Impression list \<Rightarrow> (Impression \<times> Ad) list \<Rightarrow> bool" where
  "winners_of bc req imps won \<longleftrightarrow>
     map fst won = filter (\<lambda>imp. \<exists>e. targeted bc req (the (imp_banner imp)) e) imps \<and>
     (\<forall>(imp, ad) \<in> set won. best_offer bc req (the (imp_banner imp)) ad)"

lemma buildImpResponse_bids:
  assumes "as_selection_alg (bd_selector b) = None" and "imp_banner imp = Some bn"
    and "length (brs_seatbid (bd_response b)) \<le> 1"
  shows "\<exists>b' won. buildImpResponse g bc req imp b = Inr b' \<and> as_selection_alg (bd_selector b') = None \<and>
    winners_of bc req [imp] won \<and>
    map bid_content (all_bids (bd_response b')) = map bid_content (all_bids (bd_response b)) @ map offered_content won \<and>
    length (brs_seatbid (bd_response b')) = (if won = [] then length (brs_seatbid (bd_response b)) else 1)"
proof -
  obtain ad s' where sel: "select bc req imp (bd_selector b) = Inr (ad, s')" "as_selection_alg s' = None"
    "case ad of None \<Rightarrow> (\<forall>e. \<not> targeted bc req bn e) | Some a \<Rightarrow> best_offer bc req bn a"
    using select_chooses [OF assms(1,2), of bc req] by blast
  obtain u r where r: "respond g req imp ad (bd_uuid b, bd_response b) = (u, r)" by fastforce
  have b': "buildImpResponse g bc req imp b = Inr \<lparr>bd_selector = s', bd_uuid = u, bd_response = r\<rparr>"
    using sel(1) r by (simp add: buildImpResponse_def)
  let ?won = "case ad of None \<Rightarrow> [] | Some a \<Rightarrow> [(imp, a)]"
  have "winners_of bc req [imp] ?won"
    using sel(3) assms(2) by (auto simp: winners_of_def best_offer_def split: option.splits)
  with b' sel(2) respond_bids [OF r assms(3)] show ?thesis
    by (intro exI [of _ "\<lparr>bd_selector = s', bd_uuid = u, bd_response = r\<rparr>"] exI [of _ ?won]) (auto split: option.splits)
qed

lemma winners_of_append:
  "winners_of bc req xs won \<Longrightarrow> winners_of bc req ys won' \<Longrightarrow> winners_of bc req (xs @ ys) (won @ won')"
  by (auto simp: winners_of_def)

lemma bid_loop_bids:
  assumes "as_selection_alg (bd_selector b) = None" and "\<forall>imp \<in> set imps. imp_banner imp \<noteq> None"
    and "length (brs_seatbid (bd_response b)) \<le> 1"
  shows "\<exists>b' won. bid_loop (buildImpResponse g bc req) imps b = Inr b' \<and> winners_of bc req imps won \<and>
    map bid_content (all_bids (bd_response b')) = map bid_content (all_bids (bd_response b)) @ map offered_content won \<and>
    length (brs_seatbid (bd_response b')) = (if won = [] then length (brs_seatbid (bd_response b)) else 1)"
  using assms
proof (induction imps arbitrary: b)
  case Nil
  then show ?case by (auto simp: winners_of_def)
next
  case (Cons imp imps)
  then obtain bn where "imp_banner imp = Some bn" by auto
  from buildImpResponse_bids [OF Cons.prems(1) this Cons.prems(3), of g bc req] obtain b1 won1 where
    b1: "buildImpResponse g bc req imp b = Inr b1" "as_selection_alg (bd_selector b1) = None"
    "winners_of bc req [imp] won1"
    "map bid_content (all_bids (bd_response b1)) = map bid_content (all_bids (bd_response b)) @ map offered_content won1"
    "length (brs_seatbid (bd_response b1)) = (if won1 = [] then length (brs_seatbid (bd_response b)) else 1)" by blast
  have "length (brs_seatbid (bd_response b1)) \<le> 1" using b1(5) Cons.prems(3) by simp
  then obtain b2 won2 where
    b2: "bid_loop (buildImpResponse g bc req) imps b1 = Inr b2" "winners_of bc req imps won2"
    "map bid_content (all_bids (bd_response b2)) = map bid_content (all_bids (bd_response b1)) @ map offered_content won2"
    "length (brs_seatbid (bd_response b2)) = (if won2 = [] then length (brs_seatbid (bd_response b1)) else 1)"
    using Cons.IH [OF b1(2)] Cons.prems(2) by auto
  show ?case
    using b1 b2 winners_of_append [OF b1(3) b2(2)] by (intro exI [of _ b2] exI [of _ "won1 @ won2"]) simp
qed

lemma best_offers_bid:
  assumes "as_selection_alg (bd_selector b) = None" and "\<forall>imp \<in> set (brq_imp req). imp_banner imp \<noteq> None"
  shows "\<exists>resp b' won. bid g bc req b = Inr (resp, b') \<and>
    map fst won = filter (\<lambda>imp. \<exists>e. targeted bc req (the (imp_banner imp)) e) (brq_imp req) \<and>
    (\<forall>(imp, ad) \<in> set won. best_offer bc req (the (imp_banner imp)) ad) \<and>
    map bid_content (all_bids resp) = map offered_content won \<and>
    length (brs_seatbid resp) = (if won = [] then 0 else 1)"
proof -
  let ?b = "b\<lparr>bd_response := BidResponse_clear (bd_response b)\<rparr>"
  have "as_selection_alg (bd_selector ?b) = None" "length (brs_seatbid (bd_response ?b)) \<le> 1"
    "all_bids (bd_response ?b) = []" "brs_seatbid (bd_response ?b) = []"
    using assms(1) by (simp_all add: new_BidResponse_def all_bids_def)
  with bid_loop_bids [of ?b "brq_imp req" g bc req] assms(2) obtain b' won where
    "bid_loop (buildImpResponse g bc req) (brq_imp req) ?b = Inr b'" "winners_of bc req (brq_imp req) won"
    "map bid_content (all_bids (bd_response b')) = map offered_content won"
    "length (brs_seatbid (bd_response b')) = (if won = [] then 0 else 1)" by auto
  then show ?thesis by (auto simp: bid_def winners_of_def)
qed

lemma best_offer_price:
  assumes "best_offer bc req bn ad"
  shows "bid_price_of ad = 0 \<longleftrightarrow> (\<forall>e. targeted bc req bn e \<longrightarrow> offer bc e = 0)"
proof -
  obtain e where e: "targeted bc req bn e" "ad = (xad_retrieve e)\<lparr>ad_auth_bid_micros := Some (offer bc e)\<rparr>"
    "\<And>e'. targeted bc req bn e' \<Longrightarrow> offer bc e' \<le> offer bc e"
    using assms by (auto simp: best_offer_def)
  have "bid_price_of ad = 0 \<longleftrightarrow> unat (offer bc e) = 0" by (simp add: e(2) bid_price_of_def del: of_nat_unat)
  then have "bid_price_of ad = 0 \<longleftrightarrow> offer bc e = 0" by (simp only: unat_eq_zero)
  moreover have "(\<forall>e'. targeted bc req bn e' \<longrightarrow> offer bc e' = 0) \<longleftrightarrow> offer bc e = 0"
    using e(1,3) by (metis word_le_0_iff)
  ultimately show ?thesis by simp
qed

text \<open>
  C2: the response of the bidder by location. When every impression has a banner and no other
  selection algorithm was set, bidding returns a response with exactly one bid, in the order of the
  impressions, for each impression that some cached ad targets, and with no bid for the others, all
  in one seat. Each bid carries the impression's identifier and the size, code and identifier of a
  best offer: an ad of the banner's size in a campaign paired with the request's location, priced
  at the smaller of its maximal bid and what the banker authorises for its campaign, such that no
  targeted ad could be offered at a higher price. Nothing of an earlier response remains. An exhausted
  budget is no exception: the amount authorised for its campaign is zero, and the code sends a bid of price
  zero, where the comment in \<open>BudgetManager::authorize\<close> promises that there is no bid. The price of a bid is
  zero exactly when every ad that targets the impression is offered at zero.
\<close>

theorem bid_best_offers:
  assumes "as_selection_alg (bd_selector b) = None" and "\<forall>imp \<in> set (brq_imp req). imp_banner imp \<noteq> None"
  shows "\<exists>resp b' won. bid g bc req b = Inr (resp, b') \<and>
    map fst won = filter (\<lambda>imp. \<exists>e. targeted bc req (the (imp_banner imp)) e) (brq_imp req) \<and>
    (\<forall>(imp, ad) \<in> set won. best_offer bc req (the (imp_banner imp)) ad \<and>
       (bid_price_of ad = 0 \<longleftrightarrow> (\<forall>e. targeted bc req (the (imp_banner imp)) e \<longrightarrow> offer bc e = 0))) \<and>
    map bid_content (all_bids resp) = map offered_content won \<and>
    length (brs_seatbid resp) = (if won = [] then 0 else 1)"
proof -
  obtain resp b' won where w: "bid g bc req b = Inr (resp, b')"
    "map fst won = filter (\<lambda>imp. \<exists>e. targeted bc req (the (imp_banner imp)) e) (brq_imp req)"
    "\<forall>(imp, ad) \<in> set won. best_offer bc req (the (imp_banner imp)) ad"
    "map bid_content (all_bids resp) = map offered_content won" "length (brs_seatbid resp) = (if won = [] then 0 else 1)"
    using best_offers_bid [OF assms, of g bc] by blast
  from w(3) have "\<forall>(imp, ad) \<in> set won. best_offer bc req (the (imp_banner imp)) ad \<and>
      (bid_price_of ad = 0 \<longleftrightarrow> (\<forall>e. targeted bc req (the (imp_banner imp)) e \<longrightarrow> offer bc e = 0))"
  proof (intro ballI)
    fix x assume "x \<in> set won"
    with w(3) have "best_offer bc req (the (imp_banner (fst x))) (snd x)" by (auto simp: split_beta)
    from this best_offer_price [OF this] show "case x of (imp, ad) \<Rightarrow> best_offer bc req (the (imp_banner imp)) ad \<and>
        (bid_price_of ad = 0 \<longleftrightarrow> (\<forall>e. targeted bc req (the (imp_banner imp)) e \<longrightarrow> offer bc e = 0))"
      unfolding split_beta by blast
  qed
  with w show ?thesis by blast
qed

definition sample_caches :: "(example_ad_entity list, city_country_entity list, GeoCampaign list, example_campaign_entity list) BidderCaches" where
  "sample_caches =
     \<lparr>bc_ads_ops = list_ops xad_key,
      bc_ads = sample_cache [\<lparr>xad_ad_id = 1, xad_campaign_id = 5, xad_width = 300, xad_height = 250,
        xad_position = 0, xad_max_bid_micros = 2000000, xad_code = ''<a>''\<rparr>] 0,
      bc_geo_ops = list_ops cc_key, bc_geo = sample_cache [\<lparr>cc_city = ''rome'', cc_country = ''it'', cc_geo_id = 7\<rparr>] 0,
      bc_campaigns_ops = list_ops gc_key, bc_campaigns = sample_cache [\<lparr>gc_geo_id = 7, gc_campaign_id = 5\<rparr>] 0,
      bc_budgets_ops = list_ops xce_key, bc_budgets = sample_cache [xce_store 5 sample_budget] 0\<rparr>"

definition sample_request :: BidRequest where
  "sample_request = (new_BidRequest AT_FIRST_PRICE)
     \<lparr>brq_user := Some (new_User\<lparr>user_geo := Some (new_Geo\<lparr>geo_city := ''Rome'', geo_country := ''IT''\<rparr>)\<rparr>),
      brq_imp := [new_Impression\<lparr>imp_id := ''i1'', imp_banner := Some ((new_Banner POS_UNKNOWN FP_IFRAME)\<lparr>bn_w := 300, bn_h := 250\<rparr>)\<rparr>,
                  new_Impression\<lparr>imp_id := ''i2'', imp_banner := Some (new_Banner POS_UNKNOWN FP_IFRAME)\<rparr>]\<rparr>"

lemma sample_targeted:
  "targeted sample_caches sample_request bn e \<longleftrightarrow> bn_w bn = 300 \<and> bn_h bn = 250 \<and>
     e = \<lparr>xad_ad_id = 1, xad_campaign_id = 5, xad_width = 300, xad_height = 250, xad_position = 0,
       xad_max_bid_micros = 2000000, xad_code = ''<a>''\<rparr>"
proof -
  have "getGeo sample_caches sample_request = Some (new_GeoRow\<lparr>gr_geo_id := 7, gr_city := ''rome'', gr_country := ''it''\<rparr>)"
    by code_simp
  then show ?thesis
    by (auto simp: targeted_def sample_caches_def list_ops_def sample_cache_def new_GeoRow_def)
qed

theorem bid_best_offers_witness:
  "\<exists>resp b'. bid (\<lambda>u. (''uuid'', u)) sample_caches sample_request (new_Bidder () NBR_UNKNOWN_ERROR) = Inr (resp, b') \<and>
    map bid_content (all_bids resp) = [(''i1'', 10 / 1000000, 300, 250, ''<a>'', ''1'')]"
proof -
  let ?b = "new_Bidder () NBR_UNKNOWN_ERROR" and ?g = "\<lambda>u :: unit. (''uuid'', u)"
  let ?e = "\<lparr>xad_ad_id = 1, xad_campaign_id = 5, xad_width = 300, xad_height = 250, xad_position = 0,
       xad_max_bid_micros = 2000000, xad_code = ''<a>''\<rparr> :: example_ad_entity"
  have "as_selection_alg (bd_selector ?b) = None" "\<forall>imp \<in> set (brq_imp sample_request). imp_banner imp \<noteq> None"
    by (simp_all add: new_Bidder_def new_AdSelector_def sample_request_def)
  from bid_best_offers [OF this, of ?g sample_caches] obtain resp b' won where
    b: "bid ?g sample_caches sample_request ?b = Inr (resp, b')" and
    won: "map fst won = filter (\<lambda>imp. \<exists>e. targeted sample_caches sample_request (the (imp_banner imp)) e) (brq_imp sample_request)"
      "\<forall>(imp, ad) \<in> set won. best_offer sample_caches sample_request (the (imp_banner imp)) ad"
      "map bid_content (all_bids resp) = map offered_content won" by blast
  have "map fst won = [hd (brq_imp sample_request)]"
    unfolding won(1) sample_targeted by (simp add: sample_request_def new_Banner_def)
  then obtain ad where w: "won = [(hd (brq_imp sample_request), ad)]" by auto
  have "offer sample_caches ?e = 10"
    by (simp add: offer_def) code_simp
  moreover have "best_offer sample_caches sample_request (the (imp_banner (hd (brq_imp sample_request)))) ad"
    using won(2) w by simp
  ultimately have "ad = (xad_retrieve ?e)\<lparr>ad_auth_bid_micros := Some 10\<rparr>"
    by (auto simp: best_offer_def sample_targeted)
  then have "offered_content (hd won) = (''i1'', 10 / 1000000, 300, 250, ''<a>'', ''1'')"
    using w by (simp add: offered_content_def sample_request_def xad_retrieve_def bid_price_of_def to_string.simps)
  with b won(3) w show ?thesis by auto
qed

end
