(* ===== verification/Ico_Bidder.thy ===== *)
theory Ico_Bidder
  imports Bidder
begin

text \<open>
  The generic bidder of \<^verbatim>\<open>rtb/core/bidder.hpp\<close> with its chained selector
  (\<^verbatim>\<open>rtb/core/ad_selector.hpp\<close>), the generic cache loader
  (\<^verbatim>\<open>rtb/datacache/generic_bidder_cache_loader.hpp\<close>) and their use in
  \<^verbatim>\<open>examples/bidder_experimental/ico_campaign_bidder_test.cpp\<close>: a bid is chosen from the ads of the
  campaigns of the referring domain. The theorems state what the generic bidder bids, and which
  budget limits the ads of the domain's campaigns.
\<close>

section \<open>Chained functions\<close>

text \<open>
  The functions of a chain have different types, so a chain is built from its two cases: a head
  that gives an optional argument for the rest, and the terminal function. An empty optional ends
  the chain with the default value of its result.
\<close>

type_synonym ('arg, 'r) stage = "BidRequest \<Rightarrow> Impression \<Rightarrow> 'arg \<Rightarrow> select_error + 'r list"

definition chain_terminal :: "('arg \<Rightarrow> BidRequest \<Rightarrow> Impression \<Rightarrow> select_error + 'r list) \<Rightarrow> ('arg, 'r) stage" where
  "chain_terminal terminal_func req imp arg = terminal_func arg req imp"

definition chain_head :: "('arg \<Rightarrow> BidRequest \<Rightarrow> Impression \<Rightarrow> 'next option) \<Rightarrow> ('next, 'r) stage \<Rightarrow> ('arg, 'r) stage" where
  "chain_head head tail req imp arg =
     (case head arg req imp of
        Some next_arg \<Rightarrow> tail req imp next_arg
      | None \<Rightarrow> Inr [])"

definition core_select :: "(Ad list \<Rightarrow> Ad option) option \<Rightarrow> ('arg, Ad) stage \<Rightarrow> BidRequest \<Rightarrow> Impression \<Rightarrow> 'arg \<Rightarrow>
    select_error + Ad option" where
  "core_select selection_algo chain req imp arg =
     (case chain req imp arg of
        Inl e \<Rightarrow> Inl e
      | Inr ads \<Rightarrow>
          Inr (case selection_algo of Some f \<Rightarrow> f ads | None \<Rightarrow> Some (calculate_max_bid ads)))"

section \<open>The generic bidder\<close>

record 'u CoreBidder =
  kb_selection_algo :: "(Ad list \<Rightarrow> Ad option) option"
  kb_uuid :: 'u
  kb_response :: BidResponse

definition new_CoreBidder :: "'u \<Rightarrow> NoBidReason \<Rightarrow> 'u CoreBidder" where
  "new_CoreBidder u nbr = \<lparr>kb_selection_algo = None, kb_uuid = u, kb_response = new_BidResponse nbr\<rparr>"

definition with_selection_algo :: "(Ad list \<Rightarrow> Ad option) \<Rightarrow> 'u CoreBidder \<Rightarrow> 'u CoreBidder" where
  "with_selection_algo algo b = b\<lparr>kb_selection_algo := Some algo\<rparr>"

definition core_buildImpResponse :: "('u \<Rightarrow> string \<times> 'u) \<Rightarrow> ('arg, Ad) stage \<Rightarrow> 'arg \<Rightarrow> BidRequest \<Rightarrow> Impression \<Rightarrow>
    'u CoreBidder \<Rightarrow> select_error + 'u CoreBidder" where
  "core_buildImpResponse uuid_generator chain arg request imp b =
     (case core_select (kb_selection_algo b) chain request imp arg of
        Inl e \<Rightarrow> Inl e
      | Inr ad \<Rightarrow>
          (let (u, response) = respond uuid_generator request imp ad (kb_uuid b, kb_response b)
           in Inr (b\<lparr>kb_uuid := u, kb_response := response\<rparr>)))"

definition core_bid :: "('u \<Rightarrow> string \<times> 'u) \<Rightarrow> ('arg, Ad) stage \<Rightarrow> 'arg \<Rightarrow> BidRequest \<Rightarrow> 'u CoreBidder \<Rightarrow>
    select_error + (BidResponse \<times> 'u CoreBidder)" where
  "core_bid uuid_generator chain arg request b =
     (case bid_loop (core_buildImpResponse uuid_generator chain arg request) (brq_imp request)
             (b\<lparr>kb_response := BidResponse_clear (kb_response b)\<rparr>) of
        Inl e \<Rightarrow> Inl e
      | Inr b' \<Rightarrow> Inr (kb_response b', b'))"

section \<open>The bidder by domain\<close>

record ('d, 'i, 'a, 'b) IcoCaches =
  ic_domains_ops :: "(Domain, 'd) index_ops"
  ic_domains :: "'d entity_cache"
  ic_campaigns_ops :: "(ICOCampaign, 'i) index_ops"
  ic_campaigns :: "'i entity_cache"
  ic_ads_ops :: "(example_ad_entity, 'a) index_ops"
  ic_ads :: "'a entity_cache"
  ic_budgets_ops :: "(example_campaign_entity, 'b) index_ops"
  ic_budgets :: "'b entity_cache"

record ico_sources =
  isrc_domain :: string
  isrc_ico_campaign :: string
  isrc_ads :: string
  isrc_campaign_budget :: string

text \<open>The loader loads its entities in the order of its type parameters.\<close>

definition IcoCaches_load :: "load_env \<Rightarrow> (Domain \<Rightarrow> nat) \<Rightarrow> (ICOCampaign \<Rightarrow> nat) \<Rightarrow> u32 \<Rightarrow> ico_sources \<Rightarrow>
    ('d, 'i, 'a, 'b) IcoCaches \<Rightarrow> load_error + ('d, 'i, 'a, 'b) IcoCaches" where
  "IcoCaches_load e need_domain need_ico garbage s ic =
     (case DomainEntity_load (le_open e) (isrc_domain s) (ic_domains_ops ic) (le_kind e) (le_grown e) need_domain
             (le_split e) garbage (ic_domains ic) of
        Inl er \<Rightarrow> Inl er
      | Inr domains \<Rightarrow>
     (case ICOCampaignEntity_load (le_open e) (isrc_ico_campaign s) (ic_campaigns_ops ic) (le_kind e) (le_grown e)
             need_ico (le_cast32 e) (ic_campaigns ic) of
        Inl er \<Rightarrow> Inl er
      | Inr campaigns \<Rightarrow>
     (case AdDataEntity_load (le_open e) (isrc_ads s) (ic_ads_ops ic) (le_kind e) (le_grown e) (le_need_ad e)
             (le_cast64 e) (le_cast16 e) (ic_ads ic) of
        Inl er \<Rightarrow> Inl er
      | Inr ads \<Rightarrow>
     (case CampaignCache_load (le_open e) (isrc_campaign_budget s) (ic_budgets_ops ic)
             \<lparr>me_kind = le_kind e, me_grown = le_grown e, me_need = le_need_budget e\<rparr> (le_cast32 e) (le_cast64 e)
             (ic_budgets ic) of
        Inl er \<Rightarrow> Inl er
      | Inr budgets \<Rightarrow>
          Inr (ic\<lparr>ic_domains := domains, ic_campaigns := campaigns, ic_ads := ads, ic_budgets := budgets\<rparr>)))))"

definition retrieve_domain_f :: "(string \<Rightarrow> string option) \<Rightarrow> ('d, 'i, 'a, 'b) IcoCaches \<Rightarrow> string \<Rightarrow> BidRequest \<Rightarrow>
    Impression \<Rightarrow> u32 option" where
  "retrieve_domain_f parse_host ic url req imp =
     map_option dom_id (DomainEntity_retrieve parse_host (ic_domains_ops ic) url (ic_domains ic))"

definition retrieve_ico_campaign_f :: "('d, 'i, 'a, 'b) IcoCaches \<Rightarrow> u32 \<Rightarrow> BidRequest \<Rightarrow> Impression \<Rightarrow>
    ICOCampaign list option" where
  "retrieve_ico_campaign_f ic domain_id req imp =
     (let (found, cs) = ICOCampaignEntity_retrieve (ic_campaigns_ops ic) [] domain_id (ic_campaigns ic)
      in if \<not> found then None else Some cs)"

text \<open>The loop over the campaigns of the domain: every budget is applied to all ads retrieved so far.\<close>

fun ico_ads_loop :: "('d, 'i, 'a, 'b) IcoCaches \<Rightarrow> Impression \<Rightarrow> ICOCampaign list \<Rightarrow> Ad list \<Rightarrow> select_error + Ad list" where
  "ico_ads_loop ic imp [] ads = Inr ads"
| "ico_ads_loop ic imp (c # cs) ads =
     (case imp_banner imp of
        None \<Rightarrow> Inl Null_banner
      | Some banner \<Rightarrow>
          (let (found, ads1) = AdDataEntity_retrieve (ic_ads_ops ic) ads (ico_campaign_id c) (bn_w banner) (bn_h banner) (ic_ads ic)
           in if \<not> found then ico_ads_loop ic imp cs ads1
              else let budget_bid = Banker_authorize (ic_budgets_ops ic) (ic_budgets ic) (ico_campaign_id c)
                   in ico_ads_loop ic imp cs (map (set_auth_bid budget_bid) ads1)))"

definition retrieve_campaign_ads_f :: "('d, 'i, 'a, 'b) IcoCaches \<Rightarrow> ICOCampaign list \<Rightarrow> BidRequest \<Rightarrow> Impression \<Rightarrow>
    select_error + Ad list" where
  "retrieve_campaign_ads_f ic campaigns req imp = ico_ads_loop ic imp campaigns []"

definition ico_chain :: "(string \<Rightarrow> string option) \<Rightarrow> ('d, 'i, 'a, 'b) IcoCaches \<Rightarrow> (string, Ad) stage" where
  "ico_chain parse_host ic =
     chain_head (retrieve_domain_f parse_host ic)
       (chain_head (retrieve_ico_campaign_f ic) (chain_terminal (retrieve_campaign_ads_f ic)))"

definition ico_auction :: "('u \<Rightarrow> string \<times> 'u) \<Rightarrow> (string \<Rightarrow> string option) \<Rightarrow> ('d, 'i, 'a, 'b) IcoCaches \<Rightarrow> BidRequest \<Rightarrow>
    'u CoreBidder \<Rightarrow> select_error + (BidResponse \<times> 'u CoreBidder)" where
  "ico_auction uuid_generator parse_host ic request b =
     (case brq_site request of
        None \<Rightarrow> Inl Null_site
      | Some site \<Rightarrow> core_bid uuid_generator (ico_chain parse_host ic) (site_ref site) request b)"

section \<open>What the generic bidder bids\<close>

lemma core_bid_loop_bids:
  assumes "kb_selection_algo b = None" and "\<forall>imp \<in> set imps. chain req imp arg = Inr (ads imp)"
    and "length (brs_seatbid (kb_response b)) \<le> 1"
  shows "\<exists>b'. bid_loop (core_buildImpResponse g chain arg req) imps b = Inr b' \<and>
    map bid_content (all_bids (kb_response b')) =
      map bid_content (all_bids (kb_response b)) @ map (\<lambda>imp. offered_content (imp, calculate_max_bid (ads imp))) imps"
  using assms
proof (induction imps arbitrary: b)
  case (Cons imp imps)
  let ?ad = "calculate_max_bid (ads imp)"
  obtain u r where r: "respond g req imp (Some ?ad) (kb_uuid b, kb_response b) = (u, r)" by fastforce
  let ?b = "b\<lparr>kb_uuid := u, kb_response := r\<rparr>"
  note bids = respond_bids [OF r Cons.prems(3)]
  have "core_buildImpResponse g chain arg req imp b = Inr ?b"
    using Cons.prems(1,2) r by (simp add: core_buildImpResponse_def core_select_def)
  moreover from Cons.IH [of ?b] Cons.prems(1,2) bids obtain b' where
    "bid_loop (core_buildImpResponse g chain arg req) imps ?b = Inr b'"
    "map bid_content (all_bids (kb_response b')) =
      map bid_content (all_bids r) @ map (\<lambda>imp. offered_content (imp, calculate_max_bid (ads imp))) imps" by auto
  ultimately show ?case using bids by simp
qed simp

text \<open>
  The generic bidder never declines. With the default selection and a chain that returns, it
  places exactly one bid for every impression: for the best of the ads the chain found, or, when
  the chain found none, for an empty ad: price zero, no markup, ad identifier 0.
\<close>

theorem core_bidder_never_declines:
  assumes "kb_selection_algo b = None" and "\<forall>imp \<in> set (brq_imp req). chain req imp arg = Inr (ads imp)"
  shows "\<exists>resp b'. core_bid g chain arg req b = Inr (resp, b') \<and>
    map bid_content (all_bids resp) =
      map (\<lambda>imp. if ads imp = [] then (imp_id imp, 0, 0, 0, [], ''0'')
                 else offered_content (imp, max_element less_bid (hd (ads imp)) (tl (ads imp)))) (brq_imp req)"
proof -
  let ?b = "b\<lparr>kb_response := BidResponse_clear (kb_response b)\<rparr>"
  have c: "offered_content (imp, calculate_max_bid (ads imp)) =
      (if ads imp = [] then (imp_id imp, 0, 0, 0, [], ''0'')
       else offered_content (imp, max_element less_bid (hd (ads imp)) (tl (ads imp))))" for imp
    by (cases "ads imp")
      (simp_all add: calculate_max_bid_def offered_content_def new_Ad_def bid_price_of_def to_string.simps)
  have "kb_selection_algo ?b = None" "length (brs_seatbid (kb_response ?b)) \<le> 1" "all_bids (kb_response ?b) = []"
    using assms(1) by (simp_all add: new_BidResponse_def all_bids_def)
  with core_bid_loop_bids [of ?b "brq_imp req" chain req arg ads g] assms(2) show ?thesis
    by (auto simp: core_bid_def c)
qed

definition sample_ico_ad :: "u64 \<Rightarrow> u32 \<Rightarrow> example_ad_entity" where
  "sample_ico_ad i c = \<lparr>xad_ad_id = i, xad_campaign_id = c, xad_width = 300, xad_height = 250,
     xad_position = 0, xad_max_bid_micros = 2000000, xad_code = ''<a>''\<rparr>"

definition sample_ico_caches :: "(Domain list, ICOCampaign list, example_ad_entity list, example_campaign_entity list) IcoCaches" where
  "sample_ico_caches =
     \<lparr>ic_domains_ops = list_ops dom_key, ic_domains = sample_cache [\<lparr>dom_name = ''a.org'', dom_id = 9\<rparr>] 0,
      ic_campaigns_ops = list_ops ico_key,
      ic_campaigns = sample_cache [\<lparr>ico_domain_id = 9, ico_campaign_id = 1\<rparr>, \<lparr>ico_domain_id = 9, ico_campaign_id = 5\<rparr>] 0,
      ic_ads_ops = list_ops xad_key, ic_ads = sample_cache [sample_ico_ad 7 1, sample_ico_ad 8 5] 0,
      ic_budgets_ops = list_ops xce_key, ic_budgets = sample_cache [xce_store 5 sample_budget] 0\<rparr>"

theorem core_bidder_never_declines_witness:
  "\<exists>resp b'. core_bid (\<lambda>u. (''uuid'', u)) (ico_chain (\<lambda>_. None) sample_ico_caches) ''x'' sample_request
      (new_CoreBidder () NBR_UNKNOWN_ERROR) = Inr (resp, b') \<and>
    map bid_content (all_bids resp) = [(''i1'', 0, 0, 0, [], ''0''), (''i2'', 0, 0, 0, [], ''0'')]"
proof -
  have "\<forall>imp \<in> set (brq_imp sample_request).
      ico_chain (\<lambda>_. None) sample_ico_caches sample_request imp ''x'' = Inr []"
    by (simp add: ico_chain_def chain_head_def retrieve_domain_f_def DomainEntity_retrieve_def)
  moreover have "kb_selection_algo (new_CoreBidder () NBR_UNKNOWN_ERROR) = None" by (simp add: new_CoreBidder_def)
  ultimately show ?thesis
    using core_bidder_never_declines [of "new_CoreBidder () NBR_UNKNOWN_ERROR" sample_request
        "ico_chain (\<lambda>_. None) sample_ico_caches" "''x''" "\<lambda>_. []" "\<lambda>u. (''uuid'', u)"]
    by (simp add: sample_request_def)
qed

section \<open>Which budget limits the ads of a domain\<close>

definition campaign_entries :: "('d, 'i, 'a, 'b) IcoCaches \<Rightarrow> Banner \<Rightarrow> ICOCampaign \<Rightarrow> example_ad_entity list" where
  "campaign_entries ic bn c =
     filter (\<lambda>e. xad_campaign_id e = ico_campaign_id c \<and> xad_width e = bn_w bn \<and> xad_height e = bn_h bn)
       (ix_entries (ic_ads_ops ic) (ch_container (ic_ads ic)))"

lemma set_auth_bid_twice [simp]: "set_auth_bid x (set_auth_bid y ad) = set_auth_bid x ad"
  by (simp add: set_auth_bid_def)

lemma ico_ads_loop_last:
  assumes "imp_banner imp = Some bn"
  shows "ico_ads_loop ic imp cs ads =
    Inr (let served = filter (\<lambda>c. campaign_entries ic bn c \<noteq> []) cs
         in if served = [] then ads
            else map (set_auth_bid (Banker_authorize (ic_budgets_ops ic) (ic_budgets ic) (ico_campaign_id (last served))))
                   (ads @ map xad_retrieve (concat (map (campaign_entries ic bn) served))))"
  using assms
  by (induction cs arbitrary: ads)
    (simp_all add: AdDataEntity_retrieve_def cache_retrieve_raw_def equal_range_def campaign_entries_def Let_def comp_def)

text \<open>
  The budget that limits an ad of a domain. All ads found for the campaigns of a domain are
  limited by what the banker authorises for the last of these campaigns that has an ad of the
  banner's size, whatever campaign they belong to: an ad of a campaign whose budget is exhausted is
  offered at the expense of another one.
\<close>

theorem ico_last_budget_wins:
  assumes "imp_banner imp = Some bn" and "served = filter (\<lambda>c. campaign_entries ic bn c \<noteq> []) cs"
  shows "retrieve_campaign_ads_f ic cs req imp =
    Inr (map (\<lambda>e. (xad_retrieve e)\<lparr>ad_auth_bid_micros := Some (min (xad_max_bid_micros e)
          (Banker_authorize (ic_budgets_ops ic) (ic_budgets ic) (ico_campaign_id (last served))))\<rparr>)
      (concat (map (campaign_entries ic bn) served)))"
  using assms
  by (auto simp: retrieve_campaign_ads_f_def ico_ads_loop_last Let_def set_auth_bid_def xad_retrieve_def min.commute)

theorem ico_last_budget_wins_witness:
  "Banker_authorize (ic_budgets_ops sample_ico_caches) (ic_budgets sample_ico_caches) 1 = 0 \<and>
   retrieve_campaign_ads_f sample_ico_caches [\<lparr>ico_domain_id = 9, ico_campaign_id = 1\<rparr>, \<lparr>ico_domain_id = 9, ico_campaign_id = 5\<rparr>]
      sample_request (hd (brq_imp sample_request)) =
    Inr [(xad_retrieve (sample_ico_ad 7 1))\<lparr>ad_auth_bid_micros := Some 10\<rparr>,
         (xad_retrieve (sample_ico_ad 8 5))\<lparr>ad_auth_bid_micros := Some 10\<rparr>]"
proof
  show "Banker_authorize (ic_budgets_ops sample_ico_caches) (ic_budgets sample_ico_caches) 1 = 0" by code_simp
next
  let ?imp = "hd (brq_imp sample_request)" and ?bn = "(new_Banner POS_UNKNOWN FP_IFRAME)\<lparr>bn_w := 300, bn_h := 250\<rparr>"
  let ?cs = "[\<lparr>ico_domain_id = 9, ico_campaign_id = 1\<rparr>, \<lparr>ico_domain_id = 9, ico_campaign_id = 5\<rparr>] :: ICOCampaign list"
  have b: "imp_banner ?imp = Some ?bn" by (simp add: sample_request_def)
  have e: "campaign_entries sample_ico_caches ?bn \<lparr>ico_domain_id = 9, ico_campaign_id = 1\<rparr> = [sample_ico_ad 7 1]"
    "campaign_entries sample_ico_caches ?bn \<lparr>ico_domain_id = 9, ico_campaign_id = 5\<rparr> = [sample_ico_ad 8 5]"
    by (simp_all add: campaign_entries_def sample_ico_caches_def sample_cache_def list_ops_def sample_ico_ad_def)
  then have s: "?cs = filter (\<lambda>c. campaign_entries sample_ico_caches ?bn c \<noteq> []) ?cs" by simp
  have a: "Banker_authorize (ic_budgets_ops sample_ico_caches) (ic_budgets sample_ico_caches) 5 = 10" by code_simp
  show "retrieve_campaign_ads_f sample_ico_caches ?cs sample_request ?imp =
    Inr [(xad_retrieve (sample_ico_ad 7 1))\<lparr>ad_auth_bid_micros := Some 10\<rparr>,
         (xad_retrieve (sample_ico_ad 8 5))\<lparr>ad_auth_bid_micros := Some 10\<rparr>]"
    unfolding ico_last_budget_wins [OF b s] by (simp add: e a) (simp add: sample_ico_ad_def)
qed

end
