(* ===== verification/Messaging.thy ===== *)
theory Messaging
  imports Openrtb Archive "HOL-Library.Monad_Syntax"
begin

text \<open>
  Messages between the exchange and the bidders: the serialization of requests and responses
  (\<^verbatim>\<open>rtb/messaging/serialization.hpp\<close>, \<^verbatim>\<open>rtb/core/user_info.hpp\<close>, \<^verbatim>\<open>rtb/core/bid_request.hpp\<close>) and the
  datagram communicator (\<^verbatim>\<open>rtb/messaging/communicator.hpp\<close>). An archive is a sequence of primitive
  values; its binary encoding is a parameter. Loading reads into a default-constructed object, so
  what is not written takes its default value. The theorems say exactly what of a request and of a
  response arrives at the other side.
\<close>

section \<open>Primitive values\<close>

named_theorems ar_simps \<open>what a reader returns on what the writer of the same type wrote\<close>

definition put_int :: "int \<Rightarrow> ar_val list" where
  "put_int i = [Ar_int i]"

definition put_str :: "string \<Rightarrow> ar_val list" where
  "put_str s = [Ar_str s]"

definition put_dbl :: "double \<Rightarrow> ar_val list" where
  "put_dbl d = [Ar_dbl d]"

definition put_bool :: "bool \<Rightarrow> ar_val list" where
  "put_bool b = [Ar_bool b]"

fun get_bool :: "ar_val list \<Rightarrow> (bool \<times> ar_val list) option" where
  "get_bool (Ar_bool b # ar) = Some (b, ar)"
| "get_bool _ = None"

definition put_uint :: "'a::len word \<Rightarrow> ar_val list" where
  "put_uint w = [Ar_int (uint w)]"

definition get_uint :: "ar_val list \<Rightarrow> ('a::len word \<times> ar_val list) option" where
  "get_uint ar = do { (i, ar) \<leftarrow> get_int ar; Some (word_of_int i, ar) }"

text \<open>
  An enumeration is written as its value. Reading a value that is not one of the enumerators, which
  no writer produces, is left out.
\<close>

definition put_enum :: "('e \<Rightarrow> int) \<Rightarrow> 'e \<Rightarrow> ar_val list" where
  "put_enum code e = [Ar_int (code e)]"

definition get_enum :: "('e \<Rightarrow> int) \<Rightarrow> 'e list \<Rightarrow> ar_val list \<Rightarrow> ('e \<times> ar_val list) option" where
  "get_enum code enumerators ar =
     do { (i, ar) \<leftarrow> get_int ar; e \<leftarrow> List.find (\<lambda>e. code e = i) enumerators; Some (e, ar) }"

lemma get_primitive [ar_simps]:
  "get_int (put_int i @ ar) = Some (i, ar)" "get_str (put_str s @ ar) = Some (s, ar)"
  "get_dbl (put_dbl d @ ar) = Some (d, ar)" "get_bool (put_bool b @ ar) = Some (b, ar)"
  "get_uint (put_uint w @ ar) = Some (w, ar)"
  by (simp_all add: put_int_def put_str_def put_dbl_def put_bool_def put_uint_def get_uint_def)

lemma get_enum_put: "List.find (\<lambda>e'. code e' = code e) enumerators = Some e \<Longrightarrow>
    get_enum code enumerators (put_enum code e @ ar) = Some (e, ar)"
  by (simp add: get_enum_def put_enum_def)

section \<open>Enumerators\<close>

definition all_AuctionType :: "AuctionType list" where
  "all_AuctionType = [AT_FIRST_PRICE, AT_SECOND_PRICE, AT_UNDEFINED]"

lemma get_AuctionType [ar_simps]: "get_enum AuctionType_code all_AuctionType (put_enum AuctionType_code e @ ar) = Some (e, ar)"
  by (rule get_enum_put) (cases e; simp add: all_AuctionType_def)

definition all_AdPosition :: "AdPosition list" where
  "all_AdPosition = [POS_UNKNOWN, POS_ABOVE, POS_BETWEEN_DEPRECATED, POS_BELOW, POS_HEADER, POS_FOOTER,
     POS_SIDEBAR, POS_FULLSCREEN, POS_UNDEFINED]"

lemma get_AdPosition [ar_simps]: "get_enum AdPosition_code all_AdPosition (put_enum AdPosition_code e @ ar) = Some (e, ar)"
  by (rule get_enum_put) (cases e; simp add: all_AdPosition_def)

definition all_BannerAdType :: "BannerAdType list" where
  "all_BannerAdType = [BAT_UNDEFINED, BAT_XHTML_TEXT, BAT_XHTML_BANNER, BAT_JAVASCRIPT, BAT_IFRAME]"

lemma get_BannerAdType [ar_simps]: "get_enum BannerAdType_code all_BannerAdType (put_enum BannerAdType_code e @ ar) = Some (e, ar)"
  by (rule get_enum_put) (cases e; simp add: all_BannerAdType_def)

definition all_CreativeAttribute :: "CreativeAttribute list" where
  "all_CreativeAttribute = [CA_UNDEFINED, CA_AUDIO_AD_AUTO_PLAY, CA_AUDIO_AD_USER_INITIATED,
     CA_EXPANDABLE_AUTOMATIC, CA_EXPANDABLE_USER_INITIATED_CLICK, CA_EXPANDABLE_USER_INITIATED_ROLLOVER,
     CA_IN_BANNER_VIDEO_AD_AUTO_PLAY, CA_IN_BANNER_VIDEO_AD_USER_INITIATED, CA_POP,
     CA_PROVOCATIVE_OR_SUGGESTIVE_IMAGERY, CA_SHAKY_FLASHING_FLICKERING_EXTREME_ANIMATION_SMILEYS,
     CA_SURVEYS, CA_TEXT_ONLY, CA_USER_INTERACTIVE, CA_WINDOWS_DIALOG_OR_ALERT_STYLE,
     CA_HAS_AUDIO_ON_OFF_BUTTON, CA_AD_CAN_BE_SKIPPED]"

lemma get_CreativeAttribute [ar_simps]: "get_enum CreativeAttribute_code all_CreativeAttribute (put_enum CreativeAttribute_code e @ ar) = Some (e, ar)"
  by (rule get_enum_put) (cases e; simp add: all_CreativeAttribute_def)

definition all_FramePosition :: "FramePosition list" where
  "all_FramePosition = [FP_UNDEFINED, FP_IFRAME, FP_TOP_FRAME]"

lemma get_FramePosition [ar_simps]: "get_enum FramePosition_code all_FramePosition (put_enum FramePosition_code e @ ar) = Some (e, ar)"
  by (rule get_enum_put) (cases e; simp add: all_FramePosition_def)

definition all_ExpandableDirection :: "ExpandableDirection list" where
  "all_ExpandableDirection = [ED_UNDEFINED, ED_LEFT, ED_RIGHT, ED_UP, ED_DOWN, ED_FULLSCREEN]"

lemma get_ExpandableDirection [ar_simps]: "get_enum ExpandableDirection_code all_ExpandableDirection (put_enum ExpandableDirection_code e @ ar) = Some (e, ar)"
  by (rule get_enum_put) (cases e; simp add: all_ExpandableDirection_def)

definition all_ApiFramework :: "ApiFramework list" where
  "all_ApiFramework = [API_UNDEFINED, API_VPAID_1, API_VPAID_2, API_MRAID, API_ORMMA, API_MRAID2]"

lemma get_ApiFramework [ar_simps]: "get_enum ApiFramework_code all_ApiFramework (put_enum ApiFramework_code e @ ar) = Some (e, ar)"
  by (rule get_enum_put) (cases e; simp add: all_ApiFramework_def)

definition all_NoBidReason :: "NoBidReason list" where
  "all_NoBidReason = [NBR_UNSPECIFIED, NBR_UNKNOWN_ERROR, NBR_TECHNICAL_ERROR, NBR_INVALID_REQUEST,
     NBR_KNOWN_WEB_SPIDER, NBR_SUSPECTED_NON_HUMAN_TRAFFIC, NBR_CLOUD_DATACENTER_OR_PROXY_IP,
     NBR_UNSUPPORTED_DEVICE, NBR_BLOCKED_PUBLISHER_OR_SITE, NBR_UNMATCHED_USER]"

lemma get_NoBidReason [ar_simps]: "get_enum NoBidReason_code all_NoBidReason (put_enum NoBidReason_code e @ ar) = Some (e, ar)"
  by (rule get_enum_put) (cases e; simp add: all_NoBidReason_def)

definition all_Protocol :: "Protocol list" where
  "all_Protocol = [PROTO_UNKNOWN, PROTO_VAST_1_0, PROTO_VAST_2_0, PROTO_VAST_3_0, PROTO_VAST_1_0_WRAPPER,
     PROTO_VAST_2_0_WRAPPER, PROTO_VAST_3_0_WRAPPER, PROTO_VAST_4_0, PROTO_VAST_4_0_WRAPPER,
     PROTO_DAAST_1_0, PROTO_DAAST_1_0_WRAPPER]"

lemma get_Protocol [ar_simps]: "get_enum Protocol_code all_Protocol (put_enum Protocol_code e @ ar) = Some (e, ar)"
  by (rule get_enum_put) (cases e; simp add: all_Protocol_def)

definition all_VideoPlacement :: "VideoPlacement list" where
  "all_VideoPlacement = [VP_UNKNOWN, VP_IN_STREAM, VP_IN_BANNER, VP_IN_ARTICLE, VP_IN_FEED, VP_FLOATING]"

lemma get_VideoPlacement [ar_simps]: "get_enum VideoPlacement_code all_VideoPlacement (put_enum VideoPlacement_code e @ ar) = Some (e, ar)"
  by (rule get_enum_put) (cases e; simp add: all_VideoPlacement_def)

definition all_PlaybackMethod :: "PlaybackMethod list" where
  "all_PlaybackMethod = [PM_UNKNOWN, PM_ON_PAGE_SOUND_ON, PM_ON_PAGE_SOUND_OFF, PM_ON_CLICK_SOUND_ON,
     PM_ON_MOVER_SOUND_ON, PM_ON_VIEWPORT_SOUND_ON, PM_ON_VIEWPORT_SOUND_OFF]"

lemma get_PlaybackMethod [ar_simps]: "get_enum PlaybackMethod_code all_PlaybackMethod (put_enum PlaybackMethod_code e @ ar) = Some (e, ar)"
  by (rule get_enum_put) (cases e; simp add: all_PlaybackMethod_def)

definition all_PlaybackCessationModes :: "PlaybackCessationModes list" where
  "all_PlaybackCessationModes = [PCM_UNKNOWN, PCM_COMPLEETION, PCM_VIEWPORT, PCM_FLOATING]"

lemma get_PlaybackCessationModes [ar_simps]: "get_enum PlaybackCessationModes_code all_PlaybackCessationModes (put_enum PlaybackCessationModes_code e @ ar) = Some (e, ar)"
  by (rule get_enum_put) (cases e; simp add: all_PlaybackCessationModes_def)

definition all_DeliveryMethod :: "DeliveryMethod list" where
  "all_DeliveryMethod = [DM_UNKNOWN, DM_STREAMING, DM_PROGRESSIVE, DM_DOWNLOAD]"

lemma get_DeliveryMethod [ar_simps]: "get_enum DeliveryMethod_code all_DeliveryMethod (put_enum DeliveryMethod_code e @ ar) = Some (e, ar)"
  by (rule get_enum_put) (cases e; simp add: all_DeliveryMethod_def)

definition all_CompanionType :: "CompanionType list" where
  "all_CompanionType = [CT_UNKNOWN, CT_STATIC, CT_HTML, CT_IFRAME]"

lemma get_CompanionType [ar_simps]: "get_enum CompanionType_code all_CompanionType (put_enum CompanionType_code e @ ar) = Some (e, ar)"
  by (rule get_enum_put) (cases e; simp add: all_CompanionType_def)

definition all_GeoType :: "GeoType list" where
  "all_GeoType = [GEO_UNDEFINED, GEO_GPS, GEO_IP, GEO_USER]"

lemma get_GeoType [ar_simps]: "get_enum GeoType_code all_GeoType (put_enum GeoType_code e @ ar) = Some (e, ar)"
  by (rule get_enum_put) (cases e; simp add: all_GeoType_def)

section \<open>Requests\<close>

text \<open>Objects whose serialization function is empty take no space in the archive.\<close>

definition save_MimeType :: "MimeType \<Rightarrow> ar_val list" where
  "save_MimeType v =
     put_str (mime_type v)"

definition load_MimeType :: "ar_val list \<Rightarrow> (MimeType \<times> ar_val list) option" where
  "load_MimeType ar =
     do { (type', ar) \<leftarrow> get_str ar;
       Some (\<lparr>mime_type = type'\<rparr>, ar) }"

definition save_Banner :: "Banner \<Rightarrow> ar_val list" where
  "save_Banner v =
     put_uint (bn_w v) @ put_uint (bn_h v) @ put_option put_int (bn_wmax v) @
     put_option put_int (bn_hmax v) @ put_option put_int (bn_wmin v) @ put_option put_int (bn_hmin v) @
     put_str (bn_id v) @ put_enum AdPosition_code (bn_pos v) @
     put_list (put_enum BannerAdType_code) (bn_btype v) @
     put_list (put_enum CreativeAttribute_code) (bn_battr v) @ put_list save_MimeType (bn_mimes v) @
     put_enum FramePosition_code (bn_topframe v) @
     put_list (put_enum ExpandableDirection_code) (bn_expdir v) @
     put_list (put_enum ApiFramework_code) (bn_api v)"

definition load_Banner :: "ar_val list \<Rightarrow> (Banner \<times> ar_val list) option" where
  "load_Banner ar =
     do { (w', ar) \<leftarrow> get_uint ar; (h', ar) \<leftarrow> get_uint ar;
        (wmax', ar) \<leftarrow> get_option get_int ar; (hmax', ar) \<leftarrow> get_option get_int ar;
        (wmin', ar) \<leftarrow> get_option get_int ar; (hmin', ar) \<leftarrow> get_option get_int ar;
        (id', ar) \<leftarrow> get_str ar;
        (pos', ar) \<leftarrow> get_enum AdPosition_code all_AdPosition ar;
        (btype', ar) \<leftarrow> get_list (get_enum BannerAdType_code all_BannerAdType) ar;
        (battr', ar) \<leftarrow> get_list (get_enum CreativeAttribute_code all_CreativeAttribute) ar;
        (mimes', ar) \<leftarrow> get_list load_MimeType ar;
        (topframe', ar) \<leftarrow> get_enum FramePosition_code all_FramePosition ar;
        (expdir', ar) \<leftarrow> get_list (get_enum ExpandableDirection_code all_ExpandableDirection) ar;
        (api', ar) \<leftarrow> get_list (get_enum ApiFramework_code all_ApiFramework) ar;
       Some (\<lparr>bn_w = w', bn_h = h', bn_wmax = wmax', bn_hmax = hmax', bn_wmin = wmin',
          bn_hmin = hmin', bn_id = id', bn_pos = pos', bn_btype = btype', bn_battr = battr',
          bn_mimes = mimes', bn_topframe = topframe', bn_expdir = expdir', bn_api = api', bn_ext = []\<rparr>, ar) }"

definition save_Video :: "Video \<Rightarrow> ar_val list" where
  "save_Video v =
     put_list save_MimeType (vd_mimes v) @ put_uint (vd_minduration v) @ put_uint (vd_maxduration v) @
     put_list (put_enum Protocol_code) (vd_protocols v) @ put_enum Protocol_code (vd_protocol v) @
     put_uint (vd_w v) @ put_uint (vd_h v) @ put_uint (vd_startdelay v) @
     put_enum VideoPlacement_code (vd_placement v) @ put_int (vd_linearity v) @ put_uint (vd_skip v) @
     put_uint (vd_skipmin v) @ put_uint (vd_skipafter v) @ put_uint (vd_sequence v) @
     put_list (put_enum CreativeAttribute_code) (vd_battr v) @ put_int (vd_maxextended v) @
     put_uint (vd_minbitrate v) @ put_uint (vd_maxbitrate v) @ put_uint (vd_boxingallowed v) @
     put_list (put_enum PlaybackMethod_code) (vd_playbackmethod v) @
     put_enum PlaybackCessationModes_code (vd_playbackend v) @
     put_enum DeliveryMethod_code (vd_delivery v) @ put_enum AdPosition_code (vd_pos v) @
     put_enum CompanionType_code (vd_companiontype v)"

definition load_Video :: "ar_val list \<Rightarrow> (Video \<times> ar_val list) option" where
  "load_Video ar =
     do { (mimes', ar) \<leftarrow> get_list load_MimeType ar;
        (minduration', ar) \<leftarrow> get_uint ar; (maxduration', ar) \<leftarrow> get_uint ar;
        (protocols', ar) \<leftarrow> get_list (get_enum Protocol_code all_Protocol) ar;
        (protocol', ar) \<leftarrow> get_enum Protocol_code all_Protocol ar;
        (w', ar) \<leftarrow> get_uint ar; (h', ar) \<leftarrow> get_uint ar;
        (startdelay', ar) \<leftarrow> get_uint ar;
        (placement', ar) \<leftarrow> get_enum VideoPlacement_code all_VideoPlacement ar;
        (linearity', ar) \<leftarrow> get_int ar; (skip', ar) \<leftarrow> get_uint ar;
        (skipmin', ar) \<leftarrow> get_uint ar; (skipafter', ar) \<leftarrow> get_uint ar;
        (sequence', ar) \<leftarrow> get_uint ar;
        (battr', ar) \<leftarrow> get_list (get_enum CreativeAttribute_code all_CreativeAttribute) ar;
        (maxextended', ar) \<leftarrow> get_int ar; (minbitrate', ar) \<leftarrow> get_uint ar;
        (maxbitrate', ar) \<leftarrow> get_uint ar; (boxingallowed', ar) \<leftarrow> get_uint ar;
        (playbackmethod', ar) \<leftarrow> get_list (get_enum PlaybackMethod_code all_PlaybackMethod) ar;
        (playbackend', ar) \<leftarrow> get_enum PlaybackCessationModes_code all_PlaybackCessationModes ar;
        (delivery', ar) \<leftarrow> get_enum DeliveryMethod_code all_DeliveryMethod ar;
        (pos', ar) \<leftarrow> get_enum AdPosition_code all_AdPosition ar;
        (companiontype', ar) \<leftarrow> get_enum CompanionType_code all_CompanionType ar;
       Some (\<lparr>vd_mimes = mimes', vd_minduration = minduration', vd_maxduration = maxduration',
          vd_protocols = protocols', vd_protocol = protocol', vd_w = w', vd_h = h',
          vd_startdelay = startdelay', vd_placement = placement', vd_linearity = linearity',
          vd_skip = skip', vd_skipmin = skipmin', vd_skipafter = skipafter', vd_sequence = sequence',
          vd_battr = battr', vd_maxextended = maxextended', vd_minbitrate = minbitrate',
          vd_maxbitrate = maxbitrate', vd_boxingallowed = boxingallowed',
          vd_playbackmethod = playbackmethod', vd_playbackend = playbackend', vd_delivery = delivery',
          vd_pos = pos', vd_companiontype = companiontype', vd_ext = []\<rparr>, ar) }"

definition save_Native :: "Native \<Rightarrow> ar_val list" where
  "save_Native v = []"

definition load_Native :: "ar_val list \<Rightarrow> (Native \<times> ar_val list) option" where
  "load_Native ar =
     Some (\<lparr>nat_request = [], nat_ver = [], nat_api = [], nat_battr = [], nat_ext = []\<rparr>, ar)"

definition save_PMP :: "PMP \<Rightarrow> ar_val list" where
  "save_PMP v = []"

definition load_PMP :: "ar_val list \<Rightarrow> (PMP \<times> ar_val list) option" where
  "load_PMP ar = Some (PMP, ar)"

definition save_App :: "App \<Rightarrow> ar_val list" where
  "save_App v = []"

definition load_App :: "ar_val list \<Rightarrow> (App \<times> ar_val list) option" where
  "load_App ar = Some (App, ar)"

definition save_Device :: "Device \<Rightarrow> ar_val list" where
  "save_Device v = []"

definition load_Device :: "ar_val list \<Rightarrow> (Device \<times> ar_val list) option" where
  "load_Device ar = Some (Device, ar)"

definition save_Regulations :: "Regulations \<Rightarrow> ar_val list" where
  "save_Regulations v = []"

definition load_Regulations :: "ar_val list \<Rightarrow> (Regulations \<times> ar_val list) option" where
  "load_Regulations ar = Some (Regulations, ar)"

definition save_unicode_string :: "string \<Rightarrow> ar_val list" where
  "save_unicode_string v = []"

definition load_unicode_string :: "ar_val list \<Rightarrow> (string \<times> ar_val list) option" where
  "load_unicode_string ar = Some ([], ar)"

definition save_Geo :: "Geo \<Rightarrow> ar_val list" where
  "save_Geo v =
     put_dbl (geo_lat v) @ put_dbl (geo_lon v) @ put_enum GeoType_code (geo_type v) @
     put_int (geo_utcoffset v) @ put_str (geo_city v) @ put_str (geo_country v) @
     put_str (geo_region v) @ put_str (geo_regionfips104 v) @ put_str (geo_metro v) @
     put_str (geo_zip v)"

definition load_Geo :: "ar_val list \<Rightarrow> (Geo \<times> ar_val list) option" where
  "load_Geo ar =
     do { (lat', ar) \<leftarrow> get_dbl ar; (lon', ar) \<leftarrow> get_dbl ar;
        (type', ar) \<leftarrow> get_enum GeoType_code all_GeoType ar;
        (utcoffset', ar) \<leftarrow> get_int ar; (city', ar) \<leftarrow> get_str ar;
        (country', ar) \<leftarrow> get_str ar; (region', ar) \<leftarrow> get_str ar;
        (regionfips104', ar) \<leftarrow> get_str ar; (metro', ar) \<leftarrow> get_str ar;
        (zip', ar) \<leftarrow> get_str ar;
       Some (\<lparr>geo_lat = lat', geo_lon = lon', geo_type = type', geo_utcoffset = utcoffset',
          geo_city = city', geo_country = country', geo_region = region',
          geo_regionfips104 = regionfips104', geo_metro = metro', geo_zip = zip', geo_ext = []\<rparr>, ar) }"

definition save_UserData :: "UserData \<Rightarrow> ar_val list" where
  "save_UserData v =
     put_str (ud_id v) @ put_str (ud_name v)"

definition load_UserData :: "ar_val list \<Rightarrow> (UserData \<times> ar_val list) option" where
  "load_UserData ar =
     do { (id', ar) \<leftarrow> get_str ar; (name', ar) \<leftarrow> get_str ar;
       Some (\<lparr>ud_id = id', ud_name = name', ud_segment = [], ud_ext = []\<rparr>, ar) }"

definition save_User :: "User \<Rightarrow> ar_val list" where
  "save_User v =
     put_int (user_yob v) @ put_str (user_id v) @ put_str (user_buyeruid v) @ put_str (user_gender v) @
     put_str (user_keywords v) @ put_str (user_customdata v) @ put_option save_Geo (user_geo v) @
     put_list save_UserData (user_data v)"

definition load_User :: "ar_val list \<Rightarrow> (User \<times> ar_val list) option" where
  "load_User ar =
     do { (yob', ar) \<leftarrow> get_int ar; (id', ar) \<leftarrow> get_str ar;
        (buyeruid', ar) \<leftarrow> get_str ar; (gender', ar) \<leftarrow> get_str ar;
        (keywords', ar) \<leftarrow> get_str ar; (customdata', ar) \<leftarrow> get_str ar;
        (geo', ar) \<leftarrow> get_option load_Geo ar;
        (data', ar) \<leftarrow> get_list load_UserData ar;
       Some (\<lparr>user_yob = yob', user_id = id', user_buyeruid = buyeruid', user_gender = gender',
          user_keywords = keywords', user_customdata = customdata', user_geo = geo', user_data = data',
          user_ext = []\<rparr>, ar) }"

definition save_Impression :: "Impression \<Rightarrow> ar_val list" where
  "save_Impression v =
     put_str (imp_id v) @ put_option save_Banner (imp_banner v) @ put_option save_Video (imp_video v) @
     put_option save_Native (imp_native v) @ save_unicode_string (imp_displaymanager v) @
     save_unicode_string (imp_displaymanagerver v) @ put_bool (imp_instl v) @
     save_unicode_string (imp_tagid v) @ put_dbl (imp_bidfloor v) @ put_str (imp_bidfloorcur v) @
     put_int (imp_secure v) @ put_list put_str (imp_iframebuster v) @ put_option save_PMP (imp_pmp v)"

definition load_Impression :: "ar_val list \<Rightarrow> (Impression \<times> ar_val list) option" where
  "load_Impression ar =
     do { (id', ar) \<leftarrow> get_str ar; (banner', ar) \<leftarrow> get_option load_Banner ar;
        (video', ar) \<leftarrow> get_option load_Video ar;
        (native', ar) \<leftarrow> get_option load_Native ar;
        (displaymanager', ar) \<leftarrow> load_unicode_string ar;
        (displaymanagerver', ar) \<leftarrow> load_unicode_string ar;
        (instl', ar) \<leftarrow> get_bool ar; (tagid', ar) \<leftarrow> load_unicode_string ar;
        (bidfloor', ar) \<leftarrow> get_dbl ar; (bidfloorcur', ar) \<leftarrow> get_str ar;
        (secure', ar) \<leftarrow> get_int ar; (iframebuster', ar) \<leftarrow> get_list get_str ar;
        (pmp', ar) \<leftarrow> get_option load_PMP ar;
       Some (\<lparr>imp_id = id', imp_banner = banner', imp_video = video', imp_native = native',
          imp_displaymanager = displaymanager', imp_displaymanagerver = displaymanagerver',
          imp_instl = instl', imp_tagid = tagid', imp_bidfloor = bidfloor',
          imp_bidfloorcur = bidfloorcur', imp_secure = secure', imp_iframebuster = iframebuster',
          imp_pmp = pmp', imp_ext = []\<rparr>, ar) }"

text \<open>The site is default-constructed on the receiving side, its privacy flag not initialised.\<close>

definition save_Site :: "Site \<Rightarrow> ar_val list" where
  "save_Site v = []"

definition load_Site :: "bool \<Rightarrow> ar_val list \<Rightarrow> (Site \<times> ar_val list) option" where
  "load_Site garbage ar = Some (new_Site garbage, ar)"

definition save_BidRequest :: "BidRequest \<Rightarrow> ar_val list" where
  "save_BidRequest v =
     put_str (brq_id v) @ put_list save_Impression (brq_imp v) @ put_option save_Site (brq_site v) @
     put_option save_App (brq_app v) @ put_option save_Device (brq_device v) @
     put_option save_User (brq_user v) @ put_enum AuctionType_code (brq_at v) @ put_int (brq_tmax v) @
     put_list put_str (brq_wseat v) @ put_bool (brq_allimps v) @ put_list put_str (brq_cur v) @
     put_list put_str (brq_bcat v) @ put_list save_unicode_string (brq_badv v) @
     put_option save_Regulations (brq_regs v)"

definition load_BidRequest :: "bool \<Rightarrow> ar_val list \<Rightarrow> (BidRequest \<times> ar_val list) option" where
  "load_BidRequest garbage ar =
     do { (id', ar) \<leftarrow> get_str ar; (imp', ar) \<leftarrow> get_list load_Impression ar;
        (site', ar) \<leftarrow> get_option (load_Site garbage) ar; (app', ar) \<leftarrow> get_option load_App ar;
        (device', ar) \<leftarrow> get_option load_Device ar; (user', ar) \<leftarrow> get_option load_User ar;
        (at', ar) \<leftarrow> get_enum AuctionType_code all_AuctionType ar; (tmax', ar) \<leftarrow> get_int ar;
        (wseat', ar) \<leftarrow> get_list get_str ar; (allimps', ar) \<leftarrow> get_bool ar;
        (cur', ar) \<leftarrow> get_list get_str ar; (bcat', ar) \<leftarrow> get_list get_str ar;
        (badv', ar) \<leftarrow> get_list load_unicode_string ar; (regs', ar) \<leftarrow> get_option load_Regulations ar;
       Some (\<lparr>brq_id = id', brq_imp = imp', brq_site = site', brq_app = app', brq_device = device',
          brq_user = user', brq_at = at', brq_tmax = tmax', brq_wseat = wseat', brq_allimps = allimps',
          brq_cur = cur', brq_bcat = bcat', brq_badv = badv', brq_regs = regs', brq_ext = [],
          brq_unparseable = []\<rparr>, ar) }"

record UserInfo =
  ui_user_id :: string
  ui_user_data :: string

definition new_UserInfo :: UserInfo where
  "new_UserInfo = \<lparr>ui_user_id = [], ui_user_data = []\<rparr>"

record VanillaRequest =
  vr_bid_request :: BidRequest
  vr_user_info :: UserInfo

definition save_UserInfo :: "UserInfo \<Rightarrow> ar_val list" where
  "save_UserInfo v = put_str (ui_user_id v) @ put_str (ui_user_data v)"

definition load_UserInfo :: "ar_val list \<Rightarrow> (UserInfo \<times> ar_val list) option" where
  "load_UserInfo ar =
     do { (user_id', ar) \<leftarrow> get_str ar; (user_data', ar) \<leftarrow> get_str ar;
       Some (\<lparr>ui_user_id = user_id', ui_user_data = user_data'\<rparr>, ar) }"

definition save_VanillaRequest :: "VanillaRequest \<Rightarrow> ar_val list" where
  "save_VanillaRequest v = save_BidRequest (vr_bid_request v) @ save_UserInfo (vr_user_info v)"

definition load_VanillaRequest :: "bool \<Rightarrow> ar_val list \<Rightarrow> (VanillaRequest \<times> ar_val list) option" where
  "load_VanillaRequest garbage ar =
     do { (bid_request', ar) \<leftarrow> load_BidRequest garbage ar; (user_info', ar) \<leftarrow> load_UserInfo ar;
       Some (\<lparr>vr_bid_request = bid_request', vr_user_info = user_info'\<rparr>, ar) }"

section \<open>Responses\<close>

definition save_Bid :: "Bid \<Rightarrow> ar_val list" where
  "save_Bid v =
     put_str (bid_id v) @ put_str (bid_impid v) @ put_str (bid_adid v) @ put_str (bid_nurl v) @
     put_str (bid_adm v) @ put_list put_str (bid_adomain v) @ put_str (bid_iurl v) @
     put_str (bid_cid v) @ put_str (bid_crid v) @
     put_list (put_enum CreativeAttribute_code) (bid_attr v) @ put_str (bid_dealid v) @
     put_int (bid_w v) @ put_int (bid_h v)"

definition load_Bid :: "ar_val list \<Rightarrow> (Bid \<times> ar_val list) option" where
  "load_Bid ar =
     do { (id', ar) \<leftarrow> get_str ar; (impid', ar) \<leftarrow> get_str ar;
        (adid', ar) \<leftarrow> get_str ar; (nurl', ar) \<leftarrow> get_str ar;
        (adm', ar) \<leftarrow> get_str ar; (adomain', ar) \<leftarrow> get_list get_str ar;
        (iurl', ar) \<leftarrow> get_str ar; (cid', ar) \<leftarrow> get_str ar;
        (crid', ar) \<leftarrow> get_str ar;
        (attr', ar) \<leftarrow> get_list (get_enum CreativeAttribute_code all_CreativeAttribute) ar;
        (dealid', ar) \<leftarrow> get_str ar; (w', ar) \<leftarrow> get_int ar;
        (h', ar) \<leftarrow> get_int ar;
       Some (\<lparr>bid_id = id', bid_impid = impid', bid_price = 0, bid_adid = adid',
          bid_nurl = nurl', bid_adm = adm', bid_adomain = adomain', bid_iurl = iurl', bid_cid = cid',
          bid_crid = crid', bid_attr = attr', bid_dealid = dealid', bid_w = w', bid_h = h', bid_ext = []\<rparr>, ar) }"

definition save_SeatBid :: "SeatBid \<Rightarrow> ar_val list" where
  "save_SeatBid v =
     put_list save_Bid (sb_bid v) @ put_str (sb_seat v) @ put_int (sb_group v)"

definition load_SeatBid :: "ar_val list \<Rightarrow> (SeatBid \<times> ar_val list) option" where
  "load_SeatBid ar =
     do { (bid', ar) \<leftarrow> get_list load_Bid ar; (seat', ar) \<leftarrow> get_str ar;
        (group', ar) \<leftarrow> get_int ar;
       Some (\<lparr>sb_bid = bid', sb_seat = seat', sb_group = group', sb_ext = []\<rparr>, ar) }"

definition save_BidResponse :: "BidResponse \<Rightarrow> ar_val list" where
  "save_BidResponse v =
     put_str (brs_id v) @ put_list save_SeatBid (brs_seatbid v) @ put_str (brs_bidid v) @
     put_str (brs_cur v) @ put_str (brs_customdata v) @ put_enum NoBidReason_code (brs_nbr v)"

definition load_BidResponse :: "ar_val list \<Rightarrow> (BidResponse \<times> ar_val list) option" where
  "load_BidResponse ar =
     do { (id', ar) \<leftarrow> get_str ar; (seatbid', ar) \<leftarrow> get_list load_SeatBid ar;
        (bidid', ar) \<leftarrow> get_str ar; (cur', ar) \<leftarrow> get_str ar;
        (customdata', ar) \<leftarrow> get_str ar;
        (nbr', ar) \<leftarrow> get_enum NoBidReason_code all_NoBidReason ar;
       Some (\<lparr>brs_id = id', brs_seatbid = seatbid', brs_bidid = bidid', brs_cur = cur',
          brs_customdata = customdata', brs_nbr = nbr', brs_ext = []\<rparr>, ar) }"

section \<open>What arrives\<close>

definition sent_Banner :: "Banner \<Rightarrow> Banner" where
  "sent_Banner v = v\<lparr>bn_ext := []\<rparr>"

definition sent_Video :: "Video \<Rightarrow> Video" where
  "sent_Video v = v\<lparr>vd_ext := []\<rparr>"

definition new_Native :: Native where
  "new_Native = \<lparr>nat_request = [], nat_ver = [], nat_api = [], nat_battr = [], nat_ext = []\<rparr>"

definition sent_Impression :: "Impression \<Rightarrow> Impression" where
  "sent_Impression v = v\<lparr>imp_banner := map_option sent_Banner (imp_banner v),
     imp_video := map_option sent_Video (imp_video v), imp_native := map_option (\<lambda>_. new_Native) (imp_native v),
     imp_displaymanager := [], imp_displaymanagerver := [], imp_tagid := [], imp_ext := []\<rparr>"

definition sent_Geo :: "Geo \<Rightarrow> Geo" where
  "sent_Geo v = v\<lparr>geo_ext := []\<rparr>"

definition sent_UserData :: "UserData \<Rightarrow> UserData" where
  "sent_UserData v = v\<lparr>ud_segment := [], ud_ext := []\<rparr>"

definition sent_User :: "User \<Rightarrow> User" where
  "sent_User v = v\<lparr>user_geo := map_option sent_Geo (user_geo v), user_data := map sent_UserData (user_data v),
     user_ext := []\<rparr>"

definition sent_BidRequest :: "bool \<Rightarrow> BidRequest \<Rightarrow> BidRequest" where
  "sent_BidRequest garbage v = v\<lparr>brq_imp := map sent_Impression (brq_imp v),
     brq_site := map_option (\<lambda>_. new_Site garbage) (brq_site v), brq_user := map_option sent_User (brq_user v),
     brq_badv := map (\<lambda>_. []) (brq_badv v), brq_ext := [], brq_unparseable := []\<rparr>"

definition sent_Bid :: "Bid \<Rightarrow> Bid" where
  "sent_Bid v = v\<lparr>bid_price := 0, bid_ext := []\<rparr>"

definition sent_SeatBid :: "SeatBid \<Rightarrow> SeatBid" where
  "sent_SeatBid v = v\<lparr>sb_bid := map sent_Bid (sb_bid v), sb_ext := []\<rparr>"

definition sent_BidResponse :: "BidResponse \<Rightarrow> BidResponse" where
  "sent_BidResponse v = v\<lparr>brs_seatbid := map sent_SeatBid (brs_seatbid v), brs_ext := []\<rparr>"

lemma load_empty [ar_simps]:
  "load_PMP (save_PMP p @ ar) = Some (p, ar)" "load_App (save_App a @ ar) = Some (a, ar)"
  "load_Device (save_Device d @ ar) = Some (d, ar)" "load_Regulations (save_Regulations r @ ar) = Some (r, ar)"
  "load_unicode_string (save_unicode_string u @ ar) = Some ([], ar)"
  "load_Native (save_Native n @ ar) = Some (new_Native, ar)"
  "load_Site garbage (save_Site s @ ar) = Some (new_Site garbage, ar)"
  by (cases p; cases a; cases d; cases r; simp add: load_PMP_def save_PMP_def load_App_def save_App_def
      load_Device_def save_Device_def load_Regulations_def save_Regulations_def load_unicode_string_def
      save_unicode_string_def load_Native_def save_Native_def new_Native_def load_Site_def save_Site_def)+

lemma load_MimeType [ar_simps]: "load_MimeType (save_MimeType v @ ar) = Some (v, ar)"
  by (simp add: load_MimeType_def save_MimeType_def ar_simps)

lemmas get_option_primitive [ar_simps] = get_option_put [OF get_primitive(1)]
lemmas get_list_enums [ar_simps] =
  get_list_put [OF get_primitive(2)] get_list_put [OF get_BannerAdType] get_list_put [OF get_CreativeAttribute]
  get_list_put [OF get_ExpandableDirection] get_list_put [OF get_ApiFramework] get_list_put [OF get_Protocol]
  get_list_put [OF get_PlaybackMethod] get_list_put [OF load_MimeType]

lemma load_Banner [ar_simps]: "load_Banner (save_Banner v @ ar) = Some (sent_Banner v, ar)"
  by (simp add: load_Banner_def save_Banner_def sent_Banner_def ar_simps option.map_ident)

lemma load_Video [ar_simps]: "load_Video (save_Video v @ ar) = Some (sent_Video v, ar)"
  by (simp add: load_Video_def save_Video_def sent_Video_def ar_simps)

lemma load_Geo [ar_simps]: "load_Geo (save_Geo v @ ar) = Some (sent_Geo v, ar)"
  by (simp add: load_Geo_def save_Geo_def sent_Geo_def ar_simps)

lemma load_UserData [ar_simps]: "load_UserData (save_UserData v @ ar) = Some (sent_UserData v, ar)"
  by (simp add: load_UserData_def save_UserData_def sent_UserData_def ar_simps)

lemmas get_option_records [ar_simps] =
  get_option_put [OF load_Banner] get_option_put [OF load_Video] get_option_put [OF load_Geo]
  get_option_put [OF load_empty(1)] get_option_put [OF load_empty(2)] get_option_put [OF load_empty(3)]
  get_option_put [OF load_empty(4)] get_option_put [OF load_empty(6)] get_option_put [OF load_empty(7)]
lemmas get_list_records [ar_simps] = get_list_put [OF load_UserData] get_list_put [OF load_empty(5)]

lemma load_User [ar_simps]: "load_User (save_User v @ ar) = Some (sent_User v, ar)"
  by (simp add: load_User_def save_User_def sent_User_def ar_simps)

lemma load_Impression [ar_simps]: "load_Impression (save_Impression v @ ar) = Some (sent_Impression v, ar)"
  by (simp add: load_Impression_def save_Impression_def sent_Impression_def ar_simps option.map_ident)

lemma load_BidRequest [ar_simps]: "load_BidRequest g (save_BidRequest v @ ar) = Some (sent_BidRequest g v, ar)"
  by (simp add: load_BidRequest_def save_BidRequest_def sent_BidRequest_def ar_simps option.map_ident
      get_list_put [OF load_Impression] get_option_put [OF load_User])

lemma load_VanillaRequest [ar_simps]:
  "load_VanillaRequest g (save_VanillaRequest v @ ar) = Some (v\<lparr>vr_bid_request := sent_BidRequest g (vr_bid_request v)\<rparr>, ar)"
  by (simp add: load_VanillaRequest_def save_VanillaRequest_def load_UserInfo_def save_UserInfo_def ar_simps)

lemma load_Bid [ar_simps]: "load_Bid (save_Bid v @ ar) = Some (sent_Bid v, ar)"
  by (simp add: load_Bid_def save_Bid_def sent_Bid_def ar_simps)

lemma load_SeatBid [ar_simps]: "load_SeatBid (save_SeatBid v @ ar) = Some (sent_SeatBid v, ar)"
  by (simp add: load_SeatBid_def save_SeatBid_def sent_SeatBid_def ar_simps get_list_put [OF load_Bid])

lemma load_BidResponse [ar_simps]: "load_BidResponse (save_BidResponse v @ ar) = Some (sent_BidResponse v, ar)"
  by (simp add: load_BidResponse_def save_BidResponse_def sent_BidResponse_def ar_simps get_list_put [OF load_SeatBid])

section \<open>The communicator\<close>

text \<open>
  Datagrams are byte strings; the binary encoding of archives is a parameter. A receiver takes at
  most the size of its buffer from a datagram. Deserialization of anything that is not an archive
  with the expected values throws.
\<close>

definition MAX_DATA_SIZE :: nat where
  "MAX_DATA_SIZE = 4 * 1024"

definition serialize :: "(ar_val list \<Rightarrow> string) \<Rightarrow> ('a \<Rightarrow> ar_val list) \<Rightarrow> 'a \<Rightarrow> string" where
  "serialize encode save data = encode (save data)"

definition deserialize :: "(string \<Rightarrow> ar_val list option) \<Rightarrow> (ar_val list \<Rightarrow> ('a \<times> ar_val list) option) \<Rightarrow> string \<Rightarrow> 'a option" where
  "deserialize decode load wire_data = do { ar \<leftarrow> decode wire_data; (v, _) \<leftarrow> load ar; Some v }"

definition receive_data :: "string \<Rightarrow> string" where
  "receive_data datagram = take MAX_DATA_SIZE datagram"

text \<open>An endpoint is an address and a port.\<close>

type_synonym endpoint = "u32 \<times> u16"

datatype 'ep destination = Broadcast u16 | To 'ep

text \<open>Exceptions: of the deserialization, and of the handler a message is given to.\<close>

datatype message_error = Archive_exception | Handler_exception

record 'ep communicator =
  cm_distributor :: "u16 option"
  cm_consumer :: "u16 option"
  cm_sent :: "('ep destination \<times> string) list"

definition new_communicator :: "'ep communicator" where
  "new_communicator = \<lparr>cm_distributor = None, cm_consumer = None, cm_sent = []\<rparr>"

definition outbound :: "u16 \<Rightarrow> 'ep communicator \<Rightarrow> 'ep communicator" where
  "outbound port c = c\<lparr>cm_distributor := Some port\<rparr>"

definition inbound :: "u16 \<Rightarrow> 'ep communicator \<Rightarrow> 'ep communicator" where
  "inbound port c = c\<lparr>cm_consumer := Some port\<rparr>"

definition distribute :: "string \<Rightarrow> 'ep communicator \<Rightarrow> 'ep communicator" where
  "distribute data c =
     (case cm_distributor c of
        Some port \<Rightarrow> c\<lparr>cm_sent := cm_sent c @ [(Broadcast port, data)]\<rparr>
      | None \<Rightarrow> c)"

text \<open>One datagram for a consumer that answers, and for one that only consumes.\<close>

definition process :: "(string \<Rightarrow> ar_val list option) \<Rightarrow> (ar_val list \<Rightarrow> ('a \<times> ar_val list) option) \<Rightarrow>
    (ar_val list \<Rightarrow> string) \<Rightarrow> ('r \<Rightarrow> ar_val list) \<Rightarrow> ('ep \<Rightarrow> 'a \<Rightarrow> 's \<Rightarrow> ('r \<times> 's) option) \<Rightarrow> 'ep \<Rightarrow> string \<Rightarrow>
    's \<times> 'ep communicator \<Rightarrow> message_error + ('s \<times> 'ep communicator)" where
  "process decode load encode save handler from_endpoint datagram sc =
     (case sc of (s, c) \<Rightarrow>
        if cm_consumer c = None then Inr (s, c)
        else (case deserialize decode load (receive_data datagram) of
                None \<Rightarrow> Inl Archive_exception
              | Some v \<Rightarrow>
                  (case handler from_endpoint v s of
                     None \<Rightarrow> Inl Handler_exception
                   | Some (response, s') \<Rightarrow>
                       Inr (s', c\<lparr>cm_sent := cm_sent c @ [(To from_endpoint, serialize encode save response)]\<rparr>))))"

definition consume_datagram :: "(string \<Rightarrow> ar_val list option) \<Rightarrow> (ar_val list \<Rightarrow> ('a \<times> ar_val list) option) \<Rightarrow>
    ('ep \<Rightarrow> 'a \<Rightarrow> 's \<Rightarrow> 's) \<Rightarrow> 'ep \<Rightarrow> string \<Rightarrow> 's \<times> 'ep communicator \<Rightarrow>
    message_error + ('s \<times> 'ep communicator)" where
  "consume_datagram decode load handler from_endpoint datagram sc =
     (case sc of (s, c) \<Rightarrow>
        if cm_consumer c = None then Inr (s, c)
        else (case deserialize decode load (receive_data datagram) of
                None \<Rightarrow> Inl Archive_exception
              | Some v \<Rightarrow> Inr (handler from_endpoint v s, c)))"

text \<open>
  Collecting: the answers that arrive before the timer fires, in order; the handler gives its new
  state and whether it called \<open>done\<close>, which ends the loop.
\<close>

fun collect_loop :: "(string \<Rightarrow> ar_val list option) \<Rightarrow> (ar_val list \<Rightarrow> ('a \<times> ar_val list) option) \<Rightarrow>
    ('a \<Rightarrow> 's \<Rightarrow> 's \<times> bool) \<Rightarrow> string list \<Rightarrow> 's \<Rightarrow> message_error + 's" where
  "collect_loop decode load handler [] s = Inr s"
| "collect_loop decode load handler (d # ds) s =
     (case deserialize decode load (receive_data d) of
        None \<Rightarrow> Inl Archive_exception
      | Some v \<Rightarrow>
          (let (s', finished) = handler v s
           in if finished then Inr s' else collect_loop decode load handler ds s'))"

definition collect :: "(string \<Rightarrow> ar_val list option) \<Rightarrow> (ar_val list \<Rightarrow> ('a \<times> ar_val list) option) \<Rightarrow>
    ('a \<Rightarrow> 's \<Rightarrow> 's \<times> bool) \<Rightarrow> string list \<Rightarrow> 'ep communicator \<Rightarrow> 's \<Rightarrow> message_error + 's" where
  "collect decode load handler arrivals c s =
     (if cm_distributor c = None then Inr s else collect_loop decode load handler arrivals s)"

text \<open>The contract of the binary encoding.\<close>

locale archive_codec =
  fixes encode :: "ar_val list \<Rightarrow> string" and decode :: "string \<Rightarrow> ar_val list option"
  assumes decode_encode: "decode (encode ar) = Some ar"
begin

lemma deserialize_serialize:
  assumes "\<And>ar. load (save v @ ar) = Some (f v, ar)" and "length (serialize encode save v) \<le> MAX_DATA_SIZE"
  shows "deserialize decode load (receive_data (serialize encode save v)) = Some (f v)"
  using assms(1) [of "[]"] assms(2) by (simp add: deserialize_def receive_data_def serialize_def decode_encode)

lemma collect_loop_prefix:
  assumes "\<And>v ar. v \<in> set vs \<Longrightarrow> load (save v @ ar) = Some (f v, ar)"
    and "\<And>v. v \<in> set vs \<Longrightarrow> length (serialize encode save v) \<le> MAX_DATA_SIZE"
    and "\<And>v s. v \<in> set vs \<Longrightarrow> handler (f v) s = (add (f v) s, stop (add (f v) s))"
    and "stop s = False"
  shows "\<exists>n. n \<le> length vs \<and> collect_loop decode load handler (map (serialize encode save) vs) s =
      Inr (fold add (map f (take n vs)) s) \<and>
    (\<forall>k<n. \<not> stop (fold add (map f (take k vs)) s)) \<and>
    (n < length vs \<longrightarrow> stop (fold add (map f (take n vs)) s))"
  using assms
proof (induction vs arbitrary: s)
  case (Cons v vs)
  let ?s = "add (f v) s"
  have d: "deserialize decode load (receive_data (serialize encode save v)) = Some (f v)"
    by (rule deserialize_serialize) (use Cons.prems(1,2) in simp_all)
  show ?case
  proof (cases "stop ?s")
    case True
    with d Cons.prems(3) [of v s] Cons.prems(4) show ?thesis by (intro exI [of _ 1]) simp
  next
    case False
    with Cons.IH [of ?s] Cons.prems obtain n where n: "n \<le> length vs"
      "collect_loop decode load handler (map (serialize encode save) vs) ?s = Inr (fold add (map f (take n vs)) ?s)"
      "\<forall>k<n. \<not> stop (fold add (map f (take k vs)) ?s)"
      "n < length vs \<longrightarrow> stop (fold add (map f (take n vs)) ?s)" by auto
    have "\<not> stop (fold add (map f (take k (v # vs))) s)" if "k < Suc n" for k
      using that n(3) Cons.prems(4) by (cases k) simp_all
    with n False d Cons.prems(3) [of v s] show ?thesis by (intro exI [of _ "Suc n"]) simp
  qed
qed simp

end

text \<open>
  A text encoding with the contract: every value is a tag followed by its decimal numbers, each
  ended by a comma; a string is its length and its bytes, a number with a fraction its numerator
  and denominator.
\<close>

definition enc_nat :: "nat \<Rightarrow> string" where
  "enc_nat n = to_string n @ '',''"

definition dec_nat :: "string \<Rightarrow> nat \<times> string" where
  "dec_nat s = (dec_value (takeWhile is_digit_char s), drop 1 (dropWhile is_digit_char s))"

definition enc_int :: "int \<Rightarrow> string" where
  "enc_int i = (if i < 0 then CHR ''-'' else CHR ''+'') # enc_nat (nat \<bar>i\<bar>)"

definition dec_int :: "string \<Rightarrow> int \<times> string" where
  "dec_int s = (let (n, r) = dec_nat (tl s) in (if hd s = CHR ''-'' then - int n else int n, r))"

fun enc_val :: "ar_val \<Rightarrow> string" where
  "enc_val (Ar_int i) = CHR ''i'' # enc_int i"
| "enc_val (Ar_str t) = CHR ''s'' # enc_nat (length t) @ t"
| "enc_val (Ar_dbl d) = (let (n, m) = quotient_of d in CHR ''d'' # enc_int n @ enc_int m)"
| "enc_val (Ar_bool b) = [if b then CHR ''t'' else CHR ''f'']"

fun dec_val :: "string \<Rightarrow> (ar_val \<times> string) option" where
  "dec_val [] = None"
| "dec_val (c # s) =
     (if c = CHR ''i'' then (let (i, r) = dec_int s in Some (Ar_int i, r))
      else if c = CHR ''s'' then (let (n, r) = dec_nat s in Some (Ar_str (take n r), drop n r))
      else if c = CHR ''d'' then
        (let (n, r) = dec_int s; (m, r') = dec_int r in Some (Ar_dbl (of_int n / of_int m), r'))
      else if c = CHR ''t'' then Some (Ar_bool True, s)
      else if c = CHR ''f'' then Some (Ar_bool False, s)
      else None)"

definition text_encode :: "ar_val list \<Rightarrow> string" where
  "text_encode ar = enc_nat (length ar) @ concat (map enc_val ar)"

fun dec_vals :: "nat \<Rightarrow> string \<Rightarrow> ar_val list option" where
  "dec_vals 0 s = Some []"
| "dec_vals (Suc n) s = do { (v, r) \<leftarrow> dec_val s; vs \<leftarrow> dec_vals n r; Some (v # vs) }"

definition text_decode :: "string \<Rightarrow> ar_val list option" where
  "text_decode s = (let (n, r) = dec_nat s in dec_vals n r)"

lemma dec_enc_nat [simp]: "dec_nat (enc_nat n @ r) = (n, r)"
proof -
  have "\<not> is_digit_char CHR '',''" by code_simp
  moreover have "list_all is_digit_char (to_string n)" by (auto simp: list_all_iff dest: to_string_digits)
  ultimately have "takeWhile is_digit_char (to_string n @ CHR '','' # r) = to_string n"
    "dropWhile is_digit_char (to_string n @ CHR '','' # r) = CHR '','' # r"
    by (auto simp: list_all_iff takeWhile_append2 dropWhile_append2)
  then show ?thesis by (simp add: dec_nat_def enc_nat_def)
qed

lemma dec_enc_int [simp]: "dec_int (enc_int i @ r) = (i, r)"
  by (simp add: dec_int_def enc_int_def)

lemma dec_enc_val [simp]: "dec_val (enc_val v @ r) = Some (v, r)"
proof (cases v)
  case (Ar_dbl d)
  obtain n m where q: "quotient_of d = (n, m)" by fastforce
  then have "d = of_int n / of_int m" by (rule quotient_of_div)
  with Ar_dbl q show ?thesis by simp
qed simp_all

lemma dec_enc_vals: "dec_vals (length vs) (concat (map enc_val vs) @ r) = Some vs"
  by (induction vs) simp_all

interpretation text_archive: archive_codec text_encode text_decode
proof
  fix ar
  show "text_decode (text_encode ar) = Some ar"
    using dec_enc_vals [of ar "[]"] by (simp add: text_decode_def text_encode_def)
qed

end
