(* ===== verification/Decision.thy ===== *)
theory Decision
  imports RTB_Prelude
begin

text \<open>
  The decision tree of \<^verbatim>\<open>rtb/common/decision_tree.hpp\<close> and its router: a table of actions, each with
  the row to go to on true and on false. Actions may change the state they are given. A table may
  send control backwards, so running it is a partial function; \<open>forward_tree\<close> is the discipline
  under which it always ends, with every action run at most once.
\<close>

section \<open>Tables\<close>

record 's node_S =
  nd_f :: "'s \<Rightarrow> bool \<times> 's"
  nd_next_true :: int
  nd_next_false :: int

record 's decision_action =
  da_row_num :: u32
  da_node :: "'s node_S"

definition EXIT :: int where "EXIT = - 1"
definition CONTINUE :: int where "CONTINUE = 0"

type_synonym 's decision_tree = "'s decision_action list"

definition get :: "'s decision_action \<Rightarrow> bool \<Rightarrow> int" where
  "get a res = (if res then nd_next_true (da_node a) else nd_next_false (da_node a))"

text \<open>The call operator: the next index, and the state after the action.\<close>

definition call_action :: "'s decision_action \<Rightarrow> 's \<Rightarrow> int \<times> 's" where
  "call_action a s = (case nd_f (da_node a) s of (res, s') \<Rightarrow> (get a res, s'))"

text \<open>
  \<open>std::array::at\<close>, which throws \<open>out_of_range\<close>. A negative index becomes a huge unsigned one and
  is out of range as well; \<open>row_num + 1\<close> is computed in 32 bits.
\<close>

datatype tree_error = Out_of_range

definition tree_at :: "'s decision_tree \<Rightarrow> int \<Rightarrow> tree_error + 's decision_action" where
  "tree_at tree i = (if 0 \<le> i \<and> nat i < length tree then Inr (tree ! nat i) else Inl Out_of_range)"

text \<open>
  One step: run the action, and either stop or find the next one. The second component is the state.
\<close>

datatype 's outcome = Done 's | Failed tree_error 's | Goto "'s decision_action" 's

definition step :: "'s decision_tree \<Rightarrow> 's decision_action \<Rightarrow> 's \<Rightarrow> 's outcome" where
  "step tree action_now s =
     (case call_action action_now s of (next_node_idx, s') \<Rightarrow>
        if next_node_idx = CONTINUE then
          (case tree_at tree (uint (da_row_num action_now + 1)) of
             Inl e \<Rightarrow> Failed e s' | Inr a \<Rightarrow> Goto a s')
        else if next_node_idx \<noteq> EXIT then
          (case tree_at tree next_node_idx of Inl e \<Rightarrow> Failed e s' | Inr a \<Rightarrow> Goto a s')
        else Done s')"

text \<open>\<open>next\<close>: the recursion of the source; \<^term>\<open>None\<close> when it does not return.\<close>

partial_function (option) next_from ::
  "'s decision_tree \<Rightarrow> 's decision_action \<Rightarrow> 's \<Rightarrow> ((tree_error \<times> 's) + 's) option" where
  "next_from tree action_now s =
     (case step tree action_now s of
        Done s' \<Rightarrow> Some (Inr s')
      | Failed e s' \<Rightarrow> Some (Inl (e, s'))
      | Goto a s' \<Rightarrow> next_from tree a s')"

definition execute :: "'s decision_tree \<Rightarrow> 's \<Rightarrow> ((tree_error \<times> 's) + 's) option" where
  "execute tree s =
     (case tree_at tree 0 of Inl e \<Rightarrow> Some (Inl (e, s)) | Inr a \<Rightarrow> next_from tree a s)"

text \<open>The router owns a copy of the table and a manager for it.\<close>

record 's router =
  rt_tree :: "'s decision_tree"
  rt_manager :: "'s decision_tree"

definition new_router :: "'s decision_tree \<Rightarrow> 's router" where
  "new_router tree = \<lparr>rt_tree = tree, rt_manager = tree\<rparr>"

definition router_execute :: "'s router \<Rightarrow> 's \<Rightarrow> ((tree_error \<times> 's) + 's) option" where
  "router_execute r s = execute (rt_manager r) s"

section \<open>Forward tables\<close>

text \<open>
  Every row carries its own number, and every successor is the exit, the next row or a later row.
\<close>

definition forward_succ :: "nat \<Rightarrow> nat \<Rightarrow> int \<Rightarrow> bool" where
  "forward_succ n i k \<longleftrightarrow> k = EXIT \<or> (k = CONTINUE \<and> i + 1 < n) \<or> (int i < k \<and> k < int n)"

definition forward_tree :: "'s decision_tree \<Rightarrow> bool" where
  "forward_tree tree \<longleftrightarrow> tree \<noteq> [] \<and> length tree < 2 ^ 32 \<and>
     (\<forall>i < length tree. da_row_num (tree ! i) = of_nat i \<and>
        forward_succ (length tree) i (nd_next_true (da_node (tree ! i))) \<and>
        forward_succ (length tree) i (nd_next_false (da_node (tree ! i))))"

text \<open>Reference evaluation: a walk over the rows that only moves forward.\<close>

function walk :: "'s decision_tree \<Rightarrow> nat \<Rightarrow> 's \<Rightarrow> 's" where
  "walk tree i s =
     (if i < length tree then
        (case call_action (tree ! i) s of (k, s') \<Rightarrow>
           if k = EXIT then s'
           else if k = CONTINUE then walk tree (i + 1) s'
           else if int i < k then walk tree (nat k) s' else s')
      else s)"
  by pat_completeness auto
termination by (relation "measure (\<lambda>(tree, i, s). length tree - i)") (auto simp: CONTINUE_def)

declare walk.simps [simp del]

lemma get_cases: "get a r = nd_next_true (da_node a) \<or> get a r = nd_next_false (da_node a)"
  by (simp add: get_def)

lemma forward_succ_call:
  assumes "forward_tree tree" and "i < length tree" and "call_action (tree ! i) s = (k, s')"
  shows "forward_succ (length tree) i k"
  using assms get_cases [of "tree ! i"] unfolding call_action_def forward_tree_def
  by (auto split: prod.splits) metis+

lemma forward_step:
  assumes "forward_tree tree" and "i < length tree" and "call_action (tree ! i) s = (k, s')"
  shows "step tree (tree ! i) s =
    (if k = EXIT then Done s'
     else if k = CONTINUE then Goto (tree ! (i + 1)) s'
     else Goto (tree ! nat k) s')"
proof -
  have f: "forward_succ (length tree) i k" using assms by (rule forward_succ_call)
  have "da_row_num (tree ! i) = of_nat i" "length tree < 2 ^ 32"
    using assms(1,2) by (auto simp: forward_tree_def)
  moreover have "uint (word_of_nat i + 1 :: u32) = int (i + 1)" if "i + 1 < 2 ^ 32"
  proof -
    have "uint (word_of_nat (i + 1) :: u32) = int (take_bit 32 (i + 1))"
      by (simp only: unsigned_of_nat) simp
    also have "take_bit 32 (i + 1) = i + 1" using that by (rule take_bit_nat_eq_self)
    finally show ?thesis by (simp add: add.commute)
  qed
  ultimately have "i + 1 < length tree \<Longrightarrow> uint (da_row_num (tree ! i) + 1) = int (i + 1)"
    by simp
  then have "i + 1 < length tree \<Longrightarrow>
      tree_at tree (uint (da_row_num (tree ! i) + 1)) = Inr (tree ! (i + 1))"
    by (simp only: tree_at_def) (simp add: nat_add_distrib)
  then show ?thesis
    using f assms(3)
    by (auto simp: step_def forward_succ_def EXIT_def CONTINUE_def) (auto simp: tree_at_def)
qed

lemma next_from_walk:
  "forward_tree tree \<Longrightarrow> i < length tree \<Longrightarrow> next_from tree (tree ! i) s = Some (Inr (walk tree i s))"
proof (induction tree i s rule: walk.induct)
  case (1 tree i s)
  obtain k s' where k: "call_action (tree ! i) s = (k, s')" by fastforce
  have f: "forward_succ (length tree) i k" using "1.prems" k by (rule forward_succ_call)
  have st: "step tree (tree ! i) s = (if k = EXIT then Done s' else if k = CONTINUE then Goto (tree ! (i + 1)) s'
      else Goto (tree ! nat k) s')" using "1.prems" k by (rule forward_step)
  consider "k = EXIT" | "k = CONTINUE" "i + 1 < length tree" | "k \<noteq> EXIT" "k \<noteq> CONTINUE" "int i < k" "nat k < length tree"
    using f by (auto simp: forward_succ_def EXIT_def CONTINUE_def)
  then show ?case
  proof cases
    case 1
    then show ?thesis using st k "1.prems" by (subst next_from.simps, subst walk.simps) simp
  next
    case 2
    then have "next_from tree (tree ! (i + 1)) s' = Some (Inr (walk tree (i + 1) s'))"
      using "1.IH"(1) [OF "1.prems"(2) k [symmetric]] "1.prems"(1) by (simp add: EXIT_def CONTINUE_def)
    then show ?thesis using 2 st k "1.prems"
      by (subst next_from.simps, subst walk.simps) (simp add: EXIT_def CONTINUE_def)
  next
    case 3
    then have "next_from tree (tree ! nat k) s' = Some (Inr (walk tree (nat k) s'))"
      using "1.IH"(2) [OF "1.prems"(2) k [symmetric]] "1.prems"(1) by simp
    then show ?thesis using 3 st k "1.prems"
      by (subst next_from.simps, subst walk.simps) simp
  qed
qed

lemma forward_tree_run:
  assumes "forward_tree tree"
  shows "router_execute (new_router tree) s = Some (Inr (walk tree 0 s))"
proof -
  have "tree \<noteq> []" using assms by (simp add: forward_tree_def)
  then have "next_from tree (tree ! 0) s = Some (Inr (walk tree 0 s))" using assms by (simp add: next_from_walk)
  with \<open>tree \<noteq> []\<close> show ?thesis by (simp add: router_execute_def new_router_def execute_def tree_at_def)
qed

section \<open>Properties\<close>

text \<open>
  C36: a decision table whose rows carry their own numbers and whose successors are the exit, the
  following row or a later row is always executed to the end: the run returns, no index is out of
  range, and the result is the one of the forward walk over the table.
\<close>

theorem forward_tree_executes:
  assumes "forward_tree tree"
  shows "router_execute (new_router tree) s = Some (Inr (walk tree 0 s))"
  using assms by (rule forward_tree_run)

definition row :: "nat \<Rightarrow> ('s \<Rightarrow> bool \<times> 's) \<Rightarrow> int \<Rightarrow> int \<Rightarrow> 's decision_action" where
  "row i f t e = \<lparr>da_row_num = of_nat i, da_node = \<lparr>nd_f = f, nd_next_true = t, nd_next_false = e\<rparr>\<rparr>"

theorem forward_tree_executes_witness:
  "router_execute (new_router [row 0 (\<lambda>s. (True, s + 1)) 2 1, row 1 (\<lambda>s. (True, 0)) (- 1) (- 1),
     row 2 (\<lambda>s. (True, s * 10)) (- 1) (- 1)]) (4::nat) = Some (Inr 50)"
proof -
  let ?t = "[row 0 (\<lambda>s. (True, s + 1)) 2 1, row 1 (\<lambda>s. (True, 0)) (- 1) (- 1),
     row 2 (\<lambda>s. (True, s * 10)) (- 1) (- 1)] :: nat decision_tree"
  have "forward_tree ?t"
    by (simp add: forward_tree_def All_less_Suc forward_succ_def row_def EXIT_def CONTINUE_def)
  moreover have "walk ?t 0 4 = 50" by (simp add: walk.simps call_action_def get_def row_def EXIT_def CONTINUE_def)
  ultimately show ?thesis using forward_tree_executes [of ?t 4] by simp
qed

text \<open>
  Outside that discipline the table may run forever: a row that names itself as the successor and
  leaves the state unchanged never returns.
\<close>

lemma self_loop_diverges:
  assumes "step tree a s = Goto a s"
  shows "next_from tree a s = None"
proof (rule ccontr)
  assume "next_from tree a s \<noteq> None"
  then obtain y where y: "next_from tree a s = Some y" by blast
  have "step tree a s \<noteq> Goto a s"
    by (rule next_from.raw_induct [where P = "\<lambda>tree a s y. step tree a s \<noteq> Goto a s", OF _ y])
      (auto split: outcome.splits)
  with assms show False by simp
qed

text \<open>
  The successor index 0 never leads to row 0. It is the code that continues with the following
  row, and on the last row it makes the execution fail with an out-of-range error.
\<close>

theorem index_zero_is_continue:
  assumes "call_action a s = (0, s')"
  shows "step tree a s =
      (case tree_at tree (uint (da_row_num a + 1)) of Inl e \<Rightarrow> Failed e s' | Inr b \<Rightarrow> Goto b s') \<and>
    (length tree \<le> unat (da_row_num a + 1) \<longrightarrow> next_from tree a s = Some (Inl (Out_of_range, s')))"
proof -
  have step: "step tree a s =
    (case tree_at tree (uint (da_row_num a + 1)) of Inl e \<Rightarrow> Failed e s' | Inr b \<Rightarrow> Goto b s')"
    using assms by (simp add: step_def CONTINUE_def)
  moreover have "next_from tree a s = Some (Inl (Out_of_range, s'))" if "length tree \<le> unat (da_row_num a + 1)"
  proof -
    have "tree_at tree (uint (da_row_num a + 1)) = Inl Out_of_range" using that by (simp add: tree_at_def)
    with step have "step tree a s = Failed Out_of_range s'" by simp
    then show ?thesis by (subst next_from.simps) simp
  qed
  ultimately show ?thesis by blast
qed

theorem index_zero_is_continue_witness:
  "next_from [row 0 (\<lambda>s. (True, s)) 0 0] (row 0 (\<lambda>s. (True, s)) 0 0) (7::nat) = Some (Inl (Out_of_range, 7))"
proof -
  have "call_action (row 0 (\<lambda>s. (True, s)) 0 0) (7::nat) = (0, 7)"
    by (simp add: call_action_def row_def get_def)
  moreover have "unat (da_row_num (row 0 (\<lambda>s. (True, s::nat)) 0 0) + 1) = 1" by (simp add: row_def)
  ultimately show ?thesis
    using index_zero_is_continue [of "row 0 (\<lambda>s. (True, s)) 0 0" "7::nat" 7 "[row 0 (\<lambda>s. (True, s)) 0 0]"] by simp
qed

end
