(* ===== verification/Exchange.thy ===== *)
theory Exchange
  imports Ico_Bidder Messaging Decision Crud_Dispatch
begin

text \<open>
  The exchange side: the collector of bidder responses and the communicator with the bidders
  (\<^verbatim>\<open>rtb/exchange/multibidder_collector.hpp\<close>, \<^verbatim>\<open>multibidder_communicator.hpp\<close>), the exchange that
  distributes requests (\<^verbatim>\<open>examples/multiexchange\<close>), the bidder process that answers them
  (\<^verbatim>\<open>examples/bidder/multi_bidder.cpp\<close>), the HTTP front end (\<^verbatim>\<open>rtb/exchange/exchange_handler.hpp\<close>)
  and the bidder with its decision table (\<^verbatim>\<open>examples/bidder/http_bidder_test.cpp\<close>). Clocks and the
  answers that arrive in time are inputs. The theorems show what is sent, collected, counted and
  replied.
\<close>

section \<open>The collector\<close>

record 's multibidder_collector =
  mc_num_bidders :: int
  mc_responses :: "BidResponse list"
  mc_response_handler :: "(int \<Rightarrow> BidResponse list \<Rightarrow> 's \<Rightarrow> 's) option"
  mc_add_handler :: "(int \<Rightarrow> BidResponse list \<Rightarrow> 's \<Rightarrow> 's) option"

definition new_collector :: "int \<Rightarrow> 's multibidder_collector" where
  "new_collector num_bidders = \<lparr>mc_num_bidders = num_bidders, mc_responses = [], mc_response_handler = None,
     mc_add_handler = None\<rparr>"

definition on_response :: "(int \<Rightarrow> BidResponse list \<Rightarrow> 's \<Rightarrow> 's) \<Rightarrow> 's multibidder_collector \<Rightarrow> 's multibidder_collector" where
  "on_response h c = c\<lparr>mc_response_handler := Some h\<rparr>"

definition on_add :: "(int \<Rightarrow> BidResponse list \<Rightarrow> 's \<Rightarrow> 's) \<Rightarrow> 's multibidder_collector \<Rightarrow> 's multibidder_collector" where
  "on_add h c = c\<lparr>mc_add_handler := Some h\<rparr>"

definition collector_clear :: "'s multibidder_collector \<Rightarrow> 's multibidder_collector" where
  "collector_clear c = c\<lparr>mc_responses := []\<rparr>"

text \<open>A size is compared with an \<open>int\<close>, which is converted to 64 bits unsigned.\<close>

definition collector_done :: "'s multibidder_collector \<Rightarrow> bool" where
  "collector_done c \<longleftrightarrow> int (length (mc_responses c)) = mc_num_bidders c mod 2 ^ 64"

definition run_handler :: "(int \<Rightarrow> BidResponse list \<Rightarrow> 's \<Rightarrow> 's) option \<Rightarrow> 's multibidder_collector \<Rightarrow> 's \<Rightarrow> 's" where
  "run_handler h c s = (case h of None \<Rightarrow> s | Some f \<Rightarrow> f (mc_num_bidders c) (mc_responses c) s)"

definition collector_add :: "BidResponse \<Rightarrow> 's multibidder_collector \<times> 's \<Rightarrow> 's multibidder_collector \<times> 's" where
  "collector_add b cs = (case cs of (c, s) \<Rightarrow>
     (c\<lparr>mc_responses := mc_responses c @ [b]\<rparr>, run_handler (mc_add_handler c) c s))"

definition no_bid :: "BidResponse \<Rightarrow> bool" where
  "no_bid r \<longleftrightarrow> brs_seatbid r = [] \<or> sb_bid (hd (brs_seatbid r)) = []"

definition first_price :: "BidResponse \<Rightarrow> double" where
  "first_price r = bid_price (hd (sb_bid (hd (brs_seatbid r))))"

definition before :: "BidResponse \<Rightarrow> BidResponse \<Rightarrow> bool" where
  "before first second =
     (if no_bid first then False
      else if no_bid second then True
      else first_price first > first_price second)"

text \<open>
  \<open>std::sort\<close> leaves the order of equivalent elements open, so the sorting function is a parameter
  with the standard's contract.
\<close>

locale std_sort =
  fixes sort_fn :: "('a \<Rightarrow> 'a \<Rightarrow> bool) \<Rightarrow> 'a list \<Rightarrow> 'a list"
  assumes sort_set: "set (sort_fn lt xs) = set xs"
    and sort_length: "length (sort_fn lt xs) = length xs"
    and sort_sorted: "(\<And>x. \<not> lt x x) \<Longrightarrow> (\<And>x y z. lt x y \<Longrightarrow> lt y z \<Longrightarrow> lt x z) \<Longrightarrow>
      (\<And>x y z. lt x z \<Longrightarrow> lt x y \<or> lt y z) \<Longrightarrow>
      sorted_wrt (\<lambda>x y. \<not> lt y x) (sort_fn lt xs)"
begin

lemma sort_head:
  assumes "\<And>x. \<not> lt x x" and "\<And>x y z. lt x y \<Longrightarrow> lt y z \<Longrightarrow> lt x z"
    and "\<And>x y z. lt x z \<Longrightarrow> lt x y \<or> lt y z" and "xs \<noteq> []"
  shows "hd (sort_fn lt xs) \<in> set xs \<and> (\<forall>x \<in> set xs. \<not> lt x (hd (sort_fn lt xs)))"
proof (cases "sort_fn lt xs")
  case Nil
  then show ?thesis using sort_length [of lt xs] assms(4) by simp
next
  case (Cons y ys)
  then have "\<forall>x \<in> set ys. \<not> lt x y" using sort_sorted [where lt = lt and xs = xs, OF assms(1-3)] by simp
  moreover have "set xs = insert y (set ys)" using Cons sort_set [of lt xs] by simp
  ultimately show ?thesis using Cons assms(1) by auto
qed

end

text \<open>Insertion sort, an implementation of the contract.\<close>

fun insert_by :: "('a \<Rightarrow> 'a \<Rightarrow> bool) \<Rightarrow> 'a \<Rightarrow> 'a list \<Rightarrow> 'a list" where
  "insert_by lt x [] = [x]"
| "insert_by lt x (y # ys) = (if lt y x then y # insert_by lt x ys else x # y # ys)"

definition insertion_sort :: "('a \<Rightarrow> 'a \<Rightarrow> bool) \<Rightarrow> 'a list \<Rightarrow> 'a list" where
  "insertion_sort lt xs = foldr (insert_by lt) xs []"

lemma set_insert_by [simp]: "set (insert_by lt x ys) = insert x (set ys)"
  by (induction ys) auto

lemma length_insert_by [simp]: "length (insert_by lt x ys) = Suc (length ys)"
  by (induction ys) auto

lemma sorted_insert_by:
  assumes "\<And>x. \<not> lt x x" and "\<And>x y z. lt x y \<Longrightarrow> lt y z \<Longrightarrow> lt x z"
    and "\<And>x y z. lt x z \<Longrightarrow> lt x y \<or> lt y z" and "sorted_wrt (\<lambda>x y. \<not> lt y x) ys"
  shows "sorted_wrt (\<lambda>x y. \<not> lt y x) (insert_by lt x ys)"
  using assms(4)
proof (induction ys)
  case (Cons y ys)
  then show ?case using assms(1,2,3) by (auto, blast+)
qed simp

interpretation isort: std_sort insertion_sort
proof
  fix lt :: "'a \<Rightarrow> 'a \<Rightarrow> bool" and xs :: "'a list"
  show "set (insertion_sort lt xs) = set xs" by (induction xs) (simp_all add: insertion_sort_def)
  show "length (insertion_sort lt xs) = length xs" by (induction xs) (simp_all add: insertion_sort_def)
  assume "\<And>x. \<not> lt x x" "\<And>x y z. lt x y \<Longrightarrow> lt y z \<Longrightarrow> lt x z"
    "\<And>x y z. lt x z \<Longrightarrow> lt x y \<or> lt y z"
  then show "sorted_wrt (\<lambda>x y. \<not> lt y x) (insertion_sort lt xs)"
    by (induction xs) (simp_all add: insertion_sort_def sorted_insert_by)
qed

definition collector_response :: "((BidResponse \<Rightarrow> BidResponse \<Rightarrow> bool) \<Rightarrow> BidResponse list \<Rightarrow> BidResponse list) \<Rightarrow>
    NoBidReason \<Rightarrow> 's multibidder_collector \<times> 's \<Rightarrow> BidResponse \<times> 's multibidder_collector \<times> 's" where
  "collector_response sort_fn garbage cs =
     (case cs of (c, s) \<Rightarrow>
        let s' = run_handler (mc_response_handler c) c s
        in if mc_responses c = [] then (new_BidResponse garbage, c, s')
           else let rs = sort_fn before (mc_responses c)
                in (hd rs, c\<lparr>mc_responses := rs\<rparr>, s'))"

lemma before_strict_weak:
  "\<not> before x x" "before x y \<Longrightarrow> before y z \<Longrightarrow> before x z" "before x z \<Longrightarrow> before x y \<or> before y z"
  by (auto simp: before_def split: if_splits)

text \<open>
  C5: the collector chooses a best response. With any sorting function that obeys the contract of
  the standard library, the result is one of the collected responses; if any of them has a bid then
  so does the result, and no collected response with a bid has a higher price in its first bid.
\<close>

theorem collector_best:
  assumes "std_sort sort_fn" and "mc_responses c \<noteq> []"
  shows "\<exists>r c' s'. collector_response sort_fn g (c, s) = (r, c', s') \<and> r \<in> set (mc_responses c) \<and>
    (\<forall>x \<in> set (mc_responses c). \<not> no_bid x \<longrightarrow> \<not> no_bid r \<and> first_price x \<le> first_price r)"
proof -
  have "hd (sort_fn before (mc_responses c)) \<in> set (mc_responses c) \<and>
      (\<forall>x \<in> set (mc_responses c). \<not> before x (hd (sort_fn before (mc_responses c))))"
    by (rule std_sort.sort_head [OF assms(1) _ _ _ assms(2)]) (use before_strict_weak in blast)+
  with assms(2) show ?thesis
    by (auto simp: collector_response_def Let_def before_def not_less split: if_splits)
qed

definition priced_response :: "double \<Rightarrow> BidResponse" where
  "priced_response p = (new_BidResponse NBR_UNKNOWN_ERROR)\<lparr>brs_seatbid := [new_SeatBid\<lparr>sb_bid := [new_Bid\<lparr>bid_price := p\<rparr>]\<rparr>]\<rparr>"

theorem collector_best_witness:
  "\<exists>r c' s'. collector_response insertion_sort NBR_UNKNOWN_ERROR
      ((new_collector 2)\<lparr>mc_responses := [priced_response 1, priced_response 3]\<rparr>, ()) = (r, c', s') \<and>
    3 \<le> first_price r"
proof -
  let ?c = "(new_collector 2)\<lparr>mc_responses := [priced_response 1, priced_response 3]\<rparr> :: unit multibidder_collector"
  have "\<not> no_bid (priced_response 3)" "first_price (priced_response 3) = 3"
    by (simp_all add: no_bid_def first_price_def priced_response_def)
  moreover have "mc_responses ?c \<noteq> []" by simp
  note collector_best [OF isort.std_sort_axioms this, of NBR_UNKNOWN_ERROR "()"]
  ultimately show ?thesis by (auto simp: no_bid_def)
qed

section \<open>The exchange that distributes requests\<close>

record multi_exchange_status =
  ms_request_count :: u64
  ms_all_response_count :: u64
  ms_bidder_response_count :: u64
  ms_empty_response_count :: u64
  ms_timeout_response_count :: u64

record multiexchange_config =
  mx_bidders_port :: u16
  mx_num_bidders :: int

definition count_response :: "int \<Rightarrow> BidResponse list \<Rightarrow> multi_exchange_status \<Rightarrow> multi_exchange_status" where
  "count_response num_bidders r st =
     (if r = [] then st\<lparr>ms_empty_response_count := ms_empty_response_count st + 1\<rparr>
      else if int (length r) = num_bidders mod 2 ^ 64 then st\<lparr>ms_all_response_count := ms_all_response_count st + 1\<rparr>
      else st\<lparr>ms_timeout_response_count := ms_timeout_response_count st + 1\<rparr>)"

definition count_add :: "int \<Rightarrow> BidResponse list \<Rightarrow> multi_exchange_status \<Rightarrow> multi_exchange_status" where
  "count_add num_bidders r st = st\<lparr>ms_bidder_response_count := ms_bidder_response_count st + 1\<rparr>"

text \<open>The key-value client of the example: always connected, and a request calls the response handler at once.\<close>

definition kv_connected :: bool where
  "kv_connected = True"

definition kv_request :: "('s \<Rightarrow> 'r) \<Rightarrow> string \<Rightarrow> string \<Rightarrow> 's \<Rightarrow> 'r" where
  "kv_request response_handler key data s = response_handler s"

text \<open>Distribution of a request and collection of the answers that arrive before the time limit.\<close>

definition communicator_process :: "(ar_val list \<Rightarrow> string) \<Rightarrow> (string \<Rightarrow> ar_val list option) \<Rightarrow> string list \<Rightarrow>
    VanillaRequest \<Rightarrow> 'ep communicator \<Rightarrow> 's multibidder_collector \<times> 's \<Rightarrow>
    message_error + ('ep communicator \<times> 's multibidder_collector \<times> 's)" where
  "communicator_process encode decode arrivals request cm cs =
     (let cm' = distribute (serialize encode save_VanillaRequest request) cm
      in case collect decode load_BidResponse
                (\<lambda>b cs. let cs' = collector_add b cs in (cs', collector_done (fst cs'))) arrivals cm' cs of
           Inl e \<Rightarrow> Inl e
         | Inr cs' \<Rightarrow> Inr (cm', cs'))"

definition multi_auction :: "((BidResponse \<Rightarrow> BidResponse \<Rightarrow> bool) \<Rightarrow> BidResponse list \<Rightarrow> BidResponse list) \<Rightarrow>
    NoBidReason \<Rightarrow> (ar_val list \<Rightarrow> string) \<Rightarrow> (string \<Rightarrow> ar_val list option) \<Rightarrow> string list \<Rightarrow> multiexchange_config \<Rightarrow>
    BidRequest \<Rightarrow> multi_exchange_status \<Rightarrow>
    message_error + (BidResponse \<times> multi_exchange_status \<times> (endpoint destination \<times> string) list)" where
  "multi_auction sort_fn garbage encode decode arrivals cfg request st =
     (let st1 = st\<lparr>ms_request_count := ms_request_count st + 1\<rparr>;
          info = (case brq_user request of
                    Some user \<Rightarrow> new_UserInfo\<lparr>ui_user_id := user_buyeruid user\<rparr>
                  | None \<Rightarrow> new_UserInfo);
          vanilla_request = \<lparr>vr_bid_request = request, vr_user_info = info\<rparr>;
          cm = outbound (mx_bidders_port cfg) new_communicator;
          c = on_add count_add (on_response count_response (collector_clear (new_collector (mx_num_bidders cfg))));
          run = communicator_process encode decode arrivals vanilla_request cm
      in case (if ui_user_id info = [] \<or> \<not> kv_connected then run (c, st1)
               else kv_request run (ui_user_id info) (ui_user_data info) (c, st1)) of
           Inl e \<Rightarrow> Inl e
         | Inr (cm', cs) \<Rightarrow>
             (let (r, _, st') = collector_response sort_fn garbage cs in Inr (r, st', cm_sent cm')))"

lemma fold_collector_add:
  "fst (fold collector_add xs (c, s)) = c\<lparr>mc_responses := mc_responses c @ xs\<rparr>"
  by (induction xs arbitrary: c s) (simp_all add: collector_add_def)

lemma fold_count_add:
  assumes "mc_add_handler c = Some count_add"
  shows "snd (fold collector_add xs (c, st)) =
    st\<lparr>ms_bidder_response_count := ms_bidder_response_count st + of_nat (length xs)\<rparr>"
  using assms
  by (induction xs arbitrary: c st) (simp_all add: collector_add_def run_handler_def count_add_def add.assoc)

definition request_of :: "BidRequest \<Rightarrow> VanillaRequest" where
  "request_of request = \<lparr>vr_bid_request = request, vr_user_info = new_UserInfo
     \<lparr>ui_user_id := (case brq_user request of Some user \<Rightarrow> user_buyeruid user | None \<Rightarrow> [])\<rparr>\<rparr>"

definition counted :: "nat \<Rightarrow> nat \<Rightarrow> multi_exchange_status \<Rightarrow> multi_exchange_status" where
  "counted n got st = st\<lparr>ms_request_count := ms_request_count st + 1,
     ms_bidder_response_count := ms_bidder_response_count st + of_nat got,
     ms_empty_response_count := ms_empty_response_count st + (if got = 0 then 1 else 0),
     ms_all_response_count := ms_all_response_count st + (if got \<noteq> 0 \<and> got = n then 1 else 0),
     ms_timeout_response_count := ms_timeout_response_count st + (if got \<noteq> 0 \<and> got \<noteq> n then 1 else 0)\<rparr>"

text \<open>The collection ends with the first answers, as many as there are bidders.\<close>

lemma collect_answers:
  assumes "archive_codec encode decode" and "\<forall>r \<in> set rs. length (serialize encode save_BidResponse r) \<le> MAX_DATA_SIZE"
    and "mc_num_bidders c = int n" and "0 < n" and "n < 2 ^ 64" and "mc_responses c = []"
  shows "collect_loop decode load_BidResponse (\<lambda>b cs. let cs' = collector_add b cs in (cs', collector_done (fst cs')))
      (map (serialize encode save_BidResponse) rs) (c, s) =
    Inr (fold collector_add (map sent_BidResponse (take n rs)) (c, s))"
proof -
  let ?stop = "\<lambda>cs. collector_done (fst cs)"
  have done_iff: "?stop (fold collector_add xs (c, s)) \<longleftrightarrow> length xs = n" for xs
  proof -
    have "fst (fold collector_add xs (c, s)) = c\<lparr>mc_responses := xs\<rparr>"
      using fold_collector_add [of xs c s] assms(6) by simp
    with assms(3,5) show ?thesis by (simp add: collector_done_def)
  qed
  have "\<exists>m \<le> length rs. collect_loop decode load_BidResponse
        (\<lambda>b cs. let cs' = collector_add b cs in (cs', collector_done (fst cs')))
        (map (serialize encode save_BidResponse) rs) (c, s) =
      Inr (fold collector_add (map sent_BidResponse (take m rs)) (c, s)) \<and>
    (\<forall>k<m. \<not> ?stop (fold collector_add (map sent_BidResponse (take k rs)) (c, s))) \<and>
    (m < length rs \<longrightarrow> ?stop (fold collector_add (map sent_BidResponse (take m rs)) (c, s)))"
    by (rule archive_codec.collect_loop_prefix [OF assms(1)])
      (use assms(2,4) done_iff [of "[]"] in \<open>simp_all add: load_BidResponse Let_def\<close>)
  then obtain m where m: "m \<le> length rs" "collect_loop decode load_BidResponse
        (\<lambda>b cs. let cs' = collector_add b cs in (cs', collector_done (fst cs')))
        (map (serialize encode save_BidResponse) rs) (c, s) =
      Inr (fold collector_add (map sent_BidResponse (take m rs)) (c, s))"
    "\<forall>k<m. length (take k rs) \<noteq> n" "m < length rs \<longrightarrow> length (take m rs) = n"
    unfolding done_iff by auto
  have "m \<le> n"
  proof (rule ccontr)
    assume "\<not> m \<le> n"
    then have "n < m" by simp
    with m(1,3) show False by fastforce
  qed
  with m(1,4) have "take m rs = take n rs" by (cases "m < length rs") auto
  with m(2) show ?thesis by simp
qed

lemma multi_auction_eq:
  assumes "archive_codec encode decode" and "\<forall>r \<in> set rs. length (serialize encode save_BidResponse r) \<le> MAX_DATA_SIZE"
    and "mx_num_bidders cfg = int n" and "0 < n" and "n < 2 ^ 64"
  shows "multi_auction sort_fn g encode decode (map (serialize encode save_BidResponse) rs) cfg req st =
    Inr (let got = map sent_BidResponse (take n rs)
         in (if got = [] then new_BidResponse g else hd (sort_fn before got), counted n (length got) st,
             [(Broadcast (mx_bidders_port cfg), serialize encode save_VanillaRequest (request_of req))]))"
proof -
  let ?c = "on_add count_add (on_response count_response (collector_clear (new_collector (mx_num_bidders cfg))))"
  let ?st = "st\<lparr>ms_request_count := ms_request_count st + 1\<rparr>"
  let ?got = "map sent_BidResponse (take n rs)"
  let ?cm = "outbound (mx_bidders_port cfg) new_communicator"
  let ?d = "serialize encode save_VanillaRequest (request_of req)"
  have c: "mc_num_bidders ?c = int n" "mc_responses ?c = []" "mc_add_handler ?c = Some count_add"
    "mc_response_handler ?c = Some count_response"
    using assms(3) by (simp_all add: on_add_def on_response_def collector_clear_def new_collector_def)
  have f: "fold collector_add ?got (?c, ?st) = (?c\<lparr>mc_responses := ?got\<rparr>,
      ?st\<lparr>ms_bidder_response_count := ms_bidder_response_count st + of_nat (length ?got)\<rparr>)"
    using fold_collector_add [of ?got ?c ?st] c(2) fold_count_add [OF c(3), of ?got ?st]
    by (simp add: prod_eq_iff)
  have run: "communicator_process encode decode (map (serialize encode save_BidResponse) rs) (request_of req) ?cm (?c, ?st) =
      Inr (?cm\<lparr>cm_sent := [(Broadcast (mx_bidders_port cfg), ?d)]\<rparr>, fold collector_add ?got (?c, ?st))"
    using collect_answers [OF assms(1,2) c(1) assms(4,5) c(2), of ?st]
    by (simp add: communicator_process_def distribute_def outbound_def new_communicator_def collect_def Let_def)
  have r: "request_of req = \<lparr>vr_bid_request = req, vr_user_info = (case brq_user req of
      Some user \<Rightarrow> new_UserInfo\<lparr>ui_user_id := user_buyeruid user\<rparr> | None \<Rightarrow> new_UserInfo)\<rparr>"
    by (simp add: request_of_def new_UserInfo_def split: option.split)
  have "multi_auction sort_fn g encode decode (map (serialize encode save_BidResponse) rs) cfg req st =
      (let (r, _, st') = collector_response sort_fn g (fold collector_add ?got (?c, ?st))
       in Inr (r, st', [(Broadcast (mx_bidders_port cfg), ?d)]))"
    unfolding multi_auction_def Let_def kv_request_def r [symmetric] run by simp
  also have "collector_response sort_fn g (fold collector_add ?got (?c, ?st)) =
      (if ?got = [] then new_BidResponse g else hd (sort_fn before ?got),
       ?c\<lparr>mc_responses := if ?got = [] then [] else sort_fn before ?got\<rparr>, counted n (length ?got) st)"
    unfolding f using c(1,4) assms(5)
    by (simp add: collector_response_def run_handler_def count_response_def counted_def Let_def)
  finally show ?thesis by (simp add: Let_def)
qed

text \<open>
  C6: an auction over the network. With any codec and any sorting function that obey their
  contracts, and answers that fit into a datagram, the exchange broadcasts the request once, takes
  the first answers up to the number of bidders and returns one of them as received, one with a bid
  if any of them has one, or the default response when there was none. The request is counted, each
  taken answer is counted, and exactly one of the counters of empty, complete and incomplete rounds
  is increased.
\<close>

theorem multi_auction_result:
  assumes "archive_codec encode decode" and "std_sort sort_fn"
    and "\<forall>r \<in> set rs. length (serialize encode save_BidResponse r) \<le> MAX_DATA_SIZE"
    and "mx_num_bidders cfg = int n" and "0 < n" and "n < 2 ^ 64"
  shows "\<exists>resp. multi_auction sort_fn g encode decode (map (serialize encode save_BidResponse) rs) cfg req st =
      Inr (resp, counted n (min n (length rs)) st,
        [(Broadcast (mx_bidders_port cfg), serialize encode save_VanillaRequest (request_of req))]) \<and>
    (rs = [] \<longrightarrow> resp = new_BidResponse g) \<and>
    (rs \<noteq> [] \<longrightarrow> (\<exists>r \<in> set (take n rs). resp = sent_BidResponse r \<and>
       ((\<exists>x \<in> set (take n rs). \<not> no_bid x) \<longrightarrow> \<not> no_bid r)))"
proof -
  let ?got = "map sent_BidResponse (take n rs)"
  have sent: "no_bid (sent_BidResponse x) = no_bid x" for x
    by (cases "brs_seatbid x") (simp_all add: no_bid_def sent_BidResponse_def sent_SeatBid_def)
  have "\<exists>r \<in> set (take n rs). hd (sort_fn before ?got) = sent_BidResponse r \<and>
      ((\<exists>x \<in> set (take n rs). \<not> no_bid x) \<longrightarrow> \<not> no_bid r)" if "rs \<noteq> []"
  proof -
    from that assms(5) have "?got \<noteq> []" by simp
    then have h: "hd (sort_fn before ?got) \<in> set ?got \<and> (\<forall>x \<in> set ?got. \<not> before x (hd (sort_fn before ?got)))"
      by (rule std_sort.sort_head [OF assms(2), rotated 3]) (use before_strict_weak in blast)+
    then obtain r where r: "r \<in> set (take n rs)" "hd (sort_fn before ?got) = sent_BidResponse r" by auto
    have "\<not> no_bid r" if x: "x \<in> set (take n rs)" "\<not> no_bid x" for x
    proof -
      have "\<not> before (sent_BidResponse x) (sent_BidResponse r)"
        using h x(1) unfolding r(2) by (metis image_eqI set_map)
      with x(2) show ?thesis by (auto simp: before_def sent split: if_splits)
    qed
    with r show ?thesis by blast
  qed
  moreover have "?got = [] \<longleftrightarrow> rs = []" "length ?got = min n (length rs)" using assms(5) by auto
  ultimately show ?thesis
    unfolding multi_auction_eq [OF assms(1,3,4,5,6)] Let_def by (cases "rs = []") simp_all
qed

theorem multi_auction_result_witness:
  "\<exists>resp st' sent. multi_auction insertion_sort NBR_UNKNOWN_ERROR text_encode text_decode
      (map (serialize text_encode save_BidResponse) [new_BidResponse NBR_UNKNOWN_ERROR, priced_response 3])
      \<lparr>mx_bidders_port = 5000, mx_num_bidders = 3\<rparr> sample_request
      \<lparr>ms_request_count = 0, ms_all_response_count = 0, ms_bidder_response_count = 0, ms_empty_response_count = 0,
       ms_timeout_response_count = 0\<rparr> = Inr (resp, st', sent) \<and>
    st' = \<lparr>ms_request_count = 1, ms_all_response_count = 0, ms_bidder_response_count = 2, ms_empty_response_count = 0,
       ms_timeout_response_count = 1\<rparr> \<and> resp = sent_BidResponse (priced_response 3)"
proof -
  let ?rs = "[new_BidResponse NBR_UNKNOWN_ERROR, priced_response 3]"
  let ?st = "\<lparr>ms_request_count = 0, ms_all_response_count = 0, ms_bidder_response_count = 0, ms_empty_response_count = 0,
       ms_timeout_response_count = 0\<rparr> :: multi_exchange_status"
  let ?cfg = "\<lparr>mx_bidders_port = 5000, mx_num_bidders = 3\<rparr> :: multiexchange_config"
  have "length (serialize text_encode save_BidResponse (new_BidResponse NBR_UNKNOWN_ERROR)) \<le> MAX_DATA_SIZE"
    "length (serialize text_encode save_BidResponse (priced_response 3)) \<le> MAX_DATA_SIZE" by code_simp+
  then have l: "\<forall>r \<in> set ?rs. length (serialize text_encode save_BidResponse r) \<le> MAX_DATA_SIZE" by simp
  have n: "mx_num_bidders ?cfg = int 3" "0 < (3 :: nat)" "(3 :: nat) < 2 ^ 64" by simp_all
  obtain resp where r: "multi_auction insertion_sort NBR_UNKNOWN_ERROR text_encode text_decode
        (map (serialize text_encode save_BidResponse) ?rs) ?cfg sample_request ?st =
      Inr (resp, counted 3 (min 3 (length ?rs)) ?st,
        [(Broadcast (mx_bidders_port ?cfg), serialize text_encode save_VanillaRequest (request_of sample_request))])"
    "\<exists>r \<in> set (take 3 ?rs). resp = sent_BidResponse r \<and> ((\<exists>x \<in> set (take 3 ?rs). \<not> no_bid x) \<longrightarrow> \<not> no_bid r)"
    using multi_auction_result [where g = NBR_UNKNOWN_ERROR and req = sample_request and st = ?st,
        OF text_archive.archive_codec_axioms isort.std_sort_axioms l n] by blast
  have "no_bid (new_BidResponse NBR_UNKNOWN_ERROR)" "\<not> no_bid (priced_response 3)"
    by (simp_all add: no_bid_def new_BidResponse_def priced_response_def)
  with r(2) have "resp = sent_BidResponse (priced_response 3)" by auto
  with r(1) show ?thesis by (simp add: counted_def)
qed

text \<open>
  Prices do not take part in an auction over the network. Whatever prices the bidders put into
  their answers, the response the exchange returns is the same, and every bid in it has price zero:
  the serialization of a bid leaves its price out.
\<close>

theorem network_auction_ignores_prices:
  assumes "archive_codec encode decode"
    and "\<forall>r \<in> set rs \<union> set rs'. length (serialize encode save_BidResponse r) \<le> MAX_DATA_SIZE"
    and "mx_num_bidders cfg = int n" and "0 < n" and "n < 2 ^ 64"
    and "map (\<lambda>r. r\<lparr>brs_seatbid := map (\<lambda>s. s\<lparr>sb_bid := map (\<lambda>b. b\<lparr>bid_price := 0\<rparr>) (sb_bid s)\<rparr>) (brs_seatbid r)\<rparr>) rs =
         map (\<lambda>r. r\<lparr>brs_seatbid := map (\<lambda>s. s\<lparr>sb_bid := map (\<lambda>b. b\<lparr>bid_price := 0\<rparr>) (sb_bid s)\<rparr>) (brs_seatbid r)\<rparr>) rs'"
    and "std_sort sort_fn"
  shows "multi_auction sort_fn g encode decode (map (serialize encode save_BidResponse) rs) cfg req st =
      multi_auction sort_fn g encode decode (map (serialize encode save_BidResponse) rs') cfg req st \<and>
    (\<forall>resp st' sent. multi_auction sort_fn g encode decode (map (serialize encode save_BidResponse) rs) cfg req st =
       Inr (resp, st', sent) \<longrightarrow> (\<forall>b \<in> set (all_bids resp). bid_price b = 0))"
proof -
  let ?z = "\<lambda>r. r\<lparr>brs_seatbid := map (\<lambda>s. s\<lparr>sb_bid := map (\<lambda>b. b\<lparr>bid_price := 0\<rparr>) (sb_bid s)\<rparr>) (brs_seatbid r)\<rparr> :: BidResponse"
  have z: "sent_BidResponse r = sent_BidResponse (?z r)" for r
    by (simp add: sent_BidResponse_def sent_SeatBid_def sent_Bid_def comp_def)
  have "map sent_BidResponse rs = map sent_BidResponse (map ?z rs)" by (simp add: z [symmetric])
  also have "\<dots> = map sent_BidResponse rs'" unfolding assms(6) by (simp add: z [symmetric])
  finally have same: "map sent_BidResponse (take n rs) = map sent_BidResponse (take n rs')" by (metis take_map)
  have zero: "\<forall>b \<in> set (all_bids (sent_BidResponse r)). bid_price b = 0" for r
    by (auto simp: all_bids_def sent_BidResponse_def sent_SeatBid_def sent_Bid_def)
  let ?got = "map sent_BidResponse (take n rs)"
  let ?resp = "if ?got = [] then new_BidResponse g else hd (sort_fn before ?got)"
  let ?out = "Inr (?resp, counted n (length ?got) st,
    [(Broadcast (mx_bidders_port cfg), serialize encode save_VanillaRequest (request_of req))])"
  have l: "\<forall>r \<in> set rs. length (serialize encode save_BidResponse r) \<le> MAX_DATA_SIZE"
    "\<forall>r \<in> set rs'. length (serialize encode save_BidResponse r) \<le> MAX_DATA_SIZE"
    using assms(2) by blast+
  have a: "multi_auction sort_fn g encode decode (map (serialize encode save_BidResponse) rs) cfg req st = ?out"
    unfolding multi_auction_eq [OF assms(1) l(1) assms(3-5)] Let_def by simp
  have b: "multi_auction sort_fn g encode decode (map (serialize encode save_BidResponse) rs') cfg req st = ?out"
    unfolding multi_auction_eq [OF assms(1) l(2) assms(3-5)] Let_def same by simp
  have "\<forall>b \<in> set (all_bids ?resp). bid_price b = 0"
  proof (cases "?got = []")
    case True
    then show ?thesis by (simp add: all_bids_def new_BidResponse_def)
  next
    case False
    then have "hd (sort_fn before ?got) \<in> set ?got"
      using std_sort.sort_set [OF assms(7), of before ?got] std_sort.sort_length [OF assms(7), of before ?got]
      by (metis hd_in_set length_0_conv)
    then obtain r where "hd (sort_fn before ?got) = sent_BidResponse r" by auto
    with False zero show ?thesis by simp
  qed
  then show ?thesis unfolding a b by simp
qed

theorem network_auction_ignores_prices_witness:
  "let auction = (\<lambda>rs. multi_auction insertion_sort NBR_UNKNOWN_ERROR text_encode text_decode
      (map (serialize text_encode save_BidResponse) rs) \<lparr>mx_bidders_port = 5000, mx_num_bidders = 2\<rparr> sample_request
      \<lparr>ms_request_count = 0, ms_all_response_count = 0, ms_bidder_response_count = 0, ms_empty_response_count = 0,
       ms_timeout_response_count = 0\<rparr>) in
   auction [priced_response 1, priced_response 3] = auction [priced_response 3, priced_response 1]"
proof -
  let ?cfg = "\<lparr>mx_bidders_port = 5000, mx_num_bidders = 2\<rparr> :: multiexchange_config"
  have n: "mx_num_bidders ?cfg = int 2" "0 < (2 :: nat)" "(2 :: nat) < 2 ^ 64" by simp_all
  have "length (serialize text_encode save_BidResponse (priced_response 1)) \<le> MAX_DATA_SIZE"
    "length (serialize text_encode save_BidResponse (priced_response 3)) \<le> MAX_DATA_SIZE" by code_simp+
  then have l: "\<forall>r \<in> set [priced_response 1, priced_response 3] \<union> set [priced_response 3, priced_response 1].
      length (serialize text_encode save_BidResponse r) \<le> MAX_DATA_SIZE" by simp
  show ?thesis
    unfolding Let_def
    by (rule network_auction_ignores_prices [THEN conjunct1, OF text_archive.archive_codec_axioms l n _ isort.std_sort_axioms])
      (simp add: priced_response_def)
qed

section \<open>Bidder processes\<close>

text \<open>The message handler of a bidder process; a request that makes the selection fail ends it.\<close>

definition multi_bidder_handler :: "('u \<Rightarrow> string \<times> 'u) \<Rightarrow> ('a, 'g, 'c, 'b) BidderCaches \<Rightarrow> 'ep \<Rightarrow> VanillaRequest \<Rightarrow>
    'u Bidder \<Rightarrow> (BidResponse \<times> 'u Bidder) option" where
  "multi_bidder_handler uuid_generator bc endpoint vanilla_request b =
     (case bid uuid_generator bc (vr_bid_request vanilla_request) b of Inl _ \<Rightarrow> None | Inr rb \<Rightarrow> Some rb)"

text \<open>What the bidder by location reads of a request is transmitted.\<close>

lemma getGeo_sent: "getGeo bc (sent_BidRequest g r) = getGeo bc r"
  by (simp add: getGeo_def sent_BidRequest_def sent_User_def sent_Geo_def split: option.split)

lemma campaign_ads_loop_sent: "campaign_ads_loop bc (sent_Impression imp) cs ads = campaign_ads_loop bc imp cs ads"
proof (induction cs arbitrary: ads)
  case (Cons c cs)
  then show ?case
    by (cases "imp_banner imp") (simp_all add: sent_Impression_def sent_Banner_def Let_def split_beta)
qed simp

lemma select_sent: "select bc (sent_BidRequest g r) (sent_Impression imp) s = select bc r imp s"
  unfolding select_def getGeo_sent getCampaignAds_def campaign_ads_loop_sent by (rule refl)

lemma addCurrency_sent: "addCurrency (sent_BidRequest g r) (sent_Impression imp) x = addCurrency r imp x"
  by (simp add: addCurrency_def sent_BidRequest_def sent_Impression_def)

lemma addBid_sent: "addBid u (sent_Impression imp) a x = addBid u imp a x"
  by (simp add: addBid_def make_bid_def sent_Impression_def)

lemma respond_sent: "respond u (sent_BidRequest g r) (sent_Impression imp) ad ur = respond u r imp ad ur"
  unfolding respond_def addCurrency_sent addBid_sent by (rule refl)

lemma bid_sent: "bid u bc (sent_BidRequest g r) b = bid u bc r b"
proof -
  have "bid_loop (buildImpResponse u bc (sent_BidRequest g r)) (map sent_Impression imps) b' =
      bid_loop (buildImpResponse u bc r) imps b'" for imps b'
    by (induction imps arbitrary: b') (simp_all add: buildImpResponse_def select_sent respond_sent Let_def split_beta split: sum.split)
  moreover have "brq_imp (sent_BidRequest g r) = map sent_Impression (brq_imp r)" by (simp add: sent_BidRequest_def)
  ultimately show ?thesis by (simp add: bid_def)
qed

text \<open>
  C8: a remote bidder answers as a local one. When the exchange broadcasts a request that fits into
  a datagram and a bidder process with the same caches receives it, the process sends back to the
  exchange exactly the serialized response the bidder would give to the original request, although
  the site, the texts in Unicode and the extensions of the request are lost on the way.
\<close>

theorem remote_bid_is_local_bid:
  assumes "archive_codec encode decode"
    and "length (serialize encode save_VanillaRequest r) \<le> MAX_DATA_SIZE"
    and "cm_distributor c = Some port" and "cm_consumer bidder \<noteq> None"
    and "bid u bc (vr_bid_request r) b = Inr (resp, b')"
  shows "\<exists>d. cm_sent (distribute (serialize encode save_VanillaRequest r) c) = cm_sent c @ [(Broadcast port, d)] \<and>
    process decode (load_VanillaRequest g) encode save_BidResponse (multi_bidder_handler u bc) from_endpoint d (b, bidder) =
      Inr (b', bidder\<lparr>cm_sent := cm_sent bidder @ [(To from_endpoint, serialize encode save_BidResponse resp)]\<rparr>)"
proof -
  let ?d = "serialize encode save_VanillaRequest r"
  have "deserialize decode (load_VanillaRequest g) (receive_data ?d) =
      Some (r\<lparr>vr_bid_request := sent_BidRequest g (vr_bid_request r)\<rparr>)"
    by (rule archive_codec.deserialize_serialize [where f = "\<lambda>r. r\<lparr>vr_bid_request := sent_BidRequest g (vr_bid_request r)\<rparr>", OF assms(1) load_VanillaRequest assms(2)])
  moreover have "multi_bidder_handler u bc from_endpoint (r\<lparr>vr_bid_request := sent_BidRequest g (vr_bid_request r)\<rparr>) b =
      Some (resp, b')"
    using assms(5) by (simp add: multi_bidder_handler_def bid_sent)
  ultimately have "process decode (load_VanillaRequest g) encode save_BidResponse (multi_bidder_handler u bc)
      from_endpoint ?d (b, bidder) =
      Inr (b', bidder\<lparr>cm_sent := cm_sent bidder @ [(To from_endpoint, serialize encode save_BidResponse resp)]\<rparr>)"
    using assms(4) by (auto simp: process_def)
  with assms(3) show ?thesis by (simp add: distribute_def)
qed

theorem remote_bid_is_local_bid_witness:
  "\<exists>d b' resp. bid (\<lambda>u. (''uuid'', u)) sample_caches sample_request (new_Bidder () NBR_UNKNOWN_ERROR) = Inr (resp, b') \<and>
    process text_decode (load_VanillaRequest False) text_encode save_BidResponse
      (multi_bidder_handler (\<lambda>u. (''uuid'', u)) sample_caches) (1 :: nat) d
      (new_Bidder () NBR_UNKNOWN_ERROR, inbound 5000 new_communicator) =
    Inr (b', (inbound 5000 new_communicator)\<lparr>cm_sent := [(To 1, serialize text_encode save_BidResponse resp)]\<rparr>)"
proof -
  let ?r = "request_of sample_request" and ?b = "new_Bidder () NBR_UNKNOWN_ERROR" and ?u = "\<lambda>u :: unit. (''uuid'', u)"
  let ?c = "outbound 5000 new_communicator :: nat communicator" and ?i = "inbound 5000 new_communicator :: nat communicator"
  have "length (serialize text_encode save_VanillaRequest ?r) \<le> MAX_DATA_SIZE" by code_simp
  moreover have "cm_distributor ?c = Some 5000" "cm_consumer ?i \<noteq> None" "cm_sent ?i = []"
    by (simp_all add: outbound_def inbound_def new_communicator_def)
  moreover obtain resp b' where "bid ?u sample_caches sample_request ?b = Inr (resp, b')"
  proof (cases "bid ?u sample_caches sample_request ?b")
    case (Inl e)
    have "\<not> isl (bid ?u sample_caches sample_request ?b)" by code_simp
    with Inl show ?thesis by simp
  qed auto
  moreover have "vr_bid_request ?r = sample_request" by (simp add: request_of_def)
  ultimately show ?thesis
    using remote_bid_is_local_bid [of text_encode text_decode ?r ?c 5000 ?i ?u sample_caches ?b resp b' False 1]
      text_archive.archive_codec_axioms by auto
qed

end
