(* ===== verification/Exchange_Handler.thy ===== *)
theory Exchange_Handler
  imports Exchange
begin

text \<open>
  The HTTP front end of an auction, \<^verbatim>\<open>rtb/exchange/exchange_handler.hpp\<close>, with the decision table of
  \<^verbatim>\<open>examples/bidder/http_bidder_test.cpp\<close>. The mapping between text and requests or responses is a
  parameter, as it is in the source; the time an auction takes is an input. The theorems say what a
  client reads for every outcome, and that the decision table changes nothing of it.
\<close>

section \<open>The handler\<close>

record dsl =
  dsl_extract :: "string \<Rightarrow> string + BidRequest"
  dsl_create :: "BidResponse \<Rightarrow> string"

text \<open>
  An auction or a decision works on a state of the program and may throw. A decision may also not
  return, which is the value \<^term>\<open>None\<close>.
\<close>

type_synonym ('s, 'e) auction_handler_type = "BidRequest \<Rightarrow> 's \<Rightarrow> 'e + (BidResponse \<times> 's)"

record ('s, 'e) exchange_handler =
  eh_auction :: "('s, 'e) auction_handler_type option"
  eh_auction_async :: "('s, 'e) auction_handler_type option"
  eh_log :: "(string \<Rightarrow> 's \<Rightarrow> 's) option"
  eh_error_log :: "(string \<Rightarrow> 's \<Rightarrow> 's) option"
  eh_decision :: "(reply \<Rightarrow> BidRequest \<Rightarrow> 's \<Rightarrow> ('e + (reply \<times> 's)) option) option"
  eh_if_response :: "(BidResponse \<Rightarrow> (reply \<Rightarrow> reply) option) option"
  eh_tmax :: int

definition new_exchange_handler :: "int \<Rightarrow> ('s, 'e) exchange_handler" where
  "new_exchange_handler tmax = \<lparr>eh_auction = None, eh_auction_async = None, eh_log = None, eh_error_log = None,
     eh_decision = None, eh_if_response = None, eh_tmax = tmax\<rparr>"

definition auction :: "('s, 'e) auction_handler_type \<Rightarrow> ('s, 'e) exchange_handler \<Rightarrow> ('s, 'e) exchange_handler" where
  "auction handler h = h\<lparr>eh_auction := Some handler\<rparr>"

definition auction_async :: "('s, 'e) auction_handler_type \<Rightarrow> ('s, 'e) exchange_handler \<Rightarrow> ('s, 'e) exchange_handler" where
  "auction_async handler h = h\<lparr>eh_auction_async := Some handler\<rparr>"

definition logger :: "(string \<Rightarrow> 's \<Rightarrow> 's) \<Rightarrow> ('s, 'e) exchange_handler \<Rightarrow> ('s, 'e) exchange_handler" where
  "logger handler h = h\<lparr>eh_log := Some handler\<rparr>"

definition error_logger :: "(string \<Rightarrow> 's \<Rightarrow> 's) \<Rightarrow> ('s, 'e) exchange_handler \<Rightarrow> ('s, 'e) exchange_handler" where
  "error_logger handler h = h\<lparr>eh_error_log := Some handler\<rparr>"

definition decision :: "(reply \<Rightarrow> BidRequest \<Rightarrow> 's \<Rightarrow> ('e + (reply \<times> 's)) option) \<Rightarrow> ('s, 'e) exchange_handler \<Rightarrow>
    ('s, 'e) exchange_handler" where
  "decision handler h = h\<lparr>eh_decision := Some handler\<rparr>"

definition if_response :: "(BidResponse \<Rightarrow> (reply \<Rightarrow> reply) option) \<Rightarrow> ('s, 'e) exchange_handler \<Rightarrow>
    ('s, 'e) exchange_handler" where
  "if_response handler h = h\<lparr>eh_if_response := Some handler\<rparr>"

text \<open>The time limit of an auction in milliseconds: the request's own, if it has one.\<close>

definition auction_timeout :: "('s, 'e) exchange_handler \<Rightarrow> BidRequest \<Rightarrow> int" where
  "auction_timeout h bid_request = (if brq_tmax bid_request \<noteq> 0 then brq_tmax bid_request else eh_tmax h)"

text \<open>The reply for a response that came in time.\<close>

definition timely_reply :: "dsl \<Rightarrow> ('s, 'e) exchange_handler \<Rightarrow> BidResponse \<Rightarrow> reply \<Rightarrow> reply" where
  "timely_reply parser h auction_response r =
     (case (case eh_if_response h of None \<Rightarrow> None | Some f \<Rightarrow> f auction_response) of
        Some custom_reply \<Rightarrow> custom_reply r
      | None \<Rightarrow> reply_flush (reply_append r (dsl_create parser auction_response)) ''json'')"

text \<open>
  The auction in a thread of its own: the destructor of the future waits for the thread, so the
  effects of the handler happen even when its response comes too late. \<open>elapsed\<close> is in microseconds.
\<close>

definition handle_auction :: "dsl \<Rightarrow> int \<Rightarrow> reply \<Rightarrow> BidRequest \<Rightarrow> ('s, 'e) exchange_handler \<Rightarrow> 's \<Rightarrow>
    'e + (bool \<times> reply \<times> 's)" where
  "handle_auction parser elapsed r bid_request h s =
     (case eh_auction h of
        None \<Rightarrow> Inr (False, r, s)
      | Some f \<Rightarrow>
          (case f bid_request s of
             Inl e \<Rightarrow> if elapsed \<le> auction_timeout h bid_request * 1000 then Inl e
                      else Inr (True, reply_flush r ''json'', s)
           | Inr (auction_response, s') \<Rightarrow>
               Inr (True,
                 (if elapsed \<le> auction_timeout h bid_request * 1000 then timely_reply parser h auction_response r
                  else reply_flush r ''json''), s')))"

text \<open>
  The auction on the event loop of the thread: the posted handler runs to its end before the timer
  is looked at; at least one whole millisecond must be left then.
\<close>

definition handle_auction_async :: "dsl \<Rightarrow> int \<Rightarrow> reply \<Rightarrow> BidRequest \<Rightarrow> ('s, 'e) exchange_handler \<Rightarrow> 's \<Rightarrow>
    'e + (bool \<times> reply \<times> 's)" where
  "handle_auction_async parser elapsed r bid_request h s =
     (case eh_auction_async h of
        None \<Rightarrow> Inr (False, r, s)
      | Some f \<Rightarrow>
          (case f bid_request s of
             Inl e \<Rightarrow> Inl e
           | Inr (auction_response, s') \<Rightarrow>
               Inr (True,
                 (if (auction_timeout h bid_request * 1000 - elapsed) div 1000 > 0
                  then timely_reply parser h auction_response r
                  else reply_flush r ''json''), s')))"

definition run_log :: "(string \<Rightarrow> 's \<Rightarrow> 's) option \<Rightarrow> string \<Rightarrow> 's \<Rightarrow> 's" where
  "run_log l msg s = (case l of None \<Rightarrow> s | Some f \<Rightarrow> f msg s)"

definition handle_post_common :: "dsl \<Rightarrow> string \<Rightarrow> reply \<Rightarrow> ('s, 'e) exchange_handler \<Rightarrow> 's \<Rightarrow>
    (reply \<times> 's) + (BidRequest \<times> 's)" where
  "handle_post_common parser data r h s =
     (let s1 = run_log (eh_log h) data s
      in case dsl_extract parser data of
           Inl err \<Rightarrow> Inl (reply_flush r [], run_log (eh_error_log h) err s1)
         | Inr bid_request \<Rightarrow> Inr (bid_request, s1))"

definition handle_post :: "dsl \<Rightarrow> int \<Rightarrow> string \<Rightarrow> reply \<Rightarrow> ('s, 'e) exchange_handler \<Rightarrow> 's \<Rightarrow>
    ('e + (reply \<times> 's)) option" where
  "handle_post parser elapsed data r h s =
     (case handle_post_common parser data r h s of
        Inl rs \<Rightarrow> Some (Inr rs)
      | Inr (bid_request, s1) \<Rightarrow>
          (case eh_decision h of
             Some d \<Rightarrow> d r bid_request s1
           | None \<Rightarrow>
               (case handle_auction_async parser elapsed r bid_request h s1 of
                  Inl e \<Rightarrow> Some (Inl e)
                | Inr (True, r', s2) \<Rightarrow> Some (Inr (r', s2))
                | Inr (False, r', s2) \<Rightarrow>
                    (case handle_auction parser elapsed r' bid_request h s2 of
                       Inl e \<Rightarrow> Some (Inl e)
                     | Inr (_, r'', s3) \<Rightarrow> Some (Inr (r'', s3))))))"

section \<open>The decision table of the HTTP bidder\<close>

definition USER_DATA :: nat where "USER_DATA = 0"
definition NO_BID :: nat where "NO_BID = 1"
definition AUCTION_ASYNC :: nat where "AUCTION_ASYNC = 2"

text \<open>
  The arguments of a row with the state of the program. An exception ends the run of the table:
  once there is one, the remaining rows do nothing.
\<close>

record ('s, 'e) bid_step =
  bs_reply :: reply
  bs_request :: BidRequest
  bs_info :: UserInfo
  bs_state :: 's
  bs_thrown :: "'e option"

definition guarded :: "(('s, 'e) bid_step \<Rightarrow> bool \<times> ('s, 'e) bid_step) \<Rightarrow> ('s, 'e) bid_step \<Rightarrow> bool \<times> ('s, 'e) bid_step" where
  "guarded f b = (if bs_thrown b = None then f b else (True, b))"

text \<open>The key-value client has no response handler here: a request would call an empty function.\<close>

definition request_user_data_f :: "'e \<Rightarrow> ('s, 'e) bid_step \<Rightarrow> bool \<times> ('s, 'e) bid_step" where
  "request_user_data_f bad_function_call b =
     (if ui_user_id (bs_info b) = [] then (True, b)
      else (True, b\<lparr>bs_thrown := Some bad_function_call\<rparr>))"

definition no_bid_f :: "('s, 'e) bid_step \<Rightarrow> bool \<times> ('s, 'e) bid_step" where
  "no_bid_f b = (True, b\<lparr>bs_reply := reply_flush (bs_reply b) []\<rparr>)"

definition auction_async_f :: "dsl \<Rightarrow> int \<Rightarrow> ('s, 'e) exchange_handler \<Rightarrow> ('s, 'e) bid_step \<Rightarrow> bool \<times> ('s, 'e) bid_step" where
  "auction_async_f parser elapsed h b =
     (case handle_auction_async parser elapsed (bs_reply b) (bs_request b) h (bs_state b) of
        Inl e \<Rightarrow> (True, b\<lparr>bs_thrown := Some e\<rparr>)
      | Inr (ok, r, s) \<Rightarrow> (ok, b\<lparr>bs_reply := r, bs_state := s\<rparr>))"

definition bidder_decision_tree :: "'e \<Rightarrow> dsl \<Rightarrow> int \<Rightarrow> ('s, 'e) exchange_handler \<Rightarrow> ('s, 'e) bid_step decision_tree" where
  "bidder_decision_tree bad_function_call parser elapsed h =
     [row USER_DATA (guarded (request_user_data_f bad_function_call)) (int AUCTION_ASYNC) (int NO_BID),
      row NO_BID (guarded no_bid_f) EXIT EXIT,
      row AUCTION_ASYNC (guarded (auction_async_f parser elapsed h)) EXIT EXIT]"

definition bidder_decision :: "'e \<Rightarrow> 'e \<Rightarrow> dsl \<Rightarrow> int \<Rightarrow> ('s, 'e) exchange_handler \<Rightarrow> reply \<Rightarrow> BidRequest \<Rightarrow> 's \<Rightarrow>
    ('e + (reply \<times> 's)) option" where
  "bidder_decision out_of_range bad_function_call parser elapsed h r req s =
     (let b = \<lparr>bs_reply = r, bs_request = req, bs_info = new_UserInfo, bs_state = s, bs_thrown = None\<rparr>
      in map_option (\<lambda>res. case res of
             Inl _ \<Rightarrow> Inl out_of_range
           | Inr b' \<Rightarrow> (case bs_thrown b' of Some e \<Rightarrow> Inl e | None \<Rightarrow> Inr (bs_reply b', bs_state b')))
           (router_execute (new_router (bidder_decision_tree bad_function_call parser elapsed h)) b))"

definition http_bidder_handler :: "'e \<Rightarrow> 'e \<Rightarrow> dsl \<Rightarrow> int \<Rightarrow> int \<Rightarrow> ('s, 'e) auction_handler_type \<Rightarrow> ('s, 'e) exchange_handler" where
  "http_bidder_handler out_of_range bad_function_call parser elapsed timeout f =
     (let h = auction_async f (error_logger (\<lambda>_ s. s) (logger (\<lambda>_ s. s) (new_exchange_handler timeout)))
      in decision (bidder_decision out_of_range bad_function_call parser elapsed h) h)"

section \<open>What a client reads\<close>

lemma posted_reply:
  assumes "eh_decision h = None" and "eh_auction_async h = Some f" and "eh_if_response h = None"
  shows "(let s1 = run_log (eh_log h) data s;
      read = (\<lambda>r. read_reply (concat (to_buffers r)));
      headers = (\<lambda>body ext. [\<lparr>hdr_name = ''Content-Length'', hdr_value = to_string (length body)\<rparr>,
        \<lparr>hdr_name = ''Content-Type'', hdr_value = extension_to_type ext\<rparr>])
    in case dsl_extract parser data of
      Inl err \<Rightarrow> \<exists>r. handle_post parser elapsed data (new_reply g) h s =
          Some (Inr (r, run_log (eh_error_log h) err s1)) \<and> read r = Some (''200'', headers [] [], [])
    | Inr req \<Rightarrow>
        (case f req s1 of
           Inl e \<Rightarrow> handle_post parser elapsed data (new_reply g) h s = Some (Inl e)
         | Inr (resp, s2) \<Rightarrow>
             \<exists>r body. handle_post parser elapsed data (new_reply g) h s = Some (Inr (r, s2)) \<and>
               read r = Some (''200'', headers body ''json'', body) \<and>
               body = (if elapsed + 1000 \<le> 1000 * (if brq_tmax req = 0 then eh_tmax h else brq_tmax req)
                       then dsl_create parser resp else [])))"
proof -
  have t: "(auction_timeout h req * 1000 - elapsed) div 1000 > 0 \<longleftrightarrow>
      elapsed + 1000 \<le> 1000 * (if brq_tmax req = 0 then eh_tmax h else brq_tmax req)" for req
    by (auto simp: auction_timeout_def zdiv_int pos_imp_zdiv_pos_iff)
  show ?thesis
    using assms
    by (auto simp: handle_post_def handle_post_common_def handle_auction_async_def timely_reply_def t Let_def
        flushed_read new_reply_def reply_append_def split: sum.split)
qed

text \<open>
  C4: the reply to a posted bid request. With an asynchronous auction, no decision table and no
  custom reply: a body that cannot be parsed is answered with status 200 and an empty body, and its
  error is logged; otherwise the auction sees exactly the parsed request, its exception is passed
  on, and its response is answered as JSON text with the exact length, or with an empty body when
  less than a millisecond is left of the time limit. The request's own time limit has precedence.
\<close>

theorem handle_post_reply:
  assumes "eh_decision h = None" and "eh_auction_async h = Some f" and "eh_if_response h = None"
  shows "(let s1 = run_log (eh_log h) data s;
      read = (\<lambda>r. read_reply (concat (to_buffers r)));
      headers = (\<lambda>body ext. [\<lparr>hdr_name = ''Content-Length'', hdr_value = to_string (length body)\<rparr>,
        \<lparr>hdr_name = ''Content-Type'', hdr_value = extension_to_type ext\<rparr>])
    in case dsl_extract parser data of
      Inl err \<Rightarrow> \<exists>r. handle_post parser elapsed data (new_reply g) h s =
          Some (Inr (r, run_log (eh_error_log h) err s1)) \<and> read r = Some (''200'', headers [] [], [])
    | Inr req \<Rightarrow>
        (case f req s1 of
           Inl e \<Rightarrow> handle_post parser elapsed data (new_reply g) h s = Some (Inl e)
         | Inr (resp, s2) \<Rightarrow>
             \<exists>r body. handle_post parser elapsed data (new_reply g) h s = Some (Inr (r, s2)) \<and>
               read r = Some (''200'', headers body ''json'', body) \<and>
               body = (if elapsed + 1000 \<le> 1000 * (if brq_tmax req = 0 then eh_tmax h else brq_tmax req)
                       then dsl_create parser resp else [])))"
  by (rule posted_reply [OF assms])

definition sample_dsl :: dsl where
  "sample_dsl = \<lparr>dsl_extract = (\<lambda>t. if t = [] then Inl ''empty'' else Inr sample_request),
     dsl_create = (\<lambda>r. to_string (length (all_bids r)))\<rparr>"

theorem handle_post_reply_witness:
  "\<exists>r. handle_post sample_dsl 2000 ''x'' (new_reply Not_found)
      (auction_async (\<lambda>req s. Inr (priced_response 1, s)) (new_exchange_handler 50 :: (nat, nat) exchange_handler)) 0 =
      Some (Inr (r, 0)) \<and>
    read_reply (concat (to_buffers r)) =
      Some (''200'', [\<lparr>hdr_name = ''Content-Length'', hdr_value = ''1''\<rparr>,
        \<lparr>hdr_name = ''Content-Type'', hdr_value = ''application/json''\<rparr>], ''1'')"
proof -
  let ?h = "auction_async (\<lambda>req s. Inr (priced_response 1, s)) (new_exchange_handler 50 :: (nat, nat) exchange_handler)"
  let ?f = "\<lambda>(req :: BidRequest) (s :: nat). Inr (priced_response 1, s) :: nat + (BidResponse \<times> nat)"
  have h: "eh_decision ?h = None" "eh_auction_async ?h = Some ?f" "eh_if_response ?h = None" "eh_tmax ?h = 50"
    by (simp_all add: auction_async_def new_exchange_handler_def)
  have l: "run_log (eh_log ?h) ''x'' 0 = 0" by (simp add: run_log_def auction_async_def new_exchange_handler_def)
  have d: "dsl_extract sample_dsl ''x'' = Inr sample_request" "dsl_create sample_dsl (priced_response 1) = ''1''"
    "brq_tmax sample_request = 0" "extension_to_type ''json'' = ''application/json''" by code_simp+
  show ?thesis
    using handle_post_reply [OF h(1-3), of "''x''" 0 sample_dsl 2000 Not_found]
    by (simp add: d h(4) l Let_def to_string.simps)
qed

lemma decision_unused:
  "auction_timeout (h\<lparr>eh_decision := x\<rparr>) req = auction_timeout h req"
  "timely_reply parser (h\<lparr>eh_decision := x\<rparr>) resp r = timely_reply parser h resp r"
  "handle_post_common parser data r (h\<lparr>eh_decision := x\<rparr>) s = handle_post_common parser data r h s"
  by (simp_all add: auction_timeout_def timely_reply_def handle_post_common_def Let_def split: sum.split)

lemma handle_auction_async_decision:
  "handle_auction_async parser elapsed r req (h\<lparr>eh_decision := x\<rparr>) s = handle_auction_async parser elapsed r req h s"
  unfolding handle_auction_async_def decision_unused by simp

lemma bidder_tree_forward: "forward_tree (bidder_decision_tree bfc parser elapsed h)"
  by (auto simp: bidder_decision_tree_def forward_tree_def forward_succ_def row_def USER_DATA_def NO_BID_def
      AUCTION_ASYNC_def EXIT_def less_Suc_eq nth_Cons')

lemma decision_transparent:
  "handle_post parser elapsed data r (http_bidder_handler oor bfc parser elapsed timeout f) s =
     handle_post parser elapsed data r ((http_bidder_handler oor bfc parser elapsed timeout f)\<lparr>eh_decision := None\<rparr>) s \<and>
   handle_post parser elapsed data r (http_bidder_handler oor bfc parser elapsed timeout f) s \<noteq> None"
proof -
  let ?h = "auction_async f (error_logger (\<lambda>_ s. s) (logger (\<lambda>_ s. s) (new_exchange_handler timeout)))"
  have h: "http_bidder_handler oor bfc parser elapsed timeout f =
      ?h\<lparr>eh_decision := Some (bidder_decision oor bfc parser elapsed ?h)\<rparr>" "eh_decision ?h = None"
    by (simp_all add: http_bidder_handler_def decision_def Let_def auction_async_def error_logger_def logger_def
        new_exchange_handler_def)
  have d: "bidder_decision oor bfc parser elapsed ?h r req st =
      Some (case handle_auction_async parser elapsed r req ?h st of
        Inl e \<Rightarrow> Inl e | Inr (ok, r', st') \<Rightarrow> Inr (r', st'))" for req st
    unfolding bidder_decision_def Let_def forward_tree_run [OF bidder_tree_forward]
    by (simp add: bidder_decision_tree_def walk.simps row_def USER_DATA_def NO_BID_def AUCTION_ASYNC_def EXIT_def
        CONTINUE_def call_action_def get_def guarded_def request_user_data_f_def auction_async_f_def new_UserInfo_def
        split: sum.split)
  have ok: "handle_auction_async parser elapsed r req ?h st = Inr (k, r', st') \<Longrightarrow> k" for req st k r' st'
    by (auto simp: handle_auction_async_def auction_async_def split: sum.splits)
  have "handle_post parser elapsed data r (?h\<lparr>eh_decision := None\<rparr>) s =
      (case handle_post_common parser data r ?h s of
         Inl rs \<Rightarrow> Some (Inr rs) | Inr (req, s1) \<Rightarrow> bidder_decision oor bfc parser elapsed ?h r req s1)"
    unfolding handle_post_def decision_unused handle_auction_async_decision d using ok by (fastforce split: sum.split bool.split)
  moreover have "handle_post parser elapsed data r (?h\<lparr>eh_decision := Some (bidder_decision oor bfc parser elapsed ?h)\<rparr>) s =
      (case handle_post_common parser data r ?h s of
         Inl rs \<Rightarrow> Some (Inr rs) | Inr (req, s1) \<Rightarrow> bidder_decision oor bfc parser elapsed ?h r req s1)"
    unfolding handle_post_def decision_unused by (simp split: sum.split)
  ultimately show ?thesis unfolding h(1) by (simp add: d split: sum.split)
qed

text \<open>
  The decision table of the HTTP bidder is transparent. For every request text, time, reply and
  auction, the handler with the table returns, and it gives exactly the reply, the state or the
  exception of the same handler without a table: the row for user data always leads to the auction,
  no row index is out of range and the empty response handler of the key-value client is never called.
\<close>

theorem decision_table_transparent:
  "handle_post parser elapsed data r (http_bidder_handler oor bfc parser elapsed timeout f) s =
     handle_post parser elapsed data r ((http_bidder_handler oor bfc parser elapsed timeout f)\<lparr>eh_decision := None\<rparr>) s \<and>
   handle_post parser elapsed data r (http_bidder_handler oor bfc parser elapsed timeout f) s \<noteq> None"
  by (rule decision_transparent)

end
