(* ===== verification/Jsmn.thy ===== *)
theory Jsmn
  imports RTB_Prelude
begin

text \<open>
  The JSON tokenizer of \<^verbatim>\<open>parsers/jsmn.c\<close>, as it is built (neither \<open>JSMN_STRICT\<close> nor
  \<open>JSMN_PARENT_LINKS\<close> is defined): tokens in an array of fixed size, with the counting mode for a null
  array. Positions are unbounded numbers; the program parses texts that fit into the buffer of a
  connection, far below the range of \<open>unsigned int\<close>. The lemmas show that every access stays within the
  text and the array, that a run ends, and that the tokens of a JSON text describe its value.
\<close>

section \<open>Tokens and parser\<close>

datatype jsmntype_t = JSMN_UNDEFINED | JSMN_OBJECT | JSMN_ARRAY | JSMN_STRING | JSMN_PRIMITIVE

datatype jsmnerr = JSMN_ERROR_NOMEM | JSMN_ERROR_INVAL | JSMN_ERROR_PART

record jsmntok_t =
  tok_type :: jsmntype_t
  tok_start :: int
  tok_end :: int
  tok_size :: int

record jsmn_parser =
  ps_pos :: nat
  ps_toknext :: nat
  ps_toksuper :: int

definition jsmn_init :: jsmn_parser where
  "jsmn_init = \<lparr>ps_pos = 0, ps_toknext = 0, ps_toksuper = -1\<rparr>"

definition jsmn_alloc_token :: "jsmn_parser \<Rightarrow> jsmntok_t list \<Rightarrow> nat \<Rightarrow> (nat \<times> jsmn_parser \<times> jsmntok_t list) option" where
  "jsmn_alloc_token p ts num_tokens =
     (if ps_toknext p \<ge> num_tokens then None
      else let i = ps_toknext p
           in Some (i, p\<lparr>ps_toknext := i + 1\<rparr>,
                ts[i := (ts ! i)\<lparr>tok_start := -1, tok_end := -1, tok_size := 0\<rparr>]))"

definition jsmn_fill_token :: "nat \<Rightarrow> jsmntype_t \<Rightarrow> int \<Rightarrow> int \<Rightarrow> jsmntok_t list \<Rightarrow> jsmntok_t list" where
  "jsmn_fill_token i type s e ts =
     ts[i := (ts ! i)\<lparr>tok_type := type, tok_start := s, tok_end := e, tok_size := 0\<rparr>]"

definition tok_open :: "jsmntok_t \<Rightarrow> bool" where
  "tok_open t \<longleftrightarrow> tok_start t \<noteq> -1 \<and> tok_end t = -1"

text \<open>The backward loops over the allocated tokens: the last open one, and the last open container.\<close>

fun find_open :: "jsmntok_t list \<Rightarrow> nat \<Rightarrow> nat option" where
  "find_open ts 0 = None"
| "find_open ts (Suc i) = (if tok_open (ts ! i) then Some i else find_open ts i)"

definition is_container :: "jsmntok_t \<Rightarrow> bool" where
  "is_container t \<longleftrightarrow> tok_type t = JSMN_ARRAY \<or> tok_type t = JSMN_OBJECT"

fun find_container :: "jsmntok_t list \<Rightarrow> nat \<Rightarrow> nat option" where
  "find_container ts 0 = None"
| "find_container ts (Suc i) =
     (if is_container (ts ! i) \<and> tok_open (ts ! i) then Some i else find_container ts i)"

definition grow :: "int \<Rightarrow> jsmntok_t list \<Rightarrow> jsmntok_t list" where
  "grow super ts =
     (if super \<noteq> -1 then ts[nat super := (ts ! nat super)\<lparr>tok_size := tok_size (ts ! nat super) + 1\<rparr>] else ts)"

section \<open>Primitives and strings\<close>

definition white :: "char \<Rightarrow> bool" where
  "white c \<longleftrightarrow> c = CHR 0x09 \<or> c = CHR 0x0D \<or> c = CHR 0x0A \<or> c = CHR '' ''"

definition primitive_end :: "char \<Rightarrow> bool" where
  "primitive_end c \<longleftrightarrow> white c \<or> c = CHR '':'' \<or> c = CHR '','' \<or> c = CHR '']'' \<or> c = CHR ''}''"

definition more_text :: "string \<Rightarrow> nat \<Rightarrow> bool" where
  "more_text js pos \<longleftrightarrow> pos < length js \<and> js ! pos \<noteq> CHR 0x00"

function prim_scan :: "string \<Rightarrow> nat \<Rightarrow> nat option" where
  "prim_scan js pos =
     (if more_text js pos then
        if primitive_end (js ! pos) then Some pos
        else if char_int (js ! pos) < 32 \<or> char_int (js ! pos) \<ge> 127 then None
        else prim_scan js (pos + 1)
      else Some pos)"
  by pat_completeness auto
termination by (relation "measure (\<lambda>(js, pos). length js - pos)") (auto simp: more_text_def)

declare prim_scan.simps [simp del]

type_synonym tokenized = "jsmn_parser \<times> jsmntok_t list option"

definition jsmn_parse_primitive :: "string \<Rightarrow> nat \<Rightarrow> tokenized \<Rightarrow> jsmnerr option \<times> tokenized" where
  "jsmn_parse_primitive js num_tokens pt =
     (case pt of (p, tokens) \<Rightarrow>
        let first = ps_pos p
        in case prim_scan js first of
             None \<Rightarrow> (Some JSMN_ERROR_INVAL, p, tokens)
           | Some pos \<Rightarrow>
               (case tokens of
                  None \<Rightarrow> (None, p\<lparr>ps_pos := pos - 1\<rparr>, tokens)
                | Some ts \<Rightarrow>
                    (case jsmn_alloc_token p ts num_tokens of
                       None \<Rightarrow> (Some JSMN_ERROR_NOMEM, p, tokens)
                     | Some (i, p', ts') \<Rightarrow>
                         (None, p'\<lparr>ps_pos := pos - 1\<rparr>,
                          Some (jsmn_fill_token i JSMN_PRIMITIVE (int first) (int pos) ts')))))"

definition hex_digit :: "char \<Rightarrow> bool" where
  "hex_digit c \<longleftrightarrow> (48 \<le> char_int c \<and> char_int c \<le> 57) \<or> (65 \<le> char_int c \<and> char_int c \<le> 70) \<or>
     (97 \<le> char_int c \<and> char_int c \<le> 102)"

fun hex_scan :: "string \<Rightarrow> nat \<Rightarrow> nat \<Rightarrow> nat option" where
  "hex_scan js 0 pos = Some pos"
| "hex_scan js (Suc i) pos =
     (if more_text js pos then
        if \<not> hex_digit (js ! pos) then None else hex_scan js i (pos + 1)
      else Some pos)"

lemma hex_scan_ge: "hex_scan js n pos = Some q \<Longrightarrow> pos \<le> q"
  by (induction n arbitrary: pos) (auto split: if_splits dest: Suc_leD)

definition simple_escape :: "char \<Rightarrow> bool" where
  "simple_escape c \<longleftrightarrow> c \<in> set [CHR 0x22, CHR ''/'', CHR 0x5C, CHR ''b'', CHR ''f'', CHR ''r'', CHR ''n'', CHR ''t'']"

function string_scan :: "string \<Rightarrow> nat \<Rightarrow> jsmnerr + nat" where
  "string_scan js pos =
     (if more_text js pos then
        if js ! pos = CHR 0x22 then Inr pos
        else if js ! pos = CHR 0x5C \<and> pos + 1 < length js then
          if simple_escape (js ! (pos + 1)) then string_scan js (pos + 2)
          else if js ! (pos + 1) = CHR ''u'' then
            (case hex_scan js 4 (pos + 2) of
               None \<Rightarrow> Inl JSMN_ERROR_INVAL
             | Some q \<Rightarrow> string_scan js q)
          else Inl JSMN_ERROR_INVAL
        else string_scan js (pos + 1)
      else Inl JSMN_ERROR_PART)"
  by pat_completeness auto
termination
  by (relation "measure (\<lambda>(js, pos). length js - pos)") (auto simp: more_text_def dest!: hex_scan_ge)

declare string_scan.simps [simp del]

definition jsmn_parse_string :: "string \<Rightarrow> nat \<Rightarrow> tokenized \<Rightarrow> jsmnerr option \<times> tokenized" where
  "jsmn_parse_string js num_tokens pt =
     (case pt of (p, tokens) \<Rightarrow>
        let first = ps_pos p
        in case string_scan js (first + 1) of
             Inl e \<Rightarrow> (Some e, p, tokens)
           | Inr pos \<Rightarrow>
               (case tokens of
                  None \<Rightarrow> (None, p\<lparr>ps_pos := pos\<rparr>, tokens)
                | Some ts \<Rightarrow>
                    (case jsmn_alloc_token p ts num_tokens of
                       None \<Rightarrow> (Some JSMN_ERROR_NOMEM, p, tokens)
                     | Some (i, p', ts') \<Rightarrow>
                         (None, p'\<lparr>ps_pos := pos\<rparr>,
                          Some (jsmn_fill_token i JSMN_STRING (int first + 1) (int pos) ts')))))"

section \<open>The loop\<close>

definition open_token :: "char \<Rightarrow> nat \<Rightarrow> tokenized \<Rightarrow> jsmnerr option \<times> tokenized" where
  "open_token c num_tokens pt =
     (case pt of
        (p, None) \<Rightarrow> (None, p, None)
      | (p, Some ts) \<Rightarrow>
          (case jsmn_alloc_token p ts num_tokens of
             None \<Rightarrow> (Some JSMN_ERROR_NOMEM, p, Some ts)
           | Some (i, p', ts1) \<Rightarrow>
               (let ts2 = grow (ps_toksuper p) ts1
                in (None, p'\<lparr>ps_toksuper := int (ps_toknext p') - 1\<rparr>,
                    Some (ts2[i := (ts2 ! i)\<lparr>tok_type := (if c = CHR ''{'' then JSMN_OBJECT else JSMN_ARRAY),
                                             tok_start := int (ps_pos p)\<rparr>])))))"

definition super_of :: "nat option \<Rightarrow> int" where
  "super_of k = (case k of None \<Rightarrow> -1 | Some i \<Rightarrow> int i)"

definition close_token :: "char \<Rightarrow> tokenized \<Rightarrow> jsmnerr option \<times> tokenized" where
  "close_token c pt =
     (case pt of
        (p, None) \<Rightarrow> (None, p, None)
      | (p, Some ts) \<Rightarrow>
          (case find_open ts (ps_toknext p) of
             None \<Rightarrow> (Some JSMN_ERROR_INVAL, p, Some ts)
           | Some i \<Rightarrow>
               if tok_type (ts ! i) \<noteq> (if c = CHR ''}'' then JSMN_OBJECT else JSMN_ARRAY)
               then (Some JSMN_ERROR_INVAL, p, Some ts)
               else let ts' = ts[i := (ts ! i)\<lparr>tok_end := int (ps_pos p) + 1\<rparr>]
                    in (None, p\<lparr>ps_toksuper := super_of (find_open ts' (Suc i))\<rparr>, Some ts')))"

definition comma :: "tokenized \<Rightarrow> tokenized" where
  "comma pt =
     (case pt of
        (p, None) \<Rightarrow> (p, None)
      | (p, Some ts) \<Rightarrow>
          if ps_toksuper p \<noteq> -1 \<and> \<not> is_container (ts ! nat (ps_toksuper p))
          then (case find_container ts (ps_toknext p) of
                  None \<Rightarrow> (p, Some ts)
                | Some i \<Rightarrow> (p\<lparr>ps_toksuper := int i\<rparr>, Some ts))
          else (p, Some ts))"

definition counted_token :: "jsmnerr option \<times> tokenized \<Rightarrow> int \<Rightarrow> jsmnerr option \<times> int \<times> tokenized" where
  "counted_token res count =
     (case res of
        (Some e, pt) \<Rightarrow> (Some e, count, pt)
      | (None, p, tokens) \<Rightarrow> (None, count + 1, p, map_option (grow (ps_toksuper p)) tokens))"

definition jsmn_step :: "string \<Rightarrow> nat \<Rightarrow> int \<Rightarrow> tokenized \<Rightarrow> jsmnerr option \<times> int \<times> tokenized" where
  "jsmn_step js num_tokens count pt =
     (let c = js ! ps_pos (fst pt)
      in if c = CHR ''{'' \<or> c = CHR ''['' then
           (case open_token c num_tokens pt of (e, pt') \<Rightarrow> (e, count + 1, pt'))
         else if c = CHR ''}'' \<or> c = CHR '']'' then
           (case close_token c pt of (e, pt') \<Rightarrow> (e, count, pt'))
         else if c = CHR 0x22 then counted_token (jsmn_parse_string js num_tokens pt) count
         else if white c then (None, count, pt)
         else if c = CHR '':'' then
           (case pt of (p, tokens) \<Rightarrow> (None, count, p\<lparr>ps_toksuper := int (ps_toknext p) - 1\<rparr>, tokens))
         else if c = CHR '','' then (None, count, comma pt)
         else counted_token (jsmn_parse_primitive js num_tokens pt) count)"

text \<open>A step that succeeds does not move the position back, so the loop ends.\<close>

lemma prim_scan_gt:
  assumes "prim_scan js pos = Some q" and "more_text js pos" and "\<not> primitive_end (js ! pos)"
  shows "pos < q"
  using assms
proof (induction js pos rule: prim_scan.induct)
  case (1 js pos)
  then show ?case
    by (subst (asm) (2) prim_scan.simps, cases "more_text js (pos + 1) \<and> \<not> primitive_end (js ! (pos + 1))")
      (force simp: prim_scan.simps [of js "Suc pos"] split: if_splits)+
qed

lemma string_scan_ge: "string_scan js pos = Inr q \<Longrightarrow> pos \<le> q"
proof (induction js pos rule: string_scan.induct)
  case (1 js pos)
  have h: "Suc (Suc pos) \<le> r" if "hex_scan js 4 (Suc (Suc pos)) = Some r" for r by (rule hex_scan_ge [OF that])
  from "1.prems" "1.IH"(1) "1.IH"(2) "1.IH"(3) show ?case
    unfolding string_scan.simps [of js pos]
    by (auto split: if_splits option.splits dest: h)
qed

lemma jsmn_step_pos:
  assumes "jsmn_step js num count pt = (None, count', pt')" and "more_text js (ps_pos (fst pt))"
  shows "ps_pos (fst pt) \<le> ps_pos (fst pt')"
proof -
  obtain p tokens where pt: "pt = (p, tokens)" by (cases pt)
  let ?c = "js ! ps_pos p"
  have prim: "ps_pos p \<le> ps_pos (fst pt')"
    if "\<not> primitive_end ?c" "counted_token (jsmn_parse_primitive js num (p, tokens)) count = (None, count', pt')"
    using that assms(2) prim_scan_gt [of js "ps_pos p"] unfolding pt
    by (force simp: counted_token_def jsmn_parse_primitive_def Let_def split: option.splits)
  have str: "ps_pos p \<le> ps_pos (fst pt')"
    if "counted_token (jsmn_parse_string js num (p, tokens)) count = (None, count', pt')"
    using that string_scan_ge [of js "Suc (ps_pos p)"]
    by (force simp: counted_token_def jsmn_parse_string_def Let_def split: option.splits sum.splits)
  show ?thesis
    using assms(1) prim str unfolding pt jsmn_step_def Let_def fst_conv primitive_end_def
    by (auto simp: open_token_def close_token_def comma_def jsmn_alloc_token_def Let_def
        split: if_splits option.splits)
qed

function jsmn_loop :: "string \<Rightarrow> nat \<Rightarrow> int \<Rightarrow> tokenized \<Rightarrow> jsmnerr option \<times> int \<times> tokenized" where
  "jsmn_loop js num_tokens count pt =
     (if more_text js (ps_pos (fst pt)) then
        (case jsmn_step js num_tokens count pt of
           (Some e, count', pt') \<Rightarrow> (Some e, count', pt')
         | (None, count', p, tokens) \<Rightarrow> jsmn_loop js num_tokens count' (p\<lparr>ps_pos := ps_pos p + 1\<rparr>, tokens))
      else (None, count, pt))"
  by pat_completeness auto
termination
  by (relation "measure (\<lambda>(js, num, count, pt). length js - ps_pos (fst pt))")
    (auto dest!: jsmn_step_pos [OF sym] simp: more_text_def)

declare jsmn_loop.simps [simp del]

definition jsmn_parse :: "jsmn_parser \<Rightarrow> string \<Rightarrow> jsmntok_t list option \<Rightarrow> nat \<Rightarrow> (jsmnerr + int) \<times> tokenized" where
  "jsmn_parse parser js tokens num_tokens =
     (case jsmn_loop js num_tokens (int (ps_toknext parser)) (parser, tokens) of
        (Some e, _, pt) \<Rightarrow> (Inl e, pt)
      | (None, count, p, None) \<Rightarrow> (Inr count, p, None)
      | (None, count, p, Some ts) \<Rightarrow>
          (if find_open ts (ps_toknext p) \<noteq> None then (Inl JSMN_ERROR_PART, p, Some ts)
           else (Inr count, p, Some ts)))"

section \<open>Every access is in range\<close>

definition tok_ok :: "nat \<Rightarrow> jsmntok_t \<Rightarrow> bool" where
  "tok_ok pos t \<longleftrightarrow> 0 \<le> tok_start t \<and> tok_start t \<le> int pos \<and> 0 \<le> tok_size t \<and>
     (if tok_end t = -1 then is_container t else tok_start t \<le> tok_end t \<and> tok_end t \<le> int pos)"

definition jsmn_inv :: "string \<Rightarrow> nat \<Rightarrow> jsmn_parser \<Rightarrow> jsmntok_t list \<Rightarrow> bool" where
  "jsmn_inv js num p ts \<longleftrightarrow> length ts = num \<and> ps_toknext p \<le> num \<and> ps_pos p \<le> length js \<and>
     -1 \<le> ps_toksuper p \<and> ps_toksuper p < int (ps_toknext p) \<and> (\<forall>i < ps_toknext p. tok_ok (ps_pos p) (ts ! i))"

lemma tok_ok_mono: "tok_ok pos t \<Longrightarrow> pos \<le> pos' \<Longrightarrow> tok_ok pos' t"
  by (auto simp: tok_ok_def split: if_splits)

lemma tok_ok_grow: "tok_ok pos t \<Longrightarrow> tok_ok pos (t\<lparr>tok_size := tok_size t + 1\<rparr>)"
  by (auto simp: tok_ok_def is_container_def split: if_splits)

lemma inv_moved: "jsmn_inv js num p ts \<Longrightarrow> ps_pos p \<le> q \<Longrightarrow> q \<le> length js \<Longrightarrow> jsmn_inv js num (p\<lparr>ps_pos := q\<rparr>) ts"
  by (auto simp: jsmn_inv_def intro: tok_ok_mono)

lemma inv_super: "jsmn_inv js num p ts \<Longrightarrow> -1 \<le> k \<Longrightarrow> k < int (ps_toknext p) \<Longrightarrow> jsmn_inv js num (p\<lparr>ps_toksuper := k\<rparr>) ts"
  by (simp add: jsmn_inv_def)

lemma inv_grow:
  assumes "jsmn_inv js num p ts" shows "jsmn_inv js num p (grow (ps_toksuper p) ts)"
proof (cases "ps_toksuper p = -1")
  case False
  with assms have k: "nat (ps_toksuper p) < ps_toknext p" by (auto simp: jsmn_inv_def)
  with assms have "tok_ok (ps_pos p) (ts ! nat (ps_toksuper p))" by (simp add: jsmn_inv_def)
  from tok_ok_grow [OF this] False assms k show ?thesis by (auto simp: jsmn_inv_def grow_def nth_list_update)
qed (use assms in \<open>simp add: grow_def\<close>)

lemma inv_new_token:
  assumes "jsmn_inv js num p ts" and "ps_toknext p < num" and "ps_pos p \<le> q" and "q \<le> length js" and "tok_ok q t"
  shows "jsmn_inv js num (p\<lparr>ps_toknext := Suc (ps_toknext p), ps_pos := q\<rparr>) (ts[ps_toknext p := t])"
  using assms tok_ok_mono [of "ps_pos p" _ q] by (auto simp: jsmn_inv_def nth_list_update less_Suc_eq)

lemma find_open_Some:
  "find_open ts n = Some i \<longleftrightarrow> i < n \<and> tok_open (ts ! i) \<and> (\<forall>j. i < j \<and> j < n \<longrightarrow> \<not> tok_open (ts ! j))"
  by (induction n) (auto simp: less_Suc_eq)

lemma find_open_None: "find_open ts n = None \<longleftrightarrow> (\<forall>j < n. \<not> tok_open (ts ! j))"
  by (induction n) (auto simp: less_Suc_eq)

lemma find_container_Some:
  "find_container ts n = Some i \<longleftrightarrow> i < n \<and> is_container (ts ! i) \<and> tok_open (ts ! i) \<and>
     (\<forall>j. i < j \<and> j < n \<longrightarrow> \<not> (is_container (ts ! j) \<and> tok_open (ts ! j)))"
  by (induction n) (auto simp: less_Suc_eq)

lemma prim_scan_le: "prim_scan js pos = Some q \<Longrightarrow> pos \<le> length js \<Longrightarrow> q \<le> length js"
proof (induction js pos rule: prim_scan.induct)
  case (1 js pos)
  from "1.prems" "1.IH" show ?case
    unfolding prim_scan.simps [of js pos] by (auto simp: more_text_def split: if_splits)
qed

lemma string_scan_less: "string_scan js pos = Inr q \<Longrightarrow> q < length js"
proof (induction js pos rule: string_scan.induct)
  case (1 js pos)
  from "1.prems" "1.IH" show ?case
    unfolding string_scan.simps [of js pos] by (auto simp: more_text_def split: if_splits option.splits)
qed

text \<open>What a step guarantees: the invariant at the next position, and that a token is counted when it is made.\<close>

definition step_ok :: "string \<Rightarrow> nat \<Rightarrow> int \<Rightarrow> jsmn_parser \<Rightarrow> jsmnerr option \<times> int \<times> tokenized \<Rightarrow> bool" where
  "step_ok js num count p res =
     (case res of
        (e, count', p', Some ts') \<Rightarrow>
          if e = None then ps_pos p' < length js \<and> jsmn_inv js num (p'\<lparr>ps_pos := ps_pos p' + 1\<rparr>) ts' \<and>
            count' - int (ps_toknext p') = count - int (ps_toknext p)
          else jsmn_inv js num p' ts'
      | (_, _, _, None) \<Rightarrow> False)"

lemma step_ok_counted:
  assumes "jsmn_inv js num p ts"
    and "case r of (Some e, pt) \<Rightarrow> pt = (p, Some ts)
        | (None, p', tokens) \<Rightarrow> ps_pos p' < length js \<and> ps_pos p \<le> ps_pos p' \<and> ps_toknext p < num \<and>
            p' = p\<lparr>ps_toknext := Suc (ps_toknext p), ps_pos := ps_pos p'\<rparr> \<and>
            (\<exists>t. tok_ok (Suc (ps_pos p')) t \<and> tokens = Some (ts[ps_toknext p := t]))"
  shows "step_ok js num count p (counted_token r count)"
proof (cases r)
  case r: (fields e p' tokens)
  show ?thesis
  proof (cases e)
    case None
    with assms(2) r obtain t where t: "tok_ok (Suc (ps_pos p')) t" "tokens = Some (ts[ps_toknext p := t])"
        "ps_pos p' < length js" "ps_pos p \<le> ps_pos p'" "ps_toknext p < num"
      and p': "p' = p\<lparr>ps_toknext := Suc (ps_toknext p), ps_pos := ps_pos p'\<rparr>" by auto
    have "jsmn_inv js num (p\<lparr>ps_toknext := Suc (ps_toknext p), ps_pos := Suc (ps_pos p')\<rparr>) (ts[ps_toknext p := t])"
      by (rule inv_new_token) (use assms(1) t in auto)
    moreover have "p\<lparr>ps_toknext := Suc (ps_toknext p), ps_pos := Suc (ps_pos p')\<rparr> = p'\<lparr>ps_pos := Suc (ps_pos p')\<rparr>"
      by (subst (2) p') simp
    ultimately have "jsmn_inv js num (p'\<lparr>ps_pos := Suc (ps_pos p')\<rparr>) (grow (ps_toksuper p') (ts[ps_toknext p := t]))"
      using inv_grow [of js num "p'\<lparr>ps_pos := Suc (ps_pos p')\<rparr>"] by simp
    moreover have "ps_toknext p' = Suc (ps_toknext p)" by (subst p') simp
    ultimately show ?thesis using None r t by (simp add: counted_token_def step_ok_def)
  qed (use assms r in \<open>auto simp: counted_token_def step_ok_def\<close>)
qed

lemma primitive_step_ok:
  assumes "jsmn_inv js num p ts" and "more_text js (ps_pos p)" and "\<not> primitive_end (js ! ps_pos p)"
  shows "step_ok js num count p (counted_token (jsmn_parse_primitive js num (p, Some ts)) count)"
proof (rule step_ok_counted [OF assms(1)])
  show "case jsmn_parse_primitive js num (p, Some ts) of (Some e, pt) \<Rightarrow> pt = (p, Some ts)
        | (None, p', tokens) \<Rightarrow> ps_pos p' < length js \<and> ps_pos p \<le> ps_pos p' \<and> ps_toknext p < num \<and>
            p' = p\<lparr>ps_toknext := Suc (ps_toknext p), ps_pos := ps_pos p'\<rparr> \<and>
            (\<exists>t. tok_ok (Suc (ps_pos p')) t \<and> tokens = Some (ts[ps_toknext p := t]))"
  proof (cases "prim_scan js (ps_pos p)")
    case (Some q)
    then have "ps_pos p < q" "q \<le> length js"
      using assms prim_scan_gt [of js "ps_pos p"] prim_scan_le [of js "ps_pos p"] by (auto simp: jsmn_inv_def)
    moreover from this(1) obtain r where "q = Suc r" by (cases q) auto
    ultimately show ?thesis using Some assms(1)
      by (cases p) (auto simp: jsmn_parse_primitive_def jsmn_alloc_token_def jsmn_fill_token_def
          tok_ok_def jsmn_inv_def intro!: exI)
  qed (simp add: jsmn_parse_primitive_def)
qed

lemma string_step_ok:
  assumes "jsmn_inv js num p ts"
  shows "step_ok js num count p (counted_token (jsmn_parse_string js num (p, Some ts)) count)"
proof (rule step_ok_counted [OF assms(1)])
  show "case jsmn_parse_string js num (p, Some ts) of (Some e, pt) \<Rightarrow> pt = (p, Some ts)
        | (None, p', tokens) \<Rightarrow> ps_pos p' < length js \<and> ps_pos p \<le> ps_pos p' \<and> ps_toknext p < num \<and>
            p' = p\<lparr>ps_toknext := Suc (ps_toknext p), ps_pos := ps_pos p'\<rparr> \<and>
            (\<exists>t. tok_ok (Suc (ps_pos p')) t \<and> tokens = Some (ts[ps_toknext p := t]))"
  proof (cases "string_scan js (Suc (ps_pos p))")
    case (Inr q)
    then have "ps_pos p < q" "q < length js"
      using string_scan_ge [of js "Suc (ps_pos p)"] string_scan_less [of js "Suc (ps_pos p)"] by auto
    then show ?thesis using Inr assms(1)
      by (cases p) (auto simp: jsmn_parse_string_def jsmn_alloc_token_def jsmn_fill_token_def
          tok_ok_def jsmn_inv_def intro!: exI)
  qed (simp add: jsmn_parse_string_def)
qed

lemma open_step_ok:
  assumes "jsmn_inv js num p ts" and "more_text js (ps_pos p)"
  shows "step_ok js num count p (case open_token c num (p, Some ts) of (e, pt') \<Rightarrow> (e, count + 1, pt'))"
proof (cases "ps_toknext p < num")
  case True
  let ?t = "(ts ! ps_toknext p)\<lparr>tok_start := -1, tok_end := -1, tok_size := 0\<rparr>"
  let ?u = "?t\<lparr>tok_type := (if c = CHR ''{'' then JSMN_OBJECT else JSMN_ARRAY), tok_start := int (ps_pos p)\<rparr>"
  let ?ts = "(grow (ps_toksuper p) ts)[ps_toknext p := ?u]"
  have k: "ps_toksuper p \<noteq> -1 \<Longrightarrow> nat (ps_toksuper p) \<noteq> ps_toknext p" using assms(1) by (auto simp: jsmn_inv_def)
  have g: "grow (ps_toksuper p) (ts[ps_toknext p := ?t]) = (grow (ps_toksuper p) ts)[ps_toknext p := ?t]"
    using k by (auto simp: grow_def list_update_swap nth_list_update)
  have l: "length (grow (ps_toksuper p) ts) = num" using assms(1) by (simp add: grow_def jsmn_inv_def)
  have "jsmn_inv js num (p\<lparr>ps_toknext := Suc (ps_toknext p), ps_pos := Suc (ps_pos p)\<rparr>) ?ts"
    using assms True by (intro inv_new_token inv_grow) (auto simp: tok_ok_def is_container_def more_text_def)
  from inv_super [OF this, of "int (ps_toknext p)"] show ?thesis
    using True assms(2) l g
    by (cases p) (auto simp: open_token_def jsmn_alloc_token_def Let_def step_ok_def more_text_def)
qed (use assms in \<open>auto simp: open_token_def jsmn_alloc_token_def step_ok_def\<close>)

lemma close_step_ok:
  assumes "jsmn_inv js num p ts" and "more_text js (ps_pos p)"
  shows "step_ok js num count p (case close_token c (p, Some ts) of (e, pt') \<Rightarrow> (e, count, pt'))"
proof (cases "find_open ts (ps_toknext p)")
  case (Some i)
  then have i: "i < ps_toknext p" by (simp add: find_open_Some)
  let ?ts = "ts[i := (ts ! i)\<lparr>tok_end := int (ps_pos p) + 1\<rparr>]"
  have "jsmn_inv js num (p\<lparr>ps_pos := Suc (ps_pos p)\<rparr>) ts"
    using assms by (intro inv_moved) (auto simp: more_text_def)
  then have "jsmn_inv js num (p\<lparr>ps_pos := Suc (ps_pos p)\<rparr>) ?ts"
    using assms(1) i by (auto simp: jsmn_inv_def nth_list_update tok_ok_def)
  moreover have "-1 \<le> super_of (find_open ?ts (Suc i))" "super_of (find_open ?ts (Suc i)) < int (ps_toknext p)"
    using i by (auto simp: super_of_def find_open_Some split: option.splits)
  ultimately have "jsmn_inv js num (p\<lparr>ps_pos := Suc (ps_pos p), ps_toksuper := super_of (find_open ?ts (Suc i))\<rparr>) ?ts"
    using inv_super [of js num "p\<lparr>ps_pos := Suc (ps_pos p)\<rparr>" ?ts] by simp
  then show ?thesis
    using Some assms by (cases p) (auto simp: close_token_def Let_def step_ok_def more_text_def)
qed (use assms in \<open>auto simp: close_token_def step_ok_def\<close>)

lemma comma_step_ok:
  assumes "jsmn_inv js num p ts" and "more_text js (ps_pos p)"
  shows "step_ok js num count p (None, count, comma (p, Some ts))"
proof -
  have m: "jsmn_inv js num (p\<lparr>ps_pos := Suc (ps_pos p)\<rparr>) ts"
    using assms by (intro inv_moved) (auto simp: more_text_def)
  have "jsmn_inv js num (p\<lparr>ps_pos := Suc (ps_pos p), ps_toksuper := int i\<rparr>) ts"
    if "find_container ts (ps_toknext p) = Some i" for i
    using inv_super [OF m, of "int i"] that by (simp add: find_container_Some)
  with m assms(2) show ?thesis
    by (cases p) (auto simp: comma_def step_ok_def more_text_def split: option.splits)
qed

lemma jsmn_step_ok:
  assumes "jsmn_inv js num p ts" and "more_text js (ps_pos p)"
  shows "step_ok js num count p (jsmn_step js num count (p, Some ts))"
proof -
  have m: "jsmn_inv js num (p\<lparr>ps_pos := Suc (ps_pos p)\<rparr>) ts"
    using assms by (intro inv_moved) (auto simp: more_text_def)
  then have "step_ok js num count p (None, count, p, Some ts)"
    "step_ok js num count p (None, count, p\<lparr>ps_toksuper := int (ps_toknext p) - 1\<rparr>, Some ts)"
    using assms(2) inv_super [OF m, of "int (ps_toknext p) - 1"] by (cases p; auto simp: step_ok_def more_text_def)+
  then show ?thesis
    using open_step_ok [OF assms] close_step_ok [OF assms] comma_step_ok [OF assms] string_step_ok [OF assms(1)]
      primitive_step_ok [OF assms]
    by (simp add: jsmn_step_def Let_def primitive_end_def)
qed

lemma jsmn_loop_inv:
  assumes "jsmn_inv js num p ts" and "jsmn_loop js num count (p, Some ts) = (e, count', p', tokens')"
  shows "\<exists>ts'. tokens' = Some ts' \<and> jsmn_inv js num p' ts' \<and>
    (e = None \<longrightarrow> count' - int (ps_toknext p') = count - int (ps_toknext p))"
  using assms
proof (induction "length js - ps_pos p" arbitrary: count p ts rule: less_induct)
  case less
  show ?case
  proof (cases "more_text js (ps_pos p)")
    case True
    obtain e1 count1 p1 tokens1 where s: "jsmn_step js num count (p, Some ts) = (e1, count1, p1, tokens1)"
      by (cases "jsmn_step js num count (p, Some ts)") auto
    with jsmn_step_ok [OF less.prems(1) True, of count] obtain ts1 where ts1: "tokens1 = Some ts1"
      by (cases tokens1) (auto simp: step_ok_def)
    have ok: "step_ok js num count p (e1, count1, p1, Some ts1)"
      using jsmn_step_ok [OF less.prems(1) True, of count] s ts1 by simp
    show ?thesis
    proof (cases e1)
      case None
      let ?p = "p1\<lparr>ps_pos := ps_pos p1 + 1\<rparr>"
      have l: "jsmn_loop js num count1 (?p, Some ts1) = (e, count', p', tokens')"
        using less.prems(2) True s None ts1 by (subst (asm) jsmn_loop.simps) simp
      have "ps_pos p \<le> ps_pos p1" using jsmn_step_pos [of js num count "(p, Some ts)"] s None True by simp
      with True have d: "length js - ps_pos ?p < length js - ps_pos p" by (auto simp: more_text_def)
      have "jsmn_inv js num ?p ts1" using ok None by (simp add: step_ok_def)
      from less.hyps [OF d this l] ok None show ?thesis by (simp add: step_ok_def)
    next
      case (Some x)
      then show ?thesis using less.prems(2) True s ts1 ok by (subst (asm) jsmn_loop.simps) (auto simp: step_ok_def)
    qed
  next
    case False
    with less.prems show ?thesis by (subst (asm) jsmn_loop.simps) auto
  qed
qed

lemma jsmn_inv_init: "length ts = num \<Longrightarrow> jsmn_inv js num jsmn_init ts"
  by (simp add: jsmn_inv_def jsmn_init_def)

text \<open>
  C20: for any text and any contents of the token array, the tokenizer ends with the array at its size, its
  token counter within the array and its current super token among the tokens made, so no step reads or
  writes outside the array. A successful run returns the number of tokens, and every token is a range of
  the text.
\<close>

theorem jsmn_parse_in_range:
  assumes "length ts = num"
  shows "\<exists>r p ts'. jsmn_parse jsmn_init js (Some ts) num = (r, p, Some ts') \<and> length ts' = num \<and>
    ps_toknext p \<le> num \<and> -1 \<le> ps_toksuper p \<and> ps_toksuper p < int (ps_toknext p) \<and> ps_pos p \<le> length js \<and>
    (\<forall>n. r = Inr n \<longrightarrow> n = int (ps_toknext p) \<and> (\<forall>i < ps_toknext p. 0 \<le> tok_size (ts' ! i) \<and>
       0 \<le> tok_start (ts' ! i) \<and> tok_start (ts' ! i) \<le> tok_end (ts' ! i) \<and> tok_end (ts' ! i) \<le> int (length js)))"
proof -
  obtain e count p tokens where l: "jsmn_loop js num 0 (jsmn_init, Some ts) = (e, count, p, tokens)"
    by (cases "jsmn_loop js num 0 (jsmn_init, Some ts)") auto
  from jsmn_loop_inv [OF jsmn_inv_init [OF assms] this] obtain ts' where ts': "tokens = Some ts'"
      and inv: "jsmn_inv js num p ts'" and c: "e = None \<longrightarrow> count = int (ps_toknext p)"
    by (auto simp: jsmn_init_def)
  have closed: "tok_start (ts' ! i) \<le> tok_end (ts' ! i) \<and> tok_end (ts' ! i) \<le> int (length js)"
    if "find_open ts' (ps_toknext p) = None" "i < ps_toknext p" for i
    using that inv by (fastforce simp: jsmn_inv_def find_open_None tok_open_def tok_ok_def split: if_splits)
  show ?thesis
    using l ts' inv c closed
    by (auto simp: jsmn_parse_def jsmn_init_def jsmn_inv_def tok_ok_def split: option.splits)
qed

theorem jsmn_parse_in_range_witness:
  "\<exists>r p ts'. jsmn_parse jsmn_init ''{'' (Some [\<lparr>tok_type = JSMN_UNDEFINED, tok_start = 7, tok_end = 7, tok_size = 7\<rparr>]) 1 =
     (r, p, Some ts') \<and> length ts' = 1 \<and> ps_toknext p \<le> 1"
  using jsmn_parse_in_range [of "[\<lparr>tok_type = JSMN_UNDEFINED, tok_start = 7, tok_end = 7, tok_size = 7\<rparr>]" 1 "''{''"] by auto

section \<open>The tokens of a JSON text\<close>

text \<open>
  JSON values with the raw text of their strings and primitives, and the texts that denote them, with white
  space wherever JSON allows it.
\<close>

datatype json = J_prim string | J_str string | J_arr "json list" | J_obj "(string \<times> json) list"

definition prim_text :: "string \<Rightarrow> bool" where
  "prim_text s \<longleftrightarrow> s \<noteq> [] \<and> hd s \<notin> set [CHR ''{'', CHR ''['', CHR 0x22] \<and>
     (\<forall>c \<in> set s. \<not> primitive_end c \<and> 32 \<le> char_int c \<and> char_int c < 127)"

fun str_body :: "string \<Rightarrow> bool" where
  "str_body [] \<longleftrightarrow> True"
| "str_body (c # cs) \<longleftrightarrow>
     (if c = CHR 0x5C then
        (case cs of
           [] \<Rightarrow> False
         | d # ds \<Rightarrow>
             if simple_escape d then str_body ds
             else d = CHR ''u'' \<and> length ds \<ge> 4 \<and> (\<forall>x \<in> set (take 4 ds). hex_digit x) \<and> str_body (drop 4 ds))
      else c \<noteq> CHR 0x22 \<and> c \<noteq> CHR 0x00 \<and> str_body cs)"

definition blank :: "string \<Rightarrow> bool" where
  "blank w \<longleftrightarrow> (\<forall>c \<in> set w. white c)"

definition quoted :: "string \<Rightarrow> string" where
  "quoted s = CHR 0x22 # s @ [CHR 0x22]"

inductive json_text :: "json \<Rightarrow> string \<Rightarrow> bool"
  and elements_text :: "json list \<Rightarrow> string \<Rightarrow> bool"
  and members_text :: "(string \<times> json) list \<Rightarrow> string \<Rightarrow> bool" where
  text_prim: "prim_text s \<Longrightarrow> json_text (J_prim s) s"
| text_str: "str_body s \<Longrightarrow> json_text (J_str s) (quoted s)"
| text_arr_empty: "blank w \<Longrightarrow> json_text (J_arr []) (CHR ''['' # w @ '']'')"
| text_arr: "elements_text vs s \<Longrightarrow> json_text (J_arr vs) (CHR ''['' # s @ '']'')"
| text_obj_empty: "blank w \<Longrightarrow> json_text (J_obj []) (CHR ''{'' # w @ ''}'')"
| text_obj: "members_text ms s \<Longrightarrow> json_text (J_obj ms) (CHR ''{'' # s @ ''}'')"
| text_elem: "blank w1 \<Longrightarrow> json_text v s \<Longrightarrow> blank w2 \<Longrightarrow> elements_text [v] (w1 @ s @ w2)"
| text_elems: "blank w1 \<Longrightarrow> json_text v s \<Longrightarrow> blank w2 \<Longrightarrow> elements_text vs t \<Longrightarrow>
    elements_text (v # vs) (w1 @ s @ w2 @ CHR '','' # t)"
| text_member: "blank w1 \<Longrightarrow> str_body k \<Longrightarrow> blank w2 \<Longrightarrow> blank w3 \<Longrightarrow> json_text v s \<Longrightarrow> blank w4 \<Longrightarrow>
    members_text [(k, v)] (w1 @ quoted k @ w2 @ CHR '':'' # w3 @ s @ w4)"
| text_members: "blank w1 \<Longrightarrow> str_body k \<Longrightarrow> blank w2 \<Longrightarrow> blank w3 \<Longrightarrow> json_text v s \<Longrightarrow> blank w4 \<Longrightarrow>
    members_text ms t \<Longrightarrow> members_text ((k, v) # ms) (w1 @ quoted k @ w2 @ CHR '':'' # w3 @ s @ w4 @ CHR '','' # t)"

fun ntoks :: "json \<Rightarrow> nat" and ntoks_list :: "json list \<Rightarrow> nat" and ntoks_members :: "(string \<times> json) list \<Rightarrow> nat" where
  "ntoks (J_prim s) = 1"
| "ntoks (J_str s) = 1"
| "ntoks (J_arr vs) = Suc (ntoks_list vs)"
| "ntoks (J_obj ms) = Suc (ntoks_members ms)"
| "ntoks_list [] = 0"
| "ntoks_list (v # vs) = ntoks v + ntoks_list vs"
| "ntoks_members [] = 0"
| "ntoks_members ((k, v) # ms) = Suc (ntoks v + ntoks_members ms)"

definition slice :: "string \<Rightarrow> jsmntok_t \<Rightarrow> string" where
  "slice js t = take (nat (tok_end t - tok_start t)) (drop (nat (tok_start t)) js)"

text \<open>The tokens from \<open>i\<close> on describe a value.\<close>

fun describes :: "string \<Rightarrow> jsmntok_t list \<Rightarrow> nat \<Rightarrow> json \<Rightarrow> bool"
  and describes_list :: "string \<Rightarrow> jsmntok_t list \<Rightarrow> nat \<Rightarrow> json list \<Rightarrow> bool"
  and describes_members :: "string \<Rightarrow> jsmntok_t list \<Rightarrow> nat \<Rightarrow> (string \<times> json) list \<Rightarrow> bool" where
  "describes js ts i (J_prim s) \<longleftrightarrow> tok_type (ts ! i) = JSMN_PRIMITIVE \<and> slice js (ts ! i) = s"
| "describes js ts i (J_str s) \<longleftrightarrow> tok_type (ts ! i) = JSMN_STRING \<and> slice js (ts ! i) = s"
| "describes js ts i (J_arr vs) \<longleftrightarrow> tok_type (ts ! i) = JSMN_ARRAY \<and> tok_size (ts ! i) = int (length vs) \<and>
     describes_list js ts (Suc i) vs"
| "describes js ts i (J_obj ms) \<longleftrightarrow> tok_type (ts ! i) = JSMN_OBJECT \<and> tok_size (ts ! i) = int (length ms) \<and>
     describes_members js ts (Suc i) ms"
| "describes_list js ts i [] \<longleftrightarrow> True"
| "describes_list js ts i (v # vs) \<longleftrightarrow> describes js ts i v \<and> describes_list js ts (i + ntoks v) vs"
| "describes_members js ts i [] \<longleftrightarrow> True"
| "describes_members js ts i ((k, v) # ms) \<longleftrightarrow> tok_type (ts ! i) = JSMN_STRING \<and> slice js (ts ! i) = k \<and>
     describes js ts (Suc i) v \<and> describes_members js ts (Suc (i + ntoks v)) ms"

text \<open>A piece of the text at a position.\<close>

definition text_at :: "string \<Rightarrow> nat \<Rightarrow> string \<Rightarrow> bool" where
  "text_at js q s \<longleftrightarrow> prefix s (drop q js)"

lemma text_at_Nil [simp]: "text_at js q []"
  by (simp add: text_at_def)

lemma text_at_Cons [simp]: "text_at js q (c # s) \<longleftrightarrow> q < length js \<and> js ! q = c \<and> text_at js (Suc q) s"
  by (cases "q < length js") (auto simp: text_at_def simp flip: Cons_nth_drop_Suc)

lemma text_at_append [simp]: "text_at js q (s @ t) \<longleftrightarrow> text_at js q s \<and> text_at js (q + length s) t"
  by (induction s arbitrary: q) auto

lemma text_at_take: "text_at js q s \<Longrightarrow> take (length s) (drop q js) = s"
  by (auto simp: text_at_def prefix_def)

lemma string_scan_body:
  "str_body s \<Longrightarrow> text_at js q (s @ [CHR 0x22]) \<Longrightarrow> string_scan js q = Inr (q + length s)"
proof (induction s arbitrary: q rule: measure_induct_rule [where f = length])
  case (less s)
  show ?case
  proof (cases s)
    case Nil
    with less.prems show ?thesis by (subst string_scan.simps) (simp add: more_text_def)
  next
    case s: (Cons c cs)
    show ?thesis
    proof (cases "c = CHR 0x5C")
      case c: True
      with less.prems(1) s obtain d ds where cs: "cs = d # ds" by (cases cs) auto
      show ?thesis
      proof (cases "simple_escape d")
        case True
        with less.prems s c cs have "string_scan js (q + 2) = Inr (q + 2 + length ds)"
          by (intro less.IH) (simp_all add: numeral_2_eq_2)
        then show ?thesis using less.prems(2) c s cs True
          by (subst string_scan.simps) (simp add: more_text_def)
      next
        case False
        with less.prems(1) s c cs obtain a1 a2 a3 a4 r where ds: "ds = a1 # a2 # a3 # a4 # r"
          by (auto simp: numeral_eq_Suc Suc_le_length_iff)
        have h: "hex_digit x \<Longrightarrow> x \<noteq> CHR 0x00" for x by (auto simp: hex_digit_def char_int_def)
        have u: "d = CHR ''u''" "\<forall>x \<in> {a1, a2, a3, a4}. hex_digit x" "str_body r"
          using less.prems(1) s c cs ds False by (auto simp: numeral_eq_Suc)
        then have "string_scan js (q + 6) = Inr (q + 6 + length r)"
          using less.prems(2) s c cs ds by (intro less.IH) (auto simp: numeral_eq_Suc)
        moreover have "hex_scan js 4 (q + 2) = Some (q + 6)"
          using less.prems(2) s c cs ds u h by (simp add: numeral_eq_Suc more_text_def)
        ultimately show ?thesis using less.prems(2) s c cs ds u False
          by (subst string_scan.simps) (simp add: more_text_def numeral_eq_Suc)
      qed
    next
      case False
      with less.prems s have "string_scan js (Suc q) = Inr (Suc q + length cs)" by (intro less.IH) auto
      with False less.prems s show ?thesis by (subst string_scan.simps) (auto simp: more_text_def)
    qed
  qed
qed

definition value_end :: "string \<Rightarrow> nat \<Rightarrow> bool" where
  "value_end js q \<longleftrightarrow> \<not> more_text js q \<or> primitive_end (js ! q)"

lemma prim_scan_text:
  "\<forall>c \<in> set s. \<not> primitive_end c \<and> 32 \<le> char_int c \<and> char_int c < 127 \<Longrightarrow> text_at js q s \<Longrightarrow> value_end js (q + length s) \<Longrightarrow>
   prim_scan js q = Some (q + length s)"
proof (induction s arbitrary: q)
  case Nil
  then show ?case by (subst prim_scan.simps) (auto simp: value_end_def)
next
  case (Cons c s)
  then have "prim_scan js (Suc q) = Some (Suc q + length s)" by (intro Cons.IH) auto
  moreover have "c \<noteq> CHR 0x00" using Cons.prems(1) by (auto simp: char_int_def)
  ultimately show ?case using Cons.prems by (subst prim_scan.simps) (auto simp: more_text_def)
qed

text \<open>The loop on single characters and tokens.\<close>

definition parser_at :: "nat \<Rightarrow> nat \<Rightarrow> int \<Rightarrow> jsmn_parser" where
  "parser_at q n k = \<lparr>ps_pos = q, ps_toknext = n, ps_toksuper = k\<rparr>"

lemma parser_at_simps [simp]:
  "ps_pos (parser_at q n k) = q" "ps_toknext (parser_at q n k) = n" "ps_toksuper (parser_at q n k) = k"
  "(parser_at q n k)\<lparr>ps_pos := q'\<rparr> = parser_at q' n k" "(parser_at q n k)\<lparr>ps_toknext := n'\<rparr> = parser_at q n' k"
  "(parser_at q n k)\<lparr>ps_toksuper := k'\<rparr> = parser_at q n k'"
  by (simp_all add: parser_at_def)

lemma loop_step:
  assumes "q < length js" and "js ! q \<noteq> CHR 0x00"
    and "jsmn_step js num c (parser_at q n k, Some ts) = (None, c', parser_at q' n' k', Some ts')"
  shows "jsmn_loop js num c (parser_at q n k, Some ts) = jsmn_loop js num c' (parser_at (Suc q') n' k', Some ts')"
  using assms by (subst jsmn_loop.simps) (simp add: more_text_def)

lemma length_grow [simp]: "length (grow k ts) = length ts"
  by (simp add: grow_def)

lemma tok_open_grow [simp]: "tok_open (grow k ts ! i) = tok_open (ts ! i)"
  by (cases "nat k < length ts") (auto simp: grow_def tok_open_def nth_list_update not_less list_update_beyond)

lemma grow_nth_other: "nat k \<noteq> i \<Longrightarrow> grow k ts ! i = ts ! i"
  by (simp add: grow_def)

lemma find_open_cong: "(\<And>i. i < n \<Longrightarrow> tok_open (ts' ! i) = tok_open (ts ! i)) \<Longrightarrow> find_open ts' n = find_open ts n"
  by (induction n) auto

lemma white_facts: "white c \<Longrightarrow> c \<noteq> CHR 0x00 \<and> primitive_end c \<and> c \<notin> {CHR ''{'', CHR ''['', CHR ''}'', CHR '']'', CHR 0x22}"
  by (auto simp: white_def primitive_end_def)

lemma loop_blank:
  "blank w \<Longrightarrow> text_at js q w \<Longrightarrow> jsmn_loop js num c (parser_at q n k, Some ts) = jsmn_loop js num c (parser_at (q + length w) n k, Some ts)"
proof (induction w arbitrary: q)
  case (Cons x w)
  then have "white x" by (simp add: blank_def)
  with Cons.prems white_facts [OF this]
  have "jsmn_loop js num c (parser_at q n k, Some ts) = jsmn_loop js num c (parser_at (Suc q) n k, Some ts)"
    by (intro loop_step) (auto simp: jsmn_step_def Let_def)
  with Cons.IH [of "Suc q"] Cons.prems show ?case by (simp add: blank_def)
qed simp

text \<open>The tokens before \<open>n\<close> are kept, but for the size of the super token; those from \<open>n\<close> to \<open>m\<close> are closed.\<close>

definition extends :: "nat \<Rightarrow> int \<Rightarrow> nat \<Rightarrow> jsmntok_t list \<Rightarrow> nat \<Rightarrow> jsmntok_t list \<Rightarrow> bool" where
  "extends num k n ts m ts' \<longleftrightarrow> length ts' = num \<and> (\<forall>i < n. ts' ! i = grow k ts ! i) \<and> (\<forall>i. n \<le> i \<and> i < m \<longrightarrow> \<not> tok_open (ts' ! i))"

lemma grow_new:
  assumes "length ts = num" and "n < num" and "-1 \<le> k" and "k < int n"
  shows "grow k (ts[n := t]) = (grow k ts)[n := t]" "(grow k ts) ! n = ts ! n"
  using assms by (auto simp: grow_def list_update_swap nth_list_update)

lemma loop_token:
  assumes "length ts = num" and "n < num" and "-1 \<le> k" and "k < int n" and "q < length js" and "js ! q \<noteq> CHR 0x00"
    and "jsmn_step js num c (parser_at q n k, Some ts) =
      counted_token (None, parser_at r (Suc n) k, Some (jsmn_fill_token n type (int s) (int e) (ts[n := u]))) c"
    and "type = JSMN_STRING \<or> type = JSMN_PRIMITIVE" and "s \<le> e"
  shows "\<exists>ts'. jsmn_loop js num c (parser_at q n k, Some ts) = jsmn_loop js num (c + 1) (parser_at (Suc r) (Suc n) k, Some ts') \<and>
    extends num k n ts (Suc n) ts' \<and> tok_type (ts' ! n) = type \<and> slice js (ts' ! n) = take (e - s) (drop s js)"
proof (intro exI conjI)
  let ?t = "u\<lparr>tok_type := type, tok_start := int s, tok_end := int e, tok_size := 0\<rparr>"
  let ?ts = "(grow k ts)[n := ?t]"
  show "jsmn_loop js num c (parser_at q n k, Some ts) = jsmn_loop js num (c + 1) (parser_at (Suc r) (Suc n) k, Some ?ts)"
    using assms(1-7) grow_new(1) [OF assms(1-4), of ?t] by (intro loop_step) (auto simp: counted_token_def jsmn_fill_token_def)
  show "extends num k n ts (Suc n) ?ts"
    using assms(1-4,9) by (auto simp: extends_def less_Suc_eq_le tok_open_def dest!: le_antisym)
  show "tok_type (?ts ! n) = type" "slice js (?ts ! n) = take (e - s) (drop s js)"
    using assms(1,2,9) by (auto simp: slice_def nat_minus_as_int)
qed

lemma loop_str:
  assumes "length ts = num" and "n < num" and "-1 \<le> k" and "k < int n" and "str_body s" and "text_at js q (quoted s)"
  shows "\<exists>ts'. jsmn_loop js num c (parser_at q n k, Some ts) =
      jsmn_loop js num (c + 1) (parser_at (q + length (quoted s)) (Suc n) k, Some ts') \<and>
    extends num k n ts (Suc n) ts' \<and> tok_type (ts' ! n) = JSMN_STRING \<and> slice js (ts' ! n) = s"
proof -
  have t: "text_at js (Suc q) (s @ [CHR 0x22])" "js ! q = CHR 0x22" "q < length js" using assms(6) by (simp_all add: quoted_def)
  have e: "take (Suc q + length s - Suc q) (drop (Suc q) js) = s" using t(1) text_at_take [of js "Suc q" s] by simp
  have "\<exists>ts'. jsmn_loop js num c (parser_at q n k, Some ts) = jsmn_loop js num (c + 1) (parser_at (Suc (Suc q + length s)) (Suc n) k, Some ts') \<and>
    extends num k n ts (Suc n) ts' \<and> tok_type (ts' ! n) = JSMN_STRING \<and> slice js (ts' ! n) = take (Suc q + length s - Suc q) (drop (Suc q) js)"
    by (rule loop_token [where u = "(ts ! n)\<lparr>tok_start := -1, tok_end := -1, tok_size := 0\<rparr>"])
      (use assms t string_scan_body [OF assms(5) t(1)] in
        \<open>simp_all add: jsmn_step_def jsmn_parse_string_def jsmn_alloc_token_def Let_def add.commute [of 1]\<close>)
  then show ?thesis unfolding e by (simp add: quoted_def)
qed

lemma loop_prim:
  assumes "length ts = num" and "n < num" and "-1 \<le> k" and "k < int n" and "prim_text s" and "text_at js q s"
    and "value_end js (q + length s)"
  shows "\<exists>ts'. jsmn_loop js num c (parser_at q n k, Some ts) = jsmn_loop js num (c + 1) (parser_at (q + length s) (Suc n) k, Some ts') \<and>
    extends num k n ts (Suc n) ts' \<and> tok_type (ts' ! n) = JSMN_PRIMITIVE \<and> slice js (ts' ! n) = s"
proof -
  obtain x r where s: "s = x # r" using assms(5) by (cases s) (auto simp: prim_text_def)
  have x: "\<not> primitive_end x" "x \<notin> {CHR ''{'', CHR ''['', CHR 0x22}" "x \<noteq> CHR 0x00" using assms(5) s by (auto simp: prim_text_def char_int_def)
  have t: "js ! q = x" "q < length js" using assms(6) s by simp_all
  have e: "take (q + length s - q) (drop q js) = s" using assms(6) text_at_take by simp
  have p: "prim_scan js q = Some (q + length s)" using assms(5-7) by (intro prim_scan_text) (auto simp: prim_text_def)
  have "\<exists>ts'. jsmn_loop js num c (parser_at q n k, Some ts) = jsmn_loop js num (c + 1) (parser_at (Suc (q + length r)) (Suc n) k, Some ts') \<and>
    extends num k n ts (Suc n) ts' \<and> tok_type (ts' ! n) = JSMN_PRIMITIVE \<and> slice js (ts' ! n) = take (q + length s - q) (drop q js)"
    by (rule loop_token [where u = "(ts ! n)\<lparr>tok_start := -1, tok_end := -1, tok_size := 0\<rparr>"])
      (use assms(1-4) t x p in
        \<open>auto simp: jsmn_step_def jsmn_parse_primitive_def jsmn_alloc_token_def Let_def primitive_end_def s\<close>)
  then show ?thesis unfolding e by (simp add: s)
qed

lemma loop_open:
  assumes "length ts = num" and "n < num" and "-1 \<le> k" and "k < int n" and "q < length js" and "js ! q = x"
    and "x = CHR ''{'' \<and> type = JSMN_OBJECT \<or> x = CHR ''['' \<and> type = JSMN_ARRAY"
  shows "\<exists>ts'. jsmn_loop js num c (parser_at q n k, Some ts) = jsmn_loop js num (c + 1) (parser_at (Suc q) (Suc n) (int n), Some ts') \<and>
    extends num k n ts n ts' \<and> tok_open (ts' ! n) \<and> tok_type (ts' ! n) = type \<and> tok_size (ts' ! n) = 0"
proof (intro exI conjI)
  let ?u = "(ts ! n)\<lparr>tok_start := -1, tok_end := -1, tok_size := 0\<rparr>"
  let ?t = "?u\<lparr>tok_type := type, tok_start := int q\<rparr>"
  show "jsmn_loop js num c (parser_at q n k, Some ts) =
      jsmn_loop js num (c + 1) (parser_at (Suc q) (Suc n) (int n), Some ((grow k ts)[n := ?t]))"
    using assms grow_new [OF assms(1-4)]
    by (intro loop_step) (auto simp: jsmn_step_def open_token_def jsmn_alloc_token_def Let_def)
  show "extends num k n ts n ((grow k ts)[n := ?t])" "tok_open ((grow k ts)[n := ?t] ! n)"
    "tok_type ((grow k ts)[n := ?t] ! n) = type" "tok_size ((grow k ts)[n := ?t] ! n) = 0"
    using assms(1,2) by (auto simp: extends_def tok_open_def)
qed

lemma loop_close:
  assumes "q < length js" and "js ! q = x" and "find_open ts m = Some a" and "length ts = num" and "m \<le> num"
    and "x = CHR ''}'' \<and> tok_type (ts ! a) = JSMN_OBJECT \<or> x = CHR '']'' \<and> tok_type (ts ! a) = JSMN_ARRAY"
  shows "jsmn_loop js num c (parser_at q m k, Some ts) =
    jsmn_loop js num c (parser_at (Suc q) m (super_of (find_open ts a)), Some (ts[a := (ts ! a)\<lparr>tok_end := int q + 1\<rparr>]))"
proof -
  let ?ts = "ts[a := (ts ! a)\<lparr>tok_end := int q + 1\<rparr>]"
  have "a < num" using assms(3,5) by (simp add: find_open_Some)
  then have "\<not> tok_open (?ts ! a)" using assms(4) by (simp add: tok_open_def)
  moreover have "find_open ?ts a = find_open ts a" by (rule find_open_cong) simp
  ultimately have "find_open ?ts (Suc a) = find_open ts a" by simp
  with assms show ?thesis by (intro loop_step) (auto simp: jsmn_step_def close_token_def Let_def)
qed

lemma loop_colon:
  assumes "q < length js" and "js ! q = CHR '':''"
  shows "jsmn_loop js num c (parser_at q n k, Some ts) = jsmn_loop js num c (parser_at (Suc q) n (int n - 1), Some ts)"
  using assms by (intro loop_step) (auto simp: jsmn_step_def white_def)

lemma loop_comma:
  assumes "q < length js" and "js ! q = CHR '',''" and "a < n" and "is_container (ts ! a)" and "tok_open (ts ! a)"
    and "\<forall>i. a < i \<and> i < n \<longrightarrow> \<not> tok_open (ts ! i)" and "k = int a \<or> \<not> is_container (ts ! nat k) \<and> k \<noteq> -1"
  shows "jsmn_loop js num c (parser_at q n k, Some ts) = jsmn_loop js num c (parser_at (Suc q) n (int a), Some ts)"
proof -
  have "find_container ts n = Some a" using assms by (simp add: find_container_Some)
  with assms show ?thesis by (intro loop_step) (auto simp: jsmn_step_def white_def comma_def)
qed

lemma describes_cong:
  "(\<And>i. n \<le> i \<Longrightarrow> i < n + ntoks v \<Longrightarrow> ts' ! i = ts ! i) \<Longrightarrow> describes js ts' n v = describes js ts n v"
  "(\<And>i. n \<le> i \<Longrightarrow> i < n + ntoks_list vs \<Longrightarrow> ts' ! i = ts ! i) \<Longrightarrow> describes_list js ts' n vs = describes_list js ts n vs"
  "(\<And>i. n \<le> i \<Longrightarrow> i < n + ntoks_members ms \<Longrightarrow> ts' ! i = ts ! i) \<Longrightarrow> describes_members js ts' n ms = describes_members js ts n ms"
proof (induction v and vs and ms arbitrary: n and n and n rule: ntoks_ntoks_list_ntoks_members.induct)
  case (8 k v ms)
  have "describes js ts' (Suc n) v = describes js ts (Suc n) v" by (rule "8.IH") (use "8.prems" in auto)
  moreover have "describes_members js ts' (Suc (n + ntoks v)) ms = describes_members js ts (Suc (n + ntoks v)) ms"
    by (rule "8.IH") (use "8.prems" in auto)
  ultimately show ?case using "8.prems" [of n] by simp
qed simp_all

text \<open>What the loop does on the text of a value, and on the text between the brackets of a container.\<close>

definition value_run :: "string \<Rightarrow> nat \<Rightarrow> json \<Rightarrow> string \<Rightarrow> bool" where
  "value_run js num v s \<longleftrightarrow> (\<forall>q n k ts c. text_at js q s \<and> value_end js (q + length s) \<and> n + ntoks v \<le> num \<and>
     length ts = num \<and> -1 \<le> k \<and> k < int n \<longrightarrow>
     (\<exists>k' ts'. jsmn_loop js num c (parser_at q n k, Some ts) =
         jsmn_loop js num (c + int (ntoks v)) (parser_at (q + length s) (n + ntoks v) k', Some ts') \<and>
       (k' = k \<or> k' = super_of (find_open ts n)) \<and> extends num k n ts (n + ntoks v) ts' \<and> describes js ts' n v))"

definition sized :: "nat \<Rightarrow> nat \<Rightarrow> nat \<Rightarrow> jsmntok_t list \<Rightarrow> jsmntok_t list \<Rightarrow> bool" where
  "sized a m n ts ts' \<longleftrightarrow> (\<forall>i < n. ts' ! i = (if i = a then (ts ! a)\<lparr>tok_size := tok_size (ts ! a) + int m\<rparr> else ts ! i))"

definition inside :: "nat \<Rightarrow> nat \<Rightarrow> nat \<Rightarrow> jsmntok_t list \<Rightarrow> bool" where
  "inside num a n ts \<longleftrightarrow> a < n \<and> length ts = num \<and> tok_open (ts ! a) \<and> is_container (ts ! a) \<and>
     (\<forall>i. a < i \<and> i < n \<longrightarrow> \<not> tok_open (ts ! i))"

definition body_run :: "string \<Rightarrow> nat \<Rightarrow> nat \<Rightarrow> nat \<Rightarrow> (jsmntok_t list \<Rightarrow> nat \<Rightarrow> bool) \<Rightarrow> char \<Rightarrow> string \<Rightarrow> bool" where
  "body_run js num N len desc d s \<longleftrightarrow> (\<forall>q n a ts c. text_at js q (s @ [d]) \<and> n + N \<le> num \<and> inside num a n ts \<longrightarrow>
     (\<exists>k' ts'. jsmn_loop js num c (parser_at q n (int a), Some ts) =
         jsmn_loop js num (c + int N) (parser_at (q + length s) (n + N) k', Some ts') \<and>
       length ts' = num \<and> sized a len n ts ts' \<and> (\<forall>i. n \<le> i \<and> i < n + N \<longrightarrow> \<not> tok_open (ts' ! i)) \<and> desc ts' n))"

lemma inside_find_open: "inside num a n ts \<Longrightarrow> find_open ts n = Some a"
  by (simp add: inside_def find_open_Some)

lemma extends_sized: "extends num (int a) n ts m ts' \<Longrightarrow> a < n \<Longrightarrow> n \<le> num \<Longrightarrow> length ts = num \<Longrightarrow> sized a 1 n ts ts'"
  by (auto simp: extends_def sized_def grow_def nth_list_update)

lemma sized_inside:
  "inside num a n ts \<Longrightarrow> sized a l n ts ts' \<Longrightarrow> length ts' = num \<Longrightarrow> n \<le> m \<Longrightarrow> (\<forall>i. n \<le> i \<and> i < m \<longrightarrow> \<not> tok_open (ts' ! i)) \<Longrightarrow>
   inside num a m ts'"
  by (auto simp: inside_def sized_def tok_open_def is_container_def not_le) (metis linorder_not_le)+

lemma sized_trans: "sized a l n ts ts' \<Longrightarrow> sized a l' m ts' ts'' \<Longrightarrow> n \<le> m \<Longrightarrow> sized a (l + l') n ts ts''"
  by (auto simp: sized_def)

lemma run_container:
  assumes body: "body_run js num N len desc d s"
    and kind: "x = CHR ''{'' \<and> d = CHR ''}'' \<and> type = JSMN_OBJECT \<or> x = CHR ''['' \<and> d = CHR '']'' \<and> type = JSMN_ARRAY"
    and v: "ntoks v = Suc N"
      "\<And>ts n. describes js ts n v \<longleftrightarrow> tok_type (ts ! n) = type \<and> tok_size (ts ! n) = int len \<and> desc ts (Suc n)"
    and frame: "\<And>ts ts' n. (\<And>i. n \<le> i \<Longrightarrow> i < n + N \<Longrightarrow> ts' ! i = ts ! i) \<Longrightarrow> desc ts' n = desc ts n"
  shows "value_run js num v (x # s @ [d])"
  unfolding value_run_def
proof (intro allI impI, elim conjE)
  fix q n k and ts :: "jsmntok_t list" and c
  assume t: "text_at js q (x # s @ [d])" and n: "n + ntoks v \<le> num" "length ts = num" "-1 \<le> k" "k < int n"
  let ?m = "Suc n + N"
  have "n < num" "q < length js" "js ! q = x" using t n v(1) by auto
  with n kind obtain ts1 where open1: "jsmn_loop js num c (parser_at q n k, Some ts) =
      jsmn_loop js num (c + 1) (parser_at (Suc q) (Suc n) (int n), Some ts1)" and e1: "extends num k n ts n ts1"
    and o1: "tok_open (ts1 ! n)" "tok_type (ts1 ! n) = type" "tok_size (ts1 ! n) = 0"
    using loop_open [of ts num n k q js x type c] by blast
  have i1: "inside num n (Suc n) ts1" using e1 o1 kind by (auto simp: inside_def extends_def is_container_def)
  obtain k2 ts2 where body2: "jsmn_loop js num (c + 1) (parser_at (Suc q) (Suc n) (int n), Some ts1) =
      jsmn_loop js num (c + 1 + int N) (parser_at (Suc q + length s) ?m k2, Some ts2)"
    and l2: "length ts2 = num" and s2: "sized n len (Suc n) ts1 ts2"
    and c2: "\<forall>i. Suc n \<le> i \<and> i < ?m \<longrightarrow> \<not> tok_open (ts2 ! i)" and d2: "desc ts2 (Suc n)"
    using body t n(1) v(1) i1 unfolding body_run_def
    by (metis (no_types, lifting) add_Suc add_Suc_right text_at_Cons)
  have i2: "inside num n ?m ts2" by (rule sized_inside [OF i1 s2 l2 _ c2]) simp
  have t2: "ts2 ! n = (ts1 ! n)\<lparr>tok_size := int len\<rparr>" using s2 o1(3) by (simp add: sized_def)
  let ?ts = "ts2[n := (ts2 ! n)\<lparr>tok_end := int (Suc q + length s) + 1\<rparr>]"
  have close: "jsmn_loop js num (c + 1 + int N) (parser_at (Suc q + length s) ?m k2, Some ts2) =
      jsmn_loop js num (c + 1 + int N) (parser_at (Suc (Suc q + length s)) ?m (super_of (find_open ts2 n)), Some ?ts)"
    by (rule loop_close [OF _ _ inside_find_open [OF i2] l2]) (use t n v(1) kind t2 o1(2) in auto)
  have old: "ts2 ! i = grow k ts ! i" if "i < n" for i using that s2 e1 by (simp add: sized_def extends_def)
  have super: "find_open ts2 n = find_open ts n" by (rule find_open_cong) (simp add: old)
  have "extends num k n ts ?m ?ts"
    unfolding extends_def using l2 old c2 n v(1) by (auto simp: tok_open_def nth_list_update)
  moreover have "desc ?ts (Suc n)" using d2 frame [of "Suc n" ?ts ts2] by simp
  then have "describes js ?ts n v" using v(2) t2 o1(2) l2 n v(1) by simp
  ultimately show "\<exists>k' ts'. jsmn_loop js num c (parser_at q n k, Some ts) =
         jsmn_loop js num (c + int (ntoks v)) (parser_at (q + length (x # s @ [d])) (n + ntoks v) k', Some ts') \<and>
       (k' = k \<or> k' = super_of (find_open ts n)) \<and> extends num k n ts (n + ntoks v) ts' \<and> describes js ts' n v"
    using open1 body2 close super v(1) by (intro exI [of _ "super_of (find_open ts n)"] exI [of _ ?ts]) (simp add: add.assoc)
qed

lemma run_leaf:
  assumes "ntoks v = 1"
    and "\<And>q n k ts c. text_at js q s \<Longrightarrow> value_end js (q + length s) \<Longrightarrow> n < num \<Longrightarrow> length ts = num \<Longrightarrow> -1 \<le> k \<Longrightarrow> k < int n \<Longrightarrow>
      \<exists>ts'. jsmn_loop js num c (parser_at q n k, Some ts) =
          jsmn_loop js num (c + 1) (parser_at (q + length s) (Suc n) k, Some ts') \<and> extends num k n ts (Suc n) ts' \<and> describes js ts' n v"
  shows "value_run js num v s"
  unfolding value_run_def using assms by (metis Suc_eq_plus1 Suc_le_eq of_nat_1)

lemma body_blank: "blank w \<Longrightarrow> desc = (\<lambda>_ _. True) \<Longrightarrow> body_run js num 0 0 desc d w"
  unfolding body_run_def
proof (intro allI impI, elim conjE)
  fix q n a and ts :: "jsmntok_t list" and c
  assume "blank w" "desc = (\<lambda>_ _. True)" "text_at js q (w @ [d])" "inside num a n ts"
  then show "\<exists>k' ts'. jsmn_loop js num c (parser_at q n (int a), Some ts) =
         jsmn_loop js num (c + int 0) (parser_at (q + length w) (n + 0) k', Some ts') \<and>
       length ts' = num \<and> sized a 0 n ts ts' \<and> (\<forall>i. n \<le> i \<and> i < n + 0 \<longrightarrow> \<not> tok_open (ts' ! i)) \<and> desc ts' n"
    by (intro exI [of _ "int a"] exI [of _ ts]) (auto simp: inside_def sized_def loop_blank [of w])
qed

lemma value_end_blank: "blank w \<Longrightarrow> text_at js r (w @ [d]) \<Longrightarrow> primitive_end d \<Longrightarrow> value_end js r"
  by (cases w) (auto simp: blank_def value_end_def dest: white_facts)

text \<open>A value inside a container, with the white space around it.\<close>

lemma value_inside:
  assumes run: "value_run js num v s" and "blank w1" and "blank w2" and "primitive_end d"
    and t: "text_at js q (w1 @ s @ w2 @ [d])" and n: "n + ntoks v \<le> num" "length ts = num" "-1 \<le> k" "k < int n"
  shows "\<exists>k' ts'. jsmn_loop js num c (parser_at q n k, Some ts) =
      jsmn_loop js num (c + int (ntoks v)) (parser_at (q + length (w1 @ s @ w2)) (n + ntoks v) k', Some ts') \<and>
    (k' = k \<or> k' = super_of (find_open ts n)) \<and> extends num k n ts (n + ntoks v) ts' \<and> describes js ts' n v"
proof -
  let ?q = "q + length w1"
  have e: "value_end js (?q + length s)" using assms(3,4) t by (intro value_end_blank [of w2 _ _ d]) (simp_all add: add.assoc)
  have "text_at js ?q s" using t by simp
  with run e n obtain k' ts' where r: "jsmn_loop js num c (parser_at ?q n k, Some ts) =
      jsmn_loop js num (c + int (ntoks v)) (parser_at (?q + length s) (n + ntoks v) k', Some ts')"
    "k' = k \<or> k' = super_of (find_open ts n)" "extends num k n ts (n + ntoks v) ts'" "describes js ts' n v"
    unfolding value_run_def by blast
  moreover have "jsmn_loop js num c (parser_at q n k, Some ts) = jsmn_loop js num c (parser_at ?q n k, Some ts)"
    using t by (intro loop_blank [OF assms(2)]) simp
  moreover have "text_at js (?q + length s) w2" using t by (simp add: add.assoc)
  note loop_blank [OF assms(3) this, of num "c + int (ntoks v)" "n + ntoks v" k' ts']
  ultimately show ?thesis by (intro exI [of _ k'] exI [of _ ts']) (simp add: add.assoc)
qed

text \<open>One element of an array, and one member of an object: a piece of text of a container.\<close>

lemma element_inside:
  assumes "value_run js num v s" and "blank w1" and "blank w2" and "primitive_end d"
    and "text_at js q (w1 @ s @ w2 @ [d])" and "n + ntoks v \<le> num" and "inside num a n ts"
  shows "\<exists>ts'. jsmn_loop js num c (parser_at q n (int a), Some ts) =
      jsmn_loop js num (c + int (ntoks v)) (parser_at (q + length (w1 @ s @ w2)) (n + ntoks v) (int a), Some ts') \<and>
    length ts' = num \<and> sized a 1 n ts ts' \<and> (\<forall>i. n \<le> i \<and> i < n + ntoks v \<longrightarrow> \<not> tok_open (ts' ! i)) \<and> describes js ts' n v"
proof -
  have a: "length ts = num" "-1 \<le> int a" "int a < int n" using assms(7) by (auto simp: inside_def)
  from value_inside [OF assms(1-6) a, of c] inside_find_open [OF assms(7)]
  obtain ts' where r: "jsmn_loop js num c (parser_at q n (int a), Some ts) =
      jsmn_loop js num (c + int (ntoks v)) (parser_at (q + length (w1 @ s @ w2)) (n + ntoks v) (int a), Some ts')"
    and e: "extends num (int a) n ts (n + ntoks v) ts'" and d: "describes js ts' n v"
    by (auto simp: super_of_def)
  have "sized a 1 n ts ts'" by (rule extends_sized [OF e]) (use assms(6) a in auto)
  with r e d show ?thesis by (auto simp: extends_def)
qed

lemma member_inside:
  assumes run: "value_run js num v s" and w: "blank w1" "blank w2" "blank w3" "blank w4" and k: "str_body k"
    and d: "primitive_end d" and t: "text_at js q (w1 @ quoted k @ w2 @ CHR '':'' # w3 @ s @ w4 @ [d])"
    and n: "Suc (n + ntoks v) \<le> num" and ins: "inside num a n ts"
  shows "\<exists>k' ts'. jsmn_loop js num c (parser_at q n (int a), Some ts) =
      jsmn_loop js num (c + 1 + int (ntoks v))
        (parser_at (q + length (w1 @ quoted k @ w2 @ CHR '':'' # w3 @ s @ w4)) (Suc n + ntoks v) k', Some ts') \<and>
    length ts' = num \<and> sized a 1 n ts ts' \<and> (\<forall>i. n \<le> i \<and> i < Suc n + ntoks v \<longrightarrow> \<not> tok_open (ts' ! i)) \<and>
    describes_members js ts' n [(k, v)] \<and> (k' = int a \<or> \<not> is_container (ts' ! nat k') \<and> k' \<noteq> -1)"
proof -
  have a: "length ts = num" "n < num" "-1 \<le> int a" "int a < int n" using ins n by (auto simp: inside_def)
  let ?q1 = "q + length w1" and ?q2 = "q + length w1 + length (quoted k) + length w2"
  have b1: "jsmn_loop js num c (parser_at q n (int a), Some ts) = jsmn_loop js num c (parser_at ?q1 n (int a), Some ts)"
    using t by (intro loop_blank [OF w(1)]) simp
  have "text_at js ?q1 (quoted k)" using t by simp
  from loop_str [OF a k this, of c] obtain ts1 where
    s1: "jsmn_loop js num c (parser_at ?q1 n (int a), Some ts) =
      jsmn_loop js num (c + 1) (parser_at (?q1 + length (quoted k)) (Suc n) (int a), Some ts1)"
    and e1: "extends num (int a) n ts (Suc n) ts1" and k1: "tok_type (ts1 ! n) = JSMN_STRING" "slice js (ts1 ! n) = k" by blast
  have b2: "jsmn_loop js num (c + 1) (parser_at (?q1 + length (quoted k)) (Suc n) (int a), Some ts1) =
      jsmn_loop js num (c + 1) (parser_at (Suc ?q2) (Suc n) (int n), Some ts1)"
    using t w(2) by (simp add: loop_blank loop_colon add.assoc)
  have sz1: "sized a 1 n ts ts1" by (rule extends_sized [OF e1]) (use a in auto)
  have l1: "length ts1 = num" using e1 by (simp add: extends_def)
  have i1: "inside num a (Suc n) ts1"
    by (rule sized_inside [OF ins sz1 l1]) (use e1 in \<open>auto simp: extends_def\<close>)
  have t2: "text_at js (Suc ?q2) (w3 @ s @ w4 @ [d])" using t by (simp add: add.assoc)
  have "\<exists>k' ts'. jsmn_loop js num (c + 1) (parser_at (Suc ?q2) (Suc n) (int n), Some ts1) =
      jsmn_loop js num (c + 1 + int (ntoks v)) (parser_at (Suc ?q2 + length (w3 @ s @ w4)) (Suc n + ntoks v) k', Some ts') \<and>
    (k' = int n \<or> k' = super_of (find_open ts1 (Suc n))) \<and> extends num (int n) (Suc n) ts1 (Suc n + ntoks v) ts' \<and> describes js ts' (Suc n) v"
    by (rule value_inside [OF run w(3,4) d t2]) (use n l1 in auto)
  then obtain k' ts' where v: "jsmn_loop js num (c + 1) (parser_at (Suc ?q2) (Suc n) (int n), Some ts1) =
      jsmn_loop js num (c + 1 + int (ntoks v)) (parser_at (Suc ?q2 + length (w3 @ s @ w4)) (Suc n + ntoks v) k', Some ts')"
    and k': "k' = int n \<or> k' = int a" and e2: "extends num (int n) (Suc n) ts1 (Suc n + ntoks v) ts'" and dv: "describes js ts' (Suc n) v"
    using inside_find_open [OF i1] by (auto simp: super_of_def)
  have old: "ts' ! i = ts1 ! i" if "i < n" for i using that e2 by (simp add: extends_def grow_nth_other)
  have key: "tok_type (ts' ! n) = JSMN_STRING" "slice js (ts' ! n) = k"
    using e2 k1 l1 a by (auto simp: extends_def grow_def slice_def)
  have closed: "\<not> tok_open (ts' ! n)" using e1 e2 by (simp add: extends_def)
  show ?thesis
  proof (intro exI [of _ k'] exI [of _ ts'] conjI)
    show "length ts' = num" using e2 by (simp add: extends_def)
    show "sized a 1 n ts ts'" using sz1 old by (simp add: sized_def)
    show "\<forall>i. n \<le> i \<and> i < Suc n + ntoks v \<longrightarrow> \<not> tok_open (ts' ! i)"
      using e2 closed by (metis Suc_leI extends_def le_neq_implies_less)
    show "describes_members js ts' n [(k, v)]" using key dv by simp
    show "k' = int a \<or> \<not> is_container (ts' ! nat k') \<and> k' \<noteq> -1" using k' key by (auto simp: is_container_def)
  qed (use b1 s1 b2 v in \<open>simp add: add.assoc\<close>)
qed

definition piece_run :: "string \<Rightarrow> nat \<Rightarrow> nat \<Rightarrow> (jsmntok_t list \<Rightarrow> nat \<Rightarrow> bool) \<Rightarrow> string \<Rightarrow> bool" where
  "piece_run js num N desc s \<longleftrightarrow> (\<forall>d q n a ts c. primitive_end d \<and> text_at js q (s @ [d]) \<and> n + N \<le> num \<and> inside num a n ts \<longrightarrow>
     (\<exists>k' ts'. jsmn_loop js num c (parser_at q n (int a), Some ts) =
         jsmn_loop js num (c + int N) (parser_at (q + length s) (n + N) k', Some ts') \<and>
       length ts' = num \<and> sized a 1 n ts ts' \<and> (\<forall>i. n \<le> i \<and> i < n + N \<longrightarrow> \<not> tok_open (ts' ! i)) \<and> desc ts' n \<and>
       (k' = int a \<or> \<not> is_container (ts' ! nat k') \<and> k' \<noteq> -1)))"

lemma piece_element:
  assumes "value_run js num v s" and "blank w1" and "blank w2"
  shows "piece_run js num (ntoks v) (\<lambda>ts n. describes js ts n v) (w1 @ s @ w2)"
  unfolding piece_run_def
proof (intro allI impI, elim conjE)
  fix d q n a and ts :: "jsmntok_t list" and c
  assume "primitive_end d" "text_at js q ((w1 @ s @ w2) @ [d])" "n + ntoks v \<le> num" "inside num a n ts"
  with element_inside [OF assms, of d q n a ts c]
  show "\<exists>k' ts'. jsmn_loop js num c (parser_at q n (int a), Some ts) =
         jsmn_loop js num (c + int (ntoks v)) (parser_at (q + length (w1 @ s @ w2)) (n + ntoks v) k', Some ts') \<and>
       length ts' = num \<and> sized a 1 n ts ts' \<and> (\<forall>i. n \<le> i \<and> i < n + ntoks v \<longrightarrow> \<not> tok_open (ts' ! i)) \<and> describes js ts' n v \<and>
       (k' = int a \<or> \<not> is_container (ts' ! nat k') \<and> k' \<noteq> -1)"
    by (intro exI [of _ "int a"]) simp
qed

lemma piece_member:
  assumes "value_run js num v s" and "blank w1" and "blank w2" and "blank w3" and "blank w4" and "str_body k"
  shows "piece_run js num (Suc (ntoks v)) (\<lambda>ts n. describes_members js ts n [(k, v)]) (w1 @ quoted k @ w2 @ CHR '':'' # w3 @ s @ w4)"
  unfolding piece_run_def
proof (intro allI impI, elim conjE)
  fix d q n a and ts :: "jsmntok_t list" and c
  let ?s = "w1 @ quoted k @ w2 @ CHR '':'' # w3 @ s @ w4"
  assume "primitive_end d" "text_at js q (?s @ [d])" "n + Suc (ntoks v) \<le> num" "inside num a n ts"
  with member_inside [OF assms, of d q n a ts c]
  have "\<exists>k' ts'. jsmn_loop js num c (parser_at q n (int a), Some ts) =
         jsmn_loop js num (c + 1 + int (ntoks v)) (parser_at (q + length ?s) (Suc n + ntoks v) k', Some ts') \<and>
       length ts' = num \<and> sized a 1 n ts ts' \<and> (\<forall>i. n \<le> i \<and> i < Suc n + ntoks v \<longrightarrow> \<not> tok_open (ts' ! i)) \<and>
       describes_members js ts' n [(k, v)] \<and> (k' = int a \<or> \<not> is_container (ts' ! nat k') \<and> k' \<noteq> -1)"
    by (simp only: append.assoc append_Cons add_Suc_right append_Nil)
  then show "\<exists>k' ts'. jsmn_loop js num c (parser_at q n (int a), Some ts) =
         jsmn_loop js num (c + int (Suc (ntoks v))) (parser_at (q + length ?s) (n + Suc (ntoks v)) k', Some ts') \<and>
       length ts' = num \<and> sized a 1 n ts ts' \<and> (\<forall>i. n \<le> i \<and> i < n + Suc (ntoks v) \<longrightarrow> \<not> tok_open (ts' ! i)) \<and>
       describes_members js ts' n [(k, v)] \<and> (k' = int a \<or> \<not> is_container (ts' ! nat k') \<and> k' \<noteq> -1)"
    by (simp only: add_Suc_right add_Suc of_nat_Suc add.assoc)
qed

lemma body_single:
  assumes "piece_run js num N desc s" and "primitive_end d"
  shows "body_run js num N 1 desc d s"
  using assms unfolding piece_run_def body_run_def by meson

lemma body_cons:
  assumes piece: "piece_run js num N desc s" and rest: "body_run js num N' len desc' d t"
    and frame: "\<And>ts ts' n. (\<And>i. n \<le> i \<Longrightarrow> i < n + N \<Longrightarrow> ts' ! i = ts ! i) \<Longrightarrow> desc ts' n = desc ts n"
  shows "body_run js num (N + N') (Suc len) (\<lambda>ts n. desc ts n \<and> desc' ts (n + N)) d (s @ CHR '','' # t)"
  unfolding body_run_def
proof (intro allI impI, elim conjE)
  fix q n a and ts :: "jsmntok_t list" and c
  assume t: "text_at js q ((s @ CHR '','' # t) @ [d])" and n: "n + (N + N') \<le> num" and ins: "inside num a n ts"
  let ?q = "q + length s" and ?n = "n + N"
  have t1: "text_at js q (s @ '','')" "text_at js (Suc ?q) (t @ [d])" using t by auto
  have "primitive_end (CHR '','')" "n + N \<le> num" using n by (simp_all add: primitive_end_def)
  with piece t1(1) ins obtain k1 ts1 where
    r1: "jsmn_loop js num c (parser_at q n (int a), Some ts) = jsmn_loop js num (c + int N) (parser_at ?q ?n k1, Some ts1)"
    and l1: "length ts1 = num" and s1: "sized a 1 n ts ts1" and c1: "\<forall>i. n \<le> i \<and> i < ?n \<longrightarrow> \<not> tok_open (ts1 ! i)"
    and d1: "desc ts1 n" and k1: "k1 = int a \<or> \<not> is_container (ts1 ! nat k1) \<and> k1 \<noteq> -1"
    unfolding piece_run_def by blast
  have i1: "inside num a ?n ts1" by (rule sized_inside [OF ins s1 l1 _ c1]) simp
  have r2: "jsmn_loop js num (c + int N) (parser_at ?q ?n k1, Some ts1) =
      jsmn_loop js num (c + int N) (parser_at (Suc ?q) ?n (int a), Some ts1)"
    using t1 i1 k1 by (intro loop_comma) (auto simp: inside_def)
  have "?n + N' \<le> num" using n by simp
  with rest t1(2) i1 obtain k' ts2 where
    r3: "jsmn_loop js num (c + int N) (parser_at (Suc ?q) ?n (int a), Some ts1) =
      jsmn_loop js num (c + int N + int N') (parser_at (Suc ?q + length t) (?n + N') k', Some ts2)"
    and l2: "length ts2 = num" and s2: "sized a len ?n ts1 ts2"
    and c2: "\<forall>i. ?n \<le> i \<and> i < ?n + N' \<longrightarrow> \<not> tok_open (ts2 ! i)" and d2: "desc' ts2 ?n"
    unfolding body_run_def by blast
  have "desc ts2 n" using d1 frame [of n ts2 ts1] s2 ins by (auto simp: sized_def inside_def)
  moreover have "sized a (1 + len) n ts ts2" by (rule sized_trans [OF s1 s2]) simp
  moreover have "\<forall>i. n \<le> i \<and> i < n + (N + N') \<longrightarrow> \<not> tok_open (ts2 ! i)"
  proof (intro allI impI)
    fix i assume i: "n \<le> i \<and> i < n + (N + N')"
    show "\<not> tok_open (ts2 ! i)" using i c1 c2 s2 ins by (cases "i < ?n") (auto simp: sized_def inside_def)
  qed
  ultimately show "\<exists>k' ts'. jsmn_loop js num c (parser_at q n (int a), Some ts) =
        jsmn_loop js num (c + int (N + N')) (parser_at (q + length (s @ CHR '','' # t)) (n + (N + N')) k', Some ts') \<and>
      length ts' = num \<and> sized a (Suc len) n ts ts' \<and> (\<forall>i. n \<le> i \<and> i < n + (N + N') \<longrightarrow> \<not> tok_open (ts' ! i)) \<and>
      desc ts' n \<and> desc' ts' (n + N)"
    using r1 r2 r3 l2 d2 by (intro exI [of _ k'] exI [of _ ts2]) (simp add: add.assoc)
qed

lemma text_runs:
  "json_text v s \<Longrightarrow> value_run js num v s"
  "elements_text vs t \<Longrightarrow> body_run js num (ntoks_list vs) (length vs) (\<lambda>ts n. describes_list js ts n vs) (CHR '']'') t"
  "members_text ms u \<Longrightarrow> body_run js num (ntoks_members ms) (length ms) (\<lambda>ts n. describes_members js ts n ms) (CHR ''}'') u"
proof (induction rule: json_text_elements_text_members_text.inducts)
  case (text_prim s)
  then show ?case using loop_prim by (intro run_leaf) auto
next
  case (text_str s)
  then show ?case using loop_str by (intro run_leaf) auto
next
  case (text_arr_empty w)
  then have "body_run js num 0 0 (\<lambda>_ _. True) (CHR '']'') w" by (intro body_blank) auto
  then show ?case by (rule run_container) auto
next
  case (text_arr vs s)
  from text_arr.IH show ?case by (rule run_container [where type = JSMN_ARRAY], simp_all) (rule describes_cong(2), blast)
next
  case (text_obj_empty w)
  then have "body_run js num 0 0 (\<lambda>_ _. True) (CHR ''}'') w" by (intro body_blank) auto
  then show ?case by (rule run_container) auto
next
  case (text_obj ms s)
  from text_obj.IH show ?case by (rule run_container [where type = JSMN_OBJECT], simp_all) (rule describes_cong(3), blast)
next
  case (text_elem w1 v s w2)
  then have "body_run js num (ntoks v) 1 (\<lambda>ts n. describes js ts n v) (CHR '']'') (w1 @ s @ w2)"
    by (intro body_single piece_element) (auto simp: primitive_end_def)
  then show ?case by simp
next
  case (text_elems w1 v s w2 vs t)
  have "body_run js num (ntoks v + ntoks_list vs) (Suc (length vs))
      (\<lambda>ts n. describes js ts n v \<and> describes_list js ts (n + ntoks v) vs) (CHR '']'') ((w1 @ s @ w2) @ CHR '','' # t)"
    by (rule body_cons [OF piece_element [OF text_elems.IH(1) text_elems.hyps(1,3)] text_elems.IH(2)])
      (rule describes_cong(1), blast)
  then show ?case by simp
next
  case (text_member w1 k w2 w3 v s w4)
  then have "body_run js num (Suc (ntoks v)) 1 (\<lambda>ts n. describes_members js ts n [(k, v)]) (CHR ''}'')
      (w1 @ quoted k @ w2 @ CHR '':'' # w3 @ s @ w4)"
    by (intro body_single piece_member) (auto simp: primitive_end_def)
  then show ?case by simp
next
  case (text_members w1 k w2 w3 v s w4 ms t)
  have "describes_members js ts' n [(k, v)] = describes_members js ts n [(k, v)]"
    if "\<And>i. n \<le> i \<Longrightarrow> i < n + Suc (ntoks v) \<Longrightarrow> ts' ! i = ts ! i" for ts ts' n
    using that by (intro describes_cong(3)) simp
  then have "body_run js num (Suc (ntoks v) + ntoks_members ms) (Suc (length ms))
      (\<lambda>ts n. describes_members js ts n [(k, v)] \<and> describes_members js ts (n + Suc (ntoks v)) ms) (CHR ''}'')
      ((w1 @ quoted k @ w2 @ CHR '':'' # w3 @ s @ w4) @ CHR '','' # t)"
    by (intro body_cons [OF piece_member [OF text_members.IH(1)] text_members.IH(2)]) (use text_members.hyps in blast)+
  then show ?case by simp
qed

lemma tokenized_text:
  assumes "json_text v s" and "blank w1" and "blank w2" and "js = w1 @ s @ w2"
    and "length ts = num" and "ntoks v \<le> num"
  shows "\<exists>ts'. jsmn_parse jsmn_init js (Some ts) num = (Inr (int (ntoks v)), parser_at (length js) (ntoks v) (-1), Some ts') \<and>
    length ts' = num \<and> describes js ts' 0 v"
proof -
  have t: "text_at js 0 w1" "text_at js (length w1) s" "text_at js (length w1 + length s) w2"
    using assms(4) by (auto simp: text_at_def)
  have end_: "value_end js (length w1 + length s)"
    using assms(3,4) t(3) by (cases w2) (auto simp: value_end_def more_text_def blank_def dest: white_facts)
  have "\<exists>k' ts'. jsmn_loop js num 0 (parser_at (length w1) 0 (-1), Some ts) =
         jsmn_loop js num (0 + int (ntoks v)) (parser_at (length w1 + length s) (0 + ntoks v) k', Some ts') \<and>
       (k' = -1 \<or> k' = super_of (find_open ts 0)) \<and> extends num (-1) 0 ts (0 + ntoks v) ts' \<and> describes js ts' 0 v"
    by (rule text_runs(1) [OF assms(1), unfolded value_run_def, rule_format]) (use t(2) end_ assms(5,6) in simp)
  then obtain ts' where r: "jsmn_loop js num 0 (parser_at (length w1) 0 (-1), Some ts) =
         jsmn_loop js num (int (ntoks v)) (parser_at (length w1 + length s) (ntoks v) (-1), Some ts')"
    and e: "extends num (-1) 0 ts (ntoks v) ts'" and d: "describes js ts' 0 v" by (auto simp: super_of_def)
  have "jsmn_loop js num 0 (jsmn_init, Some ts) = jsmn_loop js num (int (ntoks v)) (parser_at (length js) (ntoks v) (-1), Some ts')"
    using loop_blank [OF assms(2) t(1), of num 0 0 "-1" ts] r loop_blank [OF assms(3) t(3), of num "int (ntoks v)" "ntoks v" "-1" ts'] assms(4)
    by (simp add: jsmn_init_def parser_at_def add.assoc)
  also have "\<dots> = (None, int (ntoks v), parser_at (length js) (ntoks v) (-1), Some ts')"
    by (subst jsmn_loop.simps) (simp add: more_text_def)
  finally have "jsmn_loop js num 0 (jsmn_init, Some ts) = (None, int (ntoks v), parser_at (length js) (ntoks v) (-1), Some ts')" .
  moreover have "find_open ts' (ntoks v) = None" using e by (simp add: extends_def find_open_None)
  ultimately show ?thesis using d e by (auto simp: jsmn_parse_def jsmn_init_def extends_def)
qed

text \<open>
  A text that denotes a JSON value, with white space around and inside it, is tokenized: given room for
  its tokens, the tokenizer succeeds, consumes the whole text and leaves tokens that describe the value, in
  the order of the text, whatever the array held before.
\<close>

theorem jsmn_parse_text:
  assumes "json_text v s" and "blank w1" and "blank w2" and "js = w1 @ s @ w2"
    and "length ts = num" and "ntoks v \<le> num"
  shows "\<exists>ts'. jsmn_parse jsmn_init js (Some ts) num = (Inr (int (ntoks v)), parser_at (length js) (ntoks v) (-1), Some ts') \<and>
    length ts' = num \<and> describes js ts' 0 v"
  by (rule tokenized_text [OF assms])

theorem jsmn_parse_text_witness:
  "\<exists>ts'. jsmn_parse jsmn_init ''[7, true ]'' (Some (replicate 3 \<lparr>tok_type = JSMN_UNDEFINED, tok_start = 0, tok_end = 0, tok_size = 0\<rparr>)) 3 =
     (Inr 3, parser_at 10 3 (-1), Some ts') \<and> describes ''[7, true ]'' ts' 0 (J_arr [J_prim ''7'', J_prim ''true''])"
proof -
  have "json_text (J_prim ''7'') ''7''" "json_text (J_prim ''true'') ''true''"
    by (rule text_prim, code_simp)+
  moreover have "blank '' ''" "blank []" by code_simp+
  ultimately have "elements_text [J_prim ''7'', J_prim ''true''] ([] @ ''7'' @ [] @ CHR '','' # ('' '' @ ''true'' @ '' ''))"
    by (intro text_elems text_elem)
  from text_arr [OF this] have j: "json_text (J_arr [J_prim ''7'', J_prim ''true'']) ''[7, true ]''" by simp
  have b: "blank []" by (simp add: blank_def)
  show ?thesis
    using jsmn_parse_text [OF j b b refl, of "replicate 3 \<lparr>tok_type = JSMN_UNDEFINED, tok_start = 0, tok_end = 0, tok_size = 0\<rparr>" 3]
    by auto
qed

section \<open>Room for the tokens\<close>

text \<open>A run that succeeds does the same with a longer array.\<close>

lemma find_append: "n \<le> length ts \<Longrightarrow> find_open (ts @ ex) n = find_open ts n"
  "n \<le> length ts \<Longrightarrow> find_container (ts @ ex) n = find_container ts n"
  by (induction n) (simp_all add: nth_append)

lemma grow_append: "k < int (length ts) \<Longrightarrow> -1 \<le> k \<Longrightarrow> grow k (ts @ ex) = grow k ts @ ex"
  by (auto simp: grow_def nth_append list_update_append)

lemma alloc_append:
  "jsmn_alloc_token p ts num = Some (i, p', ts') \<Longrightarrow> length ts = num \<Longrightarrow>
   jsmn_alloc_token p (ts @ ex) (num + length ex) = Some (i, p', ts' @ ex) \<and> i < num \<and> length ts' = num"
  by (auto simp: jsmn_alloc_token_def Let_def nth_append list_update_append split: if_splits)

definition more_tokens :: "jsmntok_t list \<Rightarrow> tokenized \<Rightarrow> tokenized" where
  "more_tokens ex pt = (fst pt, map_option (\<lambda>ts. ts @ ex) (snd pt))"

lemma fill_append: "i < length ts \<Longrightarrow> jsmn_fill_token i type s e (ts @ ex) = jsmn_fill_token i type s e ts @ ex"
  by (simp add: jsmn_fill_token_def nth_append list_update_append)

lemma token_append:
  assumes "length ts = num"
  shows "jsmn_parse_string js num (p, Some ts) = (None, pt) \<Longrightarrow>
      jsmn_parse_string js (num + length ex) (p, Some (ts @ ex)) = (None, more_tokens ex pt)"
    and "jsmn_parse_primitive js num (p, Some ts) = (None, pt) \<Longrightarrow>
      jsmn_parse_primitive js (num + length ex) (p, Some (ts @ ex)) = (None, more_tokens ex pt)"
proof -
  assume "jsmn_parse_string js num (p, Some ts) = (None, pt)"
  then obtain q i p' ts' where "string_scan js (Suc (ps_pos p)) = Inr q" and a: "jsmn_alloc_token p ts num = Some (i, p', ts')"
    and "pt = (p'\<lparr>ps_pos := q\<rparr>, Some (jsmn_fill_token i JSMN_STRING (int (ps_pos p) + 1) (int q) ts'))"
    by (auto simp: jsmn_parse_string_def Let_def split: sum.splits option.splits)
  with alloc_append [OF a assms, of ex]
  show "jsmn_parse_string js (num + length ex) (p, Some (ts @ ex)) = (None, more_tokens ex pt)"
    by (simp add: jsmn_parse_string_def more_tokens_def fill_append)
next
  assume "jsmn_parse_primitive js num (p, Some ts) = (None, pt)"
  then obtain q i p' ts' where "prim_scan js (ps_pos p) = Some q" and a: "jsmn_alloc_token p ts num = Some (i, p', ts')"
    and "pt = (p'\<lparr>ps_pos := q - 1\<rparr>, Some (jsmn_fill_token i JSMN_PRIMITIVE (int (ps_pos p)) (int q) ts'))"
    by (auto simp: jsmn_parse_primitive_def Let_def split: option.splits)
  with alloc_append [OF a assms, of ex]
  show "jsmn_parse_primitive js (num + length ex) (p, Some (ts @ ex)) = (None, more_tokens ex pt)"
    by (simp add: jsmn_parse_primitive_def more_tokens_def fill_append)
qed

lemma counted_append:
  assumes "counted_token r c = (None, c', pt')" and "\<And>pt. r = (None, pt) \<Longrightarrow> r' = (None, more_tokens ex pt)"
    and "\<And>p ts. r = (None, p, Some ts) \<Longrightarrow> -1 \<le> ps_toksuper p \<and> ps_toksuper p < int (length ts)"
  shows "counted_token r' c = (None, c', more_tokens ex pt')"
proof (cases r)
  case (fields e p tokens)
  with assms(1) have e: "e = None" by (cases e) (auto simp: counted_token_def)
  with fields assms(2) have "r' = (None, p, map_option (\<lambda>ts. ts @ ex) tokens)" by (simp add: more_tokens_def)
  with fields e assms(1,3) show ?thesis
    by (cases tokens) (auto simp: counted_token_def more_tokens_def grow_append)
qed

lemma step_append:
  assumes inv: "jsmn_inv js num p ts" and "more_text js (ps_pos p)"
    and s: "jsmn_step js num c (p, Some ts) = (None, c', pt')"
  shows "jsmn_step js (num + length ex) c (p, Some (ts @ ex)) = (None, c', more_tokens ex pt')"
proof -
  have l: "length ts = num" and n: "ps_toknext p \<le> length ts" and k: "-1 \<le> ps_toksuper p" "ps_toksuper p < int (length ts)"
    using inv by (auto simp: jsmn_inv_def)
  have str: "counted_token (jsmn_parse_string js (num + length ex) (p, Some (ts @ ex))) c = (None, c', more_tokens ex pt')"
    if "counted_token (jsmn_parse_string js num (p, Some ts)) c = (None, c', pt')"
    by (rule counted_append [OF that token_append(1) [OF l]])
      (use k l in \<open>auto simp: jsmn_parse_string_def jsmn_alloc_token_def jsmn_fill_token_def Let_def split: sum.splits option.splits if_splits\<close>)
  have prim: "counted_token (jsmn_parse_primitive js (num + length ex) (p, Some (ts @ ex))) c = (None, c', more_tokens ex pt')"
    if "counted_token (jsmn_parse_primitive js num (p, Some ts)) c = (None, c', pt')"
    by (rule counted_append [OF that token_append(2) [OF l]])
      (use k l in \<open>auto simp: jsmn_parse_primitive_def jsmn_alloc_token_def jsmn_fill_token_def Let_def split: option.splits if_splits\<close>)
  have op: "(case open_token x (num + length ex) (p, Some (ts @ ex)) of (e, pt) \<Rightarrow> (e, c + 1, pt)) = (None, c', more_tokens ex pt')"
    if "(case open_token x num (p, Some ts) of (e, pt) \<Rightarrow> (e, c + 1, pt)) = (None, c', pt')" for x
  proof (cases "jsmn_alloc_token p ts num")
    case (Some a)
    obtain i p' ts' where a: "a = (i, p', ts')" by (cases a)
    from alloc_append [OF Some [unfolded a] l, of ex] that Some a k l show ?thesis
      by (auto simp: open_token_def Let_def more_tokens_def grow_append nth_append list_update_append)
  qed (use that in \<open>simp add: open_token_def\<close>)
  have cl: "(case close_token x (p, Some (ts @ ex)) of (e, pt) \<Rightarrow> (e, c, pt)) = (None, c', more_tokens ex pt')"
    if "(case close_token x (p, Some ts) of (e, pt) \<Rightarrow> (e, c, pt)) = (None, c', pt')" for x
  proof (cases "find_open ts (ps_toknext p)")
    case (Some i)
    then have i: "i < length ts" using n by (simp add: find_open_Some)
    have "find_open (ts[i := t] @ ex) (Suc i) = find_open (ts[i := t]) (Suc i)" for t by (rule find_append) (use i in simp)
    with that Some i show ?thesis
      by (auto simp: close_token_def Let_def more_tokens_def find_append [OF n] nth_append list_update_append simp del: find_open.simps split: if_splits)
  qed (use that in \<open>simp add: close_token_def\<close>)
  have cm: "comma (p, Some (ts @ ex)) = more_tokens ex (comma (p, Some ts))"
    using k by (auto simp: comma_def more_tokens_def find_append [OF n] nth_append split: option.splits)
  show ?thesis
    using s str prim op cl cm by (auto simp: jsmn_step_def Let_def more_tokens_def split: if_splits)
qed

lemma loop_append:
  assumes "jsmn_inv js num p ts" and "jsmn_loop js num c (p, Some ts) = (None, c', pt')"
  shows "jsmn_loop js (num + length ex) c (p, Some (ts @ ex)) = (None, c', more_tokens ex pt')"
  using assms
proof (induction "length js - ps_pos p" arbitrary: c p ts rule: less_induct)
  case less
  show ?case
  proof (cases "more_text js (ps_pos p)")
    case True
    obtain c1 p1 tokens1 where s: "jsmn_step js num c (p, Some ts) = (None, c1, p1, tokens1)"
      using less.prems(2) True by (subst (asm) jsmn_loop.simps) (auto split: prod.splits option.splits)
    with jsmn_step_ok [OF less.prems(1) True, of c] obtain ts1 where ts1: "tokens1 = Some ts1"
      and inv: "jsmn_inv js num (p1\<lparr>ps_pos := ps_pos p1 + 1\<rparr>) ts1" by (cases tokens1) (auto simp: step_ok_def)
    have l: "jsmn_loop js num c1 (p1\<lparr>ps_pos := ps_pos p1 + 1\<rparr>, Some ts1) = (None, c', pt')"
      using less.prems(2) True s ts1 by (subst (asm) jsmn_loop.simps) simp
    have "ps_pos p \<le> ps_pos p1" using jsmn_step_pos [of js num c "(p, Some ts)"] s True by simp
    with True have d: "length js - ps_pos (p1\<lparr>ps_pos := ps_pos p1 + 1\<rparr>) < length js - ps_pos p" by (auto simp: more_text_def)
    from less.hyps [OF d inv l] step_append [OF less.prems(1) True s, of ex] True ts1 show ?thesis
      by (subst jsmn_loop.simps) (simp add: more_tokens_def)
  next
    case False
    with less.prems(2) show ?thesis by (subst jsmn_loop.simps, subst (asm) jsmn_loop.simps) (auto simp: more_tokens_def)
  qed
qed

text \<open>The text of a value with more tokens than the array has room for is refused.\<close>

lemma too_many_tokens:
  assumes "json_text v s" and "blank w1" and "blank w2" and "js = w1 @ s @ w2" and "length ts = num" and "num < ntoks v"
  shows "\<exists>e pt. jsmn_parse jsmn_init js (Some ts) num = (Inl e, pt)"
proof (rule ccontr)
  assume "\<nexists>e pt. jsmn_parse jsmn_init js (Some ts) num = (Inl e, pt)"
  then obtain n pt where r: "jsmn_parse jsmn_init js (Some ts) num = (Inr n, pt)"
    by (cases "jsmn_parse jsmn_init js (Some ts) num", cases "fst (jsmn_parse jsmn_init js (Some ts) num)") auto
  obtain e c p tokens where l: "jsmn_loop js num 0 (jsmn_init, Some ts) = (e, c, p, tokens)"
    by (cases "jsmn_loop js num 0 (jsmn_init, Some ts)") auto
  from jsmn_loop_inv [OF jsmn_inv_init [OF assms(5)] l] obtain ts' where t: "tokens = Some ts'" "jsmn_inv js num p ts'"
    and c: "e = None \<longrightarrow> c = int (ps_toknext p)" by (auto simp: jsmn_init_def)
  have e: "e = None" "c = n" using r l t by (auto simp: jsmn_parse_def jsmn_init_def split: option.splits if_splits)
  let ?ex = "replicate (ntoks v - num) (undefined :: jsmntok_t)"
  from loop_append [OF jsmn_inv_init [OF assms(5)] l [unfolded e], of ?ex]
  have m: "jsmn_loop js (ntoks v) 0 (jsmn_init, Some (ts @ ?ex)) = (None, n, p, Some (ts' @ ?ex))"
    using t(1) assms(6) by (simp add: more_tokens_def)
  have "length (ts @ ?ex) = ntoks v" using assms(5,6) by simp
  from tokenized_text [OF assms(1-4) this order_refl] have "n = int (ntoks v)"
    using m by (auto simp: jsmn_parse_def jsmn_init_def split: if_splits)
  with c e t(2) assms(6) show False by (simp add: jsmn_inv_def)
qed

section \<open>Compact texts\<close>

text \<open>A JSON value without white space.\<close>

fun print_json :: "json \<Rightarrow> string" and print_elements :: "json list \<Rightarrow> string" and print_members :: "(string \<times> json) list \<Rightarrow> string" where
  "print_json (J_prim s) = s"
| "print_json (J_str s) = quoted s"
| "print_json (J_arr vs) = CHR ''['' # print_elements vs @ '']''"
| "print_json (J_obj ms) = CHR ''{'' # print_members ms @ ''}''"
| "print_elements [] = []"
| "print_elements (v # vs) = print_json v @ (if vs = [] then [] else CHR '','' # print_elements vs)"
| "print_members [] = []"
| "print_members ((k, v) # ms) =
     quoted k @ CHR '':'' # print_json v @ (if ms = [] then [] else CHR '','' # print_members ms)"

fun json_ok :: "json \<Rightarrow> bool" and elements_ok :: "json list \<Rightarrow> bool" and members_ok :: "(string \<times> json) list \<Rightarrow> bool" where
  "json_ok (J_prim s) = prim_text s"
| "json_ok (J_str s) = str_body s"
| "json_ok (J_arr vs) = elements_ok vs"
| "json_ok (J_obj ms) = members_ok ms"
| "elements_ok [] = True"
| "elements_ok (v # vs) = (json_ok v \<and> elements_ok vs)"
| "members_ok [] = True"
| "members_ok ((k, v) # ms) = (str_body k \<and> json_ok v \<and> members_ok ms)"

lemma blank_Nil [simp]: "blank []"
  by (simp add: blank_def)

lemma print_json_text:
  "json_ok v \<Longrightarrow> json_text v (print_json v)"
  "elements_ok vs \<Longrightarrow> vs \<noteq> [] \<Longrightarrow> elements_text vs (print_elements vs)"
  "members_ok ms \<Longrightarrow> ms \<noteq> [] \<Longrightarrow> members_text ms (print_members ms)"
proof (induction v and vs and ms rule: ntoks_ntoks_list_ntoks_members.induct)
  case (3 vs)
  show ?case
  proof (cases "vs = []")
    case True
    then show ?thesis using text_arr_empty [OF blank_Nil] by simp
  next
    case False
    with 3 have "elements_text vs (print_elements vs)" by simp
    from text_arr [OF this] show ?thesis by simp
  qed
next
  case (4 ms)
  show ?case
  proof (cases "ms = []")
    case True
    then show ?thesis using text_obj_empty [OF blank_Nil] by simp
  next
    case False
    with 4 have "members_text ms (print_members ms)" by simp
    from text_obj [OF this] show ?thesis by simp
  qed
next
  case (6 v vs)
  then have v: "json_text v (print_json v)" by simp
  show ?case
    using text_elem [OF blank_Nil v blank_Nil] text_elems [OF blank_Nil v blank_Nil "6.IH"(2)] "6.prems" by (cases "vs = []") simp_all
next
  case (8 k v ms)
  then have v: "json_text v (print_json v)" and k: "str_body k" by simp_all
  show ?case
    using text_member [OF blank_Nil k blank_Nil blank_Nil v blank_Nil] "8.prems"
      text_members [OF blank_Nil k blank_Nil blank_Nil v blank_Nil "8.IH"(2)] by (cases "ms = []") simp_all
qed (auto intro: text_prim text_str)

end
