(* ===== verification/Json_Encode.thy ===== *)
theory Json_Encode
  imports Jsmn Openrtb
begin

text \<open>
  The encoders of \<^verbatim>\<open>rtb/DSL/encoders.hpp\<close>, which turn an array of tokens into a tree of values: one overload
  for \<open>boost::any\<close>, one for \<open>jsonv::value\<close>. Number conversion is a parameter. The lemmas say that
  the tokens of a JSON value are encoded member by member and element by element.
\<close>

section \<open>Encoded values\<close>

text \<open>
  Both overloads build the same tree: \<open>Enc_none\<close> is an empty \<open>boost::any\<close> or the null value of \<open>jsonv\<close>. Members are
  kept in order of insertion; a map does not replace an existing key on insertion, and is only looked up.
\<close>

datatype encoded = Enc_none | Enc_double double | Enc_int int | Enc_bool bool | Enc_string string |
  Enc_vector "encoded list" | Enc_map "(string \<times> encoded) list"

datatype dsl_error = Bad_lexical_cast | Bad_any_cast | Kind_error | Out_of_range | Jsmn_exception | Read_past_tokens

record numbers =
  cast_double :: "string \<Rightarrow> double option"
  cast_int64 :: "string \<Rightarrow> int option"
  cast_uint64 :: "string \<Rightarrow> u64 option"

text \<open>What the overloads do differently: an empty primitive, and a key that is not a string.\<close>

record overload =
  ov_empty :: dsl_error
  ov_key :: dsl_error

definition any_overload :: overload where
  "any_overload = \<lparr>ov_empty = Bad_lexical_cast, ov_key = Bad_any_cast\<rparr>"

definition jsonv_overload :: overload where
  "jsonv_overload = \<lparr>ov_empty = Out_of_range, ov_key = Kind_error\<rparr>"

definition cast :: "(string \<Rightarrow> 'a option) \<Rightarrow> ('a \<Rightarrow> encoded) \<Rightarrow> string \<Rightarrow> dsl_error + encoded" where
  "cast lexical_cast f s = (case lexical_cast s of None \<Rightarrow> Inl Bad_lexical_cast | Some x \<Rightarrow> Inr (f x))"

definition encode_primitive :: "overload \<Rightarrow> numbers \<Rightarrow> string \<Rightarrow> dsl_error + encoded" where
  "encode_primitive ov nums s =
     (if CHR ''.'' \<in> set s then cast (cast_double nums) Enc_double s
      else if s = [] then Inl (ov_empty ov)
      else if s ! 0 = CHR ''-'' then cast (cast_int64 nums) Enc_int s
      else if s ! 0 = CHR ''t'' then Inr (Enc_bool True)
      else if s ! 0 = CHR ''f'' then Inr (Enc_bool False)
      else cast (cast_uint64 nums) (\<lambda>u. Enc_int (sint u)) s)"

definition insert_absent :: "string \<Rightarrow> encoded \<Rightarrow> (string \<times> encoded) list \<Rightarrow> (string \<times> encoded) list" where
  "insert_absent k v ms = (if map_of ms k = None then ms @ [(k, v)] else ms)"

definition insert_member :: "overload \<Rightarrow> encoded \<Rightarrow> encoded \<Rightarrow> (string \<times> encoded) list \<Rightarrow> dsl_error + (string \<times> encoded) list" where
  "insert_member ov k v ms =
     (if k = Enc_none \<or> v = Enc_none then Inr ms
      else (case k of Enc_string key \<Rightarrow> Inr (insert_absent key v ms) | _ \<Rightarrow> Inl (ov_key ov)))"

section \<open>The encoder\<close>

text \<open>
  The pointer to the current token is the rest of the array from there on, so reading past the array is
  visible. The remaining count is an unsigned 64-bit number.
\<close>

definition minus_size :: "int \<Rightarrow> nat \<Rightarrow> int" where
  "minus_size count j = (count - int j) mod 2 ^ 64"

function (sequential) encode :: "overload \<Rightarrow> numbers \<Rightarrow> string \<Rightarrow> jsmntok_t list \<Rightarrow> int \<Rightarrow> dsl_error + (nat \<times> encoded)"
  and encode_members :: "overload \<Rightarrow> numbers \<Rightarrow> string \<Rightarrow> jsmntok_t list \<Rightarrow> int \<Rightarrow> nat \<Rightarrow> nat \<Rightarrow> (string \<times> encoded) list \<Rightarrow>
    dsl_error + (nat \<times> (string \<times> encoded) list)"
  and encode_elements :: "overload \<Rightarrow> numbers \<Rightarrow> string \<Rightarrow> jsmntok_t list \<Rightarrow> int \<Rightarrow> nat \<Rightarrow> nat \<Rightarrow> encoded list \<Rightarrow>
    dsl_error + (nat \<times> encoded list)" where
  "encode ov nums js t count =
     (if count = 0 then Inr (0, Enc_none)
      else (case t of
              [] \<Rightarrow> Inl Read_past_tokens
            | tok # rest \<Rightarrow>
                (case tok_type tok of
                   JSMN_PRIMITIVE \<Rightarrow>
                     (case encode_primitive ov nums (slice js tok) of Inl e \<Rightarrow> Inl e | Inr v \<Rightarrow> Inr (1, v))
                 | JSMN_STRING \<Rightarrow> Inr (1, Enc_string (slice js tok))
                 | JSMN_OBJECT \<Rightarrow>
                     (case encode_members ov nums js rest count (nat (tok_size tok)) 0 [] of
                        Inl e \<Rightarrow> Inl e | Inr (j, ms) \<Rightarrow> Inr (j + 1, Enc_map ms))
                 | JSMN_ARRAY \<Rightarrow>
                     (case encode_elements ov nums js rest count (nat (tok_size tok)) 0 [] of
                        Inl e \<Rightarrow> Inl e | Inr (j, vs) \<Rightarrow> Inr (j + 1, Enc_vector vs))
                 | JSMN_UNDEFINED \<Rightarrow> Inr (0, Enc_none))))"
| "encode_members ov nums js rest count 0 j ms = Inr (j, ms)"
| "encode_members ov nums js rest count (Suc n) j ms =
     (case encode ov nums js (drop j rest) (minus_size count j) of
        Inl e \<Rightarrow> Inl e
      | Inr (jk, k) \<Rightarrow>
          (case encode ov nums js (drop (j + jk) rest) (minus_size count (j + jk)) of
             Inl e \<Rightarrow> Inl e
           | Inr (jv, v) \<Rightarrow>
               (case insert_member ov k v ms of
                  Inl e \<Rightarrow> Inl e
                | Inr ms' \<Rightarrow> encode_members ov nums js rest count n (j + jk + jv) ms')))"
| "encode_elements ov nums js rest count 0 j vs = Inr (j, vs)"
| "encode_elements ov nums js rest count (Suc n) j vs =
     (case encode ov nums js (drop j rest) (minus_size count j) of
        Inl e \<Rightarrow> Inl e
      | Inr (jv, v) \<Rightarrow>
          encode_elements ov nums js rest count n (j + jv) (if v = Enc_none then vs else vs @ [v]))"
  by pat_completeness auto
termination
  by (relation "inv_image (less_than <*lex*> less_than)
       (\<lambda>x. case x of
          Inl (ov, nums, js, t, count) \<Rightarrow> (length t, 0)
        | Inr (Inl (ov, nums, js, rest, count, n, j, ms)) \<Rightarrow> (length rest, Suc n)
        | Inr (Inr (ov, nums, js, rest, count, n, j, vs)) \<Rightarrow> (length rest, Suc n))") auto

declare encode.simps [simp del]

text \<open>The two overloads.\<close>

definition encode_any :: "numbers \<Rightarrow> string \<Rightarrow> jsmntok_t list \<Rightarrow> int \<Rightarrow> dsl_error + (nat \<times> encoded)" where
  "encode_any = encode any_overload"

definition encode_jsonv :: "numbers \<Rightarrow> string \<Rightarrow> jsmntok_t list \<Rightarrow> int \<Rightarrow> dsl_error + (nat \<times> encoded)" where
  "encode_jsonv = encode jsonv_overload"

section \<open>The value of a JSON text\<close>

definition add_member :: "(string \<times> encoded) list \<Rightarrow> string \<times> encoded \<Rightarrow> (string \<times> encoded) list" where
  "add_member acc m = insert_absent (fst m) (snd m) acc"

lemma add_member_pair [simp]: "add_member acc (k, v) = insert_absent k v acc"
  by (simp add: add_member_def)

text \<open>
  The encoded value of a JSON value: numbers and booleans are converted, strings keep their raw text, the first
  member of a key counts, and the first primitive that cannot be converted is an error.
\<close>

fun value_of :: "overload \<Rightarrow> numbers \<Rightarrow> json \<Rightarrow> dsl_error + encoded"
  and values_of :: "overload \<Rightarrow> numbers \<Rightarrow> json list \<Rightarrow> dsl_error + encoded list"
  and members_of :: "overload \<Rightarrow> numbers \<Rightarrow> (string \<times> json) list \<Rightarrow> dsl_error + (string \<times> encoded) list" where
  "value_of ov nums (J_prim s) = encode_primitive ov nums s"
| "value_of ov nums (J_str s) = Inr (Enc_string s)"
| "value_of ov nums (J_arr vs) = (case values_of ov nums vs of Inl e \<Rightarrow> Inl e | Inr xs \<Rightarrow> Inr (Enc_vector xs))"
| "value_of ov nums (J_obj ms) =
     (case members_of ov nums ms of Inl e \<Rightarrow> Inl e | Inr xs \<Rightarrow> Inr (Enc_map (foldl add_member [] xs)))"
| "values_of ov nums [] = Inr []"
| "values_of ov nums (v # vs) =
     (case value_of ov nums v of
        Inl e \<Rightarrow> Inl e
      | Inr x \<Rightarrow> (case values_of ov nums vs of Inl e \<Rightarrow> Inl e | Inr xs \<Rightarrow> Inr (x # xs)))"
| "members_of ov nums [] = Inr []"
| "members_of ov nums ((k, v) # ms) =
     (case value_of ov nums v of
        Inl e \<Rightarrow> Inl e
      | Inr x \<Rightarrow> (case members_of ov nums ms of Inl e \<Rightarrow> Inl e | Inr xs \<Rightarrow> Inr ((k, x) # xs)))"

lemma encode_primitive_not_none: "encode_primitive ov nums s \<noteq> Inr Enc_none"
  by (auto simp: encode_primitive_def cast_def split: option.splits)

lemma value_of_not_none: "value_of ov nums v \<noteq> Inr Enc_none"
  by (cases v) (auto simp: encode_primitive_not_none split: sum.splits)

lemma minus_size_id: "int j \<le> count \<Longrightarrow> count < 2 ^ 64 \<Longrightarrow> minus_size count j = count - int j"
  by (simp add: minus_size_def)

lemma drop_Cons: "n < length ts \<Longrightarrow> drop n ts = ts ! n # drop (Suc n) ts"
  by (simp add: Cons_nth_drop_Suc)

lemma encode_described:
  "describes js ts n v \<Longrightarrow> n + ntoks v \<le> length ts \<Longrightarrow> int (ntoks v) \<le> count \<Longrightarrow> count < 2 ^ 64 \<Longrightarrow>
   encode ov nums js (drop n ts) count = (case value_of ov nums v of Inl e \<Rightarrow> Inl e | Inr x \<Rightarrow> Inr (ntoks v, x))"
  "describes_list js ts (m + j) vs \<Longrightarrow> m + j + ntoks_list vs \<le> length ts \<Longrightarrow> int (j + ntoks_list vs) < count \<Longrightarrow> count < 2 ^ 64 \<Longrightarrow>
   encode_elements ov nums js (drop m ts) count (length vs) j acc =
     (case values_of ov nums vs of Inl e \<Rightarrow> Inl e | Inr xs \<Rightarrow> Inr (j + ntoks_list vs, acc @ xs))"
  "describes_members js ts (m + j) ms \<Longrightarrow> m + j + ntoks_members ms \<le> length ts \<Longrightarrow> int (j + ntoks_members ms) < count \<Longrightarrow> count < 2 ^ 64 \<Longrightarrow>
   encode_members ov nums js (drop m ts) count (length ms) j macc =
     (case members_of ov nums ms of Inl e \<Rightarrow> Inl e | Inr xs \<Rightarrow> Inr (j + ntoks_members ms, foldl add_member macc xs))"
proof (induction v and vs and ms arbitrary: n count and j m count acc and j m count macc rule: ntoks_ntoks_list_ntoks_members.induct)
  case (1 s)
  then show ?case by (subst encode.simps) (auto simp: drop_Cons split: sum.splits)
next
  case (2 s)
  then show ?case by (subst encode.simps) (auto simp: drop_Cons)
next
  case (3 vs)
  have "encode_elements ov nums js (drop (Suc n) ts) count (length vs) 0 [] =
      (case values_of ov nums vs of Inl e \<Rightarrow> Inl e | Inr xs \<Rightarrow> Inr (0 + ntoks_list vs, [] @ xs))"
    by (rule "3.IH") (use "3.prems" in auto)
  with "3.prems" show ?case by (subst encode.simps) (auto simp: drop_Cons split: sum.splits)
next
  case (4 ms)
  have "encode_members ov nums js (drop (Suc n) ts) count (length ms) 0 [] =
      (case members_of ov nums ms of Inl e \<Rightarrow> Inl e | Inr xs \<Rightarrow> Inr (0 + ntoks_members ms, foldl add_member [] xs))"
    by (rule "4.IH") (use "4.prems" in auto)
  with "4.prems" show ?case by (subst encode.simps) (auto simp: drop_Cons split: sum.splits)
next
  case (6 v vs)
  have "encode ov nums js (drop (m + j) ts) (minus_size count j) =
      (case value_of ov nums v of Inl e \<Rightarrow> Inl e | Inr x \<Rightarrow> Inr (ntoks v, x))"
    using "6.prems" by (intro "6.IH"(1)) (auto simp: minus_size_id)
  moreover have "encode_elements ov nums js (drop m ts) count (length vs) (j + ntoks v) (acc @ [x]) =
      (case values_of ov nums vs of Inl e \<Rightarrow> Inl e | Inr xs \<Rightarrow> Inr (j + ntoks v + ntoks_list vs, (acc @ [x]) @ xs))" for x
    using "6.prems" by (intro "6.IH"(2)) (auto simp: add.assoc)
  ultimately show ?case using value_of_not_none [of ov nums v]
    by (auto simp: add.commute [of _ m] split: sum.splits)
next
  case (8 k v ms)
  have "encode ov nums js (drop (m + j) ts) (minus_size count j) = Inr (1, Enc_string k)"
    using "8.prems" by (subst encode.simps) (auto simp: minus_size_id drop_Cons)
  moreover have "encode ov nums js (drop (m + (j + 1)) ts) (minus_size count (j + 1)) =
      (case value_of ov nums v of Inl e \<Rightarrow> Inl e | Inr x \<Rightarrow> Inr (ntoks v, x))"
    using "8.prems" by (intro "8.IH"(1)) (auto simp: minus_size_id)
  moreover have "encode_members ov nums js (drop m ts) count (length ms) (j + 1 + ntoks v) (insert_absent k x macc) =
      (case members_of ov nums ms of Inl e \<Rightarrow> Inl e | Inr xs \<Rightarrow> Inr (j + 1 + ntoks v + ntoks_members ms, foldl add_member (insert_absent k x macc) xs))" for x
    using "8.prems" by (intro "8.IH"(2)) (auto simp: add.assoc)
  ultimately show ?case using value_of_not_none [of ov nums v]
    by (auto simp: add.commute [of _ m] insert_member_def split: sum.splits)
qed (simp_all)

text \<open>Conversions of plain decimal numbers, as an instance of the number parameter.\<close>

definition plain_uint64 :: "string \<Rightarrow> u64 option" where
  "plain_uint64 s =
     (if s \<noteq> [] \<and> list_all is_digit_char s \<and> dec_value s < 2 ^ 64 then Some (of_nat (dec_value s)) else None)"

definition plain_double :: "string \<Rightarrow> double option" where
  "plain_double s =
     (let a = takeWhile (\<lambda>c. c \<noteq> CHR ''.'') s; b = drop (Suc (length a)) s
      in if a \<noteq> [] \<and> list_all is_digit_char (a @ b)
         then Some (of_nat (dec_value (a @ b)) / 10 ^ length b) else None)"

definition plain_numbers :: numbers where
  "plain_numbers = \<lparr>cast_double = plain_double,
     cast_int64 = (\<lambda>s. if s \<noteq> [] \<and> s ! 0 = CHR ''-'' then map_option (\<lambda>u. - uint u) (plain_uint64 (tl s)) else map_option uint (plain_uint64 s)),
     cast_uint64 = plain_uint64\<rparr>"

text \<open>
  A key without a value is accepted by the tokenizer, but the encoder then takes the value from the token
  after the last one of the text: from memory that no token was written to, or past the end of the array.
\<close>

theorem dangling_key_reads_on:
  "\<exists>p t1 t2. jsmn_parse jsmn_init ''{\"a\"}'' (Some (g1 # g2 # gs)) (length gs + 2) = (Inr 2, p, Some (t1 # t2 # gs)) \<and>
    encode ov nums ''{\"a\"}'' (t1 # t2 # gs) (int (ps_toknext p)) =
      (case encode ov nums ''{\"a\"}'' gs 1 of
         Inl e \<Rightarrow> Inl e
       | Inr (j, v) \<Rightarrow> Inr (j + 2, Enc_map (if v = Enc_none then [] else [(''a'', v)]))) \<and>
    encode ov nums ''{\"a\"}'' [] 1 = Inl Read_past_tokens"
proof -
  let ?t1 = "\<lparr>tok_type = JSMN_OBJECT, tok_start = 0, tok_end = 5, tok_size = 1\<rparr>"
  let ?t2 = "\<lparr>tok_type = JSMN_STRING, tok_start = 2, tok_end = 3, tok_size = 0\<rparr>"
  have s: "string_scan ''{\"a\"}'' (Suc (Suc 0)) = Inr (Suc (Suc (Suc 0)))"
    by (simp add: string_scan.simps more_text_def numeral_eq_Suc)
  have "jsmn_parse jsmn_init ''{\"a\"}'' (Some (g1 # g2 # gs)) (length gs + 2) =
      (Inr 2, parser_at 5 2 (-1), Some (?t1 # ?t2 # gs))"
    by (simp add: jsmn_parse_def jsmn_loop.simps jsmn_step_def jsmn_init_def more_text_def open_token_def close_token_def
        jsmn_alloc_token_def jsmn_fill_token_def counted_token_def jsmn_parse_string_def s grow_def Let_def parser_at_def
        tok_open_def super_of_def numeral_eq_Suc)
  moreover have "slice ''{\"a\"}'' ?t2 = ''a''" by (simp add: slice_def numeral_eq_Suc)
  then have "encode ov nums ''{\"a\"}'' (?t1 # ?t2 # gs) 2 =
      (case encode ov nums ''{\"a\"}'' gs 1 of
         Inl e \<Rightarrow> Inl e
       | Inr (j, v) \<Rightarrow> Inr (j + 2, Enc_map (if v = Enc_none then [] else [(''a'', v)])))"
    by (subst encode.simps) (auto simp: encode.simps [of ov nums _ "?t2 # gs"] minus_size_def insert_member_def insert_absent_def split: sum.splits)
  ultimately show ?thesis
    by (intro exI [of _ "parser_at 5 2 (-1)"] exI [of _ ?t1] exI [of _ ?t2]) (simp add: encode.simps [of _ _ _ "[]"])
qed

end
