(* ===== verification/Any_Mapper.thy ===== *)
theory Any_Mapper
  imports Json_Encode
begin

text \<open>
  The extraction of bid requests by \<^verbatim>\<open>rtb/DSL/any_mapper.hpp\<close>: the extractors for \<open>boost::any\<close> of
  \<^verbatim>\<open>rtb/DSL/extractors.hpp\<close> and the mapper that tokenizes, encodes and extracts. An extractor that catches
  exceptions keeps what it has assigned so far. The theorems say what is extracted from a JSON text, when the
  text is refused, and that a printed request is read back.
\<close>

section \<open>Access to encoded values\<close>

text \<open>\<open>any_cast\<close> to the types the extractors use, and \<open>operator[]\<close> of a map, which adds an empty value.\<close>

fun as_map :: "encoded \<Rightarrow> dsl_error + (string \<times> encoded) list" where
  "as_map (Enc_map ms) = Inr ms"
| "as_map _ = Inl Bad_any_cast"

fun as_string :: "encoded \<Rightarrow> dsl_error + string" where
  "as_string (Enc_string s) = Inr s"
| "as_string _ = Inl Bad_any_cast"

fun as_int64 :: "encoded \<Rightarrow> dsl_error + int" where
  "as_int64 (Enc_int i) = Inr i"
| "as_int64 _ = Inl Bad_any_cast"

fun as_double :: "encoded \<Rightarrow> dsl_error + double" where
  "as_double (Enc_double d) = Inr d"
| "as_double _ = Inl Bad_any_cast"

definition subscript :: "(string \<times> encoded) list \<Rightarrow> string \<Rightarrow> encoded" where
  "subscript m k = (case map_of m k of None \<Rightarrow> Enc_none | Some v \<Rightarrow> v)"

text \<open>A sequence of assignments in a \<open>try\<close> block: the first exception ends it.\<close>

definition assign :: "dsl_error + 'a \<Rightarrow> ('a \<Rightarrow> 's \<Rightarrow> 's) \<Rightarrow> 's \<times> bool \<Rightarrow> 's \<times> bool" where
  "assign r f st =
     (case st of (s, running) \<Rightarrow>
        if running then (case r of Inl _ \<Rightarrow> (s, False) | Inr a \<Rightarrow> (f a s, True)) else (s, False))"

text \<open>An expression that may throw, used in a longer one.\<close>

definition and_then :: "dsl_error + 'a \<Rightarrow> ('a \<Rightarrow> dsl_error + 'b) \<Rightarrow> dsl_error + 'b" where
  "and_then r f = (case r of Inl e \<Rightarrow> Inl e | Inr a \<Rightarrow> f a)"

fun transform :: "('a \<Rightarrow> dsl_error + 'b) \<Rightarrow> 'a list \<Rightarrow> dsl_error + 'b list" where
  "transform f [] = Inr []"
| "transform f (x # xs) = and_then (f x) (\<lambda>y. and_then (transform f xs) (\<lambda>ys. Inr (y # ys)))"

section \<open>Extractors\<close>

text \<open>Members without an initialiser, and the enumeration values of numbers that name no enumerator.\<close>

record uninitialized =
  un_pos :: AdPosition
  un_topframe :: FramePosition
  un_at :: AuctionType
  un_privacypolicy :: bool
  un_enum :: "int \<Rightarrow> AdPosition"

text \<open>The enumeration is stored in eight bits.\<close>

definition AdPosition_of_int :: "(int \<Rightarrow> AdPosition) \<Rightarrow> int \<Rightarrow> AdPosition" where
  "AdPosition_of_int other n =
     (let n8 = (n + 128) mod 256 - 128
      in case find (\<lambda>p. AdPosition_code p = n8)
           [POS_UNKNOWN, POS_ABOVE, POS_BETWEEN_DEPRECATED, POS_BELOW, POS_HEADER, POS_FOOTER, POS_SIDEBAR, POS_FULLSCREEN, POS_UNDEFINED] of
           Some p \<Rightarrow> p | None \<Rightarrow> other n8)"

definition extract_vector :: "(encoded \<Rightarrow> dsl_error + 'a) \<Rightarrow> encoded \<Rightarrow> dsl_error + 'a list" where
  "extract_vector f v =
     (if v = Enc_none then Inr []
      else (case v of Enc_vector xs \<Rightarrow> transform f xs | _ \<Rightarrow> Inl Bad_any_cast))"

definition extract_Banner :: "uninitialized \<Rightarrow> encoded \<Rightarrow> dsl_error + Banner option" where
  "extract_Banner un v =
     (if v = Enc_none then Inr None
      else and_then (as_map v) (\<lambda>m.
        Inr (Some (fst
          (assign (as_int64 (subscript m ''pos'')) (\<lambda>n b. b\<lparr>bn_pos := AdPosition_of_int (un_enum un) n\<rparr>)
          (assign (as_int64 (subscript m ''w'')) (\<lambda>n b. b\<lparr>bn_w := word_of_int n\<rparr>)
          (assign (as_int64 (subscript m ''h'')) (\<lambda>n b. b\<lparr>bn_h := word_of_int n\<rparr>)
             (new_Banner (un_pos un) (un_topframe un), True))))))))"

definition extract_Impression :: "uninitialized \<Rightarrow> encoded \<Rightarrow> Impression" where
  "extract_Impression un v =
     (if v = Enc_none then new_Impression
      else (case as_map v of
              Inl _ \<Rightarrow> new_Impression
            | Inr m \<Rightarrow> fst
                (assign (as_string (subscript m ''bidfloorcur'')) (\<lambda>s i. i\<lparr>imp_bidfloorcur := s\<rparr>)
                (assign (as_double (subscript m ''bidfloor'')) (\<lambda>d i. i\<lparr>imp_bidfloor := d\<rparr>)
                (assign (extract_Banner un (subscript m ''banner'')) (\<lambda>b i. i\<lparr>imp_banner := b\<rparr>)
                (assign (as_string (subscript m ''id'')) (\<lambda>s i. i\<lparr>imp_id := s\<rparr>)
                   (new_Impression, True)))))))"

definition extract_Geo :: "encoded \<Rightarrow> dsl_error + Geo option" where
  "extract_Geo v =
     (if v = Enc_none then Inr None
      else and_then (as_map v) (\<lambda>m.
        and_then (as_string (subscript m ''city'')) (\<lambda>city.
        and_then (as_string (subscript m ''country'')) (\<lambda>country.
          Inr (Some (new_Geo\<lparr>geo_city := city, geo_country := country\<rparr>))))))"

definition extract_User :: "encoded \<Rightarrow> dsl_error + User option" where
  "extract_User v =
     (if v = Enc_none then Inr None
      else and_then (as_map v) (\<lambda>m.
        and_then (extract_Geo (subscript m ''geo'')) (\<lambda>geo. Inr (Some (new_User\<lparr>user_geo := geo\<rparr>)))))"

definition extract_Site :: "uninitialized \<Rightarrow> encoded \<Rightarrow> dsl_error + Site option" where
  "extract_Site un v =
     (if v = Enc_none then Inr None
      else and_then (as_map v) (\<lambda>m.
        and_then (as_string (subscript m ''id'')) (\<lambda>id'. Inr (Some ((new_Site (un_privacypolicy un))\<lparr>site_id := id'\<rparr>)))))"

definition extract_BidRequest :: "uninitialized \<Rightarrow> encoded \<Rightarrow> BidRequest" where
  "extract_BidRequest un v =
     (if v = Enc_none then new_BidRequest (un_at un)
      else (case as_map v of
              Inl _ \<Rightarrow> new_BidRequest (un_at un)
            | Inr m \<Rightarrow> fst
                (assign (extract_Site un (subscript m ''site'')) (\<lambda>x r. r\<lparr>brq_site := x\<rparr>)
                (assign (extract_User (subscript m ''user'')) (\<lambda>x r. r\<lparr>brq_user := x\<rparr>)
                (assign (extract_vector (\<lambda>x. Inr (extract_Impression un x)) (subscript m ''imp'')) (\<lambda>x r. r\<lparr>brq_imp := x\<rparr>)
                (assign (as_string (subscript m ''id'')) (\<lambda>s r. r\<lparr>brq_id := s\<rparr>)
                   (new_BidRequest (un_at un), True)))))))"

section \<open>The mapper\<close>

definition any_token_count :: nat where
  "any_token_count = 128"

definition any_extract :: "numbers \<Rightarrow> uninitialized \<Rightarrow> jsmntok_t list \<Rightarrow> string \<Rightarrow> dsl_error + BidRequest" where
  "any_extract nums un t bid_request =
     (case jsmn_parse jsmn_init bid_request (Some t) any_token_count of
        (Inr _, p, Some ts) \<Rightarrow>
          and_then (encode_any nums bid_request ts (int (ps_toknext p))) (\<lambda>(_, v). Inr (extract_BidRequest un v))
      | _ \<Rightarrow> Inl Jsmn_exception)"

section \<open>What is extracted\<close>

text \<open>
  What is extracted from a JSON text: the members of the value it denotes. A text whose primitives
  cannot be converted, or that has more than 128 tokens, is refused with an exception.
\<close>

theorem any_extract_text:
  assumes "json_text v s" and "blank w1" and "blank w2" and "length t = any_token_count"
  shows "any_extract nums un t (w1 @ s @ w2) =
    (if ntoks v \<le> any_token_count then map_sum id (extract_BidRequest un) (value_of any_overload nums v)
     else Inl Jsmn_exception)"
proof (cases "ntoks v \<le> any_token_count")
  case True
  from tokenized_text [OF assms(1-3) refl assms(4) True] obtain ts' where
    p: "jsmn_parse jsmn_init (w1 @ s @ w2) (Some t) any_token_count =
      (Inr (int (ntoks v)), parser_at (length (w1 @ s @ w2)) (ntoks v) (-1), Some ts')"
    and d: "length ts' = any_token_count" "describes (w1 @ s @ w2) ts' 0 v" by blast
  have "encode any_overload nums (w1 @ s @ w2) (drop 0 ts') (int (ntoks v)) =
      (case value_of any_overload nums v of Inl e \<Rightarrow> Inl e | Inr x \<Rightarrow> Inr (ntoks v, x))"
    by (rule encode_described(1)) (use d True in \<open>auto simp: any_token_count_def\<close>)
  with p True show ?thesis by (auto simp: any_extract_def encode_any_def and_then_def split: sum.splits)
next
  case False
  with too_many_tokens [OF assms(1-3) refl assms(4)] show ?thesis by (auto simp: any_extract_def split: sum.splits)
qed

text \<open>
  A bid floor written without a decimal point is an integer, which the extractor does not take for a
  floating-point number: the impression keeps the bid floor zero and no currency, even if one was given.
\<close>

theorem integer_bidfloor_lost:
  assumes "map_of m ''bidfloor'' = Some (Enc_int n)"
  shows "imp_bidfloor (extract_Impression un (Enc_map m)) = 0 \<and> imp_bidfloorcur (extract_Impression un (Enc_map m)) = []"
proof -
  have "as_double (subscript m ''bidfloor'') = Inl Bad_any_cast" using assms by (simp add: subscript_def)
  then show ?thesis
    by (cases "as_string (subscript m ''id'')"; cases "extract_Banner un (subscript m ''banner'')")
      (simp_all add: extract_Impression_def assign_def new_Impression_def)
qed

theorem integer_bidfloor_lost_witness:
  "imp_bidfloor (extract_Impression un (Enc_map [(''id'', Enc_string ''1''), (''bidfloor'', Enc_int 5), (''bidfloorcur'', Enc_string ''USD'')])) = 0"
  using integer_bidfloor_lost [of "[(''id'', Enc_string ''1''), (''bidfloor'', Enc_int 5), (''bidfloorcur'', Enc_string ''USD'')]" 5 un]
  by simp

section \<open>Printed requests\<close>

text \<open>The members of a request that the extractor knows, as a JSON value; \<open>dbl\<close> prints floating-point numbers.\<close>

definition banner_json :: "Banner \<Rightarrow> json" where
  "banner_json b = J_obj [(''h'', J_prim (int_text (uint (bn_h b)))), (''w'', J_prim (int_text (uint (bn_w b)))),
     (''pos'', J_prim (int_text (AdPosition_code (bn_pos b))))]"

definition imp_json :: "(double \<Rightarrow> string) \<Rightarrow> Impression \<Rightarrow> json" where
  "imp_json dbl i = J_obj ([(''id'', J_str (imp_id i))] @
     (case imp_banner i of None \<Rightarrow> [] | Some b \<Rightarrow> [(''banner'', banner_json b)]) @
     [(''bidfloor'', J_prim (dbl (imp_bidfloor i))), (''bidfloorcur'', J_str (imp_bidfloorcur i))])"

definition geo_json :: "Geo \<Rightarrow> json" where
  "geo_json g = J_obj [(''city'', J_str (geo_city g)), (''country'', J_str (geo_country g))]"

definition user_json :: "User \<Rightarrow> json" where
  "user_json u = J_obj (case user_geo u of None \<Rightarrow> [] | Some g \<Rightarrow> [(''geo'', geo_json g)])"

definition site_json :: "Site \<Rightarrow> json" where
  "site_json s = J_obj [(''id'', J_str (site_id s))]"

definition request_json :: "(double \<Rightarrow> string) \<Rightarrow> BidRequest \<Rightarrow> json" where
  "request_json dbl r = J_obj ([(''id'', J_str (brq_id r)), (''imp'', J_arr (map (imp_json dbl) (brq_imp r)))] @
     (case brq_user r of None \<Rightarrow> [] | Some u \<Rightarrow> [(''user'', user_json u)]) @
     (case brq_site r of None \<Rightarrow> [] | Some s \<Rightarrow> [(''site'', site_json s)]))"

text \<open>What remains of a request: these members, and defaults for all others.\<close>

definition banner_view :: "uninitialized \<Rightarrow> Banner \<Rightarrow> Banner" where
  "banner_view un b = (new_Banner (un_pos un) (un_topframe un))\<lparr>bn_h := bn_h b, bn_w := bn_w b, bn_pos := bn_pos b\<rparr>"

definition imp_view :: "uninitialized \<Rightarrow> Impression \<Rightarrow> Impression" where
  "imp_view un i = new_Impression\<lparr>imp_id := imp_id i, imp_banner := map_option (banner_view un) (imp_banner i),
     imp_bidfloor := imp_bidfloor i, imp_bidfloorcur := imp_bidfloorcur i\<rparr>"

definition geo_view :: "Geo \<Rightarrow> Geo" where
  "geo_view g = new_Geo\<lparr>geo_city := geo_city g, geo_country := geo_country g\<rparr>"

definition user_view :: "User \<Rightarrow> User" where
  "user_view u = new_User\<lparr>user_geo := map_option geo_view (user_geo u)\<rparr>"

definition site_view :: "uninitialized \<Rightarrow> Site \<Rightarrow> Site" where
  "site_view un s = (new_Site (un_privacypolicy un))\<lparr>site_id := site_id s\<rparr>"

definition request_view :: "uninitialized \<Rightarrow> BidRequest \<Rightarrow> BidRequest" where
  "request_view un r = (new_BidRequest (un_at un))\<lparr>brq_id := brq_id r, brq_imp := map (imp_view un) (brq_imp r),
     brq_user := map_option user_view (brq_user r), brq_site := map_option (site_view un) (brq_site r)\<rparr>"

text \<open>The laws of number conversion: it inverts printing, for the floating-point numbers that can be printed.\<close>

locale number_casts =
  fixes nums :: numbers and dbl :: "double \<Rightarrow> string" and printable :: "double \<Rightarrow> bool"
  assumes uint64: "n < 2 ^ 64 \<Longrightarrow> cast_uint64 nums (to_string n) = Some (of_nat n)"
    and int64: "n \<le> 2 ^ 63 \<Longrightarrow> cast_int64 nums (CHR ''-'' # to_string n) = Some (- int n)"
    and double: "printable d \<Longrightarrow> cast_double nums (dbl d) = Some d"
    and point: "printable d \<Longrightarrow> CHR ''.'' \<in> set (dbl d)"
begin

lemma encode_int_text:
  assumes "- (2 ^ 63) \<le> n" and "n < 2 ^ 63"
  shows "encode_primitive ov nums (int_text n) = Inr (Enc_int n)"
proof -
  have dot: "CHR ''.'' \<notin> set (to_string k)" for k
    using to_string_digits [of "CHR ''.''" k] by (auto simp: is_digit_char_def char_int_def)
  show ?thesis
  proof (cases "n < 0")
    case True
    with int64 [of "nat (- n)"] assms dot show ?thesis
      by (simp add: int_text_def encode_primitive_def cast_def)
  next
    case False
    obtain c cs where c: "to_string (nat n) = c # cs" by (cases "to_string (nat n)") auto
    then have "is_digit_char c" using to_string_digits [of c "nat n"] by simp
    then have "c \<noteq> CHR ''-''" "c \<noteq> CHR ''t''" "c \<noteq> CHR ''f''" by (auto simp: is_digit_char_def char_int_def)
    moreover have "sint (of_nat (nat n) :: u64) = n"
      using assms(2) False by (simp add: sint_sbintrunc' signed_take_bit_int_eq_self)
    ultimately show ?thesis
      using False dot [of "nat n"] uint64 [of "nat n"] assms(2) c by (simp add: int_text_def encode_primitive_def cast_def)
  qed
qed

lemma encode_double: "printable d \<Longrightarrow> encode_primitive ov nums (dbl d) = Inr (Enc_double d)"
  by (simp add: encode_primitive_def cast_def double point)

end

section \<open>The data of a JSON text\<close>

text \<open>
  Data as a producer of JSON has them, the text of data, and what it means that an encoded value represents them: in a map
  every name has the value that it had first.
\<close>

datatype data = D_bool bool | D_int int | D_double double | D_string string | D_array "data list" | D_object "(string \<times> data) list"

fun data_json :: "(double \<Rightarrow> string) \<Rightarrow> data \<Rightarrow> json" where
  "data_json dbl (D_bool b) = J_prim (if b then ''true'' else ''false'')"
| "data_json dbl (D_int i) = J_prim (int_text i)"
| "data_json dbl (D_double d) = J_prim (dbl d)"
| "data_json dbl (D_string s) = J_str s"
| "data_json dbl (D_array ds) = J_arr (map (data_json dbl) ds)"
| "data_json dbl (D_object ms) = J_obj (map (\<lambda>(k, d). (k, data_json dbl d)) ms)"

fun encodable :: "(double \<Rightarrow> bool) \<Rightarrow> data \<Rightarrow> bool" where
  "encodable printable (D_int i) \<longleftrightarrow> - (2 ^ 63) \<le> i \<and> i < 2 ^ 63"
| "encodable printable (D_double d) \<longleftrightarrow> printable d"
| "encodable printable (D_array ds) \<longleftrightarrow> (\<forall>d \<in> set ds. encodable printable d)"
| "encodable printable (D_object ms) \<longleftrightarrow> (\<forall>(k, d) \<in> set ms. encodable printable d)"
| "encodable printable d \<longleftrightarrow> True"

inductive represents :: "encoded \<Rightarrow> data \<Rightarrow> bool" where
  "represents (Enc_bool b) (D_bool b)"
| "represents (Enc_int i) (D_int i)"
| "represents (Enc_double d) (D_double d)"
| "represents (Enc_string s) (D_string s)"
| "list_all2 represents vs ds \<Longrightarrow> represents (Enc_vector vs) (D_array ds)"
| "distinct (map fst xs) \<Longrightarrow> (\<And>k. rel_option represents (map_of xs k) (map_of ms k)) \<Longrightarrow> represents (Enc_map xs) (D_object ms)"

lemma add_members_map: "map_of (foldl add_member acc xs) k = (case map_of acc k of None \<Rightarrow> map_of xs k | Some v \<Rightarrow> Some v)"
proof (induction xs arbitrary: acc)
  case (Cons x xs)
  have "map_of (insert_absent (fst x) (snd x) acc) k =
      (case map_of acc k of None \<Rightarrow> if k = fst x then Some (snd x) else None | Some v \<Rightarrow> Some v)"
    by (cases "map_of acc (fst x)"; cases "map_of acc k") (auto simp: insert_absent_def map_add_def)
  then show ?case using Cons.IH [of "insert_absent (fst x) (snd x) acc"]
    by (cases "map_of acc k"; cases "k = fst x") (auto simp: add_member_def map_of_Cons_code split: prod.splits)
qed (simp split: option.split)

lemma add_members_distinct: "distinct (map fst acc) \<Longrightarrow> distinct (map fst (foldl add_member acc xs))"
proof (induction xs arbitrary: acc)
  case (Cons x xs)
  have "distinct (map fst (insert_absent (fst x) (snd x) acc))"
    using Cons.prems by (auto simp: insert_absent_def map_of_eq_None_iff)
  with Cons.IH show ?case by (simp add: add_member_def)
qed simp

lemma represents_members:
  assumes "list_all2 (\<lambda>x m. fst x = fst m \<and> represents (snd x) (snd m)) xs ms"
  shows "rel_option represents (map_of xs k) (map_of ms k)"
  using assms by (induction rule: list_all2_induct) (auto simp: split_beta)

context number_casts
begin

lemma data_value: "encodable printable d \<Longrightarrow> \<exists>x. value_of ov nums (data_json dbl d) = Inr x \<and> represents x d"
proof (induction d)
  case (D_bool b)
  then show ?case by (auto simp: encode_primitive_def intro: represents.intros)
next
  case (D_int i)
  then show ?case by (auto simp: encode_int_text intro: represents.intros)
next
  case (D_double d)
  then show ?case by (auto simp: encode_double intro: represents.intros)
next
  case (D_string s)
  then show ?case by (auto intro: represents.intros)
next
  case (D_array ds)
  then have "\<exists>xs. values_of ov nums (map (data_json dbl) ds) = Inr xs \<and> list_all2 represents xs ds"
  proof (induction ds)
    case (Cons d ds)
    have "\<exists>x. value_of ov nums (data_json dbl d) = Inr x \<and> represents x d" using Cons.prems by simp
    then obtain x where "value_of ov nums (data_json dbl d) = Inr x" "represents x d" by blast
    moreover obtain xs where "values_of ov nums (map (data_json dbl) ds) = Inr xs" "list_all2 represents xs ds"
      using Cons by auto
    ultimately show ?case by simp
  qed simp
  then show ?case by (auto intro: represents.intros)
next
  case (D_object ms)
  then have "\<exists>xs. members_of ov nums (map (\<lambda>(k, d). (k, data_json dbl d)) ms) = Inr xs \<and>
      list_all2 (\<lambda>x m. fst x = fst m \<and> represents (snd x) (snd m)) xs ms"
  proof (induction ms)
    case (Cons m ms)
    obtain k d where m: "m = (k, d)" by (cases m)
    have "\<exists>x. value_of ov nums (data_json dbl d) = Inr x \<and> represents x d"
      by (rule Cons.prems(1) [of m d]) (use Cons.prems(2) in \<open>auto simp: m\<close>)
    then obtain x where x: "value_of ov nums (data_json dbl d) = Inr x" "represents x d" by blast
    obtain xs where "members_of ov nums (map (\<lambda>(k, d). (k, data_json dbl d)) ms) = Inr xs"
      "list_all2 (\<lambda>x m. fst x = fst m \<and> represents (snd x) (snd m)) xs ms"
      using Cons by (fastforce simp: m)
    with x show ?case by (simp add: m)
  qed simp
  then obtain xs where xs: "members_of ov nums (map (\<lambda>(k, d). (k, data_json dbl d)) ms) = Inr xs"
    "list_all2 (\<lambda>x m. fst x = fst m \<and> represents (snd x) (snd m)) xs ms" by blast
  have "represents (Enc_map (foldl add_member [] xs)) (D_object ms)"
    using represents_members [OF xs(2)] add_members_distinct [of "[]" xs]
    by (intro represents.intros) (simp_all add: add_members_map)
  with xs(1) show ?case by simp
qed

end

text \<open>
  C19: the text of data is encoded as these data. For any nesting of arrays and objects, booleans, 64-bit integers and
  doubles that can be printed, and strings, whose raw text is kept, with any white space and any earlier contents of the token array,
  if the array has room for the tokens of the text: the tokenizer and either overload of the encoder give a value that
  represents the data, where the first of several members with one name counts.
\<close>

theorem encode_text:
  assumes "number_casts nums dbl printable" and "encodable printable d"
    and "json_text (data_json dbl d) s" and "blank w1" and "blank w2" and "js = w1 @ s @ w2"
    and "length ts = num" and "ntoks (data_json dbl d) \<le> num" and "num < 2 ^ 64"
  shows "\<exists>p ts' x. jsmn_parse jsmn_init js (Some ts) num = (Inr (int (ntoks (data_json dbl d))), p, Some ts') \<and>
    encode ov nums js ts' (int (ps_toknext p)) = Inr (ntoks (data_json dbl d), x) \<and> represents x d"
proof -
  let ?v = "data_json dbl d"
  obtain x where x: "value_of ov nums ?v = Inr x" "represents x d"
    using number_casts.data_value [OF assms(1,2)] by blast
  from tokenized_text [OF assms(3-8)] obtain ts' where
    t: "jsmn_parse jsmn_init js (Some ts) num = (Inr (int (ntoks ?v)), parser_at (length js) (ntoks ?v) (-1), Some ts')"
    and "length ts' = num" "describes js ts' 0 ?v" by blast
  then have "encode ov nums js (drop 0 ts') (int (ntoks ?v)) = Inr (ntoks ?v, x)"
    using encode_described(1) [of js ts' 0 ?v "int (ntoks ?v)" ov nums] assms(8,9) by (simp add: x(1))
  with t x(2) show ?thesis by auto
qed

text \<open>The encoded form of what is printed, and what is extracted from it.\<close>

definition banner_enc :: "Banner \<Rightarrow> encoded" where
  "banner_enc b = Enc_map [(''h'', Enc_int (uint (bn_h b))), (''w'', Enc_int (uint (bn_w b))),
     (''pos'', Enc_int (AdPosition_code (bn_pos b)))]"

definition imp_enc :: "Impression \<Rightarrow> encoded" where
  "imp_enc i = Enc_map ([(''id'', Enc_string (imp_id i))] @
     (case imp_banner i of None \<Rightarrow> [] | Some b \<Rightarrow> [(''banner'', banner_enc b)]) @
     [(''bidfloor'', Enc_double (imp_bidfloor i)), (''bidfloorcur'', Enc_string (imp_bidfloorcur i))])"

definition geo_enc :: "Geo \<Rightarrow> encoded" where
  "geo_enc g = Enc_map [(''city'', Enc_string (geo_city g)), (''country'', Enc_string (geo_country g))]"

definition user_enc :: "User \<Rightarrow> encoded" where
  "user_enc u = Enc_map (case user_geo u of None \<Rightarrow> [] | Some g \<Rightarrow> [(''geo'', geo_enc g)])"

definition site_enc :: "Site \<Rightarrow> encoded" where
  "site_enc s = Enc_map [(''id'', Enc_string (site_id s))]"

definition request_enc :: "BidRequest \<Rightarrow> encoded" where
  "request_enc r = Enc_map ([(''id'', Enc_string (brq_id r)), (''imp'', Enc_vector (map imp_enc (brq_imp r)))] @
     (case brq_user r of None \<Rightarrow> [] | Some u \<Rightarrow> [(''user'', user_enc u)]) @
     (case brq_site r of None \<Rightarrow> [] | Some s \<Rightarrow> [(''site'', site_enc s)]))"

lemma AdPosition_of_code [simp]: "AdPosition_of_int other (AdPosition_code p) = p"
  by (cases p) (simp_all add: AdPosition_of_int_def)

lemma extract_banner_enc: "extract_Banner un (banner_enc b) = Inr (Some (banner_view un b))"
  by (simp add: extract_Banner_def banner_enc_def and_then_def assign_def subscript_def banner_view_def)

lemma extract_imp_enc: "extract_Impression un (imp_enc i) = imp_view un i"
proof (cases "imp_banner i")
  case None
  then show ?thesis by (simp add: extract_Impression_def imp_enc_def assign_def subscript_def imp_view_def
        extract_Banner_def new_Impression_def)
next
  case (Some b)
  then show ?thesis
    by (simp add: extract_Impression_def imp_enc_def assign_def subscript_def extract_banner_enc imp_view_def)
qed

lemma transform_Inr: "transform (\<lambda>x. Inr (f x)) xs = Inr (map f xs)"
  by (induction xs) (simp_all add: and_then_def)

lemma extract_geo_enc: "extract_Geo (geo_enc g) = Inr (Some (geo_view g))"
  by (simp add: extract_Geo_def geo_enc_def and_then_def subscript_def geo_view_def)

lemma extract_user_enc: "extract_User (user_enc u) = Inr (Some (user_view u))"
proof (cases "user_geo u")
  case None
  then show ?thesis
    by (simp add: extract_User_def user_enc_def and_then_def subscript_def extract_Geo_def user_view_def)
next
  case (Some g)
  then show ?thesis by (simp add: extract_User_def user_enc_def and_then_def subscript_def extract_geo_enc user_view_def)
qed

lemma extract_site_enc: "extract_Site un (site_enc s) = Inr (Some (site_view un s))"
  by (simp add: extract_Site_def site_enc_def and_then_def subscript_def site_view_def)

lemma extract_none [simp]: "extract_User Enc_none = Inr None" "extract_Site un Enc_none = Inr None"
  by (simp_all add: extract_User_def extract_Site_def)

lemma extract_request_enc: "extract_BidRequest un (request_enc r) = request_view un r"
proof -
  have v: "extract_vector (\<lambda>x. Inr (extract_Impression un x)) (Enc_vector (map imp_enc (brq_imp r))) = Inr (map (imp_view un) (brq_imp r))"
    by (simp add: extract_vector_def transform_Inr extract_imp_enc)
  show ?thesis
    by (cases "brq_user r"; cases "brq_site r")
      (simp_all add: extract_BidRequest_def request_enc_def v assign_def subscript_def
        request_view_def extract_user_enc extract_site_enc new_BidRequest_def)
qed

context number_casts
begin

lemma value_banner: "value_of ov nums (banner_json b) = Inr (banner_enc b)"
proof -
  have u: "uint (bn_h b) < 65536" "uint (bn_w b) < 65536"
    using uint_lt2p [of "bn_h b"] uint_lt2p [of "bn_w b"] by simp_all
  have "encode_primitive ov nums (int_text (uint (bn_h b))) = Inr (Enc_int (uint (bn_h b)))"
    "encode_primitive ov nums (int_text (uint (bn_w b))) = Inr (Enc_int (uint (bn_w b)))"
    using u by (intro encode_int_text; simp add: order_trans [of _ 0])+
  moreover have "encode_primitive ov nums (int_text (AdPosition_code (bn_pos b))) = Inr (Enc_int (AdPosition_code (bn_pos b)))"
    by (rule encode_int_text) (cases "bn_pos b"; simp)+
  ultimately show ?thesis by (simp add: banner_json_def banner_enc_def insert_absent_def)
qed

lemma value_imp: "printable (imp_bidfloor i) \<Longrightarrow> value_of ov nums (imp_json dbl i) = Inr (imp_enc i)"
  by (cases "imp_banner i")
    (simp_all add: imp_json_def imp_enc_def insert_absent_def value_banner encode_double)

lemma values_imps:
  "\<forall>i \<in> set is. printable (imp_bidfloor i) \<Longrightarrow> values_of ov nums (map (imp_json dbl) is) = Inr (map imp_enc is)"
  by (induction "is") (simp_all add: value_imp)

lemma value_user: "value_of ov nums (user_json u) = Inr (user_enc u)"
  by (cases "user_geo u") (simp_all add: user_json_def user_enc_def geo_json_def geo_enc_def insert_absent_def)

lemma value_site: "value_of ov nums (site_json s) = Inr (site_enc s)"
  by (simp add: site_json_def site_enc_def insert_absent_def)

lemma value_request:
  "\<forall>i \<in> set (brq_imp r). printable (imp_bidfloor i) \<Longrightarrow> value_of ov nums (request_json dbl r) = Inr (request_enc r)"
  by (cases "brq_user r"; cases "brq_site r")
    (simp_all add: request_json_def request_enc_def values_imps value_user value_site insert_absent_def)

end

text \<open>Amounts with two decimals, printed with a point, are an instance.\<close>

definition cents_text :: "double \<Rightarrow> string" where
  "cents_text d =
     (let n = nat \<lfloor>d * 100\<rfloor>
      in to_string (n div 100) @ [CHR ''.'', digit_char (n div 10 mod 10), digit_char (n mod 10)])"

definition whole_cents :: "double \<Rightarrow> bool" where
  "whole_cents d \<longleftrightarrow> 0 \<le> d \<and> of_int \<lfloor>d * 100\<rfloor> = d * 100"

lemma two_digits: "10 * (10 * (n div 100) + n div 10 mod 10) + n mod 10 = (n :: nat)"
proof -
  have "n div 100 = n div 10 div 10" by (simp flip: div_mult2_eq)
  then show ?thesis by simp
qed

lemma plain_double_cents: "whole_cents d \<Longrightarrow> plain_double (cents_text d) = Some d"
proof -
  assume w: "whole_cents d"
  let ?n = "nat \<lfloor>d * 100\<rfloor>"
  let ?a = "to_string (?n div 100)" and ?b = "[digit_char (?n div 10 mod 10), digit_char (?n mod 10)]"
  have dot: "CHR ''.'' \<notin> set ?a" using to_string_digits [of "CHR ''.''"] by (auto simp: is_digit_char_def char_int_def)
  then have t: "takeWhile (\<lambda>c. c \<noteq> CHR ''.'') (cents_text d) = ?a"
    unfolding cents_text_def Let_def by (subst takeWhile_append2) auto
  have "dec_value (?a @ ?b) = dec_value ((?a @ [digit_char (?n div 10 mod 10)]) @ [digit_char (?n mod 10)])" by simp
  also have "\<dots> = 10 * (10 * (?n div 100) + ?n div 10 mod 10) + ?n mod 10"
    unfolding dec_value_snoc dec_value_to_string by simp
  also have "\<dots> = ?n" by (rule two_digits)
  finally have v: "dec_value (?a @ ?b) = ?n" .
  have "list_all is_digit_char (?a @ ?b)" using to_string_digits by (auto simp: list_all_iff)
  moreover have "(of_nat ?n :: double) / 10 ^ 2 = d"
    using w by (simp add: whole_cents_def)
  moreover have "drop (Suc (length ?a)) (cents_text d) = ?b" by (simp add: cents_text_def Let_def)
  ultimately show ?thesis unfolding plain_double_def Let_def t using v by (simp add: numeral_2_eq_2)
qed

lemma plain_uint64_to_string: "n < 2 ^ 64 \<Longrightarrow> plain_uint64 (to_string n) = Some (of_nat n)"
  using to_string_digits by (auto simp: plain_uint64_def list_all_iff)

interpretation plain_casts: number_casts plain_numbers cents_text whole_cents
proof
  fix n :: nat
  show "n < 2 ^ 64 \<Longrightarrow> cast_uint64 plain_numbers (to_string n) = Some (of_nat n)"
    by (simp add: plain_numbers_def plain_uint64_to_string)
  assume n: "n \<le> 2 ^ 63"
  then have "uint (of_nat n :: u64) = int n" by (simp add: unsigned_of_nat take_bit_nat_eq_self)
  with n show "cast_int64 plain_numbers (CHR ''-'' # to_string n) = Some (- int n)"
    using plain_uint64_to_string [of n] by (simp add: plain_numbers_def)
next
  fix d
  show "whole_cents d \<Longrightarrow> cast_double plain_numbers (cents_text d) = Some d"
    by (simp add: plain_numbers_def plain_double_cents)
  show "CHR ''.'' \<in> set (cents_text d)" by (simp add: cents_text_def Let_def)
qed

text \<open>An object with a repeated name, for which the hypotheses hold.\<close>

definition example_data :: data where
  "example_data = D_object [(''w'', D_int 300), (''on'', D_bool True), (''w'', D_array [D_int (- 5), D_double (1 / 2)])]"

theorem encode_text_witness:
  "\<exists>p ts' xs. jsmn_parse jsmn_init ('' '' @ print_json (data_json cents_text example_data) @ [])
      (Some (replicate 9 \<lparr>tok_type = JSMN_UNDEFINED, tok_start = 0, tok_end = 0, tok_size = 0\<rparr>)) 9 = (Inr 9, p, Some ts') \<and>
    encode any_overload plain_numbers ('' '' @ print_json (data_json cents_text example_data) @ []) ts' (int (ps_toknext p)) = Inr (9, Enc_map xs) \<and>
    map_of xs ''w'' = Some (Enc_int 300) \<and> map_of xs ''on'' = Some (Enc_bool True)"
proof -
  let ?ts = "replicate 9 \<lparr>tok_type = JSMN_UNDEFINED, tok_start = 0, tok_end = 0, tok_size = 0\<rparr>"
  have j: "json_ok (data_json cents_text example_data)" by code_simp
  have e: "encodable whole_cents example_data" by (simp add: example_data_def whole_cents_def)
  have b: "blank '' ''" by (simp add: blank_def white_def)
  have n: "ntoks (data_json cents_text example_data) = 9" by code_simp
  obtain p ts' x where t: "jsmn_parse jsmn_init ('' '' @ print_json (data_json cents_text example_data) @ []) (Some ?ts) 9 = (Inr 9, p, Some ts')"
    "encode any_overload plain_numbers ('' '' @ print_json (data_json cents_text example_data) @ []) ts' (int (ps_toknext p)) = Inr (9, x)"
    and r: "represents x example_data"
    using encode_text [OF plain_casts.number_casts_axioms e print_json_text(1) [OF j] b blank_Nil refl, of ?ts 9 any_overload] by (auto simp: n)
  obtain xs where x: "x = Enc_map xs" "\<And>k. rel_option represents (map_of xs k) (map_of [(''w'', D_int 300), (''on'', D_bool True),
      (''w'', D_array [D_int (- 5), D_double (1 / 2)])] k)"
    using r by (auto simp: example_data_def elim: represents.cases)
  have "map_of xs ''w'' = Some (Enc_int 300)" "map_of xs ''on'' = Some (Enc_bool True)"
    using x(2) [of "''w''"] x(2) [of "''on''"] by (auto simp: option_rel_Some2 elim: represents.cases)
  with t x(1) show ?thesis by blast
qed

lemma printed_request_extracted:
  assumes "number_casts nums dbl printable" and "\<forall>i \<in> set (brq_imp r). printable (imp_bidfloor i)"
    and "json_text (request_json dbl r) s" and "blank w1" and "blank w2"
    and "length t = any_token_count" and "ntoks (request_json dbl r) \<le> any_token_count"
  shows "any_extract nums un t (w1 @ s @ w2) = Inr (request_view un r)"
proof -
  from tokenized_text [OF assms(3-5) refl assms(6,7)] obtain ts' where
    p: "jsmn_parse jsmn_init (w1 @ s @ w2) (Some t) any_token_count =
      (Inr (int (ntoks (request_json dbl r))), parser_at (length (w1 @ s @ w2)) (ntoks (request_json dbl r)) (-1), Some ts')"
    and d: "length ts' = any_token_count" "describes (w1 @ s @ w2) ts' 0 (request_json dbl r)" by blast
  have "encode any_overload nums (w1 @ s @ w2) (drop 0 ts') (int (ntoks (request_json dbl r))) =
      (case value_of any_overload nums (request_json dbl r) of Inl e \<Rightarrow> Inl e | Inr x \<Rightarrow> Inr (ntoks (request_json dbl r), x))"
    by (rule encode_described(1)) (use d assms(7) in \<open>auto simp: any_token_count_def\<close>)
  with p show ?thesis
    by (simp add: any_extract_def encode_any_def and_then_def number_casts.value_request [OF assms(1,2)] extract_request_enc)
qed

text \<open>
  A bid request printed as JSON is read back. For any conversion of numbers that inverts printing, any
  white space in the text and any earlier contents of the token array, the members the extractor knows are
  those of the request, and all other members have their defaults.
\<close>

theorem any_extract_printed:
  assumes "number_casts nums dbl printable" and "\<forall>i \<in> set (brq_imp r). printable (imp_bidfloor i)"
    and "json_text (request_json dbl r) s" and "blank w1" and "blank w2"
    and "length t = any_token_count" and "ntoks (request_json dbl r) \<le> any_token_count"
  shows "any_extract nums un t (w1 @ s @ w2) = Inr (request_view un r)"
  by (rule printed_request_extracted [OF assms])

text \<open>A request of one impression, for which the hypotheses hold.\<close>

definition example_request :: BidRequest where
  "example_request = (new_BidRequest AT_FIRST_PRICE)
     \<lparr>brq_id := ''r1'',
      brq_user := Some (new_User\<lparr>user_geo := Some (new_Geo\<lparr>geo_city := ''Rome'', geo_country := ''IT''\<rparr>)\<rparr>),
      brq_imp := [new_Impression\<lparr>imp_id := ''i1'', imp_bidfloor := 1 / 2,
                    imp_banner := Some ((new_Banner POS_ABOVE FP_IFRAME)\<lparr>bn_w := 300, bn_h := 250\<rparr>)\<rparr>]\<rparr>"

definition example_uninitialized :: uninitialized where
  "example_uninitialized = \<lparr>un_pos = POS_UNKNOWN, un_topframe = FP_IFRAME, un_at = AT_FIRST_PRICE,
     un_privacypolicy = False, un_enum = (\<lambda>_. POS_UNKNOWN)\<rparr>"

definition stale_tokens :: "jsmntok_t list" where
  "stale_tokens = replicate any_token_count \<lparr>tok_type = JSMN_OBJECT, tok_start = 3, tok_end = 1, tok_size = 9\<rparr>"

lemma length_stale_tokens [simp]: "length stale_tokens = any_token_count"
  by (simp add: stale_tokens_def)

lemma example_request_ok: "json_ok (request_json cents_text example_request)"
  by code_simp

lemma example_request_tokens: "ntoks (request_json cents_text example_request) \<le> any_token_count"
  by code_simp

theorem any_extract_printed_witness:
  "any_extract plain_numbers example_uninitialized stale_tokens
     ('' '' @ print_json (request_json cents_text example_request) @ []) = Inr example_request"
proof -
  have "request_view example_uninitialized example_request = example_request"
    by (simp add: request_view_def example_request_def example_uninitialized_def imp_view_def banner_view_def user_view_def
        geo_view_def new_BidRequest_def new_Banner_def new_Impression_def new_User_def new_Geo_def)
  moreover have "\<forall>i \<in> set (brq_imp example_request). whole_cents (imp_bidfloor i)"
    by (simp add: example_request_def whole_cents_def)
  moreover have "blank '' ''" by (simp add: blank_def white_def)
  ultimately show ?thesis
    using any_extract_printed [OF plain_casts.number_casts_axioms _ print_json_text(1) [OF example_request_ok] _ blank_Nil
        length_stale_tokens example_request_tokens, of "'' ''" example_uninitialized] by simp
qed

theorem any_extract_text_witness:
  "any_extract plain_numbers example_uninitialized stale_tokens
     ([] @ print_json (J_arr (replicate 128 (J_prim ''1''))) @ []) = Inl Jsmn_exception"
proof -
  have ok: "json_ok (J_arr (replicate 128 (J_prim ''1'')))" by code_simp
  have "\<not> ntoks (J_arr (replicate 128 (J_prim ''1''))) \<le> any_token_count" by code_simp
  then show ?thesis
    using any_extract_text [OF print_json_text(1) [OF ok] blank_Nil blank_Nil length_stale_tokens, of plain_numbers example_uninitialized]
    by (simp only: if_False)
qed

end
