(* ===== verification/Rapid_Writer.thy ===== *)
theory Rapid_Writer
  imports Jsmn Openrtb
begin

text \<open>
  The JSON writer of \<^verbatim>\<open>rapidjson/writer.h\<close> for a string buffer, with the integer printer of
  \<^verbatim>\<open>rapidjson/internal/itoa.h\<close>: the part the serializers of bid responses use. A failed assertion is the value
  \<^term>\<open>None\<close>; the printer of floating-point numbers is a parameter. The lemmas show that a sequence of calls that
  follows the structure of a JSON value writes its compact text.
\<close>

section \<open>Integers\<close>

definition cDigitsLut :: string where
  "cDigitsLut = ''00010203040506070809'' @ ''10111213141516171819'' @ ''20212223242526272829'' @
     ''30313233343536373839'' @ ''40414243444546474849'' @ ''50515253545556575859'' @
     ''60616263646566676869'' @ ''70717273747576777879'' @ ''80818283848586878889'' @ ''90919293949596979899''"

text \<open>Values below \<open>2 ^ 32\<close>.\<close>

definition u32toa :: "nat \<Rightarrow> string" where
  "u32toa value =
     (if value < 10000 then
        let d1 = 2 * (value div 100); d2 = 2 * (value mod 100)
        in (if value \<ge> 1000 then [cDigitsLut ! d1] else []) @
           (if value \<ge> 100 then [cDigitsLut ! (d1 + 1)] else []) @
           (if value \<ge> 10 then [cDigitsLut ! d2] else []) @ [cDigitsLut ! (d2 + 1)]
      else if value < 100000000 then
        let b = value div 10000; c = value mod 10000;
            d1 = 2 * (b div 100); d2 = 2 * (b mod 100); d3 = 2 * (c div 100); d4 = 2 * (c mod 100)
        in (if value \<ge> 10000000 then [cDigitsLut ! d1] else []) @
           (if value \<ge> 1000000 then [cDigitsLut ! (d1 + 1)] else []) @
           (if value \<ge> 100000 then [cDigitsLut ! d2] else []) @ [cDigitsLut ! (d2 + 1)] @
           [cDigitsLut ! d3, cDigitsLut ! (d3 + 1), cDigitsLut ! d4, cDigitsLut ! (d4 + 1)]
      else
        let a = value div 100000000; value' = value mod 100000000;
            b = value' div 10000; c = value' mod 10000;
            d1 = 2 * (b div 100); d2 = 2 * (b mod 100); d3 = 2 * (c div 100); d4 = 2 * (c mod 100)
        in (if a \<ge> 10 then [cDigitsLut ! (2 * a), cDigitsLut ! (2 * a + 1)] else [char_of (48 + a)]) @
           [cDigitsLut ! d1, cDigitsLut ! (d1 + 1), cDigitsLut ! d2, cDigitsLut ! (d2 + 1),
            cDigitsLut ! d3, cDigitsLut ! (d3 + 1), cDigitsLut ! d4, cDigitsLut ! (d4 + 1)])"

definition i32toa :: "int \<Rightarrow> string" where
  "i32toa value =
     (let u = nat (value mod 2 ^ 32)
      in if value < 0 then CHR ''-'' # u32toa ((2 ^ 32 - 1 - u + 1) mod 2 ^ 32) else u32toa u)"

definition two_chars :: "nat \<Rightarrow> string" where
  "two_chars i = [digit_char (i div 10), digit_char (i mod 10)]"

lemma lut: "i < 100 \<Longrightarrow> cDigitsLut ! (2 * i) = digit_char (i div 10) \<and> cDigitsLut ! Suc (2 * i) = digit_char (i mod 10)"
proof -
  have "\<forall>i \<in> set [0..<100]. cDigitsLut ! (2 * i) = digit_char (i div 10) \<and> cDigitsLut ! Suc (2 * i) = digit_char (i mod 10)"
    by code_simp
  then show "i < 100 \<Longrightarrow> ?thesis" by auto
qed

lemma to_string_step: "10 \<le> n \<Longrightarrow> to_string n = to_string (n div 10) @ [digit_char (n mod 10)]"
  by (subst to_string.simps) simp

lemma to_string_digit: "n < 10 \<Longrightarrow> to_string n = [digit_char n]"
  by (subst to_string.simps) simp

lemma to_string_pair: "100 \<le> n \<Longrightarrow> to_string n = to_string (n div 100) @ two_chars (n mod 100)"
proof -
  assume n: "100 \<le> n"
  have d: "n div 10 div 10 = n div 100" by (simp flip: div_mult2_eq)
  have m: "n mod 100 div 10 = n div 10 mod 10" "n mod 100 mod 10 = n mod 10"
    using mod_mult2_eq [of n 10 10] by (simp_all add: mod_mod_cancel)
  have "to_string n = to_string (n div 10) @ [digit_char (n mod 10)]" using n by (intro to_string_step) simp
  also have "to_string (n div 10) = to_string (n div 100) @ [digit_char (n div 10 mod 10)]"
    using n to_string_step [of "n div 10"] by (simp add: d)
  finally show ?thesis by (simp add: two_chars_def m)
qed

lemma to_string_quad:
  assumes "10000 \<le> n"
  shows "to_string n = to_string (n div 10000) @ two_chars (n mod 10000 div 100) @ two_chars (n mod 10000 mod 100)"
proof -
  have d: "n div 100 div 100 = n div 10000" by (simp flip: div_mult2_eq)
  have m: "n mod 10000 div 100 = n div 100 mod 100" "n mod 10000 mod 100 = n mod 100"
    using mod_mult2_eq [of n 100 100] by (simp_all add: mod_mod_cancel)
  show ?thesis
    using to_string_pair [of n] to_string_pair [of "n div 100"] assms by (simp add: d m)
qed

lemma to_string_two: "10 \<le> n \<Longrightarrow> n < 100 \<Longrightarrow> to_string n = two_chars n"
  using to_string_step [of n] to_string_digit [of "n div 10"] by (simp add: two_chars_def)

text \<open>The printed prefix of a number below 10000 without leading zeros, as both first branches write it.\<close>

lemma to_string_small:
  assumes "n < 10000"
  shows "to_string n = (if n \<ge> 1000 then [digit_char (n div 100 div 10)] else []) @
     (if n \<ge> 100 then [digit_char (n div 100 mod 10)] else []) @
     (if n \<ge> 10 then [digit_char (n mod 100 div 10)] else []) @ [digit_char (n mod 100 mod 10)]"
proof -
  consider "n < 10" | "10 \<le> n" "n < 100" | "100 \<le> n" "n < 1000" | "1000 \<le> n" by linarith
  then show ?thesis
  proof cases
    case 1 then show ?thesis by (simp add: to_string_digit)
  next
    case 2 then show ?thesis by (simp add: to_string_two two_chars_def)
  next
    case 3
    then have "n div 100 < 10" by (auto simp: div_less_iff_less_mult)
    with 3 show ?thesis by (simp add: to_string_pair to_string_digit two_chars_def)
  next
    case 4
    then have "10 \<le> n div 100" "n div 100 < 100" using assms by (auto simp: div_less_iff_less_mult le_div_geq less_eq_div_iff_mult_less_eq)
    with 4 show ?thesis by (simp add: to_string_pair to_string_two two_chars_def)
  qed
qed

lemma u32toa_to_string: "n < 2 ^ 32 \<Longrightarrow> u32toa n = to_string n"
proof -
  assume "n < 2 ^ 32"
  then have n: "n < 4294967296" by simp
  have l: "cDigitsLut ! (2 * i) = digit_char (i div 10)" "cDigitsLut ! Suc (2 * i) = digit_char (i mod 10)" if "i < 100" for i
    using lut [OF that] by auto
  have b100: "m < 10000 \<Longrightarrow> m div 100 < 100" "m mod 100 < 100" for m :: nat by (auto simp: div_less_iff_less_mult)
  consider "n < 10000" | "10000 \<le> n" "n < 100000000" | "100000000 \<le> n" by linarith
  then show ?thesis
  proof cases
    case 1
    then show ?thesis by (simp add: u32toa_def Let_def l b100 to_string_small [OF 1])
  next
    case 2
    let ?b = "n div 10000" and ?c = "n mod 10000"
    have b: "?b < 10000" using 2 by (simp add: div_less_iff_less_mult)
    have ge: "10000000 \<le> n \<longleftrightarrow> 1000 \<le> ?b" "1000000 \<le> n \<longleftrightarrow> 100 \<le> ?b" "100000 \<le> n \<longleftrightarrow> 10 \<le> ?b"
      by (auto simp: less_eq_div_iff_mult_less_eq)
    have "to_string n = to_string ?b @ two_chars (?c div 100) @ two_chars (?c mod 100)" using 2 by (intro to_string_quad) simp
    then show ?thesis using 2
      by (simp add: u32toa_def Let_def l b100 b ge two_chars_def to_string_small [OF b])
  next
    case 3
    let ?a = "n div 100000000" and ?v = "n mod 100000000"
    have a: "?a < 100" using n by (simp add: div_less_iff_less_mult)
    have d: "n div 10000 div 10000 = ?a" by (simp flip: div_mult2_eq)
    have m: "n div 10000 mod 10000 = ?v div 10000" "n mod 10000 = ?v mod 10000"
      using mod_mult2_eq [of n 10000 10000] by (simp_all add: mod_mod_cancel)
    have v: "?v div 10000 < 10000" by (simp add: div_less_iff_less_mult)
    have "to_string n = to_string (n div 10000) @ two_chars (n mod 10000 div 100) @ two_chars (n mod 10000 mod 100)"
      using 3 by (intro to_string_quad) simp
    also have "to_string (n div 10000) = to_string ?a @ two_chars (?v div 10000 div 100) @ two_chars (?v div 10000 mod 100)"
      using to_string_quad [of "n div 10000"] 3 by (simp add: d m less_eq_div_iff_mult_less_eq)
    finally have s: "to_string n = (to_string ?a @ two_chars (?v div 10000 div 100) @ two_chars (?v div 10000 mod 100)) @
        two_chars (?v mod 10000 div 100) @ two_chars (?v mod 10000 mod 100)" unfolding m(2) .
    have "to_string ?a = (if 10 \<le> ?a then [cDigitsLut ! (2 * ?a), cDigitsLut ! Suc (2 * ?a)] else [char_of (48 + ?a)])"
      using l [OF a] to_string_two [of ?a] to_string_digit [of ?a] a by (simp add: two_chars_def digit_char_def)
    then show ?thesis unfolding s using 3 v
      by (simp add: u32toa_def Let_def l b100 two_chars_def)
  qed
qed

lemma i32toa_int_text:
  assumes "- (2 ^ 31) \<le> i" and "i < 2 ^ 31"
  shows "i32toa i = int_text i"
proof (cases "i < 0")
  case True
  then obtain k where k: "i = - int k" "0 < k" by (metis neg_int_cases)
  with assms(1) have le: "k \<le> 2147483648" by simp
  have "(i + 4294967296) mod 4294967296 = i + 4294967296" using k le by (intro mod_pos_pos_trivial) auto
  then have m: "nat (i mod 2 ^ 32) = 4294967296 - k" using k le by simp
  have "(2 ^ 32 - 1 - (4294967296 - k) + 1) mod 2 ^ 32 = k" using k le by simp
  then show ?thesis using True k le unfolding i32toa_def Let_def m by (simp add: int_text_def u32toa_to_string)
next
  case False
  then show ?thesis using assms by (simp add: i32toa_def int_text_def Let_def u32toa_to_string)
qed

text \<open>
  The table-driven integer printer writes the decimal representation of every 32-bit number, the
  smallest negative one included.
\<close>

theorem i32toa_decimal:
  assumes "- (2 ^ 31) \<le> i" and "i < 2 ^ 31"
  shows "i32toa i = int_text i"
  by (rule i32toa_int_text [OF assms])

theorem i32toa_decimal_witness: "i32toa (- 2147483648) = ''-2147483648''"
proof -
  have "i32toa (- 2147483648) = int_text (- 2147483648)" by (rule i32toa_decimal) simp_all
  then show ?thesis by (simp add: int_text_def to_string.simps)
qed

section \<open>The writer\<close>

text \<open>The output, the stack of levels (number of values, in an array) from the top, and whether there is a root.\<close>

record writer =
  wr_out :: string
  wr_levels :: "(nat \<times> bool) list"
  wr_root :: bool

definition new_Writer :: writer where
  "new_Writer = \<lparr>wr_out = [], wr_levels = [], wr_root = False\<rparr>"

definition IsComplete :: "writer \<Rightarrow> bool" where
  "IsComplete w \<longleftrightarrow> wr_root w \<and> wr_levels w = []"

definition Prefix :: "bool \<Rightarrow> writer \<Rightarrow> writer option" where
  "Prefix is_string w =
     (case wr_levels w of
        [] \<Rightarrow> if wr_root w then None else Some (w\<lparr>wr_root := True\<rparr>)
      | (valueCount, inArray) # ls \<Rightarrow>
          let w' = (if valueCount > 0
                    then w\<lparr>wr_out := wr_out w @ [if inArray \<or> even valueCount then CHR '','' else CHR '':'']\<rparr> else w)
          in if \<not> inArray \<and> even valueCount \<and> \<not> is_string then None
             else Some (w'\<lparr>wr_levels := (valueCount + 1, inArray) # ls\<rparr>))"

definition put :: "string \<Rightarrow> writer \<Rightarrow> writer" where
  "put s w = w\<lparr>wr_out := wr_out w @ s\<rparr>"

text \<open>The escape table: the letter after the backslash, if the byte is escaped.\<close>

definition escape_table :: "nat \<Rightarrow> char option" where
  "escape_table c =
     (if c = 8 then Some (CHR ''b'') else if c = 9 then Some (CHR ''t'') else if c = 10 then Some (CHR ''n'')
      else if c = 12 then Some (CHR ''f'') else if c = 13 then Some (CHR ''r'')
      else if c < 32 then Some (CHR ''u'')
      else if c = 34 then Some (CHR 0x22) else if c = 92 then Some (CHR 0x5C) else None)"

definition hexDigits :: string where
  "hexDigits = ''0123456789ABCDEF''"

definition escape_char :: "char \<Rightarrow> string" where
  "escape_char c =
     (case escape_table (of_char c) of
        None \<Rightarrow> [c]
      | Some e \<Rightarrow>
          [CHR 0x5C, e] @
          (if e = CHR ''u'' then [CHR ''0'', CHR ''0'', hexDigits ! (of_char c div 16), hexDigits ! (of_char c mod 16)] else []))"

fun escape :: "string \<Rightarrow> string" where
  "escape [] = []"
| "escape (c # cs) = escape_char c @ escape cs"

definition WriteString :: "string \<Rightarrow> writer \<Rightarrow> writer" where
  "WriteString s w = put (CHR 0x22 # escape s @ [CHR 0x22]) w"

text \<open>The events; ending a value flushes the buffer, which does nothing for a string buffer.\<close>

definition wr_String :: "string \<Rightarrow> writer \<Rightarrow> writer option" where
  "wr_String s w = map_option (WriteString s) (Prefix True w)"

definition wr_Int :: "int \<Rightarrow> writer \<Rightarrow> writer option" where
  "wr_Int i w = map_option (put (i32toa i)) (Prefix False w)"

definition wr_Double :: "(double \<Rightarrow> string) \<Rightarrow> double \<Rightarrow> writer \<Rightarrow> writer option" where
  "wr_Double dtoa d w = map_option (put (dtoa d)) (Prefix False w)"

definition push_level :: "bool \<Rightarrow> writer \<Rightarrow> writer" where
  "push_level inArray w = w\<lparr>wr_levels := (0, inArray) # wr_levels w\<rparr>"

definition StartObject :: "writer \<Rightarrow> writer option" where
  "StartObject w = map_option (\<lambda>w. put ''{'' (push_level False w)) (Prefix False w)"

definition StartArray :: "writer \<Rightarrow> writer option" where
  "StartArray w = map_option (\<lambda>w. put ''['' (push_level True w)) (Prefix False w)"

definition EndObject :: "writer \<Rightarrow> writer option" where
  "EndObject w =
     (case wr_levels w of
        (valueCount, inArray) # ls \<Rightarrow>
          if inArray \<or> odd valueCount then None else Some (put ''}'' (w\<lparr>wr_levels := ls\<rparr>))
      | [] \<Rightarrow> None)"

definition EndArray :: "writer \<Rightarrow> writer option" where
  "EndArray w =
     (case wr_levels w of
        (valueCount, inArray) # ls \<Rightarrow> if \<not> inArray then None else Some (put '']'' (w\<lparr>wr_levels := ls\<rparr>))
      | [] \<Rightarrow> None)"

text \<open>A sequence of calls.\<close>

fun calls :: "(writer \<Rightarrow> writer option) list \<Rightarrow> writer \<Rightarrow> writer option" where
  "calls [] w = Some w"
| "calls (f # fs) w = Option.bind (f w) (calls fs)"

lemma calls_append: "calls (fs @ gs) w = Option.bind (calls fs w) (calls gs)"
  by (induction fs arbitrary: w) (simp_all, metis bind_assoc)

section \<open>Calls that write a value\<close>

definition is_str :: "json \<Rightarrow> bool" where
  "is_str v \<longleftrightarrow> (case v of J_str _ \<Rightarrow> True | _ \<Rightarrow> False)"

text \<open>Called where a value is allowed, \<open>f\<close> writes the text of \<open>v\<close> after the separator.\<close>

definition writes :: "(writer \<Rightarrow> writer option) \<Rightarrow> json \<Rightarrow> bool" where
  "writes f v \<longleftrightarrow> (\<forall>w w'. Prefix (is_str v) w = Some w' \<longrightarrow> f w = Some (put (print_json v) w'))"

lemma put_simps [simp]:
  "wr_out (put s w) = wr_out w @ s" "wr_levels (put s w) = wr_levels w" "wr_root (put s w) = wr_root w"
  "put s (put t w) = put (t @ s) w" "put [] w = w"
  by (simp_all add: put_def)

lemma writes_String: "writes (wr_String s) (J_str (escape s))"
  by (simp add: writes_def wr_String_def is_str_def WriteString_def quoted_def)

lemma writes_Int: "- (2 ^ 31) \<le> i \<Longrightarrow> i < 2 ^ 31 \<Longrightarrow> writes (wr_Int i) (J_prim (int_text i))"
  by (simp add: writes_def wr_Int_def is_str_def i32toa_int_text)

lemma writes_Double: "writes (wr_Double dtoa d) (J_prim (dtoa d))"
  by (simp add: writes_def wr_Double_def is_str_def)

lemma Prefix_array:
  "wr_levels w = (n, True) # ls \<Longrightarrow>
   Prefix b w = Some ((put (if n > 0 then '','' else []) w)\<lparr>wr_levels := (Suc n, True) # ls\<rparr>)"
  by (simp add: Prefix_def put_def)

lemma Prefix_object:
  "wr_levels w = (n, False) # ls \<Longrightarrow> b \<or> odd n \<Longrightarrow>
   Prefix b w = Some ((put (if n > 0 then if even n then '','' else '':'' else []) w)\<lparr>wr_levels := (Suc n, False) # ls\<rparr>)"
  by (auto simp: Prefix_def put_def)

lemma put_levels [simp]: "put s (w\<lparr>wr_levels := ls\<rparr>) = (put s w)\<lparr>wr_levels := ls\<rparr>"
  by (simp add: put_def)

lemma calls_elements:
  "list_all2 writes fs vs \<Longrightarrow> wr_levels w = (n, True) # ls \<Longrightarrow>
   calls fs w = Some ((put ((if n > 0 \<and> vs \<noteq> [] then '','' else []) @ print_elements vs) w)\<lparr>wr_levels := (n + length vs, True) # ls\<rparr>)"
proof (induction fs vs arbitrary: w n rule: list_all2_induct)
  case Nil
  then show ?case by (cases w) (simp add: put_def)
next
  case (Cons f fs v vs)
  let ?w = "(put ((if n > 0 then '','' else []) @ print_json v) w)\<lparr>wr_levels := (Suc n, True) # ls\<rparr>"
  have "f w = Some ?w" using Cons.hyps(1) Cons.prems by (simp add: writes_def Prefix_array)
  moreover have "calls fs ?w = Some ((put ((if vs \<noteq> [] then '','' else []) @ print_elements vs) ?w)\<lparr>wr_levels := (Suc n + length vs, True) # ls\<rparr>)"
    using Cons.IH [of ?w "Suc n"] by simp
  ultimately show ?case by (simp add: put_def)
qed

lemma writes_array:
  assumes "list_all2 writes fs vs"
  shows "writes (calls (StartArray # fs @ [EndArray])) (J_arr vs)"
  unfolding writes_def
proof (intro allI impI)
  fix w w' assume p: "Prefix (is_str (J_arr vs)) w = Some w'"
  let ?w = "put ''['' (push_level True w')"
  have "StartArray w = Some ?w" using p by (simp add: StartArray_def is_str_def)
  moreover have "calls fs ?w = Some ((put (print_elements vs) ?w)\<lparr>wr_levels := (length vs, True) # wr_levels w'\<rparr>)"
    using calls_elements [OF assms, of ?w 0 "wr_levels w'"] by (simp add: push_level_def)
  ultimately show "calls (StartArray # fs @ [EndArray]) w = Some (put (print_json (J_arr vs)) w')"
    by (simp add: calls_append EndArray_def push_level_def)
qed

text \<open>The calls for a member: the key, then the value.\<close>

lemma calls_members:
  "list_all2 (\<lambda>(k, f) (k', v). k' = escape k \<and> writes f v) kfs ms \<Longrightarrow> wr_levels w = (n, False) # ls \<Longrightarrow> even n \<Longrightarrow>
   calls (concat (map (\<lambda>(k, f). [wr_String k, f]) kfs)) w =
     Some ((put ((if n > 0 \<and> ms \<noteq> [] then '','' else []) @ print_members ms) w)\<lparr>wr_levels := (n + 2 * length ms, False) # ls\<rparr>)"
proof (induction kfs ms arbitrary: w n rule: list_all2_induct)
  case Nil
  then show ?case by (cases w) (simp add: put_def)
next
  case (Cons kf kfs m ms)
  obtain k f v where kf: "kf = (k, f)" "m = (escape k, v)" "writes f v" using Cons.hyps(1) by (cases kf; cases m) auto
  let ?w1 = "(put ((if n > 0 then '','' else []) @ quoted (escape k)) w)\<lparr>wr_levels := (Suc n, False) # ls\<rparr>"
  let ?w2 = "(put ('':'' @ print_json v) ?w1)\<lparr>wr_levels := (Suc (Suc n), False) # ls\<rparr>"
  have "wr_String k w = Some ?w1" using Cons.prems by (simp add: wr_String_def Prefix_object WriteString_def quoted_def)
  moreover have "f ?w1 = Some ?w2" using kf(3) Cons.prems(2) by (simp add: writes_def Prefix_object)
  moreover have "calls (concat (map (\<lambda>(k, f). [wr_String k, f]) kfs)) ?w2 =
      Some ((put ((if ms \<noteq> [] then '','' else []) @ print_members ms) ?w2)\<lparr>wr_levels := (Suc (Suc n) + 2 * length ms, False) # ls\<rparr>)"
    using Cons.IH [of ?w2 "Suc (Suc n)"] Cons.prems(2) by simp
  ultimately show ?case using kf by (simp add: put_def)
qed

lemma writes_object:
  assumes "list_all2 (\<lambda>(k, f) (k', v). k' = escape k \<and> writes f v) kfs ms"
  shows "writes (calls (StartObject # concat (map (\<lambda>(k, f). [wr_String k, f]) kfs) @ [EndObject])) (J_obj ms)"
  unfolding writes_def
proof (intro allI impI)
  fix w w' assume p: "Prefix (is_str (J_obj ms)) w = Some w'"
  let ?w = "put ''{'' (push_level False w')"
  have "StartObject w = Some ?w" using p by (simp add: StartObject_def is_str_def)
  moreover have "calls (concat (map (\<lambda>(k, f). [wr_String k, f]) kfs)) ?w =
      Some ((put (print_members ms) ?w)\<lparr>wr_levels := (2 * length ms, False) # wr_levels w'\<rparr>)"
    using calls_members [OF assms, of ?w 0 "wr_levels w'"] by (simp add: push_level_def)
  ultimately show "calls (StartObject # concat (map (\<lambda>(k, f). [wr_String k, f]) kfs) @ [EndObject]) w = Some (put (print_json (J_obj ms)) w')"
    by (simp add: calls_append EndObject_def push_level_def)
qed

section \<open>Escaped strings\<close>

text \<open>The decoding of the escapes of a JSON string, for code points of one byte.\<close>

definition hex_value :: "char \<Rightarrow> nat" where
  "hex_value c = (if of_char c < (65 :: nat) then of_char c - 48 else if of_char c < (97 :: nat) then of_char c - 55 else of_char c - 87)"

definition escaped_letter :: "char \<Rightarrow> char" where
  "escaped_letter d =
     (if d = CHR ''b'' then CHR 0x08 else if d = CHR ''t'' then CHR 0x09 else if d = CHR ''n'' then CHR 0x0A
      else if d = CHR ''f'' then CHR 0x0C else if d = CHR ''r'' then CHR 0x0D else d)"

fun unescape :: "string \<Rightarrow> string" where
  "unescape [] = []"
| "unescape (c # cs) =
     (if c = CHR 0x5C then
        (case cs of
           [] \<Rightarrow> []
         | d # ds \<Rightarrow>
             if d = CHR ''u'' then char_of (foldl (\<lambda>n x. 16 * n + hex_value x) 0 (take 4 ds)) # unescape (drop 4 ds)
             else escaped_letter d # unescape ds)
      else c # unescape cs)"

lemma escape_char_cases:
  obtains (plain) "escape_char c = [c]" "c \<noteq> CHR 0x5C" "c \<noteq> CHR 0x22" "c \<noteq> CHR 0x00"
  | (letter) d where "escape_char c = [CHR 0x5C, d]" "simple_escape d" "d \<noteq> CHR ''u''" "escaped_letter d = c"
  | (hex) a b where "escape_char c = [CHR 0x5C, CHR ''u'', CHR ''0'', CHR ''0'', a, b]" "hex_digit a" "hex_digit b"
      "char_of (16 * hex_value a + hex_value b) = c"
proof -
  let ?n = "of_char c :: nat"
  have h: "hex_digit (hexDigits ! i) \<and> hex_value (hexDigits ! i) = i" if "i < 16" for i
  proof -
    have "\<forall>i \<in> set [0..<16]. hex_digit (hexDigits ! i) \<and> hex_value (hexDigits ! i) = i" by code_simp
    with that show ?thesis by auto
  qed
  consider "?n \<in> {8, 9, 10, 12, 13, 34, 92}" | "?n < 32" "?n \<notin> {8, 9, 10, 12, 13}" | "32 \<le> ?n" "?n \<noteq> 34" "?n \<noteq> 92" by force
  then show ?thesis
  proof cases
    case 1
    then have "c \<in> char_of ` {8, 9, 10, 12, 13, 34, 92 :: nat}" by (metis char_of_char imageI)
    moreover have "char_of ` {8, 9, 10, 12, 13, 34, 92 :: nat} = {CHR 0x08, CHR 0x09, CHR 0x0A, CHR 0x0C, CHR 0x0D, CHR 0x22, CHR 0x5C}"
      by code_simp
    ultimately have "c \<in> {CHR 0x08, CHR 0x09, CHR 0x0A, CHR 0x0C, CHR 0x0D, CHR 0x22, CHR 0x5C}" by blast
    then obtain d where "escape_char c = [CHR 0x5C, d]" "simple_escape d" "d \<noteq> CHR ''u''" "escaped_letter d = c"
      by (auto simp: escape_char_def escape_table_def simple_escape_def escaped_letter_def)
    then show ?thesis by (rule letter)
  next
    case 2
    then have "escape_table ?n = Some (CHR ''u'')" by (auto simp: escape_table_def)
    moreover have "hex_value (hexDigits ! (?n div 16)) = ?n div 16" "hex_digit (hexDigits ! (?n div 16))"
      "hex_value (hexDigits ! (?n mod 16)) = ?n mod 16" "hex_digit (hexDigits ! (?n mod 16))"
      using h [of "?n div 16"] h [of "?n mod 16"] 2 by auto
    ultimately show ?thesis using hex [of "hexDigits ! (?n div 16)" "hexDigits ! (?n mod 16)"] by (simp add: escape_char_def)
  next
    case 3
    then have "escape_char c = [c]" by (simp add: escape_char_def escape_table_def)
    moreover have "c \<noteq> CHR 0x5C" "c \<noteq> CHR 0x22" "c \<noteq> CHR 0x00" using 3 by auto
    ultimately show ?thesis by (rule plain)
  qed
qed

lemma str_body_escape [simp]: "str_body (escape s)"
proof (induction s)
  case (Cons c s)
  show ?case
  proof (cases c rule: escape_char_cases)
    case (hex a b)
    with Cons show ?thesis by (simp add: simple_escape_def hex_digit_def char_int_def)
  qed (use Cons in simp_all)
qed simp

text \<open>
  Every string is written with escapes that a JSON parser accepts and that decode to the string again,
  control characters, quotes, backslashes and zero bytes included.
\<close>

theorem escape_round_trip: "str_body (escape s) \<and> unescape (escape s) = s"
proof -
  have "unescape (escape s) = s"
  proof (induction s)
    case (Cons c s)
    show ?case
    proof (cases c rule: escape_char_cases)
      case (hex a b)
      with Cons show ?thesis by (simp add: hex_value_def)
    qed (use Cons in simp_all)
  qed simp
  then show ?thesis by simp
qed

end
