(* ===== verification/Rapid_Serializer.thy ===== *)
theory Rapid_Serializer
  imports Rapid_Writer
begin

text \<open>
  The serializers of bid responses in \<^verbatim>\<open>rtb/DSL/rapid_serializer.hpp\<close>, as \<open>rapid_mapper\<close> and \<open>any_mapper\<close> use them.
  The theorem says that no assertion of the writer fails and that the result is the JSON text of the response.
\<close>

section \<open>Serializers\<close>

type_synonym action = "writer \<Rightarrow> writer option"

definition serialize_string :: "string \<Rightarrow> action" where
  "serialize_string s = wr_String s"

definition serialize_vector :: "('a \<Rightarrow> action) \<Rightarrow> 'a list \<Rightarrow> action" where
  "serialize_vector f values =
     (if values = [] then calls [StartArray, EndArray] else calls (StartArray # map f values @ [EndArray]))"

definition serialize_NoBidReason :: "NoBidReason \<Rightarrow> action" where
  "serialize_NoBidReason nbr = wr_Int (NoBidReason_code nbr)"

definition serialize_CreativeAttribute :: "CreativeAttribute \<Rightarrow> action" where
  "serialize_CreativeAttribute attr = wr_Int (CreativeAttribute_code attr)"

definition serialize_int :: "int \<Rightarrow> action" where
  "serialize_int value = wr_Int value"

definition serialize_double :: "(double \<Rightarrow> string) \<Rightarrow> double \<Rightarrow> action" where
  "serialize_double dtoa value = wr_Double dtoa value"

definition serialize_Bid :: "(double \<Rightarrow> string) \<Rightarrow> Bid \<Rightarrow> action" where
  "serialize_Bid dtoa b = calls
     [StartObject,
      wr_String ''id'', serialize_string (bid_id b),
      wr_String ''impid'', serialize_string (bid_impid b),
      wr_String ''price'', serialize_double dtoa (bid_price b),
      wr_String ''adid'', serialize_string (bid_adid b),
      wr_String ''nurl'', serialize_string (bid_nurl b),
      wr_String ''adm'', serialize_string (bid_adm b),
      wr_String ''adomain'', calls (StartArray # map serialize_string (bid_adomain b) @ [EndArray]),
      wr_String ''iurl'', serialize_string (bid_iurl b),
      wr_String ''cid'', serialize_string (bid_cid b),
      wr_String ''crid'', serialize_string (bid_crid b),
      wr_String ''attr'', serialize_vector serialize_CreativeAttribute (bid_attr b),
      wr_String ''dealid'', serialize_string (bid_dealid b),
      wr_String ''w'', serialize_int (bid_w b),
      wr_String ''h'', serialize_int (bid_h b),
      EndObject]"

definition serialize_SeatBid :: "(double \<Rightarrow> string) \<Rightarrow> SeatBid \<Rightarrow> action" where
  "serialize_SeatBid dtoa s = calls
     [StartObject,
      wr_String ''bid'', serialize_vector (serialize_Bid dtoa) (sb_bid s),
      wr_String ''seat'', serialize_string (sb_seat s),
      wr_String ''group'', serialize_int (sb_group s),
      EndObject]"

definition serialize_BidResponse :: "(double \<Rightarrow> string) \<Rightarrow> BidResponse \<Rightarrow> action" where
  "serialize_BidResponse dtoa r = calls
     [StartObject,
      wr_String ''id'', serialize_string (brs_id r),
      wr_String ''seatbid'', serialize_vector (serialize_SeatBid dtoa) (brs_seatbid r),
      wr_String ''bidid'', serialize_string (brs_bidid r),
      wr_String ''cur'', serialize_string (brs_cur r),
      wr_String ''customdata'', serialize_string (brs_customdata r),
      wr_String ''nbr'', serialize_NoBidReason (brs_nbr r),
      EndObject]"

definition rapid_serialize :: "(double \<Rightarrow> string) \<Rightarrow> BidResponse \<Rightarrow> string option" where
  "rapid_serialize dtoa r = map_option wr_out (serialize_BidResponse dtoa r new_Writer)"

section \<open>The JSON value of a response\<close>

definition bid_json :: "(double \<Rightarrow> string) \<Rightarrow> Bid \<Rightarrow> json" where
  "bid_json dtoa b = J_obj
     [(''id'', J_str (escape (bid_id b))), (''impid'', J_str (escape (bid_impid b))), (''price'', J_prim (dtoa (bid_price b))),
      (''adid'', J_str (escape (bid_adid b))), (''nurl'', J_str (escape (bid_nurl b))), (''adm'', J_str (escape (bid_adm b))),
      (''adomain'', J_arr (map (\<lambda>s. J_str (escape s)) (bid_adomain b))), (''iurl'', J_str (escape (bid_iurl b))),
      (''cid'', J_str (escape (bid_cid b))), (''crid'', J_str (escape (bid_crid b))),
      (''attr'', J_arr (map (\<lambda>a. J_prim (int_text (CreativeAttribute_code a))) (bid_attr b))),
      (''dealid'', J_str (escape (bid_dealid b))), (''w'', J_prim (int_text (bid_w b))), (''h'', J_prim (int_text (bid_h b)))]"

definition seat_json :: "(double \<Rightarrow> string) \<Rightarrow> SeatBid \<Rightarrow> json" where
  "seat_json dtoa s = J_obj
     [(''bid'', J_arr (map (bid_json dtoa) (sb_bid s))), (''seat'', J_str (escape (sb_seat s))), (''group'', J_prim (int_text (sb_group s)))]"

definition response_json :: "(double \<Rightarrow> string) \<Rightarrow> BidResponse \<Rightarrow> json" where
  "response_json dtoa r = J_obj
     [(''id'', J_str (escape (brs_id r))), (''seatbid'', J_arr (map (seat_json dtoa) (brs_seatbid r))),
      (''bidid'', J_str (escape (brs_bidid r))), (''cur'', J_str (escape (brs_cur r))),
      (''customdata'', J_str (escape (brs_customdata r))), (''nbr'', J_prim (int_text (NoBidReason_code (brs_nbr r))))]"

text \<open>Integers have 32 bits, and floating-point numbers are printed as a JSON number.\<close>

definition int_ok :: "int \<Rightarrow> bool" where
  "int_ok i \<longleftrightarrow> - (2 ^ 31) \<le> i \<and> i < 2 ^ 31"

definition bid_ok :: "(double \<Rightarrow> string) \<Rightarrow> Bid \<Rightarrow> bool" where
  "bid_ok dtoa b \<longleftrightarrow> int_ok (bid_w b) \<and> int_ok (bid_h b) \<and> prim_text (dtoa (bid_price b))"

definition response_ok :: "(double \<Rightarrow> string) \<Rightarrow> BidResponse \<Rightarrow> bool" where
  "response_ok dtoa r \<longleftrightarrow> (\<forall>s \<in> set (brs_seatbid r). int_ok (sb_group s) \<and> (\<forall>b \<in> set (sb_bid s). bid_ok dtoa b))"

lemma list_all2_map_writes: "(\<And>x. x \<in> set xs \<Longrightarrow> writes (f x) (g x)) \<Longrightarrow> list_all2 writes (map f xs) (map g xs)"
  by (induction xs) simp_all

lemma writes_vector:
  assumes "\<And>x. x \<in> set xs \<Longrightarrow> writes (f x) (g x)"
  shows "writes (serialize_vector f xs) (J_arr (map g xs))"
proof (cases "xs = []")
  case True
  then show ?thesis using writes_array [of "[]" "[]"] by (simp add: serialize_vector_def)
next
  case False
  then show ?thesis using writes_array [OF list_all2_map_writes [OF assms], of xs] by (simp add: serialize_vector_def)
qed

lemma writes_int: "int_ok i \<Longrightarrow> writes (serialize_int i) (J_prim (int_text i))"
  by (simp add: int_ok_def serialize_int_def writes_Int)

lemma writes_enum: "writes (serialize_NoBidReason n) (J_prim (int_text (NoBidReason_code n)))"
  "writes (serialize_CreativeAttribute a) (J_prim (int_text (CreativeAttribute_code a)))"
  unfolding serialize_NoBidReason_def serialize_CreativeAttribute_def
  by (intro writes_Int; cases n; cases a; simp)+

lemma writes_string: "writes (serialize_string s) (J_str (escape s))"
  by (simp add: serialize_string_def writes_String)

lemma writes_double: "writes (serialize_double dtoa d) (J_prim (dtoa d))"
  by (simp add: serialize_double_def writes_Double)

lemmas writes_leaf = writes_string writes_double writes_enum writes_int

text \<open>A sequence of calls in the form of an object, with keys that need no escapes.\<close>

fun member_calls :: "(string \<times> action) list \<Rightarrow> action list" where
  "member_calls [] = []"
| "member_calls ((k, f) # kfs) = wr_String k # f # member_calls kfs"

lemma member_calls_concat: "member_calls kfs = concat (map (\<lambda>(k, f). [wr_String k, f]) kfs)"
  by (induction kfs rule: member_calls.induct) simp_all

definition plain_key :: "string \<Rightarrow> bool" where
  "plain_key k \<longleftrightarrow> list_all (\<lambda>c. escape_table (of_char c) = None) k"

lemma escape_plain_key: "plain_key k \<Longrightarrow> escape k = k"
  by (induction k) (simp_all add: plain_key_def escape_char_def)

lemma writes_members:
  assumes "list_all2 (\<lambda>(k, f) (k', v). k' = k \<and> plain_key k \<and> writes f v) kfs ms"
  shows "writes (calls (StartObject # member_calls kfs @ [EndObject])) (J_obj ms)"
proof -
  have "list_all2 (\<lambda>(k, f) (k', v). k' = escape k \<and> writes f v) kfs ms"
    by (rule list_all2_mono [OF assms]) (auto simp: escape_plain_key)
  from writes_object [OF this] show ?thesis by (simp only: member_calls_concat)
qed

lemma writes_Bid:
  assumes "bid_ok dtoa b"
  shows "writes (serialize_Bid dtoa b) (bid_json dtoa b)"
proof -
  have a: "writes (calls (StartArray # map serialize_string (bid_adomain b) @ [EndArray])) (J_arr (map (\<lambda>s. J_str (escape s)) (bid_adomain b)))"
    by (intro writes_array list_all2_map_writes writes_string)
  have v: "writes (serialize_vector serialize_CreativeAttribute (bid_attr b)) (J_arr (map (\<lambda>a. J_prim (int_text (CreativeAttribute_code a))) (bid_attr b)))"
    by (intro writes_vector writes_enum)
  have "writes (calls (StartObject # member_calls
      [(''id'', serialize_string (bid_id b)), (''impid'', serialize_string (bid_impid b)), (''price'', serialize_double dtoa (bid_price b)),
       (''adid'', serialize_string (bid_adid b)), (''nurl'', serialize_string (bid_nurl b)), (''adm'', serialize_string (bid_adm b)),
       (''adomain'', calls (StartArray # map serialize_string (bid_adomain b) @ [EndArray])),
       (''iurl'', serialize_string (bid_iurl b)), (''cid'', serialize_string (bid_cid b)), (''crid'', serialize_string (bid_crid b)),
       (''attr'', serialize_vector serialize_CreativeAttribute (bid_attr b)), (''dealid'', serialize_string (bid_dealid b)),
       (''w'', serialize_int (bid_w b)), (''h'', serialize_int (bid_h b))] @ [EndObject])) (bid_json dtoa b)"
    unfolding bid_json_def using assms
    by (intro writes_members) (simp add: bid_ok_def a v writes_leaf plain_key_def escape_table_def)
  then show ?thesis by (simp only: serialize_Bid_def member_calls.simps append.simps)
qed

lemma writes_SeatBid:
  assumes "int_ok (sb_group s)" and "\<forall>b \<in> set (sb_bid s). bid_ok dtoa b"
  shows "writes (serialize_SeatBid dtoa s) (seat_json dtoa s)"
proof -
  have v: "writes (serialize_vector (serialize_Bid dtoa) (sb_bid s)) (J_arr (map (bid_json dtoa) (sb_bid s)))"
    by (intro writes_vector writes_Bid) (use assms(2) in blast)
  have "writes (calls (StartObject # member_calls
      [(''bid'', serialize_vector (serialize_Bid dtoa) (sb_bid s)), (''seat'', serialize_string (sb_seat s)),
       (''group'', serialize_int (sb_group s))] @ [EndObject])) (seat_json dtoa s)"
    unfolding seat_json_def using assms(1)
    by (intro writes_members) (simp add: v writes_leaf plain_key_def escape_table_def)
  then show ?thesis by (simp only: serialize_SeatBid_def member_calls.simps append.simps)
qed

lemma writes_BidResponse:
  assumes "response_ok dtoa r"
  shows "writes (serialize_BidResponse dtoa r) (response_json dtoa r)"
proof -
  have v: "writes (serialize_vector (serialize_SeatBid dtoa) (brs_seatbid r)) (J_arr (map (seat_json dtoa) (brs_seatbid r)))"
    by (intro writes_vector writes_SeatBid) (use assms in \<open>auto simp: response_ok_def\<close>)
  have "writes (calls (StartObject # member_calls
      [(''id'', serialize_string (brs_id r)), (''seatbid'', serialize_vector (serialize_SeatBid dtoa) (brs_seatbid r)),
       (''bidid'', serialize_string (brs_bidid r)), (''cur'', serialize_string (brs_cur r)),
       (''customdata'', serialize_string (brs_customdata r)), (''nbr'', serialize_NoBidReason (brs_nbr r))] @ [EndObject])) (response_json dtoa r)"
    unfolding response_json_def
    by (intro writes_members) (simp add: v writes_leaf plain_key_def escape_table_def)
  then show ?thesis by (simp only: serialize_BidResponse_def member_calls.simps append.simps)
qed

lemma prim_text_digits: "s \<noteq> [] \<Longrightarrow> \<forall>c \<in> set s. is_digit_char c \<Longrightarrow> prim_text s"
  by (cases s) (auto simp: prim_text_def primitive_end_def white_def is_digit_char_def char_int_def)

lemma prim_text_int [simp]: "prim_text (int_text i)"
proof (cases "i < 0")
  case True
  have "prim_text (to_string (nat (- i)))" using to_string_digits by (intro prim_text_digits) auto
  with True show ?thesis by (auto simp: prim_text_def int_text_def primitive_end_def white_def char_int_def)
next
  case False
  then show ?thesis using to_string_digits by (simp add: int_text_def) (intro prim_text_digits; auto)
qed

lemma elements_ok_iff: "elements_ok vs \<longleftrightarrow> (\<forall>v \<in> set vs. json_ok v)"
  by (induction vs) simp_all

lemma response_json_ok: "response_ok dtoa r \<Longrightarrow> json_ok (response_json dtoa r)"
  by (auto simp: response_json_def seat_json_def bid_json_def elements_ok_iff response_ok_def bid_ok_def simple_escape_def)

lemma serialized_response:
  assumes "response_ok dtoa r"
  shows "rapid_serialize dtoa r = Some (print_json (response_json dtoa r)) \<and>
    json_text (response_json dtoa r) (print_json (response_json dtoa r)) \<and>
    (\<exists>w. serialize_BidResponse dtoa r new_Writer = Some w \<and> IsComplete w)"
proof -
  have "Prefix (is_str (response_json dtoa r)) new_Writer = Some (new_Writer\<lparr>wr_root := True\<rparr>)"
    by (simp add: Prefix_def new_Writer_def)
  with writes_BidResponse [OF assms]
  have "serialize_BidResponse dtoa r new_Writer = Some (put (print_json (response_json dtoa r)) (new_Writer\<lparr>wr_root := True\<rparr>))"
    by (simp add: writes_def)
  then show ?thesis
    using print_json_text(1) [OF response_json_ok [OF assms]] by (simp add: rapid_serialize_def IsComplete_def new_Writer_def)
qed

text \<open>
  C21: serializing a bid response violates no assertion of the writer and writes the compact JSON text of the
  response, with every string escaped: a text that the tokenizer accepts and describes as the response.
\<close>

theorem rapid_serialize_text:
  assumes "response_ok dtoa r"
  shows "rapid_serialize dtoa r = Some (print_json (response_json dtoa r)) \<and>
    json_text (response_json dtoa r) (print_json (response_json dtoa r)) \<and>
    (\<exists>w. serialize_BidResponse dtoa r new_Writer = Some w \<and> IsComplete w)"
  by (rule serialized_response [OF assms])

theorem rapid_serialize_text_witness:
  "rapid_serialize (\<lambda>_. ''0.5'') ((new_BidResponse NBR_UNKNOWN_ERROR)\<lparr>brs_id := ''a\"b''\<rparr>) =
     Some (''{\"id\":\"a'' @ [CHR 0x5C] @ ''\"b\",\"seatbid\":[],\"bidid\":\"\",\"cur\":\"\",\"customdata\":\"\",\"nbr\":0}'')"
proof -
  let ?r = "(new_BidResponse NBR_UNKNOWN_ERROR)\<lparr>brs_id := ''a\"b''\<rparr>"
  have "response_ok (\<lambda>_. ''0.5'') ?r" by (simp add: response_ok_def new_BidResponse_def)
  moreover have "print_json (response_json (\<lambda>_. ''0.5'') ?r) =
      ''{\"id\":\"a'' @ [CHR 0x5C] @ ''\"b\",\"seatbid\":[],\"bidid\":\"\",\"cur\":\"\",\"customdata\":\"\",\"nbr\":0}''" by code_simp
  ultimately show ?thesis using rapid_serialize_text [of "\<lambda>_. ''0.5''" ?r] by simp
qed

end
