(* ===== verification/Auction_Service.thy ===== *)
theory Auction_Service
  imports Exchange_Handler Any_Mapper Rapid_Serializer
begin

text \<open>
  The auction service over JSON: the handler of \<^verbatim>\<open>rtb/exchange/exchange_handler.hpp\<close> with the mapper of
  \<^verbatim>\<open>rtb/DSL/any_mapper.hpp\<close> and the front end of \<^verbatim>\<open>rtb/DSL/generic_dsl.hpp\<close>, as \<^verbatim>\<open>examples/exchange_handler_test.cpp\<close>
  combines them. The theorem follows a bid request from its text to the text of the reply.
\<close>

section \<open>The mapper as the parameter of the handler\<close>

text \<open>\<open>what\<close> gives the text of an exception. The writer never fails, so the empty text is never used.\<close>

definition create_response :: "(double \<Rightarrow> string) \<Rightarrow> BidResponse \<Rightarrow> string" where
  "create_response dtoa r = (case rapid_serialize dtoa r of Some s \<Rightarrow> s | None \<Rightarrow> [])"

definition extract_request :: "(dsl_error \<Rightarrow> string) \<Rightarrow> numbers \<Rightarrow> uninitialized \<Rightarrow> jsmntok_t list \<Rightarrow> string \<Rightarrow> string + BidRequest" where
  "extract_request what nums un t text = (case any_extract nums un t text of Inl e \<Rightarrow> Inl (what e) | Inr r \<Rightarrow> Inr r)"

definition any_dsl :: "(dsl_error \<Rightarrow> string) \<Rightarrow> numbers \<Rightarrow> (double \<Rightarrow> string) \<Rightarrow> uninitialized \<Rightarrow> jsmntok_t list \<Rightarrow> dsl" where
  "any_dsl what nums dtoa un t = \<lparr>dsl_extract = extract_request what nums un t, dsl_create = create_response dtoa\<rparr>"

lemma create_response_text: "response_ok dtoa r \<Longrightarrow> create_response dtoa r = print_json (response_json dtoa r)"
  using serialized_response [of dtoa r] by (simp add: create_response_def)

text \<open>
  C3: a bid request from its text to the text of the reply. For a request printed as JSON with any white space, in
  at most 128 tokens, as many as the mapper has room for (a longer one is refused), and with floors that are printed
  with a decimal point, the auction sees the members the mapper knows; its response is answered as the JSON
  text of the response, with its exact length, or with an empty body when it is late. The handler has an asynchronous
  auction and neither a decision table nor a filter of responses nor a log. The time limit is that of the handler, whatever
  limit the request has: the mapper does not read it.
\<close>

theorem posted_request_answered:
  assumes "number_casts nums dbl printable" and "\<forall>i \<in> set (brq_imp req). printable (imp_bidfloor i)"
    and "json_text (request_json dbl req) txt" and "blank w1" and "blank w2" and "length t = any_token_count"
    and "ntoks (request_json dbl req) \<le> any_token_count"
    and "eh_decision h = None" and "eh_auction_async h = Some f" and "eh_if_response h = None" and "eh_log h = None"
    and "f (request_view un req) s = Inr (resp, s')" and "response_ok dtoa resp"
  shows "\<exists>r body. handle_post (any_dsl what nums dtoa un t) elapsed (w1 @ txt @ w2) (new_reply g) h s = Some (Inr (r, s')) \<and>
    read_reply (concat (to_buffers r)) =
      Some (''200'', [\<lparr>hdr_name = ''Content-Length'', hdr_value = to_string (length body)\<rparr>,
        \<lparr>hdr_name = ''Content-Type'', hdr_value = extension_to_type ''json''\<rparr>], body) \<and>
    body = (if elapsed + 1000 \<le> 1000 * eh_tmax h then print_json (response_json dtoa resp) else [])"
proof -
  have x: "dsl_extract (any_dsl what nums dtoa un t) (w1 @ txt @ w2) = Inr (request_view un req)"
    by (simp add: any_dsl_def extract_request_def printed_request_extracted [OF assms(1-7)])
  have c: "dsl_create (any_dsl what nums dtoa un t) resp = print_json (response_json dtoa resp)"
    by (simp add: any_dsl_def create_response_text [OF assms(13)])
  have l: "run_log (eh_log h) (w1 @ txt @ w2) s = s" using assms(11) by (simp add: run_log_def)
  have tm: "brq_tmax (request_view un req) = 0" by (simp add: request_view_def new_BidRequest_def)
  show ?thesis
    using posted_reply [OF assms(8-10), of "w1 @ txt @ w2" s "any_dsl what nums dtoa un t" elapsed g] assms(12)
    by (cases "elapsed + 1000 \<le> 1000 * eh_tmax h") (simp_all add: x l tm c Let_def)
qed

theorem posted_request_answered_witness:
  "\<exists>r. handle_post (any_dsl (\<lambda>_. []) plain_numbers cents_text example_uninitialized stale_tokens) 2000
      ([] @ print_json (request_json cents_text example_request) @ []) (new_reply Not_found)
      (auction_async (\<lambda>req s. Inr (priced_response 1, s)) (new_exchange_handler 50 :: (nat, nat) exchange_handler)) 0 = Some (Inr (r, 0)) \<and>
    (\<exists>hs. read_reply (concat (to_buffers r)) = Some (''200'', hs, print_json (response_json cents_text (priced_response 1))))"
proof -
  let ?h = "auction_async (\<lambda>req s. Inr (priced_response 1, s)) (new_exchange_handler 50 :: (nat, nat) exchange_handler)"
  let ?f = "\<lambda>(req :: BidRequest) (s :: nat). Inr (priced_response 1, s) :: nat + (BidResponse \<times> nat)"
  have h: "eh_decision ?h = None" "eh_auction_async ?h = Some ?f" "eh_if_response ?h = None" "eh_log ?h = None" "eh_tmax ?h = 50"
    by (simp_all add: auction_async_def new_exchange_handler_def)
  have p: "\<forall>i \<in> set (brq_imp example_request). whole_cents (imp_bidfloor i)"
    by (simp add: example_request_def whole_cents_def)
  have ok: "response_ok cents_text (priced_response 1)" by code_simp
  show ?thesis
    using posted_request_answered [OF plain_casts.number_casts_axioms p print_json_text(1) [OF example_request_ok] blank_Nil blank_Nil
        length_stale_tokens example_request_tokens h(1-4) refl ok, of "\<lambda>_. []" example_uninitialized 2000 Not_found 0] h(5) by auto
qed

end
