(* ===== verification/Rapid_Reader.thy ===== *)
theory Rapid_Reader
  imports Jsmn Openrtb
begin

text \<open>
  The recursive JSON reader of \<^verbatim>\<open>rapidjson/reader.h\<close> with its default flags, on a text in memory
  (\<^verbatim>\<open>StringStream\<close>), with the UTF-8 encoder of \<^verbatim>\<open>rapidjson/encodings.h\<close> and the fast path of
  \<^verbatim>\<open>rapidjson/internal/strtod.h\<close>. The handler of the events is a parameter. The stream is the rest of the text, up to
  its first null character; counts and lengths do not wrap, which holds for texts below 4 GB. A \<^typ>\<open>double\<close>
  is the exact value of a finite double, and \<open>rnd\<close> rounds an exact result to a double, so that every
  floating-point operation is the exact one followed by \<open>rnd\<close>.
\<close>

section \<open>Streams, errors and events\<close>

datatype ParseErrorCode = kParseErrorDocumentEmpty | kParseErrorDocumentRootNotSingular | kParseErrorValueInvalid
  | kParseErrorObjectMissName | kParseErrorObjectMissColon | kParseErrorObjectMissCommaOrCurlyBracket
  | kParseErrorArrayMissCommaOrSquareBracket | kParseErrorStringUnicodeEscapeInvalidHex
  | kParseErrorStringUnicodeSurrogateInvalid | kParseErrorStringEscapeInvalid | kParseErrorStringMissQuotationMark
  | kParseErrorStringInvalidEncoding | kParseErrorNumberTooBig | kParseErrorNumberMissFraction
  | kParseErrorNumberMissExponent | kParseErrorTermination | kParseErrorUnspecificSyntaxError

text \<open>
  An error carries the length of the text that is left where it is reported. A failed assertion ends the
  process; running out of fuel is a failure of the model only.
\<close>

datatype failure = Out_of_fuel | Assertion_failed | Parse_error ParseErrorCode nat

type_synonym 'a reading = "failure + string \<times> 'a"

definition peek :: "string \<Rightarrow> char" where
  "peek s = (case s of [] \<Rightarrow> CHR 0x00 | c # _ \<Rightarrow> c)"

definition Consume :: "string \<Rightarrow> char \<Rightarrow> bool \<times> string" where
  "Consume s c = (if peek s = c then (True, tl s) else (False, s))"

definition skip_whitespace :: "string \<Rightarrow> string" where
  "skip_whitespace s = dropWhile (\<lambda>c. c = CHR '' '' \<or> c = CHR 0x0A \<or> c = CHR 0x0D \<or> c = CHR 0x09) s"

datatype sax_event = Ev_Null | Ev_Bool bool | Ev_Int int | Ev_Uint nat | Ev_Int64 int | Ev_Uint64 nat | Ev_Double double
  | Ev_String string | Ev_StartObject | Ev_Key string | Ev_EndObject nat | Ev_StartArray | Ev_EndArray nat

text \<open>A handler takes an event in its state, and says whether parsing goes on.\<close>

type_synonym 'h handler = "sax_event \<Rightarrow> 'h \<Rightarrow> bool \<times> 'h"

definition emit :: "'h handler \<Rightarrow> sax_event \<Rightarrow> 'h \<Rightarrow> nat \<Rightarrow> string \<Rightarrow> 'h reading" where
  "emit put e h offset s = (case put e h of (cont, h') \<Rightarrow>
     if cont then Inr (s, h') else Inl (Parse_error kParseErrorTermination offset))"

definition proceed :: "'a reading \<Rightarrow> (string \<Rightarrow> 'a \<Rightarrow> 'b reading) \<Rightarrow> 'b reading" where
  "proceed r f = (case r of Inl e \<Rightarrow> Inl e | Inr (s, x) \<Rightarrow> f s x)"

section \<open>Strings\<close>

definition hex4_val :: "char \<Rightarrow> nat option" where
  "hex4_val c =
     (if 48 \<le> char_int c \<and> char_int c \<le> 57 then Some (nat (char_int c) - 48)
      else if 65 \<le> char_int c \<and> char_int c \<le> 70 then Some (nat (char_int c) - 55)
      else if 97 \<le> char_int c \<and> char_int c \<le> 102 then Some (nat (char_int c) - 87)
      else None)"

fun hex4_digits :: "nat \<Rightarrow> nat \<Rightarrow> string \<Rightarrow> (string \<times> nat) option" where
  "hex4_digits 0 codepoint s = Some (s, codepoint)"
| "hex4_digits (Suc i) codepoint s =
     (case hex4_val (peek s) of None \<Rightarrow> None | Some d \<Rightarrow> hex4_digits i (16 * codepoint + d) (tl s))"

definition ParseHex4 :: "string \<Rightarrow> (string \<times> nat) option" where
  "ParseHex4 s = hex4_digits 4 0 s"

definition UTF8_Encode :: "nat \<Rightarrow> string" where
  "UTF8_Encode codepoint =
     (if codepoint \<le> 0x7F then [char_of codepoint]
      else if codepoint \<le> 0x7FF then [char_of (0xC0 + codepoint div 64), char_of (0x80 + codepoint mod 64)]
      else if codepoint \<le> 0xFFFF then
        [char_of (0xE0 + codepoint div 4096), char_of (0x80 + codepoint div 64 mod 64), char_of (0x80 + codepoint mod 64)]
      else
        [char_of (0xF0 + codepoint div 262144), char_of (0x80 + codepoint div 4096 mod 64),
         char_of (0x80 + codepoint div 64 mod 64), char_of (0x80 + codepoint mod 64)])"

definition escape_of :: "char \<Rightarrow> char option" where
  "escape_of c =
     (if c = CHR 0x22 then Some (CHR 0x22) else if c = CHR ''/'' then Some (CHR ''/'')
      else if c = CHR 0x5C then Some (CHR 0x5C) else if c = CHR ''b'' then Some (CHR 0x08)
      else if c = CHR ''f'' then Some (CHR 0x0C) else if c = CHR ''n'' then Some (CHR 0x0A)
      else if c = CHR ''r'' then Some (CHR 0x0D) else if c = CHR ''t'' then Some (CHR 0x09) else None)"

text \<open>The code point after \<^verbatim>\<open>u\<close>, which may take a second escape; \<open>offset\<close> is that of the escape.\<close>

definition unicode_escape :: "nat \<Rightarrow> string \<Rightarrow> nat reading" where
  "unicode_escape offset s =
     (case ParseHex4 s of
        None \<Rightarrow> Inl (Parse_error kParseErrorStringUnicodeEscapeInvalidHex offset)
      | Some (s1, codepoint) \<Rightarrow>
          if 0xD800 \<le> codepoint \<and> codepoint \<le> 0xDBFF then
            if peek s1 = CHR 0x5C \<and> peek (tl s1) = CHR ''u'' then
              (case ParseHex4 (tl (tl s1)) of
                 None \<Rightarrow> Inl (Parse_error kParseErrorStringUnicodeEscapeInvalidHex offset)
               | Some (s2, codepoint2) \<Rightarrow>
                   if codepoint2 < 0xDC00 \<or> codepoint2 > 0xDFFF then
                     Inl (Parse_error kParseErrorStringUnicodeSurrogateInvalid offset)
                   else Inr (s2, (codepoint - 0xD800) * 1024 + (codepoint2 - 0xDC00) + 0x10000))
            else Inl (Parse_error kParseErrorStringUnicodeSurrogateInvalid offset)
          else Inr (s1, codepoint))"

lemma hex4_digits_length: "hex4_digits n cp s = Some (s', cp') \<Longrightarrow> length s' \<le> length s"
  by (induction n arbitrary: cp s) (fastforce split: option.splits)+

lemma ParseHex4_length: "ParseHex4 s = Some (s', cp) \<Longrightarrow> length s' \<le> length s"
  by (simp add: ParseHex4_def hex4_digits_length)

lemma unicode_escape_length: "unicode_escape off s = Inr (s', cp) \<Longrightarrow> length s' \<le> length s"
  by (fastforce simp: unicode_escape_def dest: ParseHex4_length split: option.splits if_splits)

text \<open>The text after the opening quotation mark.\<close>

function ParseStringToStream :: "string \<Rightarrow> string \<Rightarrow> string reading" where
  "ParseStringToStream s out =
     (if peek s = CHR 0x5C then
        let e = peek (tl s)
        in (case escape_of e of
              Some c \<Rightarrow> ParseStringToStream (tl (tl s)) (out @ [c])
            | None \<Rightarrow>
                if e = CHR ''u'' then
                  (case unicode_escape (length s) (tl (tl s)) of
                     Inl f \<Rightarrow> Inl f
                   | Inr (s', codepoint) \<Rightarrow> ParseStringToStream s' (out @ UTF8_Encode codepoint))
                else Inl (Parse_error kParseErrorStringEscapeInvalid (length s)))
      else if peek s = CHR 0x22 then Inr (tl s, out)
      else if (of_char (peek s) :: nat) < 0x20 then
        Inl (Parse_error (if peek s = CHR 0x00 then kParseErrorStringMissQuotationMark else kParseErrorStringInvalidEncoding) (length s))
      else ParseStringToStream (tl s) (out @ [peek s]))"
  by pat_completeness auto
termination
  by (relation "measure (\<lambda>(s, out). length s)")
    (auto simp: peek_def dest!: unicode_escape_length split: list.splits)

declare ParseStringToStream.simps [simp del]

definition ParseString :: "'h handler \<Rightarrow> bool \<Rightarrow> string \<Rightarrow> 'h \<Rightarrow> 'h reading" where
  "ParseString put isKey s h =
     proceed (ParseStringToStream (tl s) []) (\<lambda>s' str. emit put (if isKey then Ev_Key str else Ev_String str) h (length s') s')"

section \<open>Numbers\<close>

type_synonym rounding = "rat \<Rightarrow> double"

text \<open>Digits up to the limit of the integer type; the first component says that the limit ended the loop.\<close>

fun int_digits :: "nat \<Rightarrow> nat \<Rightarrow> nat \<Rightarrow> string \<Rightarrow> nat \<Rightarrow> nat \<Rightarrow> bool \<times> string \<times> nat \<times> nat" where
  "int_digits modulus limit final [] i n = (False, [], i, n)"
| "int_digits modulus limit final (c # s) i n =
     (if is_digit_char c then
        if i \<ge> limit \<and> (i \<noteq> limit \<or> digit_val c > final) then (True, c # s, i, n)
        else int_digits modulus limit final s ((i * 10 + digit_val c) mod modulus) (Suc n)
      else (False, c # s, i, n))"

record number_state =
  ns_i :: nat
  ns_i64 :: nat
  ns_use64bit :: bool
  ns_significandDigit :: nat
  ns_d :: double
  ns_useDouble :: bool
  ns_expFrac :: int
  ns_exp :: int

definition new_number :: number_state where
  "new_number = \<lparr>ns_i = 0, ns_i64 = 0, ns_use64bit = False, ns_significandDigit = 0, ns_d = 0, ns_useDouble = False,
     ns_expFrac = 0, ns_exp = 0\<rparr>"

definition number_int :: "bool \<Rightarrow> string \<Rightarrow> number_state reading" where
  "number_int neg s =
     (if peek s = CHR ''0'' then Inr (tl s, new_number)
      else if is_digit_char (peek s) then
        (case int_digits (2 ^ 32) (if neg then 214748364 else 429496729) (if neg then 8 else 5) (tl s) (digit_val (peek s)) 0 of
           (stopped, s', i, n) \<Rightarrow>
             Inr (s', new_number\<lparr>ns_i := i, ns_i64 := if stopped then i else 0, ns_use64bit := stopped, ns_significandDigit := n\<rparr>))
      else Inl (Parse_error kParseErrorValueInvalid (length s)))"

definition number_int64 :: "rounding \<Rightarrow> bool \<Rightarrow> string \<Rightarrow> number_state \<Rightarrow> number_state reading" where
  "number_int64 rnd neg s st =
     (if ns_use64bit st then
        (case int_digits (2 ^ 64) (if neg then 0x0CCCCCCCCCCCCCCC else 0x1999999999999999) (if neg then 8 else 5) s
            (ns_i64 st) (ns_significandDigit st) of
           (stopped, s', i64, n) \<Rightarrow>
             Inr (s', st\<lparr>ns_i64 := i64, ns_significandDigit := n, ns_d := if stopped then rnd (of_nat i64) else ns_d st,
               ns_useDouble := stopped\<rparr>))
      else Inr (s, st))"

text \<open>The literal \<^verbatim>\<open>1.7976931348623157e307\<close>.\<close>

definition max_tenth :: "rounding \<Rightarrow> double" where
  "max_tenth rnd = rnd (17976931348623157 * 10 ^ 291)"

fun big_digits :: "rounding \<Rightarrow> nat \<Rightarrow> string \<Rightarrow> double \<Rightarrow> double reading" where
  "big_digits rnd startOffset [] d = Inr ([], d)"
| "big_digits rnd startOffset (c # s) d =
     (if is_digit_char c then
        if d \<ge> max_tenth rnd then Inl (Parse_error kParseErrorNumberTooBig startOffset)
        else big_digits rnd startOffset s (rnd (rnd (d * 10) + of_nat (digit_val c)))
      else Inr (c # s, d))"

definition number_big :: "rounding \<Rightarrow> nat \<Rightarrow> string \<Rightarrow> number_state \<Rightarrow> number_state reading" where
  "number_big rnd startOffset s st =
     (if ns_useDouble st then proceed (big_digits rnd startOffset s (ns_d st)) (\<lambda>s' d. Inr (s', st\<lparr>ns_d := d\<rparr>))
      else Inr (s, st))"

fun frac_int :: "string \<Rightarrow> nat \<Rightarrow> int \<Rightarrow> nat \<Rightarrow> string \<times> nat \<times> int \<times> nat" where
  "frac_int [] i64 expFrac n = ([], i64, expFrac, n)"
| "frac_int (c # s) i64 expFrac n =
     (if is_digit_char c \<and> i64 \<le> 0x1FFFFFFFFFFFFF then
        let i64' = (i64 * 10 + digit_val c) mod 2 ^ 64
        in frac_int s i64' (expFrac - 1) (if i64' \<noteq> 0 then Suc n else n)
      else (c # s, i64, expFrac, n))"

fun frac_double :: "rounding \<Rightarrow> string \<Rightarrow> double \<Rightarrow> int \<Rightarrow> nat \<Rightarrow> string \<times> double \<times> int" where
  "frac_double rnd [] d expFrac n = ([], d, expFrac)"
| "frac_double rnd (c # s) d expFrac n =
     (if is_digit_char c then
        if n < 17 then
          let d' = rnd (rnd (d * 10) + of_nat (digit_val c))
          in frac_double rnd s d' (expFrac - 1) (if d' > 0 then Suc n else n)
        else frac_double rnd s d expFrac n
      else (c # s, d, expFrac))"

definition number_frac :: "rounding \<Rightarrow> string \<Rightarrow> number_state \<Rightarrow> number_state reading" where
  "number_frac rnd s st =
     (if peek s = CHR ''.'' then
        if \<not> is_digit_char (peek (tl s)) then Inl (Parse_error kParseErrorNumberMissFraction (length (tl s)))
        else
          (case (if ns_useDouble st then (tl s, ns_d st, ns_expFrac st, ns_significandDigit st)
                 else (case frac_int (tl s) (if ns_use64bit st then ns_i64 st else ns_i st) (ns_expFrac st) (ns_significandDigit st) of
                         (s', i64, expFrac, n) \<Rightarrow> (s', rnd (of_nat i64), expFrac, n))) of
             (s1, d1, expFrac1, n1) \<Rightarrow>
               (case frac_double rnd s1 d1 expFrac1 n1 of
                  (s2, d2, expFrac2) \<Rightarrow> Inr (s2, st\<lparr>ns_d := d2, ns_useDouble := True, ns_expFrac := expFrac2\<rparr>)))
      else Inr (s, st))"

fun exp_minus :: "string \<Rightarrow> int \<Rightarrow> string \<times> int" where
  "exp_minus [] e = ([], e)"
| "exp_minus (c # s) e =
     (if is_digit_char c then
        let e' = e * 10 + int (digit_val c)
        in if e' \<ge> 214748364 then (dropWhile is_digit_char s, e') else exp_minus s e'
      else (c # s, e))"

fun exp_plus :: "nat \<Rightarrow> int \<Rightarrow> string \<Rightarrow> int \<Rightarrow> int reading" where
  "exp_plus startOffset maxExp [] e = Inr ([], e)"
| "exp_plus startOffset maxExp (c # s) e =
     (if is_digit_char c then
        let e' = e * 10 + int (digit_val c)
        in if e' > maxExp then Inl (Parse_error kParseErrorNumberTooBig startOffset) else exp_plus startOffset maxExp s e'
      else Inr (c # s, e))"

definition exp_sign :: "string \<Rightarrow> bool \<times> string" where
  "exp_sign s = (if peek s = CHR ''+'' then (False, tl s) else if peek s = CHR ''-'' then (True, tl s) else (False, s))"

definition number_exp :: "rounding \<Rightarrow> nat \<Rightarrow> string \<Rightarrow> number_state \<Rightarrow> number_state reading" where
  "number_exp rnd startOffset s st =
     (if peek s = CHR ''e'' \<or> peek s = CHR ''E'' then
        let st' = (if ns_useDouble st then st
                   else st\<lparr>ns_d := rnd (of_nat (if ns_use64bit st then ns_i64 st else ns_i st)), ns_useDouble := True\<rparr>)
        in (case exp_sign (tl s) of
              (expMinus, s1) \<Rightarrow>
                if \<not> is_digit_char (peek s1) then Inl (Parse_error kParseErrorNumberMissExponent (length s1))
                else if expMinus then
                  (case exp_minus (tl s1) (int (digit_val (peek s1))) of (s2, e) \<Rightarrow> Inr (s2, st'\<lparr>ns_exp := - e\<rparr>))
                else
                  proceed (exp_plus startOffset (308 - ns_expFrac st) (tl s1) (int (digit_val (peek s1))))
                    (\<lambda>s2 e. Inr (s2, st'\<lparr>ns_exp := e\<rparr>)))
      else Inr (s, st))"

text \<open>The table of powers of ten has 309 entries; an index outside it fails an assertion.\<close>

definition Pow10 :: "rounding \<Rightarrow> int \<Rightarrow> double option" where
  "Pow10 rnd n = (if 0 \<le> n \<and> n \<le> 308 then Some (rnd (10 ^ nat n)) else None)"

definition FastPath :: "rounding \<Rightarrow> double \<Rightarrow> int \<Rightarrow> double option" where
  "FastPath rnd significand e =
     (if e < -308 then Some 0
      else if e \<ge> 0 then map_option (\<lambda>p. rnd (significand * p)) (Pow10 rnd e)
      else map_option (\<lambda>p. rnd (significand / p)) (Pow10 rnd (- e)))"

definition StrtodNormalPrecision :: "rounding \<Rightarrow> double \<Rightarrow> int \<Rightarrow> double option" where
  "StrtodNormalPrecision rnd d p =
     (if p < -308 then Option.bind (FastPath rnd d (-308)) (\<lambda>d'. FastPath rnd d' (p + 308)) else FastPath rnd d p)"

text \<open>The value of \<^verbatim>\<open>~i + 1\<close>, read as a signed number of \<open>w\<close> bits.\<close>

definition negated :: "nat \<Rightarrow> nat \<Rightarrow> int" where
  "negated w i = (let u = (2 ^ w - 1 - i + 1) mod 2 ^ w in if u < 2 ^ (w - 1) then int u else int u - 2 ^ w)"

text \<open>The exponents are added as 32-bit numbers.\<close>

definition number_event :: "rounding \<Rightarrow> bool \<Rightarrow> number_state \<Rightarrow> failure + sax_event" where
  "number_event rnd neg st =
     (if ns_useDouble st then
        (case StrtodNormalPrecision rnd (ns_d st) (int32 (ns_exp st + ns_expFrac st)) of
           None \<Rightarrow> Inl Assertion_failed
         | Some d \<Rightarrow> Inr (Ev_Double (if neg then - d else d)))
      else if ns_use64bit st then Inr (if neg then Ev_Int64 (negated 64 (ns_i64 st)) else Ev_Uint64 (ns_i64 st))
      else Inr (if neg then Ev_Int (negated 32 (ns_i st)) else Ev_Uint (ns_i st)))"

text \<open>The phases of a number, and a whole number; \<open>startOffset\<close> is used for errors only.\<close>

definition number_phases :: "rounding \<Rightarrow> bool \<Rightarrow> nat \<Rightarrow> string \<Rightarrow> number_state reading" where
  "number_phases rnd neg startOffset s0 =
     proceed (number_int neg s0) (\<lambda>s1 st1.
     proceed (number_int64 rnd neg s1 st1) (\<lambda>s2 st2.
     proceed (number_big rnd startOffset s2 st2) (\<lambda>s3 st3.
     proceed (number_frac rnd s3 st3) (number_exp rnd startOffset))))"

definition read_number :: "rounding \<Rightarrow> string \<Rightarrow> sax_event reading" where
  "read_number rnd s =
     (case Consume s CHR ''-'' of (neg, s0) \<Rightarrow>
        proceed (number_phases rnd neg (length s) s0) (\<lambda>s1 st.
          case number_event rnd neg st of Inl f \<Rightarrow> Inl f | Inr e \<Rightarrow> Inr (s1, e)))"

definition ParseNumber :: "rounding \<Rightarrow> 'h handler \<Rightarrow> string \<Rightarrow> 'h \<Rightarrow> 'h reading" where
  "ParseNumber rnd put s h = proceed (read_number rnd s) (\<lambda>s' e. emit put e h (length s) s')"

section \<open>Values\<close>

definition literal :: "'h handler \<Rightarrow> string \<Rightarrow> sax_event \<Rightarrow> string \<Rightarrow> 'h \<Rightarrow> 'h reading" where
  "literal put word e s h =
     (if take (length word) (tl s) = word then emit put e h (length s - 1 - length word) (drop (length word) (tl s))
      else Inl (Parse_error kParseErrorValueInvalid
        (length (tl s) - length (takeWhile (\<lambda>(a, b). a = b) (zip word (tl s))))))"

definition ParseNull :: "'h handler \<Rightarrow> string \<Rightarrow> 'h \<Rightarrow> 'h reading" where
  "ParseNull put = literal put ''ull'' Ev_Null"

definition ParseTrue :: "'h handler \<Rightarrow> string \<Rightarrow> 'h \<Rightarrow> 'h reading" where
  "ParseTrue put = literal put ''rue'' (Ev_Bool True)"

definition ParseFalse :: "'h handler \<Rightarrow> string \<Rightarrow> 'h \<Rightarrow> 'h reading" where
  "ParseFalse put = literal put ''alse'' (Ev_Bool False)"

text \<open>
  The recursive functions, with the loops of objects and arrays; the fuel bounds the number of calls.
  The C++ stack is taken to be large enough.
\<close>

definition ParseObject :: "'h handler \<Rightarrow> (nat \<Rightarrow> string \<Rightarrow> 'h \<Rightarrow> 'h reading) \<Rightarrow> string \<Rightarrow> 'h \<Rightarrow> 'h reading" where
  "ParseObject put members s h =
     proceed (emit put Ev_StartObject h (length (tl s)) (tl s)) (\<lambda>s1 h1.
       let s2 = skip_whitespace s1
       in if peek s2 = CHR ''}'' then emit put (Ev_EndObject 0) h1 (length (tl s2)) (tl s2)
          else members 0 s2 h1)"

definition ParseArray :: "'h handler \<Rightarrow> (nat \<Rightarrow> string \<Rightarrow> 'h \<Rightarrow> 'h reading) \<Rightarrow> string \<Rightarrow> 'h \<Rightarrow> 'h reading" where
  "ParseArray put elements s h =
     proceed (emit put Ev_StartArray h (length (tl s)) (tl s)) (\<lambda>s1 h1.
       let s2 = skip_whitespace s1
       in if peek s2 = CHR '']'' then emit put (Ev_EndArray 0) h1 (length (tl s2)) (tl s2)
          else elements 0 s2 h1)"

function ParseValue :: "rounding \<Rightarrow> 'h handler \<Rightarrow> nat \<Rightarrow> string \<Rightarrow> 'h \<Rightarrow> 'h reading"
  and ParseMembers :: "rounding \<Rightarrow> 'h handler \<Rightarrow> nat \<Rightarrow> nat \<Rightarrow> string \<Rightarrow> 'h \<Rightarrow> 'h reading"
  and ParseElements :: "rounding \<Rightarrow> 'h handler \<Rightarrow> nat \<Rightarrow> nat \<Rightarrow> string \<Rightarrow> 'h \<Rightarrow> 'h reading" where
  "ParseValue rnd put fuel s h =
     (case fuel of 0 \<Rightarrow> Inl Out_of_fuel | Suc n \<Rightarrow>
        if peek s = CHR ''n'' then ParseNull put s h
        else if peek s = CHR ''t'' then ParseTrue put s h
        else if peek s = CHR ''f'' then ParseFalse put s h
        else if peek s = CHR 0x22 then ParseString put False s h
        else if peek s = CHR ''{'' then ParseObject put (ParseMembers rnd put n) s h
        else if peek s = CHR ''['' then ParseArray put (ParseElements rnd put n) s h
        else ParseNumber rnd put s h)"
| "ParseMembers rnd put fuel memberCount s h =
     (case fuel of 0 \<Rightarrow> Inl Out_of_fuel | Suc n \<Rightarrow>
        if peek s \<noteq> CHR 0x22 then Inl (Parse_error kParseErrorObjectMissName (length s))
        else proceed (ParseString put True s h) (\<lambda>s1 h1.
          let s2 = skip_whitespace s1
          in if peek s2 \<noteq> CHR '':'' then Inl (Parse_error kParseErrorObjectMissColon (length s2))
             else proceed (ParseValue rnd put n (skip_whitespace (tl s2)) h1) (\<lambda>s3 h3.
               let s4 = skip_whitespace s3
               in if peek s4 = CHR '','' then ParseMembers rnd put n (Suc memberCount) (skip_whitespace (tl s4)) h3
                  else if peek s4 = CHR ''}'' then emit put (Ev_EndObject (Suc memberCount)) h3 (length (tl s4)) (tl s4)
                  else Inl (Parse_error kParseErrorObjectMissCommaOrCurlyBracket (length s4)))))"
| "ParseElements rnd put fuel elementCount s h =
     (case fuel of 0 \<Rightarrow> Inl Out_of_fuel | Suc n \<Rightarrow>
        proceed (ParseValue rnd put n s h) (\<lambda>s1 h1.
          let s2 = skip_whitespace s1
          in if peek s2 = CHR '','' then ParseElements rnd put n (Suc elementCount) (skip_whitespace (tl s2)) h1
             else if peek s2 = CHR '']'' then emit put (Ev_EndArray (Suc elementCount)) h1 (length (tl s2)) (tl s2)
             else Inl (Parse_error kParseErrorArrayMissCommaOrSquareBracket (length s2))))"
  by pat_completeness simp_all
termination
  by (relation "measure (\<lambda>x. case x of Inl (rnd, put, fuel, s, h) \<Rightarrow> fuel | Inr (Inl (rnd, put, fuel, c, s, h)) \<Rightarrow> fuel
      | Inr (Inr (rnd, put, fuel, c, s, h)) \<Rightarrow> fuel)") simp_all

declare ParseValue.simps [simp del] ParseMembers.simps [simp del] ParseElements.simps [simp del]

definition reader_fuel :: "string \<Rightarrow> nat" where
  "reader_fuel s = 3 * length s + 4"

text \<open>A whole text: errors are given with their offset from the start.\<close>

definition Parse :: "rounding \<Rightarrow> 'h handler \<Rightarrow> string \<Rightarrow> 'h \<Rightarrow> failure + 'h" where
  "Parse rnd put text h =
     (let s = takeWhile (\<lambda>c. c \<noteq> CHR 0x00) text;
          s0 = skip_whitespace s
      in if peek s0 = CHR 0x00 then Inl (Parse_error kParseErrorDocumentEmpty (length s - length s0))
         else (case ParseValue rnd put (reader_fuel s0) s0 h of
                 Inl (Parse_error code left) \<Rightarrow> Inl (Parse_error code (length s - left))
               | Inl f \<Rightarrow> Inl f
               | Inr (s1, h1) \<Rightarrow>
                   let s2 = skip_whitespace s1
                   in if peek s2 \<noteq> CHR 0x00 then Inl (Parse_error kParseErrorDocumentRootNotSingular (length s - length s2))
                      else Inr h1))"

section \<open>What a number consumes\<close>

text \<open>
  A reader of a part of a number consumes a prefix of the text, and does the same on this prefix before any
  text that starts alike: with the same character, or also with one that cannot go on with a number.
\<close>

definition quiet :: "char \<Rightarrow> bool" where
  "quiet c \<longleftrightarrow> \<not> is_digit_char c \<and> c \<notin> {CHR ''.'', CHR ''e'', CHR ''E'', CHR ''+'', CHR ''-''}"

definition number_chars :: "string \<Rightarrow> bool" where
  "number_chars p \<longleftrightarrow> (\<forall>c \<in> set p. \<not> quiet c)"

definition alike :: "string \<Rightarrow> string \<Rightarrow> bool" where
  "alike t t' \<longleftrightarrow> peek t = peek t' \<or> quiet (peek t) \<and> quiet (peek t')"

definition stable :: "(string \<Rightarrow> 'a reading) \<Rightarrow> bool" where
  "stable f \<longleftrightarrow> (\<forall>s t x. f s = Inr (t, x) \<longrightarrow>
     (\<exists>p. s = p @ t \<and> number_chars p \<and> (\<forall>t'. alike t t' \<longrightarrow> f (p @ t') = Inr (t', x))))"

lemma peek_simps [simp]: "peek [] = CHR 0x00" "peek (c # s) = c"
  by (simp_all add: peek_def)

lemma peek_append: "p \<noteq> [] \<Longrightarrow> peek (p @ t) = peek p"
  by (cases p) simp_all

lemma peek_Cons: "peek s = c \<Longrightarrow> c \<noteq> CHR 0x00 \<Longrightarrow> s = c # tl s"
  by (cases s) auto

lemma not_digit [simp]: "\<not> is_digit_char (CHR 0x00)" "\<not> is_digit_char (CHR ''.'')" "\<not> is_digit_char (CHR ''e'')"
  "\<not> is_digit_char (CHR ''E'')" "\<not> is_digit_char (CHR ''+'')" "\<not> is_digit_char (CHR ''-'')" "is_digit_char (CHR ''0'')"
  by code_simp+

lemma peek_digit: "is_digit_char (peek s) \<Longrightarrow> s = peek s # tl s"
  by (cases s) auto

lemma number_chars_simps [simp]: "number_chars []" "number_chars (c # p) \<longleftrightarrow> \<not> quiet c \<and> number_chars p"
  "number_chars (p @ q) \<longleftrightarrow> number_chars p \<and> number_chars q"
  by (auto simp: number_chars_def)

lemma digits_number_chars: "\<forall>c \<in> set p. is_digit_char c \<Longrightarrow> number_chars p"
  by (simp add: number_chars_def quiet_def)

lemma alike_prefix: "alike t t' \<Longrightarrow> alike (p @ t) (p @ t')"
  by (cases "p = []") (simp_all add: alike_def peek_append)

lemma proceed_Inr: "proceed r f = Inr y \<longleftrightarrow> (\<exists>s x. r = Inr (s, x) \<and> f s x = Inr y)"
  by (auto simp: proceed_def split: sum.splits)

lemma proceed_simps [simp]: "proceed (Inl e) f = Inl e" "proceed (Inr (s, x)) f = f s x"
  by (simp_all add: proceed_def)

lemma stableI:
  assumes "\<And>s t x. f s = Inr (t, x) \<Longrightarrow> \<exists>p. s = p @ t \<and> number_chars p \<and> (\<forall>t'. alike t t' \<longrightarrow> f (p @ t') = Inr (t', x))"
  shows "stable f"
  using assms by (simp add: stable_def)

lemma stableD:
  "stable f \<Longrightarrow> f s = Inr (t, x) \<Longrightarrow> \<exists>p. s = p @ t \<and> number_chars p \<and> (\<forall>t'. alike t t' \<longrightarrow> f (p @ t') = Inr (t', x))"
  by (simp add: stable_def)

lemma stable_proceed:
  assumes f: "stable f" and g: "\<And>x. stable (\<lambda>s. g s x)"
  shows "stable (\<lambda>s. proceed (f s) g)"
proof (rule stableI)
  fix s t x
  assume "proceed (f s) g = Inr (t, x)"
  then obtain s1 y where 1: "f s = Inr (s1, y)" and 2: "g s1 y = Inr (t, x)" by (auto simp: proceed_Inr)
  obtain p where p: "s = p @ s1" "number_chars p" "\<forall>t'. alike s1 t' \<longrightarrow> f (p @ t') = Inr (t', y)"
    using stableD [OF f 1] by blast
  obtain q where q: "s1 = q @ t" "number_chars q" "\<forall>t'. alike t t' \<longrightarrow> g (q @ t') y = Inr (t', x)"
    using stableD [OF g 2] by blast
  show "\<exists>p. s = p @ t \<and> number_chars p \<and> (\<forall>t'. alike t t' \<longrightarrow> proceed (f (p @ t')) g = Inr (t', x))"
    using p q by (intro exI [of _ "p @ q"]) (simp add: alike_prefix)
qed

text \<open>The loops over digits.\<close>

lemma alike_digit: "alike t t' \<Longrightarrow> is_digit_char (peek t) \<longleftrightarrow> is_digit_char (peek t')"
  by (auto simp: alike_def quiet_def)

lemma stable_loop:
  assumes nil: "\<And>st. L [] st = Inr ([], fin st)"
    and cons: "\<And>c s st. L (c # s) st =
      (if is_digit_char c then if go c st then L s (next_state c st) else if halts c st then Inr (c # s, halted st) else Inl (err c s st)
       else Inr (c # s, fin st))"
  shows "stable (\<lambda>s. L s st)"
proof (rule stableI)
  fix s t x
  assume "L s st = Inr (t, x)"
  then show "\<exists>p. s = p @ t \<and> number_chars p \<and> (\<forall>t'. alike t t' \<longrightarrow> L (p @ t') st = Inr (t', x))"
  proof (induction s arbitrary: st)
    case Nil
    have "L t' st = Inr (t', fin st)" if "alike [] t'" for t'
      using alike_digit [OF that] by (cases t') (auto simp: nil cons)
    then show ?case using Nil by (simp add: nil)
  next
    case (Cons c s)
    consider "\<not> is_digit_char c" | "is_digit_char c" "go c st" | "is_digit_char c" "\<not> go c st" by blast
    then show ?case
    proof cases
      case 1
      have "L t' st = Inr (t', fin st)" if "alike (c # s) t'" for t'
        using alike_digit [OF that] 1 by (cases t') (auto simp: nil cons)
      then show ?thesis using Cons.prems 1 by (intro exI [of _ "[]"]) (simp add: cons)
    next
      case 2
      then obtain p where "s = p @ t" "number_chars p" "\<forall>t'. alike t t' \<longrightarrow> L (p @ t') (next_state c st) = Inr (t', x)"
        using Cons.IH [of "next_state c st"] Cons.prems by (auto simp: cons)
      then show ?thesis using 2 by (intro exI [of _ "c # p"]) (simp add: quiet_def cons)
    next
      case 3
      then have h: "halts c st" "t = c # s" "x = halted st" using Cons.prems by (auto simp: cons split: if_splits)
      have "L t' st = Inr (t', halted st)" if "alike (c # s) t'" for t'
        using that 3 h by (cases t') (auto simp: cons alike_def quiet_def)
      then show ?thesis using h by (intro exI [of _ "[]"]) simp
    qed
  qed
qed

definition int_digits_reading :: "nat \<Rightarrow> nat \<Rightarrow> nat \<Rightarrow> string \<Rightarrow> nat \<times> nat \<Rightarrow> (bool \<times> nat \<times> nat) reading" where
  "int_digits_reading m l f s st = (case int_digits m l f s (fst st) (snd st) of (b, t, i, n) \<Rightarrow> Inr (t, b, i, n))"

lemma int_digits_stable: "stable (\<lambda>s. int_digits_reading m l f s st)"
  by (rule stable_loop [where fin = "\<lambda>(i, n). (False, i, n)" and halted = "\<lambda>(i, n). (True, i, n)"
        and go = "\<lambda>c (i, n). \<not> (i \<ge> l \<and> (i \<noteq> l \<or> digit_val c > f))" and halts = "\<lambda>_ _. True"
        and next_state = "\<lambda>c (i, n). ((i * 10 + digit_val c) mod m, Suc n)" and err = "\<lambda>_ _ _. Out_of_fuel"])
    (auto simp: int_digits_reading_def split: prod.splits)

lemma big_digits_stable: "stable (\<lambda>s. big_digits rnd off s d)"
  by (rule stable_loop [where fin = "\<lambda>d. d" and halted = "\<lambda>d. d" and go = "\<lambda>c d. \<not> d \<ge> max_tenth rnd"
        and halts = "\<lambda>_ _. False" and next_state = "\<lambda>c d. rnd (rnd (d * 10) + of_nat (digit_val c))"
        and err = "\<lambda>_ _ _. Parse_error kParseErrorNumberTooBig off"]) auto

definition frac_int_reading :: "string \<Rightarrow> nat \<times> int \<times> nat \<Rightarrow> (nat \<times> int \<times> nat) reading" where
  "frac_int_reading s st = (case st of (i64, e, n) \<Rightarrow> Inr (frac_int s i64 e n))"

lemma frac_int_stable: "stable (\<lambda>s. frac_int_reading s st)"
  by (rule stable_loop [where fin = "\<lambda>st. st" and halted = "\<lambda>st. st" and go = "\<lambda>c (i64, e, n). i64 \<le> 0x1FFFFFFFFFFFFF"
        and halts = "\<lambda>_ _. True" and err = "\<lambda>_ _ _. Out_of_fuel"
        and next_state = "\<lambda>c (i64, e, n). ((i64 * 10 + digit_val c) mod 2 ^ 64, e - 1, if (i64 * 10 + digit_val c) mod 2 ^ 64 \<noteq> 0 then Suc n else n)"])
    (auto simp: frac_int_reading_def Let_def split: prod.splits)

definition frac_double_reading :: "rounding \<Rightarrow> string \<Rightarrow> double \<times> int \<times> nat \<Rightarrow> (double \<times> int) reading" where
  "frac_double_reading rnd s st = (case st of (d, e, n) \<Rightarrow> Inr (frac_double rnd s d e n))"

lemma frac_double_stable: "stable (\<lambda>s. frac_double_reading rnd s st)"
  by (rule stable_loop [where fin = "\<lambda>(d, e, n). (d, e)" and halted = "\<lambda>(d, e, n). (d, e)" and go = "\<lambda>_ _. True"
        and halts = "\<lambda>_ _. True" and err = "\<lambda>_ _ _. Out_of_fuel"
        and next_state = "\<lambda>c (d, e, n). if n < 17 then (rnd (rnd (d * 10) + of_nat (digit_val c)), e - 1,
          if rnd (rnd (d * 10) + of_nat (digit_val c)) > 0 then Suc n else n) else (d, e, n)"])
    (auto simp: frac_double_reading_def Let_def split: prod.splits)

definition exp_minus_reading :: "string \<Rightarrow> bool \<times> int \<Rightarrow> int reading" where
  "exp_minus_reading s st = Inr (if fst st then (dropWhile is_digit_char s, snd st) else exp_minus s (snd st))"

lemma exp_minus_stable: "stable (\<lambda>s. exp_minus_reading s st)"
  by (rule stable_loop [where fin = snd and halted = snd and go = "\<lambda>_ _. True"
        and halts = "\<lambda>_ _. True" and err = "\<lambda>_ _ _. Out_of_fuel"
        and next_state = "\<lambda>c (b, e). if b then (b, e) else (e * 10 + int (digit_val c) \<ge> 214748364, e * 10 + int (digit_val c))"])
    (auto simp: exp_minus_reading_def Let_def split: prod.splits)

lemma exp_plus_stable: "stable (\<lambda>s. exp_plus off mx s e)"
  by (rule stable_loop [where fin = "\<lambda>e. e" and halted = "\<lambda>e. e" and go = "\<lambda>c e. \<not> e * 10 + int (digit_val c) > mx"
        and halts = "\<lambda>_ _. False" and next_state = "\<lambda>c e. e * 10 + int (digit_val c)"
        and err = "\<lambda>_ _ _. Parse_error kParseErrorNumberTooBig off"]) (auto simp: Let_def)

text \<open>The phases.\<close>

lemma stable_Inr: "stable (\<lambda>s. Inr (s, x))"
  by (rule stableI) auto

lemma alike_same: "alike t t' \<Longrightarrow> \<not> quiet c \<Longrightarrow> peek t = c \<longleftrightarrow> peek t' = c"
  by (auto simp: alike_def)

text \<open>A character that is taken when it is there, and a digit that has to be there.\<close>

definition take_if :: "(char \<Rightarrow> bool) \<Rightarrow> (char \<Rightarrow> string \<Rightarrow> 'a reading) \<Rightarrow> (string \<Rightarrow> 'a reading) \<Rightarrow> string \<Rightarrow> 'a reading" where
  "take_if P f h s = (if P (peek s) then f (peek s) (tl s) else h s)"

definition guard_digit :: "ParseErrorCode \<Rightarrow> (string \<Rightarrow> 'a reading) \<Rightarrow> string \<Rightarrow> 'a reading" where
  "guard_digit code f s = (if is_digit_char (peek s) then f s else Inl (Parse_error code (length s)))"

lemma stable_take:
  assumes P: "\<And>c. P c \<Longrightarrow> \<not> quiet c \<and> c \<noteq> CHR 0x00" and f: "\<And>c. P c \<Longrightarrow> stable (f c)"
    and rest: "stable h"
  shows "stable (take_if P f h)"
  unfolding take_if_def [abs_def]
proof (rule stableI)
  fix s t x
  assume a: "(if P (peek s) then f (peek s) (tl s) else h s) = Inr (t, x)"
  let ?g = "\<lambda>s. if P (peek s) then f (peek s) (tl s) else h s"
  show "\<exists>p. s = p @ t \<and> number_chars p \<and> (\<forall>t'. alike t t' \<longrightarrow> ?g (p @ t') = Inr (t', x))"
  proof (cases "P (peek s)")
    case True
    then have s: "s = peek s # tl s" "\<not> quiet (peek s)" using P peek_Cons by blast+
    from True a obtain p where "tl s = p @ t" "number_chars p" "\<forall>t'. alike t t' \<longrightarrow> f (peek s) (p @ t') = Inr (t', x)"
      using stableD [OF f [OF True]] by fastforce
    with s True show ?thesis by (intro exI [of _ "peek s # p"]) simp
  next
    case False
    then obtain p where p: "s = p @ t" "number_chars p" "\<forall>t'. alike t t' \<longrightarrow> h (p @ t') = Inr (t', x)"
      using stableD [OF rest] a by fastforce
    have "\<not> P (peek (p @ t'))" if "alike t t'" for t'
      using alike_prefix [OF that, of p] False P unfolding p(1) alike_def by auto
    with p show ?thesis by (intro exI [of _ p]) simp
  qed
qed

lemma stable_Inl: "stable (\<lambda>s. Inl (e s))"
  by (simp add: stable_def)

lemma stable_guard:
  assumes "stable f"
  shows "stable (guard_digit code f)"
  unfolding guard_digit_def [abs_def]
proof (rule stableI)
  fix s t x
  assume a: "(if is_digit_char (peek s) then f s else Inl (Parse_error code (length s))) = Inr (t, x)"
  then have d: "is_digit_char (peek s)" and "f s = Inr (t, x)" by (auto split: if_splits)
  from stableD [OF assms this(2)] obtain p where p: "s = p @ t" "number_chars p" "\<forall>t'. alike t t' \<longrightarrow> f (p @ t') = Inr (t', x)" by blast
  have "is_digit_char (peek (p @ t'))" if "alike t t'" for t'
    using alike_digit [OF alike_prefix [OF that]] d p(1) by simp
  with p show "\<exists>p. s = p @ t \<and> number_chars p \<and> (\<forall>t'. alike t t' \<longrightarrow>
      (if is_digit_char (peek (p @ t')) then f (p @ t') else Inl (Parse_error code (length (p @ t')))) = Inr (t', x))" by auto
qed

abbreviation digit_then :: "(char \<Rightarrow> string \<Rightarrow> 'a reading) \<Rightarrow> string \<Rightarrow> 'a reading" where
  "digit_then f \<equiv> take_if is_digit_char f (\<lambda>s. Inl Out_of_fuel)"

lemma stable_digit_then: "(\<And>c. stable (f c)) \<Longrightarrow> stable (digit_then f)"
  by (rule stable_take) (auto simp: quiet_def stable_Inl)

lemma number_int_stable: "stable (number_int neg)"
proof -
  let ?r = "\<lambda>c s. if c = CHR ''0'' then Inr (s, new_number)
    else proceed (int_digits_reading (2 ^ 32) (if neg then 214748364 else 429496729) (if neg then 8 else 5) s (digit_val c, 0))
      (\<lambda>s' (stopped, i, n). Inr (s', new_number\<lparr>ns_i := i, ns_i64 := if stopped then i else 0, ns_use64bit := stopped, ns_significandDigit := n\<rparr>))"
  have e: "number_int neg = guard_digit kParseErrorValueInvalid (digit_then ?r)"
    by (rule ext) (auto simp: number_int_def guard_digit_def take_if_def int_digits_reading_def split: prod.splits)
  have r: "stable (?r c)" for c
    by (cases "c = CHR ''0''") (auto intro!: stable_Inr stable_proceed int_digits_stable)
  show ?thesis unfolding e by (rule stable_guard, rule stable_digit_then, rule r)
qed

lemma number_int64_stable: "stable (\<lambda>s. number_int64 rnd neg s st)"
proof -
  have e: "(\<lambda>s. number_int64 rnd neg s st) = (\<lambda>s. if ns_use64bit st then
      proceed (int_digits_reading (2 ^ 64) (if neg then 0x0CCCCCCCCCCCCCCC else 0x1999999999999999) (if neg then 8 else 5) s
        (ns_i64 st, ns_significandDigit st))
      (\<lambda>s' (stopped, i64, n). Inr (s', st\<lparr>ns_i64 := i64, ns_significandDigit := n, ns_d := if stopped then rnd (of_nat i64) else ns_d st,
               ns_useDouble := stopped\<rparr>)) else Inr (s, st))"
    by (rule ext) (auto simp: number_int64_def int_digits_reading_def split: prod.splits)
  show ?thesis unfolding e by (cases "ns_use64bit st") (auto intro!: stable_Inr stable_proceed int_digits_stable)
qed

lemma number_big_stable: "stable (\<lambda>s. number_big rnd off s st)"
  by (cases "ns_useDouble st") (auto simp: number_big_def intro!: stable_Inr stable_proceed big_digits_stable)

lemma number_frac_stable: "stable (\<lambda>s. number_frac rnd s st)"
proof -
  let ?i = "\<lambda>s. if ns_useDouble st then Inr (s, ns_d st, ns_expFrac st, ns_significandDigit st)
    else proceed (frac_int_reading s (if ns_use64bit st then ns_i64 st else ns_i st, ns_expFrac st, ns_significandDigit st))
      (\<lambda>s' (i64, e, n). Inr (s', rnd (of_nat i64), e, n))"
  let ?f = "\<lambda>s. proceed (?i s) (\<lambda>s1 x. proceed (frac_double_reading rnd s1 x)
      (\<lambda>s2 (d2, e2). Inr (s2, st\<lparr>ns_d := d2, ns_useDouble := True, ns_expFrac := e2\<rparr>)))"
  have e: "(\<lambda>s. number_frac rnd s st) =
      take_if (\<lambda>c. c = CHR ''.'') (\<lambda>_. guard_digit kParseErrorNumberMissFraction ?f) (\<lambda>s. Inr (s, st))"
    by (rule ext) (auto simp: number_frac_def take_if_def guard_digit_def frac_int_reading_def frac_double_reading_def split: prod.splits)
  have "stable ?i"
    by (cases "ns_useDouble st") (auto intro!: stable_Inr stable_proceed frac_int_stable)
  then have f: "stable ?f" by (intro stable_proceed) (auto intro!: stable_Inr frac_double_stable)
  show ?thesis unfolding e by (rule stable_take, simp add: quiet_def, rule stable_guard, rule f, rule stable_Inr)
qed

lemma exp_sign_stable: "stable (\<lambda>s. Inr (snd (exp_sign s), fst (exp_sign s)))"
proof -
  have e: "(\<lambda>s. Inr (snd (exp_sign s), fst (exp_sign s))) =
      take_if (\<lambda>c. c \<in> {CHR ''+'', CHR ''-''}) (\<lambda>c s. Inr (s, c = CHR ''-'')) (\<lambda>s. Inr (s, False))"
    by (rule ext) (auto simp: exp_sign_def take_if_def)
  show ?thesis unfolding e by (rule stable_take) (auto simp: quiet_def stable_Inr)
qed

lemma number_exp_stable: "stable (\<lambda>s. number_exp rnd off s st)"
proof -
  let ?st = "if ns_useDouble st then st else st\<lparr>ns_d := rnd (of_nat (if ns_use64bit st then ns_i64 st else ns_i st)), ns_useDouble := True\<rparr>"
  let ?d = "\<lambda>b c s. if b then proceed (exp_minus_reading s (False, int (digit_val c))) (\<lambda>s2 e. Inr (s2, ?st\<lparr>ns_exp := - e\<rparr>))
    else proceed (exp_plus off (308 - ns_expFrac st) s (int (digit_val c))) (\<lambda>s2 e. Inr (s2, ?st\<lparr>ns_exp := e\<rparr>))"
  let ?f = "\<lambda>s. proceed (Inr (snd (exp_sign s), fst (exp_sign s))) (\<lambda>s1 b. guard_digit kParseErrorNumberMissExponent (digit_then (?d b)) s1)"
  have e: "(\<lambda>s. number_exp rnd off s st) = take_if (\<lambda>c. c \<in> {CHR ''e'', CHR ''E''}) (\<lambda>_. ?f) (\<lambda>s. Inr (s, st))"
    by (rule ext) (auto simp: number_exp_def take_if_def guard_digit_def exp_minus_reading_def Let_def split: prod.splits)
  have d: "stable (?d b c)" for b c
    by (cases b) (auto intro!: stable_Inr stable_proceed exp_minus_stable exp_plus_stable)
  have f: "stable ?f" by (rule stable_proceed, rule exp_sign_stable, rule stable_guard, rule stable_digit_then, rule d)
  show ?thesis unfolding e by (rule stable_take) (auto simp: quiet_def stable_Inr f simp del: proceed_simps)
qed

lemma number_phases_stable: "stable (number_phases rnd neg off)"
  unfolding number_phases_def [abs_def]
  by (intro stable_proceed number_int_stable number_int64_stable number_big_stable number_frac_stable number_exp_stable)

text \<open>A whole number.\<close>

lemma big_digits_offset: "big_digits rnd off s d = Inr r \<Longrightarrow> big_digits rnd off' s d = Inr r"
  by (induction rnd off s d rule: big_digits.induct) (auto split: if_splits)

lemma exp_plus_offset: "exp_plus off mx s e = Inr r \<Longrightarrow> exp_plus off' mx s e = Inr r"
  by (induction off mx s e rule: exp_plus.induct) (auto simp: Let_def split: if_splits)

lemma number_exp_offset: "number_exp rnd off s st = Inr r \<Longrightarrow> number_exp rnd off' s st = Inr r"
  by (auto simp: number_exp_def Let_def proceed_Inr split: if_splits prod.splits dest: exp_plus_offset)

lemma proceed_same:
  "proceed r f = Inr y \<Longrightarrow> (\<And>z. r = Inr z \<Longrightarrow> r' = Inr z) \<Longrightarrow> (\<And>s x. f s x = Inr y \<Longrightarrow> g s x = Inr y) \<Longrightarrow> proceed r' g = Inr y"
  by (cases r) (auto simp: proceed_def)

lemma number_big_offset: "number_big rnd off s st = Inr r \<Longrightarrow> number_big rnd off' s st = Inr r"
  by (cases r) (auto simp: number_big_def proceed_Inr dest: big_digits_offset split: if_splits)

lemma number_phases_offset: "number_phases rnd neg off s = Inr r \<Longrightarrow> number_phases rnd neg off' s = Inr r"
  unfolding number_phases_def
  by (erule proceed_same, assumption, erule proceed_same, assumption, erule proceed_same, erule number_big_offset,
      erule proceed_same, assumption, erule number_exp_offset)

lemma int_digits_length: "int_digits m l f s i n = (b, t, i', n') \<Longrightarrow> length t < Suc (length s)"
  by (induction m l f s i n rule: int_digits.induct) (fastforce split: if_splits)+

lemma number_phases_shorter: "number_phases rnd neg off s = Inr (t, st) \<Longrightarrow> length t < length s"
proof -
  assume "number_phases rnd neg off s = Inr (t, st)"
  then obtain s1 st1 where 1: "number_int neg s = Inr (s1, st1)" and 2: "proceed (number_int64 rnd neg s1 st1) (\<lambda>s2 st2.
     proceed (number_big rnd off s2 st2) (\<lambda>s3 st3. proceed (number_frac rnd s3 st3) (number_exp rnd off))) = Inr (t, st)"
    by (auto simp: number_phases_def proceed_Inr)
  have "length s1 < length s"
    using 1 by (cases s) (auto simp: number_int_def split: if_splits prod.splits dest: int_digits_length)
  moreover have "length t \<le> length s1"
    using stableD [OF stable_proceed [OF number_int64_stable stable_proceed [OF number_big_stable
          stable_proceed [OF number_frac_stable number_exp_stable]]] 2] by auto
  ultimately show ?thesis by simp
qed

lemma read_number_prefix:
  assumes "read_number rnd s = Inr (t, e)"
  shows "\<exists>p. s = p @ t \<and> p \<noteq> [] \<and> number_chars p \<and> (\<forall>t'. alike t t' \<longrightarrow> read_number rnd (p @ t') = Inr (t', e))"
proof -
  obtain neg s0 where c: "Consume s CHR ''-'' = (neg, s0)" by (cases "Consume s CHR ''-''")
  then obtain t1 st where ph1: "number_phases rnd neg (length s) s0 = Inr (t1, st)"
    and e1: "(case number_event rnd neg st of Inl f \<Rightarrow> Inl f | Inr e \<Rightarrow> Inr (t1, e)) = Inr (t, e)"
    using assms by (auto simp: read_number_def proceed_Inr)
  then have ph: "number_phases rnd neg (length s) s0 = Inr (t, st)" and e: "number_event rnd neg st = Inr e"
    by (cases "number_event rnd neg st", simp_all)+
  obtain p where p: "s0 = p @ t" "number_chars p" "\<forall>t'. alike t t' \<longrightarrow> number_phases rnd neg (length s) (p @ t') = Inr (t', st)"
    using stableD [OF number_phases_stable ph] by blast
  have "p \<noteq> []" using number_phases_shorter [OF ph] p(1) by auto
  define q where "q = (if neg then CHR ''-'' # p else p)"
  have "s = (if neg then CHR ''-'' # s0 else s0)" and d: "neg \<or> peek s0 \<noteq> CHR ''-''"
    using c peek_Cons [of s "CHR ''-''"] by (auto simp: Consume_def split: if_splits)
  then have s: "s = q @ t" using p(1) by (simp add: q_def)
  have "Consume (q @ t') CHR ''-'' = (neg, p @ t')" for t'
    using d p(1) \<open>p \<noteq> []\<close> by (auto simp: q_def Consume_def peek_append)
  then have "read_number rnd (q @ t') = Inr (t', e)" if "alike t t'" for t'
    using number_phases_offset [OF p(3) [rule_format, OF that]] e by (simp add: read_number_def)
  moreover have "number_chars q" "q \<noteq> []" using p(2) \<open>p \<noteq> []\<close> by (simp_all add: q_def quiet_def)
  ultimately show ?thesis using s by blast
qed

section \<open>What strings mean\<close>

text \<open>The characters that the raw text between quotation marks stands for.\<close>

definition hex4_number :: "string \<Rightarrow> nat" where
  "hex4_number u = foldl (\<lambda>n c. 16 * n + the (hex4_val c)) 0 u"

definition hex4 :: "string \<Rightarrow> bool" where
  "hex4 u \<longleftrightarrow> length u = 4 \<and> (\<forall>c \<in> set u. hex_digit c)"

definition high_surrogate :: "nat \<Rightarrow> bool" where
  "high_surrogate n \<longleftrightarrow> 0xD800 \<le> n \<and> n \<le> 0xDBFF"

definition low_surrogate :: "nat \<Rightarrow> bool" where
  "low_surrogate n \<longleftrightarrow> 0xDC00 \<le> n \<and> n \<le> 0xDFFF"

inductive unescapes :: "string \<Rightarrow> string \<Rightarrow> bool" where
  raw_Nil: "unescapes [] []"
| raw_plain: "c \<notin> {CHR 0x22, CHR 0x5C} \<Longrightarrow> 0x20 \<le> (of_char c :: nat) \<Longrightarrow> unescapes raw out \<Longrightarrow> unescapes (c # raw) (c # out)"
| raw_escape: "escape_of d = Some c \<Longrightarrow> unescapes raw out \<Longrightarrow> unescapes (CHR 0x5C # d # raw) (c # out)"
| raw_unicode: "hex4 u \<Longrightarrow> \<not> high_surrogate (hex4_number u) \<Longrightarrow> unescapes raw out \<Longrightarrow>
    unescapes (CHR 0x5C # CHR ''u'' # u @ raw) (UTF8_Encode (hex4_number u) @ out)"
| raw_pair: "hex4 u \<Longrightarrow> high_surrogate (hex4_number u) \<Longrightarrow> hex4 v \<Longrightarrow> low_surrogate (hex4_number v) \<Longrightarrow> unescapes raw out \<Longrightarrow>
    unescapes (CHR 0x5C # CHR ''u'' # u @ CHR 0x5C # CHR ''u'' # v @ raw)
      (UTF8_Encode ((hex4_number u - 0xD800) * 1024 + (hex4_number v - 0xDC00) + 0x10000) @ out)"

lemma hex_val_None: "hex4_val c = None \<longleftrightarrow> \<not> hex_digit c"
  by (simp add: hex4_val_def hex_digit_def)

lemma hex4_digits_append:
  "(\<forall>c \<in> set u. hex_digit c) \<Longrightarrow> hex4_digits (length u) n (u @ t) = Some (t, foldl (\<lambda>n c. 16 * n + the (hex4_val c)) n u)"
proof (induction u arbitrary: n)
  case (Cons c u)
  then obtain d where "hex4_val c = Some d" using hex_val_None [of c] by (cases "hex4_val c") auto
  with Cons show ?case by simp
qed simp

lemma ParseHex4_append: "hex4 u \<Longrightarrow> ParseHex4 (u @ t) = Some (t, hex4_number u)"
  using hex4_digits_append [of u 0 t] by (simp add: hex4_def ParseHex4_def hex4_number_def)

lemma hex4_digits_Some:
  "hex4_digits k n s = Some (t, m) \<Longrightarrow>
     \<exists>u. s = u @ t \<and> length u = k \<and> (\<forall>c \<in> set u. hex_digit c) \<and> m = foldl (\<lambda>n c. 16 * n + the (hex4_val c)) n u"
proof (induction k arbitrary: n s)
  case (Suc k)
  then obtain d where d: "hex4_val (peek s) = Some d" and r: "hex4_digits k (16 * n + d) (tl s) = Some (t, m)"
    by (auto split: option.splits)
  have "s = peek s # tl s" using d by (cases s) (auto simp: hex4_val_def char_int_def)
  moreover have "hex_digit (peek s)" using d hex_val_None [of "peek s"] by auto
  moreover obtain u where "tl s = u @ t" "length u = k" "\<forall>c \<in> set u. hex_digit c" "m = foldl (\<lambda>n c. 16 * n + the (hex4_val c)) (16 * n + d) u"
    using Suc.IH [OF r] by blast
  ultimately show ?case using d by (intro exI [of _ "peek s # u"]) auto
qed simp

lemma ParseHex4_Some: "ParseHex4 s = Some (t, n) \<Longrightarrow> \<exists>u. s = u @ t \<and> hex4 u \<and> n = hex4_number u"
  by (auto simp: ParseHex4_def hex4_def hex4_number_def dest: hex4_digits_Some)

lemma string_read:
  "unescapes raw out \<Longrightarrow> ParseStringToStream (raw @ CHR 0x22 # t) acc = Inr (t, acc @ out)"
proof (induction arbitrary: acc rule: unescapes.induct)
  case raw_Nil
  show ?case by (subst ParseStringToStream.simps) simp
next
  case (raw_plain c raw out)
  then show ?case by (subst ParseStringToStream.simps) simp
next
  case (raw_escape d c raw out)
  then show ?case by (subst ParseStringToStream.simps) simp
next
  case (raw_unicode u raw out)
  have "unicode_escape off (u @ raw @ CHR 0x22 # t) = Inr (raw @ CHR 0x22 # t, hex4_number u)" for off
    using raw_unicode(1,2) by (auto simp: unicode_escape_def ParseHex4_append high_surrogate_def)
  with raw_unicode show ?case by (subst ParseStringToStream.simps) (simp add: escape_of_def)
next
  case (raw_pair u v raw out)
  have "unicode_escape off (u @ CHR 0x5C # CHR ''u'' # v @ raw @ CHR 0x22 # t) =
      Inr (raw @ CHR 0x22 # t, (hex4_number u - 0xD800) * 1024 + (hex4_number v - 0xDC00) + 0x10000)" for off
    using raw_pair(1-4) by (auto simp: unicode_escape_def ParseHex4_append high_surrogate_def low_surrogate_def)
  with raw_pair show ?case by (subst ParseStringToStream.simps) (simp add: escape_of_def)
qed

lemma unicode_escape_Inr:
  assumes "unicode_escape off s = Inr (t, n)"
  shows "(\<exists>u. s = u @ t \<and> hex4 u \<and> \<not> high_surrogate n \<and> n = hex4_number u) \<or>
    (\<exists>u v. s = u @ CHR 0x5C # CHR ''u'' # v @ t \<and> hex4 u \<and> high_surrogate (hex4_number u) \<and> hex4 v \<and> low_surrogate (hex4_number v) \<and>
       n = (hex4_number u - 0xD800) * 1024 + (hex4_number v - 0xDC00) + 0x10000)"
proof -
  obtain s1 m where 1: "ParseHex4 s = Some (s1, m)" using assms by (auto simp: unicode_escape_def split: option.splits)
  obtain u where u: "s = u @ s1" "hex4 u" "m = hex4_number u" using ParseHex4_Some [OF 1] by blast
  show ?thesis
  proof (cases "high_surrogate m")
    case False
    then show ?thesis using assms 1 u by (auto simp: unicode_escape_def high_surrogate_def split: if_splits)
  next
    case True
    then have p: "peek s1 = CHR 0x5C" "peek (tl s1) = CHR ''u''"
      using assms 1 by (auto simp: unicode_escape_def high_surrogate_def split: if_splits)
    then have s1: "s1 = CHR 0x5C # CHR ''u'' # tl (tl s1)"
      using peek_Cons [OF p(1)] peek_Cons [OF p(2)] by simp
    obtain s2 k where 2: "ParseHex4 (tl (tl s1)) = Some (s2, k)"
      using assms 1 True p by (auto simp: unicode_escape_def high_surrogate_def split: option.splits)
    obtain v where "tl (tl s1) = v @ s2" "hex4 v" "k = hex4_number v" using ParseHex4_Some [OF 2] by blast
    moreover from this have "s2 = t \<and> low_surrogate k \<and> n = (m - 0xD800) * 1024 + (k - 0xDC00) + 0x10000"
      using assms 1 2 True p by (auto simp: unicode_escape_def high_surrogate_def low_surrogate_def split: if_splits)
    ultimately show ?thesis using True u s1 by (intro disjI2 exI [of _ u] exI [of _ v]) simp
  qed
qed

lemma string_read_Inr:
  "ParseStringToStream s acc = Inr (t, res) \<Longrightarrow> \<exists>raw out. s = raw @ CHR 0x22 # t \<and> unescapes raw out \<and> res = acc @ out"
proof (induction s acc rule: ParseStringToStream.induct)
  case (1 s acc)
  consider (esc) c where "peek s = CHR 0x5C" "escape_of (peek (tl s)) = Some c"
    | (uni) "peek s = CHR 0x5C" "escape_of (peek (tl s)) = None" | (quote) "peek s = CHR 0x22"
    | (plain) "peek s \<noteq> CHR 0x5C" "peek s \<noteq> CHR 0x22" by (cases "escape_of (peek (tl s))") auto
  then show ?case
  proof cases
    case (esc c)
    then have s: "s = CHR 0x5C # peek (tl s) # tl (tl s)"
      using peek_Cons [OF esc(1)] by (cases "tl s") (auto simp: escape_of_def)
    have "ParseStringToStream (tl (tl s)) (acc @ [c]) = Inr (t, res)"
      using "1.prems" esc by (subst (asm) ParseStringToStream.simps) simp
    from "1.IH"(2) [OF esc(1) refl esc(2) this] obtain raw out where
      "tl (tl s) = raw @ CHR 0x22 # t" "unescapes raw out" "res = (acc @ [c]) @ out" by blast
    then show ?thesis using s raw_escape [OF esc(2)] by (intro exI [of _ "CHR 0x5C # peek (tl s) # raw"] exI [of _ "c # out"]) auto
  next
    case uni
    then have u: "peek (tl s) = CHR ''u''" using "1.prems" by (subst (asm) ParseStringToStream.simps) (auto split: if_splits)
    then have s: "s = CHR 0x5C # CHR ''u'' # tl (tl s)"
      using peek_Cons [OF uni(1)] peek_Cons [OF u] by simp
    obtain s' n where n: "unicode_escape (length s) (tl (tl s)) = Inr (s', n)"
      and r: "ParseStringToStream s' (acc @ UTF8_Encode n) = Inr (t, res)"
      using "1.prems" uni u by (subst (asm) ParseStringToStream.simps) (auto split: sum.splits)
    from "1.IH"(1) [OF uni(1) refl uni(2) u n refl r] obtain raw out where
      ih: "s' = raw @ CHR 0x22 # t" "unescapes raw out" "res = (acc @ UTF8_Encode n) @ out" by blast
    from unicode_escape_Inr [OF n] show ?thesis
    proof (elim disjE exE conjE)
      fix u assume "tl (tl s) = u @ s'" "hex4 u" "\<not> high_surrogate n" "n = hex4_number u"
      then show ?thesis using s ih raw_unicode [OF _ _ ih(2), of u]
        by (intro exI [of _ "CHR 0x5C # CHR ''u'' # u @ raw"] exI [of _ "UTF8_Encode n @ out"]) auto
    next
      fix u v
      assume "tl (tl s) = u @ CHR 0x5C # CHR ''u'' # v @ s'" "hex4 u" "high_surrogate (hex4_number u)" "hex4 v" "low_surrogate (hex4_number v)"
        "n = (hex4_number u - 0xD800) * 1024 + (hex4_number v - 0xDC00) + 0x10000"
      then show ?thesis using s ih raw_pair [OF _ _ _ _ ih(2), of u v]
        by (intro exI [of _ "CHR 0x5C # CHR ''u'' # u @ CHR 0x5C # CHR ''u'' # v @ raw"] exI [of _ "UTF8_Encode n @ out"]) auto
    qed
  next
    case quote
    then show ?thesis using "1.prems" peek_Cons [OF quote] raw_Nil
      by (subst (asm) ParseStringToStream.simps) (auto intro!: exI [of _ "[]"])
  next
    case plain
    have r: "\<not> (of_char (peek s) :: nat) < 0x20" "ParseStringToStream (tl s) (acc @ [peek s]) = Inr (t, res)"
      using "1.prems" plain by (subst (asm) ParseStringToStream.simps, auto split: if_splits)+
    then have s: "s = peek s # tl s" by (cases s) auto
    from "1.IH"(3) [OF plain r] obtain raw out where "tl s = raw @ CHR 0x22 # t" "unescapes raw out" "res = (acc @ [peek s]) @ out" by blast
    then show ?thesis using s r(1) plain raw_plain [of "peek s" raw out]
      by (intro exI [of _ "peek s # raw"] exI [of _ "peek s # out"]) auto
  qed
qed

lemma simple_escape_escape: "escape_of d = Some c \<Longrightarrow> simple_escape d"
  by (auto simp: escape_of_def simple_escape_def split: if_splits)

lemma unescapes_body: "unescapes raw out \<Longrightarrow> str_body raw"
proof (induction rule: unescapes.induct)
  case (raw_plain c raw out)
  then show ?case by auto
next
  case (raw_unicode u raw out)
  then show ?case by (simp add: hex4_def simple_escape_def)
next
  case (raw_pair u v raw out)
  then show ?case by (simp add: hex4_def simple_escape_def)
qed (auto dest: simple_escape_escape)

section \<open>The reader returns\<close>

text \<open>A result that is not out of fuel, and one that also leaves less than \<open>l\<close> characters.\<close>

definition fueled :: "'a reading \<Rightarrow> bool" where
  "fueled r \<longleftrightarrow> r \<noteq> Inl Out_of_fuel"

definition returns :: "nat \<Rightarrow> 'a reading \<Rightarrow> bool" where
  "returns l r \<longleftrightarrow> fueled r \<and> (\<forall>t x. r = Inr (t, x) \<longrightarrow> length t < l)"

lemma fueled_simps [simp]: "fueled (Inl f) \<longleftrightarrow> f \<noteq> Out_of_fuel" "fueled (Inr x)"
  by (simp_all add: fueled_def)

lemma returns_simps [simp]: "returns l (Inl f) \<longleftrightarrow> f \<noteq> Out_of_fuel" "returns l (Inr (t, x)) \<longleftrightarrow> length t < l"
  by (simp_all add: returns_def)

lemma fueled_proceed: "fueled r \<Longrightarrow> (\<And>t x. fueled (f t x)) \<Longrightarrow> fueled (proceed r f)"
  by (auto simp: proceed_def split: sum.splits)

lemma returns_proceed: "returns k r \<Longrightarrow> (\<And>t x. length t < k \<Longrightarrow> returns l (f t x)) \<Longrightarrow> returns l (proceed r f)"
  by (cases r) (auto simp: proceed_def)

lemma returns_emit: "length s < l \<Longrightarrow> returns l (emit put e h off s)"
  by (simp add: emit_def split: prod.splits)

lemma skip_length: "length (skip_whitespace s) \<le> length s"
  by (simp add: skip_whitespace_def length_dropWhile_le)

lemma fueled_big: "fueled (big_digits rnd off s d)"
  by (induction rnd off s d rule: big_digits.induct) auto

lemma fueled_plus: "fueled (exp_plus off mx s e)"
  by (induction off mx s e rule: exp_plus.induct) (auto simp: Let_def)

lemma fueled_number: "fueled (number_phases rnd neg off s)"
  unfolding number_phases_def number_int_def number_int64_def number_big_def number_frac_def number_exp_def
  by (intro fueled_proceed) (auto simp: Let_def intro!: fueled_proceed fueled_big fueled_plus split: prod.splits)

lemma returns_read_number: "returns (length s) (read_number rnd s)"
proof (cases "read_number rnd s")
  case (Inl f)
  have "fueled (case number_event rnd neg st of Inl f \<Rightarrow> Inl f | Inr e \<Rightarrow> Inr (s1, e))" for neg st and s1 :: string
    by (auto simp: number_event_def split: option.splits)
  then have "fueled (read_number rnd s)"
    unfolding read_number_def by (auto intro!: fueled_proceed fueled_number split: prod.splits)
  with Inl show ?thesis by simp
next
  case (Inr r)
  then show ?thesis using read_number_prefix [of rnd s "fst r" "snd r"] by (cases r) auto
qed

lemma returns_number: "returns (length s) (ParseNumber rnd put s h)"
  unfolding ParseNumber_def by (rule returns_proceed [OF returns_read_number]) (simp add: returns_emit)

lemma fueled_string: "fueled (ParseStringToStream s out)"
proof (induction s out rule: ParseStringToStream.induct)
  case (1 s out)
  have u: "fueled (unicode_escape off t)" for off t
    by (simp add: unicode_escape_def split: option.splits)
  consider (esc) c where "peek s = CHR 0x5C" "escape_of (peek (tl s)) = Some c"
    | (uni) "peek s = CHR 0x5C" "escape_of (peek (tl s)) = None" | (plain) "peek s \<noteq> CHR 0x5C"
    by (cases "escape_of (peek (tl s))") auto
  then show ?case
  proof cases
    case (esc c)
    with "1.IH"(2) [OF esc(1) refl esc(2)] show ?thesis by (subst ParseStringToStream.simps) simp
  next
    case uni
    show ?thesis
    proof (cases "unicode_escape (length s) (tl (tl s))")
      case (Inl f)
      with uni u [of "length s" "tl (tl s)"] show ?thesis by (subst ParseStringToStream.simps) simp
    next
      case (Inr r)
      with uni "1.IH"(1) [OF uni(1) refl uni(2) _ Inr] show ?thesis by (subst ParseStringToStream.simps) (cases r, simp)
    qed
  next
    case plain
    with "1.IH"(3) [OF plain] show ?thesis by (subst ParseStringToStream.simps) simp
  qed
qed

lemma returns_stream: "returns (length s) (ParseStringToStream s [])"
  unfolding returns_def using fueled_string by (auto dest!: string_read_Inr)

lemma returns_string: "peek s = CHR 0x22 \<Longrightarrow> returns (length s) (ParseString put k s h)"
  unfolding ParseString_def by (rule returns_proceed [OF returns_stream], intro returns_emit) simp

lemma returns_literal: "peek s \<noteq> CHR 0x00 \<Longrightarrow> returns (length s) (literal put w e s h)"
  by (cases s) (auto simp: literal_def intro!: returns_emit)

lemma tl_shorter: "peek s \<noteq> CHR 0x00 \<Longrightarrow> length (tl s) < length s"
  by (cases s) auto

lemma skip_tl_shorter: "peek (skip_whitespace s) \<noteq> CHR 0x00 \<Longrightarrow> length (skip_whitespace (tl (skip_whitespace s))) < length s"
  using skip_length [of "tl (skip_whitespace s)"] skip_length [of s] tl_shorter [of "skip_whitespace s"] by linarith

lemma returns_mono: "returns k r \<Longrightarrow> k \<le> l \<Longrightarrow> returns l r"
  by (fastforce simp: returns_def)

text \<open>A container whose loop returns.\<close>

lemma returns_container:
  assumes "peek s \<noteq> CHR 0x00" and "\<And>t x. length t < length s \<Longrightarrow> returns (length t) (loop t x)"
  shows "returns (length s) (proceed (emit put e h off (tl s)) (\<lambda>s1 h1. let s2 = skip_whitespace s1
    in if P s2 then emit put e' h1 (length (tl s2)) (tl s2) else loop s2 h1))"
proof (rule returns_proceed [OF returns_emit [OF lessI]])
  fix t :: string and x
  assume "length t < Suc (length (tl s))"
  then have l: "length (skip_whitespace t) < length s"
    using skip_length [of t] tl_shorter [OF assms(1)] by simp
  then show "returns (length s) (let s2 = skip_whitespace t in if P s2 then emit put e' x (length (tl s2)) (tl s2) else loop s2 x)"
    using returns_mono [OF assms(2) [OF l]] by (auto simp: Let_def intro!: returns_emit)
qed

text \<open>What follows an item of a container: a comma, the end of the container, or an error.\<close>

abbreviation next_item :: "'h handler \<Rightarrow> char \<Rightarrow> sax_event \<Rightarrow> ParseErrorCode \<Rightarrow> (string \<Rightarrow> 'h \<Rightarrow> 'h reading) \<Rightarrow> string \<Rightarrow> 'h \<Rightarrow> 'h reading" where
  "next_item put d e' code loop t x \<equiv>
     (let s4 = skip_whitespace t
      in if peek s4 = CHR '','' then loop (skip_whitespace (tl s4)) x
         else if peek s4 = d then emit put e' x (length (tl s4)) (tl s4)
         else Inl (Parse_error code (length s4)))"

lemma returns_next:
  assumes "length t < l" and "d \<noteq> CHR 0x00" and "\<And>u x. length u < l \<Longrightarrow> returns (length u) (loop u x)"
  shows "returns l (next_item put d e' code loop t x)"
proof -
  have "peek (skip_whitespace t) = CHR '','' \<Longrightarrow> returns l (loop (skip_whitespace (tl (skip_whitespace t))) x)"
    using skip_tl_shorter [of t] assms(1) by (intro returns_mono [OF assms(3)]) auto
  moreover have "peek (skip_whitespace t) = d \<Longrightarrow> length (tl (skip_whitespace t)) < l"
    using skip_length [of t] tl_shorter [of "skip_whitespace t"] assms(1,2) by (simp del: length_tl)
  ultimately show ?thesis by (auto simp: Let_def intro!: returns_emit)
qed

text \<open>Every call consumes a character before the next one, or goes down from an element to its value.\<close>

lemma returns_parse_all:
  "(\<forall>s h. 3 * length s + 3 \<le> n \<longrightarrow> returns (length s) (ParseValue rnd put n s h)) \<and>
   (\<forall>c s h. 3 * length s + 4 \<le> n \<longrightarrow> returns (length s) (ParseMembers rnd put n c s h)) \<and>
   (\<forall>c s h. 3 * length s + 4 \<le> n \<longrightarrow> returns (length s) (ParseElements rnd put n c s h))"
proof (induction n)
  case (Suc n)
  then have v: "\<And>s h. 3 * length s + 3 \<le> n \<Longrightarrow> returns (length s) (ParseValue rnd put n s h)"
    and m: "\<And>c s h. 3 * length s + 4 \<le> n \<Longrightarrow> returns (length s) (ParseMembers rnd put n c s h)"
    and e: "\<And>c s h. 3 * length s + 4 \<le> n \<Longrightarrow> returns (length s) (ParseElements rnd put n c s h)" by blast+
  show ?case
  proof (intro conjI allI impI)
    fix s :: string and h assume l: "3 * length s + 3 \<le> Suc n"
    show "returns (length s) (ParseValue rnd put (Suc n) s h)"
      unfolding ParseValue.simps [of rnd put "Suc n"] ParseNull_def ParseTrue_def ParseFalse_def ParseObject_def ParseArray_def nat.case
      using l by (auto intro!: returns_literal returns_string returns_number returns_container m e)
  next
    fix c and s :: string and h assume l: "3 * length s + 4 \<le> Suc n"
    show "returns (length s) (ParseMembers rnd put (Suc n) c s h)"
    proof (cases "peek s = CHR 0x22")
      case True
      have "returns (length s) (proceed (ParseValue rnd put n (skip_whitespace (tl (skip_whitespace t))) x)
          (next_item put CHR ''}'' (Ev_EndObject (Suc c)) kParseErrorObjectMissCommaOrCurlyBracket (ParseMembers rnd put n (Suc c))))"
        if t: "length t < length s" "peek (skip_whitespace t) = CHR '':''" for t x
      proof -
        have u: "length (skip_whitespace (tl (skip_whitespace t))) < length s" using skip_tl_shorter [of t] t by simp
        show ?thesis
          by (rule returns_proceed [OF v returns_next]) (use u l in \<open>auto intro!: m\<close>)
      qed
      then show ?thesis using True
        by (subst ParseMembers.simps) (auto intro!: returns_proceed [OF returns_string [OF True]] simp: Let_def [of "skip_whitespace t" for t])
    qed (subst ParseMembers.simps, simp)
  next
    fix c and s :: string and h assume l: "3 * length s + 4 \<le> Suc n"
    show "returns (length s) (ParseElements rnd put (Suc n) c s h)"
      unfolding ParseElements.simps [of rnd put "Suc n"] nat.case
      by (rule returns_proceed [OF v returns_next]) (use l in \<open>auto intro!: e\<close>)
  qed
qed auto

end
