(* ===== verification/Rapid_Grammar.thy ===== *)
theory Rapid_Grammar
  imports Rapid_Reader
begin

text \<open>
  The reader of \<^verbatim>\<open>rapidjson/reader.h\<close> against the grammar of JSON texts: a text is accepted exactly when it
  is the text of a value with white space around it, and the handler gets the events of this value. Locale
  \<open>accepting\<close> is the interface to a handler that never stops the reader.
\<close>

section \<open>The reader and the grammar\<close>

text \<open>The event of a primitive text, and the events of a JSON value.\<close>

definition prim_event :: "rounding \<Rightarrow> string \<Rightarrow> sax_event option" where
  "prim_event rnd s =
     (if s = ''null'' then Some Ev_Null else if s = ''true'' then Some (Ev_Bool True)
      else if s = ''false'' then Some (Ev_Bool False)
      else (case read_number rnd s of Inr ([], e) \<Rightarrow> Some e | _ \<Rightarrow> None))"

datatype tree = T_leaf sax_event | T_arr "tree list" | T_obj "(string \<times> tree) list"

fun tree_events :: "tree \<Rightarrow> sax_event list" where
  "tree_events (T_leaf e) = [e]"
| "tree_events (T_arr ts) = Ev_StartArray # concat (map tree_events ts) @ [Ev_EndArray (length ts)]"
| "tree_events (T_obj ms) = Ev_StartObject # concat (map (\<lambda>(k, t). Ev_Key k # tree_events t) ms) @ [Ev_EndObject (length ms)]"

abbreviation members_events :: "(string \<times> tree) list \<Rightarrow> sax_event list" where
  "members_events ms \<equiv> concat (map (\<lambda>(k, t). Ev_Key k # tree_events t) ms)"

inductive reads :: "rounding \<Rightarrow> json \<Rightarrow> tree \<Rightarrow> bool" for rnd where
  reads_prim: "prim_event rnd s = Some e \<Longrightarrow> reads rnd (J_prim s) (T_leaf e)"
| reads_str: "unescapes raw out \<Longrightarrow> reads rnd (J_str raw) (T_leaf (Ev_String out))"
| reads_arr: "list_all2 (reads rnd) vs ts \<Longrightarrow> reads rnd (J_arr vs) (T_arr ts)"
| reads_obj: "list_all2 (\<lambda>m k. unescapes (fst m) (fst k) \<and> reads rnd (snd m) (snd k)) ms ks \<Longrightarrow> reads rnd (J_obj ms) (T_obj ks)"

abbreviation reads_members :: "rounding \<Rightarrow> (string \<times> json) list \<Rightarrow> (string \<times> tree) list \<Rightarrow> bool" where
  "reads_members rnd \<equiv> list_all2 (\<lambda>m k. unescapes (fst m) (fst k) \<and> reads rnd (snd m) (snd k))"

inductive_cases reads_primE: "reads rnd (J_prim s) t"
inductive_cases reads_strE: "reads rnd (J_str s) t"
inductive_cases reads_arrE: "reads rnd (J_arr vs) t"
inductive_cases reads_objE: "reads rnd (J_obj ms) t"

text \<open>White space.\<close>

lemma skip_def_white: "skip_whitespace = dropWhile white"
  by (rule ext, simp add: skip_whitespace_def, rule dropWhile_cong) (auto simp: white_def)

lemma white_quiet: "white c \<Longrightarrow> quiet c"
  by (auto simp: white_def quiet_def is_digit_char_def char_int_def)

lemma quiet_consts [simp]: "quiet (CHR '','')" "quiet (CHR '']'')" "quiet (CHR ''}'')" "quiet (CHR 0x00)"
  by (auto simp: quiet_def is_digit_char_def char_int_def)

lemma skip_split: "\<exists>w. s = w @ skip_whitespace s \<and> blank w"
  by (rule exI [of _ "takeWhile white s"]) (auto simp: skip_def_white blank_def dest: set_takeWhileD)

lemma skip_blank: "blank w \<Longrightarrow> \<not> white (peek t) \<Longrightarrow> skip_whitespace (w @ t) = t"
  unfolding skip_def_white blank_def by (cases t) (auto simp: dropWhile_append)

lemma skip_not_white: "\<not> white (peek (skip_whitespace s))"
  unfolding skip_def_white by (induction s) (auto simp: white_def)

lemma skip_after: "peek (skip_whitespace s) = c \<Longrightarrow> c \<noteq> CHR 0x00 \<Longrightarrow> \<exists>w. s = w @ c # tl (skip_whitespace s) \<and> blank w"
  using skip_split [of s] peek_Cons [of "skip_whitespace s" c] by auto

lemma skip_around:
  assumes "peek (skip_whitespace s) = c" and "c \<noteq> CHR 0x00"
  shows "\<exists>w w'. s = w @ c # w' @ skip_whitespace (tl (skip_whitespace s)) \<and> blank w \<and> blank w'"
proof -
  obtain w where "s = w @ c # tl (skip_whitespace s)" "blank w" using skip_after [OF assms] by blast
  moreover obtain w' where "tl (skip_whitespace s) = w' @ skip_whitespace (tl (skip_whitespace s))" "blank w'"
    using skip_split by blast
  ultimately show ?thesis by (intro exI [of _ w] exI [of _ w']) simp
qed

lemma blank_append [simp]: "blank (u @ w) \<longleftrightarrow> blank u \<and> blank w"
  by (auto simp: blank_def)

lemma elements_text_blank: "elements_text vs b \<Longrightarrow> blank w \<Longrightarrow> elements_text vs (w @ b)"
proof -
  assume "elements_text vs b" and w: "blank w"
  then show ?thesis
  proof cases
    case (text_elem w1 v s w2)
    then show ?thesis using json_text_elements_text_members_text.text_elem [of "w @ w1" v s w2] w by simp
  next
    case (text_elems w1 v s w2 vs' t)
    then show ?thesis using json_text_elements_text_members_text.text_elems [of "w @ w1" v s w2 vs' t] w by simp
  qed
qed

lemma members_text_blank: "members_text ms b \<Longrightarrow> blank w \<Longrightarrow> members_text ms (w @ b)"
proof -
  assume "members_text ms b" and w: "blank w"
  then show ?thesis
  proof cases
    case (text_member w1 k w2 w3 v s w4)
    then show ?thesis using json_text_elements_text_members_text.text_member [of "w @ w1" k w2 w3 v s w4] w by simp
  next
    case (text_members w1 k w2 w3 v s w4 ms' t)
    then show ?thesis using json_text_elements_text_members_text.text_members [of "w @ w1" k w2 w3 v s w4 ms' t] w by simp
  qed
qed

lemma quiet_skip: "quiet (peek (skip_whitespace s)) \<Longrightarrow> quiet (peek s)"
  by (cases s) (auto simp: skip_def_white split: if_splits intro: white_quiet)

lemma prim_text_head: "prim_text p \<Longrightarrow> p \<noteq> [] \<and> \<not> white (peek p) \<and> peek p \<noteq> CHR '']'' \<and> peek p \<noteq> CHR 0x00"
proof -
  assume p: "prim_text p"
  then obtain c r where c: "p = c # r" "\<not> primitive_end c" "32 \<le> char_int c"
    by (cases p) (simp_all add: prim_text_def)
  have "char_int (CHR 0x00) = 0" by code_simp
  with c have "c \<noteq> CHR 0x00" by (intro notI) simp
  with c show ?thesis by (simp add: primitive_end_def)
qed

lemma text_not_white: "json_text v p \<Longrightarrow> p \<noteq> [] \<and> \<not> white (peek p) \<and> peek p \<noteq> CHR '']'' \<and> peek p \<noteq> CHR 0x00"
proof -
  assume "json_text v p"
  then show ?thesis by cases (simp add: prim_text_head, simp_all add: quoted_def white_def)
qed

lemma number_char: "\<not> quiet c \<Longrightarrow> \<not> primitive_end c \<and> 32 \<le> char_int c \<and> char_int c < 127 \<and> c \<notin> {CHR ''{'', CHR ''['', CHR 0x22}"
proof -
  have d: "is_digit_char c \<Longrightarrow> ?thesis"
    by (auto simp: primitive_end_def white_def is_digit_char_def char_int_def)
  have "c \<in> {CHR ''.'', CHR ''e'', CHR ''E'', CHR ''+'', CHR ''-''} \<Longrightarrow> ?thesis"
    by (auto simp: primitive_end_def white_def char_int_def)
  with d show "\<not> quiet c \<Longrightarrow> ?thesis" by (auto simp only: quiet_def)
qed

lemma quiet_letters: "quiet (CHR ''n'')" "quiet (CHR ''t'')" "quiet (CHR ''f'')"
  by (auto simp: quiet_def is_digit_char_def char_int_def)

lemma number_prim_text: "number_chars p \<Longrightarrow> p \<noteq> [] \<Longrightarrow> prim_text p"
  unfolding prim_text_def number_chars_def using number_char [of "hd p"] number_char hd_in_set [of p] by simp

lemma literal_prim_text: "prim_text ''null''" "prim_text ''true''" "prim_text ''false''"
  by code_simp+

lemma number_not_literal: "number_chars p \<Longrightarrow> p \<notin> {''null'', ''true'', ''false''}"
  by (auto simp: quiet_letters)

text \<open>Handlers that accept every event; \<open>run\<close> passes events to a handler.\<close>

definition run :: "'h handler \<Rightarrow> sax_event list \<Rightarrow> 'h \<Rightarrow> 'h" where
  "run put es h = fold (\<lambda>e h. snd (put e h)) es h"

locale accepting =
  fixes put :: "'h handler"
  assumes accepts: "fst (put e h)"
begin

lemma emit_put: "emit put e h off s = Inr (s, snd (put e h))"
  using accepts [of e h] by (cases "put e h") (simp add: emit_def)

lemma run_simps [simp]: "run put [] h = h" "run put (e # es) h = run put es (snd (put e h))"
  "run put (es @ fs) h = run put fs (run put es h)"
  by (simp_all add: run_def)

text \<open>Soundness: what is read is the text of a value.\<close>

lemma literal_sound:
  assumes "literal put w e s h = Inr (t, h')" and "peek s = c" and "c \<noteq> CHR 0x00"
    and "prim_event rnd (c # w) = Some e" and "prim_text (c # w)"
  shows "\<exists>v p tr. s = p @ t \<and> json_text v p \<and> reads rnd v tr \<and> h' = run put (tree_events tr) h"
proof -
  have "take (length w) (tl s) = w" "t = drop (length w) (tl s)" "h' = snd (put e h)"
    using assms by (auto simp: literal_def emit_put split: if_splits)
  then have "s = (c # w) @ t" using peek_Cons [OF assms(2,3)] append_take_drop_id [of "length w" "tl s"] by simp
  with \<open>h' = snd (put e h)\<close> text_prim [OF assms(5)] reads_prim [OF assms(4)] show ?thesis
    by (intro exI [of _ "J_prim (c # w)"] exI [of _ "c # w"] exI [of _ "T_leaf e"]) simp
qed

lemma string_sound:
  assumes "ParseString put k s h = Inr (t, h')" and "peek s = CHR 0x22"
  shows "\<exists>raw out. s = quoted raw @ t \<and> unescapes raw out \<and> h' = run put [if k then Ev_Key out else Ev_String out] h"
proof -
  have s: "s = CHR 0x22 # tl s" using peek_Cons [OF assms(2)] by simp
  obtain out where o: "ParseStringToStream (tl s) [] = Inr (t, out)" and h: "h' = snd (put (if k then Ev_Key out else Ev_String out) h)"
    using assms(1) by (auto simp: ParseString_def proceed_Inr emit_put)
  from string_read_Inr [OF o] obtain raw where "tl s = raw @ CHR 0x22 # t" "unescapes raw out" by auto
  with s have "s = quoted raw @ t" by (simp add: quoted_def)
  with h \<open>unescapes raw out\<close> show ?thesis by (intro exI [of _ raw] exI [of _ out]) simp
qed

lemma number_sound:
  assumes "ParseNumber rnd put s h = Inr (t, h')" and "quiet (peek t)"
  shows "\<exists>p e. s = p @ t \<and> prim_text p \<and> prim_event rnd p = Some e \<and> h' = run put [e] h"
proof -
  obtain e where e: "read_number rnd s = Inr (t, e)" and h: "h' = run put [e] h"
    using assms(1) by (auto simp: ParseNumber_def proceed_Inr emit_put)
  then obtain p where p: "s = p @ t" "p \<noteq> []" "number_chars p" "\<forall>t'. alike t t' \<longrightarrow> read_number rnd (p @ t') = Inr (t', e)"
    using read_number_prefix [OF e] by blast
  have "alike t []" using assms(2) by (simp add: alike_def)
  then have "read_number rnd p = Inr ([], e)" using p(4) by fastforce
  then have "prim_event rnd p = Some e" using number_not_literal [OF p(3)] by (simp add: prim_event_def)
  with p h number_prim_text show ?thesis by blast
qed

lemma next_sound:
  assumes "next_item put d e' code loop s h = Inr (t, h')" and "d \<noteq> CHR 0x00" and "quiet d"
  shows "quiet (peek s) \<and> ((\<exists>w u. s = w @ CHR '','' # u \<and> blank w \<and> (\<exists>w' s4. u = w' @ s4 \<and> blank w' \<and> loop s4 h = Inr (t, h'))) \<or>
    (\<exists>w. s = w @ d # t \<and> blank w \<and> h' = run put [e'] h))"
proof (cases "peek (skip_whitespace s) = CHR '',''")
  case True
  then obtain w w' where "s = w @ CHR '','' # w' @ skip_whitespace (tl (skip_whitespace s))" "blank w" "blank w'"
    using skip_around [OF True] by auto
  moreover have "loop (skip_whitespace (tl (skip_whitespace s))) h = Inr (t, h')" using assms(1) True by (simp add: Let_def)
  ultimately show ?thesis using quiet_skip [of s] True by auto
next
  case False
  then have d: "peek (skip_whitespace s) = d" "t = tl (skip_whitespace s)" "h' = run put [e'] h"
    using assms(1) by (auto simp: Let_def emit_put split: if_splits)
  then show ?thesis using skip_after [OF d(1) assms(2)] quiet_skip [of s] assms(3) by auto
qed

lemma container_sound:
  assumes "proceed (emit put e h off (tl s)) (\<lambda>s1 h1. let s2 = skip_whitespace s1
      in if peek s2 = d then emit put e' h1 (length (tl s2)) (tl s2) else loop s2 h1) = Inr (t, h')"
    and "peek s = c" and "c \<noteq> CHR 0x00" and "d \<noteq> CHR 0x00"
  shows "\<exists>w. blank w \<and> ((s = c # w @ d # t \<and> h' = run put [e, e'] h) \<or>
     (\<exists>s2. s = c # w @ s2 \<and> loop s2 (run put [e] h) = Inr (t, h')))"
proof -
  have s: "s = c # tl s" using peek_Cons [OF assms(2,3)] .
  show ?thesis
  proof (cases "peek (skip_whitespace (tl s)) = d")
    case True
    then show ?thesis using assms(1) s skip_after [OF True assms(4)] by (auto simp: emit_put Let_def)
  next
    case False
    then show ?thesis using assms(1) s skip_split [of "tl s"] by (auto simp: emit_put Let_def)
  qed
qed

lemma object_sound:
  assumes "ParseObject put members s h = Inr (t, h')" and "peek s = CHR ''{''"
    and "\<And>s h t h'. members 0 s h = Inr (t, h') \<Longrightarrow>
      \<exists>ms b ks. s = b @ CHR ''}'' # t \<and> members_text ms b \<and> reads_members rnd ms ks \<and>
         h' = run put (members_events ks @ [Ev_EndObject (0 + length ks)]) h"
  shows "\<exists>v p tr. s = p @ t \<and> json_text v p \<and> reads rnd v tr \<and> h' = run put (tree_events tr) h"
proof -
  from container_sound [OF assms(1) [unfolded ParseObject_def] assms(2)] obtain w where w: "blank w"
    and "(s = CHR ''{'' # w @ CHR ''}'' # t \<and> h' = run put [Ev_StartObject, Ev_EndObject 0] h) \<or>
      (\<exists>s2. s = CHR ''{'' # w @ s2 \<and> members 0 s2 (run put [Ev_StartObject] h) = Inr (t, h'))" by auto
  then show ?thesis
  proof (elim disjE exE conjE)
    assume "s = CHR ''{'' # w @ CHR ''}'' # t" "h' = run put [Ev_StartObject, Ev_EndObject 0] h"
    then show ?thesis using text_obj_empty [OF w] reads_obj [of rnd "[]" "[]"]
      by (intro exI [of _ "J_obj []"] exI [of _ "CHR ''{'' # w @ ''}''"] exI [of _ "T_obj []"]) simp
  next
    fix s2 assume s: "s = CHR ''{'' # w @ s2" and "members 0 s2 (run put [Ev_StartObject] h) = Inr (t, h')"
    from assms(3) [OF this(2)] obtain ms b ks where b: "s2 = b @ CHR ''}'' # t" "members_text ms b" "reads_members rnd ms ks"
      "h' = run put (members_events ks @ [Ev_EndObject (0 + length ks)]) (run put [Ev_StartObject] h)" by blast
    then show ?thesis using s text_obj [OF members_text_blank [OF b(2) w]] reads_obj [OF b(3)]
      by (intro exI [of _ "J_obj ms"] exI [of _ "CHR ''{'' # (w @ b) @ ''}''"] exI [of _ "T_obj ks"]) simp
  qed
qed

lemma array_sound:
  assumes "ParseArray put elements s h = Inr (t, h')" and "peek s = CHR ''[''"
    and "\<And>s h t h'. elements 0 s h = Inr (t, h') \<Longrightarrow>
      \<exists>vs b ts. s = b @ CHR '']'' # t \<and> elements_text vs b \<and> list_all2 (reads rnd) vs ts \<and>
         h' = run put (concat (map tree_events ts) @ [Ev_EndArray (0 + length ts)]) h"
  shows "\<exists>v p tr. s = p @ t \<and> json_text v p \<and> reads rnd v tr \<and> h' = run put (tree_events tr) h"
proof -
  from container_sound [OF assms(1) [unfolded ParseArray_def] assms(2)] obtain w where w: "blank w"
    and "(s = CHR ''['' # w @ CHR '']'' # t \<and> h' = run put [Ev_StartArray, Ev_EndArray 0] h) \<or>
      (\<exists>s2. s = CHR ''['' # w @ s2 \<and> elements 0 s2 (run put [Ev_StartArray] h) = Inr (t, h'))" by auto
  then show ?thesis
  proof (elim disjE exE conjE)
    assume "s = CHR ''['' # w @ CHR '']'' # t" "h' = run put [Ev_StartArray, Ev_EndArray 0] h"
    then show ?thesis using text_arr_empty [OF w] reads_arr [of rnd "[]" "[]"]
      by (intro exI [of _ "J_arr []"] exI [of _ "CHR ''['' # w @ '']''"] exI [of _ "T_arr []"]) simp
  next
    fix s2 assume s: "s = CHR ''['' # w @ s2" and "elements 0 s2 (run put [Ev_StartArray] h) = Inr (t, h')"
    from assms(3) [OF this(2)] obtain vs b ts where b: "s2 = b @ CHR '']'' # t" "elements_text vs b" "list_all2 (reads rnd) vs ts"
      "h' = run put (concat (map tree_events ts) @ [Ev_EndArray (0 + length ts)]) (run put [Ev_StartArray] h)" by blast
    then show ?thesis using s text_arr [OF elements_text_blank [OF b(2) w]] reads_arr [OF b(3)]
      by (intro exI [of _ "J_arr vs"] exI [of _ "CHR ''['' # (w @ b) @ '']''"] exI [of _ "T_arr ts"]) simp
  qed
qed

lemma sound_all:
  "(\<forall>s h t h'. ParseValue rnd put n s h = Inr (t, h') \<longrightarrow> quiet (peek t) \<longrightarrow>
      (\<exists>v p tr. s = p @ t \<and> json_text v p \<and> reads rnd v tr \<and> h' = run put (tree_events tr) h)) \<and>
   (\<forall>c s h t h'. ParseMembers rnd put n c s h = Inr (t, h') \<longrightarrow>
      (\<exists>ms b ks. s = b @ CHR ''}'' # t \<and> members_text ms b \<and> reads_members rnd ms ks \<and>
         h' = run put (members_events ks @ [Ev_EndObject (c + length ks)]) h)) \<and>
   (\<forall>c s h t h'. ParseElements rnd put n c s h = Inr (t, h') \<longrightarrow>
      (\<exists>vs b ts. s = b @ CHR '']'' # t \<and> elements_text vs b \<and> list_all2 (reads rnd) vs ts \<and>
         h' = run put (concat (map tree_events ts) @ [Ev_EndArray (c + length ts)]) h))"
proof (induction n)
  case 0
  then show ?case by (simp add: ParseValue.simps ParseMembers.simps ParseElements.simps)
next
  case (Suc n)
  note v = Suc [THEN conjunct1, rule_format] and m = Suc [THEN conjunct2, THEN conjunct1, rule_format]
    and e = Suc [THEN conjunct2, THEN conjunct2, rule_format]
  show ?case
  proof (intro conjI allI impI)
    fix s h t h' assume r: "ParseValue rnd put (Suc n) s h = Inr (t, h')" and q: "quiet (peek t)"
    consider (null) "peek s = CHR ''n''" | (true) "peek s = CHR ''t''" | (false) "peek s = CHR ''f''"
      | (str) "peek s = CHR 0x22" | (obj) "peek s = CHR ''{''" | (arr) "peek s = CHR ''[''"
      | (num) "peek s \<notin> {CHR ''n'', CHR ''t'', CHR ''f'', CHR 0x22, CHR ''{'', CHR ''[''}" by auto
    then show "\<exists>v p tr. s = p @ t \<and> json_text v p \<and> reads rnd v tr \<and> h' = run put (tree_events tr) h"
    proof cases
      case null
      show ?thesis
        by (rule literal_sound [of "''ull''" Ev_Null s h]) (use r null literal_prim_text in \<open>simp_all add: ParseValue.simps ParseNull_def prim_event_def\<close>)
    next
      case true
      show ?thesis
        by (rule literal_sound [of "''rue''" "Ev_Bool True" s h]) (use r true literal_prim_text in \<open>simp_all add: ParseValue.simps ParseTrue_def prim_event_def\<close>)
    next
      case false
      show ?thesis
        by (rule literal_sound [of "''alse''" "Ev_Bool False" s h]) (use r false literal_prim_text in \<open>simp_all add: ParseValue.simps ParseFalse_def prim_event_def\<close>)
    next
      case str
      then have "ParseString put False s h = Inr (t, h')" using r by (simp add: ParseValue.simps)
      from string_sound [OF this str] obtain raw out where o: "s = quoted raw @ t" "unescapes raw out" "h' = run put [Ev_String out] h" by auto
      then show ?thesis using text_str [OF unescapes_body [OF o(2)]] reads_str [OF o(2)]
        by (intro exI [of _ "J_str raw"] exI [of _ "quoted raw"] exI [of _ "T_leaf (Ev_String out)"]) simp
    next
      case obj
      then have "ParseObject put (ParseMembers rnd put n) s h = Inr (t, h')" using r by (simp add: ParseValue.simps)
      from object_sound [OF this obj] m show ?thesis by blast
    next
      case arr
      then have "ParseArray put (ParseElements rnd put n) s h = Inr (t, h')" using r by (simp add: ParseValue.simps)
      from array_sound [OF this arr] e show ?thesis by blast
    next
      case num
      then have "ParseNumber rnd put s h = Inr (t, h')" using r by (simp add: ParseValue.simps)
      from number_sound [OF this q] obtain p e where o: "s = p @ t" "prim_text p" "prim_event rnd p = Some e" "h' = run put [e] h" by blast
      then show ?thesis using text_prim [OF o(2)] reads_prim [OF o(3)]
        by (intro exI [of _ "J_prim p"] exI [of _ p] exI [of _ "T_leaf e"]) simp
    qed
  next
    fix c s h t h' assume r: "ParseMembers rnd put (Suc n) c s h = Inr (t, h')"
    then have k: "peek s = CHR 0x22" by (auto simp: ParseMembers.simps split: if_splits)
    obtain s1 h1 where 1: "ParseString put True s h = Inr (s1, h1)" and c: "peek (skip_whitespace s1) = CHR '':''"
      and r1: "proceed (ParseValue rnd put n (skip_whitespace (tl (skip_whitespace s1))) h1)
         (next_item put CHR ''}'' (Ev_EndObject (Suc c)) kParseErrorObjectMissCommaOrCurlyBracket (ParseMembers rnd put n (Suc c))) = Inr (t, h')"
      using r k by (auto simp: ParseMembers.simps proceed_Inr Let_def [of "skip_whitespace t" for t] split: if_splits)
    obtain s3 h3 where 3: "ParseValue rnd put n (skip_whitespace (tl (skip_whitespace s1))) h1 = Inr (s3, h3)"
      and r3: "next_item put CHR ''}'' (Ev_EndObject (Suc c)) kParseErrorObjectMissCommaOrCurlyBracket (ParseMembers rnd put n (Suc c)) s3 h3 = Inr (t, h')"
      using r1 by (auto simp only: proceed_Inr)
    obtain raw out where o: "s = quoted raw @ s1" "unescapes raw out" "h1 = run put [Ev_Key out] h"
      using string_sound [OF 1 k] by auto
    obtain w1 w2 where w: "s1 = w1 @ CHR '':'' # w2 @ skip_whitespace (tl (skip_whitespace s1))" "blank w1" "blank w2"
      using skip_around [OF c] by auto
    note nx = next_sound [where d = "CHR ''}''" and loop = "ParseMembers rnd put n (Suc c)", OF r3]
    then obtain v p tr where vt: "skip_whitespace (tl (skip_whitespace s1)) = p @ s3" "json_text v p" "reads rnd v tr" "h3 = run put (tree_events tr) h1"
      using v [OF 3] by auto
    let ?m = "quoted raw @ w1 @ CHR '':'' # w2 @ p"
    have "(\<exists>w w' s4. s3 = w @ CHR '','' # w' @ s4 \<and> blank w \<and> blank w' \<and> ParseMembers rnd put n (Suc c) s4 h3 = Inr (t, h')) \<or>
      (\<exists>w. s3 = w @ CHR ''}'' # t \<and> blank w \<and> h' = run put [Ev_EndObject (Suc c)] h3)" using nx by auto
    then show "\<exists>ms b ks. s = b @ CHR ''}'' # t \<and> members_text ms b \<and> reads_members rnd ms ks \<and>
         h' = run put (members_events ks @ [Ev_EndObject (c + length ks)]) h"
    proof (elim disjE exE conjE)
      fix x x' s4
      assume x: "s3 = x @ CHR '','' # x' @ s4" "blank x" "blank x'" "ParseMembers rnd put n (Suc c) s4 h3 = Inr (t, h')"
      from m [OF x(4)] obtain ms b ks where i: "s4 = b @ CHR ''}'' # t" "members_text ms b" "reads_members rnd ms ks"
        "h' = run put (members_events ks @ [Ev_EndObject (Suc c + length ks)]) h3" by blast
      show ?thesis
        using o w vt x i text_members [OF blank_Nil unescapes_body [OF o(2)] w(2,3) vt(2) x(2) members_text_blank [OF i(2) x(3)]]
        by (intro exI [of _ "(raw, v) # ms"] exI [of _ "?m @ x @ CHR '','' # x' @ b"] exI [of _ "(out, tr) # ks"]) simp
    next
      fix x
      assume x: "s3 = x @ CHR ''}'' # t" "blank x" "h' = run put [Ev_EndObject (Suc c)] h3"
      show ?thesis
        using o w vt x text_member [OF blank_Nil unescapes_body [OF o(2)] w(2,3) vt(2) x(2)]
        by (intro exI [of _ "[(raw, v)]"] exI [of _ "?m @ x"] exI [of _ "[(out, tr)]"]) simp
    qed
  next
    fix c s h t h' assume r: "ParseElements rnd put (Suc n) c s h = Inr (t, h')"
    obtain s3 h3 where 3: "ParseValue rnd put n s h = Inr (s3, h3)"
      and r3: "next_item put CHR '']'' (Ev_EndArray (Suc c)) kParseErrorArrayMissCommaOrSquareBracket (ParseElements rnd put n (Suc c)) s3 h3 = Inr (t, h')"
      using r unfolding ParseElements.simps [of rnd put "Suc n"] nat.case by (auto simp only: proceed_Inr)
    note nx = next_sound [where d = "CHR '']''" and loop = "ParseElements rnd put n (Suc c)", OF r3]
    then obtain v p tr where vt: "s = p @ s3" "json_text v p" "reads rnd v tr" "h3 = run put (tree_events tr) h"
      using v [OF 3] by auto
    have "(\<exists>w w' s4. s3 = w @ CHR '','' # w' @ s4 \<and> blank w \<and> blank w' \<and> ParseElements rnd put n (Suc c) s4 h3 = Inr (t, h')) \<or>
      (\<exists>w. s3 = w @ CHR '']'' # t \<and> blank w \<and> h' = run put [Ev_EndArray (Suc c)] h3)" using nx by auto
    then show "\<exists>vs b ts. s = b @ CHR '']'' # t \<and> elements_text vs b \<and> list_all2 (reads rnd) vs ts \<and>
         h' = run put (concat (map tree_events ts) @ [Ev_EndArray (c + length ts)]) h"
    proof (elim disjE exE conjE)
      fix x x' s4
      assume x: "s3 = x @ CHR '','' # x' @ s4" "blank x" "blank x'" "ParseElements rnd put n (Suc c) s4 h3 = Inr (t, h')"
      from e [OF x(4)] obtain vs b ts where i: "s4 = b @ CHR '']'' # t" "elements_text vs b" "list_all2 (reads rnd) vs ts"
        "h' = run put (concat (map tree_events ts) @ [Ev_EndArray (Suc c + length ts)]) h3" by blast
      show ?thesis
        using vt x i text_elems [OF blank_Nil vt(2) x(2) elements_text_blank [OF i(2) x(3)]]
        by (intro exI [of _ "v # vs"] exI [of _ "p @ x @ CHR '','' # x' @ b"] exI [of _ "tr # ts"]) simp
    next
      fix x
      assume x: "s3 = x @ CHR '']'' # t" "blank x" "h' = run put [Ev_EndArray (Suc c)] h3"
      show ?thesis
        using vt x text_elem [OF blank_Nil vt(2) x(2)]
        by (intro exI [of _ "[v]"] exI [of _ "p @ x"] exI [of _ "[tr]"]) simp
    qed
  qed
qed

end

text \<open>Completeness: the text of a value is read.\<close>

lemma prim_event_cases:
  assumes "prim_event rnd p = Some e"
  obtains "p = ''null''" "e = Ev_Null" | "p = ''true''" "e = Ev_Bool True" | "p = ''false''" "e = Ev_Bool False"
    | "read_number rnd p = Inr ([], e)"
  using assms by (auto simp: prim_event_def split: if_splits sum.splits list.splits)

lemma not_white [simp]: "\<not> white (CHR '','')" "\<not> white (CHR '']'')" "\<not> white (CHR ''}'')" "\<not> white (CHR 0x22)" "\<not> white (CHR '':'')"
  by (simp_all add: white_def)

lemma number_start: "\<not> quiet c \<Longrightarrow> c \<notin> {CHR ''n'', CHR ''t'', CHR ''f'', CHR 0x22, CHR ''{'', CHR ''[''}"
  using number_char quiet_letters by blast

lemma elements_start: "elements_text vs b \<Longrightarrow> peek (skip_whitespace (b @ t)) \<noteq> CHR '']''"
proof -
  have *: "peek (skip_whitespace (w @ p @ r)) \<noteq> CHR '']''" if "blank w" "json_text v p" for w v p r
    using text_not_white [OF that(2)] skip_blank [OF that(1), of "p @ r"] by (simp add: peek_append)
  assume "elements_text vs b"
  then show ?thesis by cases (simp_all add: *)
qed

lemma members_start: "members_text ms b \<Longrightarrow> peek (skip_whitespace (b @ t)) = CHR 0x22"
proof -
  have *: "peek (skip_whitespace (w @ quoted k @ r)) = CHR 0x22" if "blank w" for w k r
    using skip_blank [OF that, of "quoted k @ r"] by (simp add: quoted_def)
  assume "members_text ms b"
  then show ?thesis by cases (simp_all add: *)
qed

context accepting
begin

lemma next_comma: "blank w \<Longrightarrow> next_item put d e' code loop (w @ CHR '','' # u) h = loop (skip_whitespace u) h"
  by (simp add: skip_blank)

lemma next_end: "blank w \<Longrightarrow> \<not> white d \<Longrightarrow> d \<noteq> CHR '','' \<Longrightarrow> next_item put d e' code loop (w @ d # t) h = Inr (t, snd (put e' h))"
  by (simp add: skip_blank emit_put)

lemma prim_complete:
  assumes "prim_event rnd p = Some e" and "quiet (peek t)"
  shows "ParseValue rnd put (Suc n) (p @ t) h = Inr (t, snd (put e h))"
  using assms(1)
proof (cases rule: prim_event_cases)
  case 4
  then obtain q where "p = q @ []" and q: "q \<noteq> []" "number_chars q" "\<forall>t'. alike [] t' \<longrightarrow> read_number rnd (q @ t') = Inr (t', e)"
    using read_number_prefix by blast
  then have p: "p = q" "\<not> quiet (peek p)" by (cases q; simp)+
  have "read_number rnd (p @ t) = Inr (t, e)" using q(3) p assms(2) by (simp add: alike_def)
  then have "ParseNumber rnd put (p @ t) h = Inr (t, snd (put e h))" by (simp add: ParseNumber_def emit_put)
  then show ?thesis using number_start [OF p(2)] p q(1) by (simp add: ParseValue.simps peek_append)
qed (simp_all add: ParseValue.simps ParseNull_def ParseTrue_def ParseFalse_def literal_def emit_put)

lemma string_complete: "unescapes raw out \<Longrightarrow> ParseString put k (quoted raw @ t) h = Inr (t, snd (put (if k then Ev_Key out else Ev_String out) h))"
  using string_read [of raw out t "[]"] by (simp add: ParseString_def quoted_def emit_put)

lemma item_elements:
  assumes "blank w1" and "json_text v p"
    and "ParseValue rnd put n (p @ r) h = Inr (r, h1)"
  shows "ParseElements rnd put (Suc n) c (skip_whitespace (w1 @ p @ r)) h =
    next_item put CHR '']'' (Ev_EndArray (Suc c)) kParseErrorArrayMissCommaOrSquareBracket (ParseElements rnd put n (Suc c)) r h1"
proof -
  have "skip_whitespace (w1 @ p @ r) = p @ r"
    using text_not_white [OF assms(2)] by (intro skip_blank assms(1)) (simp add: peek_append)
  then show ?thesis using assms(3) unfolding ParseElements.simps [of rnd put "Suc n"] nat.case by simp
qed

lemma item_members:
  assumes "blank w1" and "unescapes k out" and "blank w2" and "blank w3" and "json_text v p"
    and "ParseValue rnd put n (p @ r) (snd (put (Ev_Key out) h)) = Inr (r, h1)"
  shows "ParseMembers rnd put (Suc n) c (skip_whitespace (w1 @ quoted k @ w2 @ CHR '':'' # w3 @ p @ r)) h =
    next_item put CHR ''}'' (Ev_EndObject (Suc c)) kParseErrorObjectMissCommaOrCurlyBracket (ParseMembers rnd put n (Suc c)) r h1"
proof -
  have 1: "skip_whitespace (w1 @ quoted k @ u) = quoted k @ u" for u
    by (intro skip_blank assms(1)) (simp add: quoted_def)
  have 2: "skip_whitespace (w2 @ CHR '':'' # u) = CHR '':'' # u" for u by (intro skip_blank assms(3)) simp
  have 3: "skip_whitespace (w3 @ p @ r) = p @ r"
    using text_not_white [OF assms(5)] by (intro skip_blank assms(4)) (simp add: peek_append)
  have 4: "peek (quoted k @ u) = CHR 0x22" for u by (simp add: quoted_def)
  show ?thesis
    using assms(6) unfolding ParseMembers.simps [of rnd put "Suc n"] nat.case 1
    by (simp add: 4 string_complete [OF assms(2)] Let_def [of "skip_whitespace (w2 @ CHR '':'' # u)" for u] 2 3)
qed

lemma white_or_quiet: "blank w \<Longrightarrow> quiet d \<Longrightarrow> quiet (peek (w @ d # t))"
  by (cases w) (auto simp: blank_def white_quiet)

lemma complete_all:
  "json_text v p \<Longrightarrow> \<forall>tr n t h. reads rnd v tr \<longrightarrow> quiet (peek t) \<longrightarrow> 3 * length p + 3 \<le> n \<longrightarrow>
     ParseValue rnd put n (p @ t) h = Inr (t, run put (tree_events tr) h)"
  "elements_text vs b \<Longrightarrow> \<forall>ts n c t h. list_all2 (reads rnd) vs ts \<longrightarrow> 3 * length b + 4 \<le> n \<longrightarrow>
     ParseElements rnd put n c (skip_whitespace (b @ CHR '']'' # t)) h =
       Inr (t, run put (concat (map tree_events ts) @ [Ev_EndArray (c + length ts)]) h)"
  "members_text ms b' \<Longrightarrow> \<forall>ks n c t h. reads_members rnd ms ks \<longrightarrow> 3 * length b' + 4 \<le> n \<longrightarrow>
     ParseMembers rnd put n c (skip_whitespace (b' @ CHR ''}'' # t)) h =
       Inr (t, run put (members_events ks @ [Ev_EndObject (c + length ks)]) h)"
proof (induction rule: json_text_elements_text_members_text.inducts)
  case (text_prim s)
  show ?case
  proof (intro allI impI)
    fix tr n t h assume "reads rnd (J_prim s) tr" "quiet (peek t)" "3 * length s + 3 \<le> n"
    then show "ParseValue rnd put n (s @ t) h = Inr (t, run put (tree_events tr) h)"
      by (cases n) (auto elim!: reads_primE simp: prim_complete)
  qed
next
  case (text_str s)
  show ?case
  proof (intro allI impI)
    fix tr n t h assume "reads rnd (J_str s) tr" "quiet (peek t)" "3 * length (quoted s) + 3 \<le> n"
    moreover have "peek (quoted s @ t) = CHR 0x22" for t by (simp add: quoted_def)
    ultimately show "ParseValue rnd put n (quoted s @ t) h = Inr (t, run put (tree_events tr) h)"
      by (cases n) (auto elim!: reads_strE simp: ParseValue.simps string_complete)
  qed
next
  case (text_arr_empty w)
  show ?case
  proof (intro allI impI)
    fix tr n t h assume "reads rnd (J_arr []) tr" "3 * length (CHR ''['' # w @ '']'') + 3 \<le> n"
    then show "ParseValue rnd put n ((CHR ''['' # w @ '']'') @ t) h = Inr (t, run put (tree_events tr) h)"
      using skip_blank [OF text_arr_empty, of "CHR '']'' # t"]
      by (cases n) (auto elim!: reads_arrE simp: ParseValue.simps ParseArray_def emit_put)
  qed
next
  case (text_arr vs s)
  show ?case
  proof (intro allI impI)
    fix tr n t h assume "reads rnd (J_arr vs) tr" and l: "3 * length (CHR ''['' # s @ '']'') + 3 \<le> n"
    then obtain ts m where ts: "tr = T_arr ts" "list_all2 (reads rnd) vs ts" and m: "n = Suc m" "3 * length s + 4 \<le> m"
      by (cases n) (auto elim!: reads_arrE)
    from text_arr(2) [rule_format, OF ts(2) m(2)] show "ParseValue rnd put n ((CHR ''['' # s @ '']'') @ t) h = Inr (t, run put (tree_events tr) h)"
      using elements_start [OF text_arr(1)] ts(1) m(1) by (simp add: ParseValue.simps ParseArray_def emit_put)
  qed
next
  case (text_obj_empty w)
  show ?case
  proof (intro allI impI)
    fix tr n t h assume "reads rnd (J_obj []) tr" "3 * length (CHR ''{'' # w @ ''}'') + 3 \<le> n"
    then show "ParseValue rnd put n ((CHR ''{'' # w @ ''}'') @ t) h = Inr (t, run put (tree_events tr) h)"
      using skip_blank [OF text_obj_empty, of "CHR ''}'' # t"]
      by (cases n) (auto elim!: reads_objE simp: ParseValue.simps ParseObject_def emit_put)
  qed
next
  case (text_obj ms s)
  show ?case
  proof (intro allI impI)
    fix tr n t h assume "reads rnd (J_obj ms) tr" and l: "3 * length (CHR ''{'' # s @ ''}'') + 3 \<le> n"
    then obtain ks m where ks: "tr = T_obj ks" "reads_members rnd ms ks" and m: "n = Suc m" "3 * length s + 4 \<le> m"
      by (cases n) (auto elim!: reads_objE)
    from text_obj(2) [rule_format, OF ks(2) m(2)] show "ParseValue rnd put n ((CHR ''{'' # s @ ''}'') @ t) h = Inr (t, run put (tree_events tr) h)"
      using members_start [OF text_obj(1)] ks(1) m(1) by (simp add: ParseValue.simps ParseObject_def emit_put)
  qed
next
  case (text_elem w1 v s w2)
  show ?case
  proof (intro allI impI)
    fix ts n c t h assume r: "list_all2 (reads rnd) [v] ts" and l: "3 * length (w1 @ s @ w2) + 4 \<le> n"
    from r obtain tr where tr: "ts = [tr]" "reads rnd v tr" by (auto simp: list_all2_Cons1)
    from l obtain m where m: "n = Suc m" "3 * length s + 3 \<le> m" by (cases n) auto
    have q: "quiet (peek (w2 @ CHR '']'' # t))" using text_elem(3) by (simp add: white_or_quiet)
    show "ParseElements rnd put n c (skip_whitespace ((w1 @ s @ w2) @ CHR '']'' # t)) h =
       Inr (t, run put (concat (map tree_events ts) @ [Ev_EndArray (c + length ts)]) h)"
      using item_elements [OF text_elem(1,2) text_elem(4) [rule_format, OF tr(2) q m(2)]] text_elem(3) m(1) tr(1) by (simp add: skip_blank emit_put)
  qed
next
  case (text_elems w1 v s w2 vs b)
  show ?case
  proof (intro allI impI)
    fix ts n c t h assume r: "list_all2 (reads rnd) (v # vs) ts" and l: "3 * length (w1 @ s @ w2 @ CHR '','' # b) + 4 \<le> n"
    from r obtain tr ts' where tr: "ts = tr # ts'" "reads rnd v tr" "list_all2 (reads rnd) vs ts'" by (auto simp: list_all2_Cons1)
    from l obtain m where m: "n = Suc m" "3 * length s + 3 \<le> m" "3 * length b + 4 \<le> m" by (cases n) auto
    have q: "quiet (peek (w2 @ CHR '','' # b @ CHR '']'' # t))" using text_elems(3) by (simp add: white_or_quiet)
    show "ParseElements rnd put n c (skip_whitespace ((w1 @ s @ w2 @ CHR '','' # b) @ CHR '']'' # t)) h =
       Inr (t, run put (concat (map tree_events ts) @ [Ev_EndArray (c + length ts)]) h)"
      using item_elements [OF text_elems(1,2) text_elems(5) [rule_format, OF tr(2) q m(2)]] text_elems(3)
        text_elems(6) [rule_format, OF tr(3) m(3)] m(1) tr(1) by (simp add: skip_blank emit_put)
  qed
next
  case (text_member w1 k w2 w3 v s w4)
  show ?case
  proof (intro allI impI)
    fix ks n c t h assume r: "reads_members rnd [(k, v)] ks" and l: "3 * length (w1 @ quoted k @ w2 @ CHR '':'' # w3 @ s @ w4) + 4 \<le> n"
    from r obtain out tr where tr: "ks = [(out, tr)]" "unescapes k out" "reads rnd v tr" by (auto simp: list_all2_Cons1)
    from l obtain m where m: "n = Suc m" "3 * length s + 3 \<le> m" by (cases n) auto
    have q: "quiet (peek (w4 @ CHR ''}'' # t))" using text_member(6) by (simp add: white_or_quiet)
    show "ParseMembers rnd put n c (skip_whitespace ((w1 @ quoted k @ w2 @ CHR '':'' # w3 @ s @ w4) @ CHR ''}'' # t)) h =
       Inr (t, run put (members_events ks @ [Ev_EndObject (c + length ks)]) h)"
      using item_members [OF text_member(1) tr(2) text_member(3,4,5) text_member(7) [rule_format, OF tr(3) q m(2)]] text_member(6)
        m(1) tr(1) by (simp add: skip_blank emit_put)
  qed
next
  case (text_members w1 k w2 w3 v s w4 ms b)
  show ?case
  proof (intro allI impI)
    fix ks n c t h assume r: "reads_members rnd ((k, v) # ms) ks"
      and l: "3 * length (w1 @ quoted k @ w2 @ CHR '':'' # w3 @ s @ w4 @ CHR '','' # b) + 4 \<le> n"
    from r obtain out tr ks' where tr: "ks = (out, tr) # ks'" "unescapes k out" "reads rnd v tr" "reads_members rnd ms ks'"
      by (auto simp: list_all2_Cons1)
    from l obtain m where m: "n = Suc m" "3 * length s + 3 \<le> m" "3 * length b + 4 \<le> m" by (cases n) auto
    have q: "quiet (peek (w4 @ CHR '','' # b @ CHR ''}'' # t))" using text_members(6) by (simp add: white_or_quiet)
    show "ParseMembers rnd put n c (skip_whitespace ((w1 @ quoted k @ w2 @ CHR '':'' # w3 @ s @ w4 @ CHR '','' # b) @ CHR ''}'' # t)) h =
       Inr (t, run put (members_events ks @ [Ev_EndObject (c + length ks)]) h)"
      using item_members [OF text_members(1) tr(2) text_members(3,4,5) text_members(8) [rule_format, OF tr(3) q m(2)]] text_members(6)
        text_members(9) [rule_format, OF tr(4) m(3)] m(1) tr(1) by (simp add: skip_blank emit_put)
  qed
qed

text \<open>The reader accepts exactly the texts of values, with white space around them, up to the first null character.\<close>

lemma Parse_iff:
  "Parse rnd put text h = Inr h' \<longleftrightarrow>
     (\<exists>v p w1 w2 tr. takeWhile (\<lambda>c. c \<noteq> CHR 0x00) text = w1 @ p @ w2 \<and> blank w1 \<and> blank w2 \<and> json_text v p \<and>
        reads rnd v tr \<and> h' = run put (tree_events tr) h)"
  (is "_ \<longleftrightarrow> ?R")
proof
  let ?s = "takeWhile (\<lambda>c. c \<noteq> CHR 0x00) text"
  assume "Parse rnd put text h = Inr h'"
  then obtain t where t: "ParseValue rnd put (reader_fuel (skip_whitespace ?s)) (skip_whitespace ?s) h = Inr (t, h')"
    and e: "peek (skip_whitespace t) = CHR 0x00"
    by (auto simp: Parse_def Let_def split: if_splits sum.splits failure.splits)
  have "quiet (peek t)" using quiet_skip [of t] e by simp
  then obtain v p tr where v: "skip_whitespace ?s = p @ t" "json_text v p" "reads rnd v tr" "h' = run put (tree_events tr) h"
    using sound_all [THEN conjunct1, rule_format, OF t] by blast
  obtain w1 where w1: "?s = w1 @ skip_whitespace ?s" "blank w1" using skip_split by blast
  obtain w2 where w2: "t = w2 @ skip_whitespace t" "blank w2" using skip_split by blast
  have "set (skip_whitespace t) \<subseteq> set ?s"
    using w1(1) w2(1) v(1) by (metis append.assoc set_append Un_upper2)
  then have "CHR 0x00 \<notin> set (skip_whitespace t)" using set_takeWhileD by fastforce
  then have "skip_whitespace t = []" using e by (cases "skip_whitespace t") auto
  with w1 w2 v show ?R by (metis append_Nil2)
next
  assume ?R
  then obtain v p w1 w2 tr where s: "takeWhile (\<lambda>c. c \<noteq> CHR 0x00) text = w1 @ p @ w2" "blank w1" "blank w2"
    and v: "json_text v p" "reads rnd v tr" "h' = run put (tree_events tr) h" by blast
  have p: "peek (p @ w2) = peek p" using text_not_white [OF v(1)] by (simp add: peek_append)
  have 1: "skip_whitespace (w1 @ p @ w2) = p @ w2" using text_not_white [OF v(1)] p by (intro skip_blank s(2)) simp
  have 2: "skip_whitespace w2 = []" using skip_blank [OF s(3), of "[]"] by (simp add: white_def)
  have q: "quiet (peek w2)" using s(3) by (cases w2) (auto simp: blank_def white_quiet)
  have "ParseValue rnd put (reader_fuel (p @ w2)) (p @ w2) h = Inr (w2, h')"
    using complete_all(1) [OF v(1)] v(2,3) q by (simp add: reader_fuel_def)
  then show "Parse rnd put text h = Inr h'"
    using text_not_white [OF v(1)] p by (simp add: Parse_def Let_def s(1) 1 2)
qed

end

lemma Parse_returns: "Parse rnd put text h \<noteq> Inl Out_of_fuel"
proof -
  have "returns (length s) (ParseValue rnd put (reader_fuel s) s h)" for s
    by (rule returns_parse_all [THEN conjunct1, rule_format]) (simp add: reader_fuel_def)
  then have "ParseValue rnd put (reader_fuel s) s h \<noteq> Inl Out_of_fuel" for s
    by (simp add: returns_def fueled_def)
  then show ?thesis by (auto simp: Parse_def Let_def split: sum.splits failure.splits)
qed

end
