(* ===== verification/Rapid_Numbers.thy ===== *)
theory Rapid_Numbers
  imports Rapid_Grammar "HOL-Library.Log_Nat"
begin

text \<open>
  The numbers that decimal texts stand for: integers are read exactly in every range the reader distinguishes, and
  a decimal fraction of up to 53 significant bits is the quotient of two exact numbers, rounded once. Locale
  \<open>rounding\<close> is the interface to the rounding of floating-point operations; the rounding of IEEE 754 double
  precision, to the nearest and to even, is its instance.
\<close>

section \<open>Integers\<close>

definition dec_from :: "nat \<Rightarrow> string \<Rightarrow> nat" where
  "dec_from i ds = foldl (\<lambda>n c. 10 * n + digit_val c) i ds"

abbreviation digits :: "string \<Rightarrow> bool" where
  "digits ds \<equiv> \<forall>c \<in> set ds. is_digit_char c"

lemma dec_from_simps [simp]: "dec_from i [] = i" "dec_from i (c # ds) = dec_from (10 * i + digit_val c) ds"
  "dec_from i (as @ bs) = dec_from (dec_from i as) bs"
  by (simp_all add: dec_from_def)

lemma dec_value_from: "dec_value ds = dec_from 0 ds"
  by (simp add: dec_value_def dec_from_def)

lemma dec_from_ge: "i \<le> dec_from i ds"
proof (induction ds arbitrary: i)
  case (Cons c ds)
  have "10 * i + digit_val c \<le> dec_from (10 * i + digit_val c) ds" by (rule Cons)
  then show ?case by simp
qed simp

lemma digit_val_le: "is_digit_char c \<Longrightarrow> digit_val c \<le> 9"
  by (simp add: is_digit_char_def digit_val_def nat_le_iff)

lemma int_digits_all:
  assumes "digits ds" and "dec_from i ds \<le> 10 * l + f" and "f \<le> 9" and "10 * l + f < m" and "\<not> is_digit_char (peek t)"
  shows "int_digits m l f (ds @ t) i n = (False, t, dec_from i ds, n + length ds)"
  using assms(1,2)
proof (induction ds arbitrary: i n)
  case (Cons c ds)
  have "10 * i + digit_val c \<le> 10 * l + f" using dec_from_ge [of "10 * i + digit_val c" ds] Cons.prems(2) by simp
  then have "\<not> (i \<ge> l \<and> (i \<noteq> l \<or> digit_val c > f))" "10 * i + digit_val c < m" using assms(3,4) by auto
  with Cons show ?case by (simp add: mult.commute [of i 10])
next
  case Nil
  with assms(5) show ?case by (cases t) simp_all
qed

lemma int_digits_stops:
  assumes "digits ds" and "i \<le> 10 * l + f" and "dec_from i ds > 10 * l + f" and "f \<le> 9" and "10 * l + f < m"
  shows "\<exists>as bs. ds = as @ bs \<and> dec_from i as \<le> 10 * l + f \<and> int_digits m l f (ds @ t) i n = (True, bs @ t, dec_from i as, n + length as)"
  using assms(1-3)
proof (induction ds arbitrary: i n)
  case (Cons c ds)
  show ?case
  proof (cases "i \<ge> l \<and> (i \<noteq> l \<or> digit_val c > f)")
    case True
    with Cons.prems show ?thesis by (intro exI [of _ "[]"] exI [of _ "c # ds"]) simp
  next
    case False
    moreover from False have i: "10 * i + digit_val c \<le> 10 * l + f" using digit_val_le [of c] Cons.prems(1) by auto
    moreover obtain as bs where "ds = as @ bs" "dec_from (10 * i + digit_val c) as \<le> 10 * l + f"
      "int_digits m l f (ds @ t) (10 * i + digit_val c) (Suc n) = (True, bs @ t, dec_from (10 * i + digit_val c) as, Suc n + length as)"
      using Cons.IH [OF _ i, of "Suc n"] Cons.prems by auto
    ultimately show ?thesis using Cons.prems(1) assms(5)
      by (intro exI [of _ "c # as"] exI [of _ bs]) (simp add: mult.commute [of i 10])
  qed
qed simp

lemma to_string_first: "0 < n \<Longrightarrow> peek (to_string n) \<noteq> CHR ''0''"
proof (induction n rule: to_string.induct)
  case (1 n)
  show ?case
  proof (cases "n < 10")
    case True
    then have "n \<in> set [1..<10]" using 1 by auto
    moreover have "\<forall>n \<in> set [1..<10]. digit_char n \<noteq> CHR ''0''" by code_simp
    ultimately show ?thesis using True by (subst to_string.simps) (simp del: set_upt)
  next
    case False
    then show ?thesis using 1 by (subst to_string.simps) (simp add: peek_append)
  qed
qed

text \<open>The largest integers of 32 and 64 bits.\<close>

definition max32 :: "bool \<Rightarrow> nat" where
  "max32 neg = (if neg then 2 ^ 31 else 2 ^ 32 - 1)"

definition max64 :: "bool \<Rightarrow> nat" where
  "max64 neg = (if neg then 2 ^ 63 else 2 ^ 64 - 1)"

lemma max32_limit: "max32 neg = 10 * (if neg then 214748364 else 429496729) + (if neg then 8 else 5)"
  by (simp add: max32_def)

lemma max64_limit: "max64 neg = 10 * (if neg then 0x0CCCCCCCCCCCCCCC else 0x1999999999999999) + (if neg then 8 else 5)"
  by (simp add: max64_def)

definition integer_state :: "bool \<Rightarrow> nat \<Rightarrow> number_state \<Rightarrow> bool" where
  "integer_state neg n st \<longleftrightarrow> \<not> ns_useDouble st \<and> ns_expFrac st = 0 \<and> ns_exp st = 0 \<and>
     (if n \<le> max32 neg then \<not> ns_use64bit st \<and> ns_i st = n else ns_use64bit st \<and> ns_i64 st = n)"

lemma integer_phases:
  assumes "n \<le> max64 neg" and t: "\<not> is_digit_char (peek t)"
  shows "\<exists>s1 st1 st. number_int neg (to_string n @ t) = Inr (s1, st1) \<and> number_int64 rnd neg s1 st1 = Inr (t, st) \<and> integer_state neg n st"
proof (cases "n = 0")
  case True
  then have "number_int neg (to_string n @ t) = Inr (t, new_number)" by (simp add: to_string.simps [of 0] number_int_def)
  moreover have "number_int64 rnd neg t new_number = Inr (t, new_number)" "integer_state neg n new_number"
    using True by (simp_all add: number_int64_def new_number_def integer_state_def)
  ultimately show ?thesis by blast
next
  case False
  obtain c ds where c: "to_string n = c # ds" by (cases "to_string n") auto
  have d: "is_digit_char c" "digits ds" "c \<noteq> CHR ''0''"
    using to_string_digits [of _ n] to_string_first [of n] False c by auto
  have v: "dec_from (digit_val c) ds = n" using dec_value_to_string [of n] c by (simp add: dec_value_from)
  let ?l = "if neg then 214748364 else 429496729 :: nat" and ?f = "if neg then 8 else 5 :: nat"
    and ?l64 = "if neg then 0x0CCCCCCCCCCCCCCC else 0x1999999999999999 :: nat"
  have f: "?f \<le> 9" by auto
  have m: "10 * ?l + ?f < 2 ^ 32" "10 * ?l64 + ?f < 2 ^ 64" by auto
  have i0: "digit_val c \<le> 10 * ?l + ?f" using digit_val_le [OF d(1)] by auto
  show ?thesis
  proof (cases "n \<le> max32 neg")
    case True
    then have "int_digits (2 ^ 32) ?l ?f (ds @ t) (digit_val c) 0 = (False, t, n, 0 + length ds)"
      using int_digits_all [OF d(2) _ f m(1) t] v unfolding max32_limit by metis
    then have "number_int neg (to_string n @ t) = Inr (t, new_number\<lparr>ns_i := n, ns_i64 := 0, ns_use64bit := False, ns_significandDigit := length ds\<rparr>)"
      using d c by (simp add: number_int_def)
    then show ?thesis using True by (simp add: number_int64_def integer_state_def new_number_def)
  next
    case False
    then obtain as bs where s: "ds = as @ bs" "dec_from (digit_val c) as \<le> 10 * ?l + ?f"
      "int_digits (2 ^ 32) ?l ?f (ds @ t) (digit_val c) 0 = (True, bs @ t, dec_from (digit_val c) as, 0 + length as)"
      using int_digits_stops [OF d(2) i0 _ f m(1), where t = t and n = 0] v unfolding max32_limit by auto
    let ?st = "new_number\<lparr>ns_i := dec_from (digit_val c) as, ns_i64 := dec_from (digit_val c) as, ns_use64bit := True, ns_significandDigit := length as\<rparr>"
    have 1: "number_int neg (to_string n @ t) = Inr (bs @ t, ?st)"
      using d c s(3) by (simp add: number_int_def)
    have b: "digits bs" "dec_from (dec_from (digit_val c) as) bs = n" using d(2) v s(1) by auto
    have "int_digits (2 ^ 64) ?l64 ?f (bs @ t) (dec_from (digit_val c) as) (length as) = (False, t, n, length as + length bs)"
      using int_digits_all [OF b(1) _ f m(2) t] b(2) assms(1) unfolding max64_limit by metis
    then have "number_int64 rnd neg (bs @ t) ?st = Inr (t, ?st\<lparr>ns_i64 := n, ns_significandDigit := length as + length bs, ns_d := 0, ns_useDouble := False\<rparr>)"
      by (simp add: number_int64_def new_number_def)
    with 1 False show ?thesis by (simp add: integer_state_def new_number_def)
  qed
qed

text \<open>The event of an integer.\<close>

definition int_event :: "int \<Rightarrow> sax_event" where
  "int_event i =
     (if i < 0 then (if - (2 ^ 31) \<le> i then Ev_Int i else Ev_Int64 i)
      else (if i < 2 ^ 32 then Ev_Uint (nat i) else Ev_Uint64 (nat i)))"

lemma negated_id: "0 < n \<Longrightarrow> n \<le> 2 ^ (w - 1) \<Longrightarrow> 0 < w \<Longrightarrow> negated w n = - int n"
proof -
  assume n: "0 < n" "n \<le> 2 ^ (w - 1)" "0 < w"
  have w: "(2 :: nat) ^ w = 2 * 2 ^ (w - 1)" "(2 :: int) ^ w = 2 * 2 ^ (w - 1)" using n(3) by (simp_all flip: power_Suc)
  then have "2 ^ w - 1 - n + 1 = 2 ^ w - n" "2 ^ w - n < 2 ^ w" "\<not> 2 ^ w - n < 2 ^ (w - 1)" using n by auto
  then show ?thesis using w n by (simp add: negated_def Let_def of_nat_diff)
qed

lemma phases_integer:
  assumes "n \<le> max64 neg"
  shows "\<exists>st. (\<forall>off. number_phases rnd neg off (to_string n) = Inr ([], st)) \<and> integer_state neg n st"
proof -
  obtain s1 st1 st where "number_int neg (to_string n) = Inr (s1, st1)" "number_int64 rnd neg s1 st1 = Inr ([], st)" "integer_state neg n st"
    using integer_phases [OF assms, of "[]" rnd] by auto
  then show ?thesis by (simp add: number_phases_def number_big_def number_frac_def number_exp_def integer_state_def)
qed

lemma read_int:
  assumes "- (2 ^ 63) \<le> i" and "i < 2 ^ 64"
  shows "read_number rnd (int_text i) = Inr ([], int_event i)"
proof (cases "i < 0")
  case True
  let ?n = "nat (- i)"
  have n: "?n \<le> max64 True" using True assms by (simp add: max64_def nat_le_iff)
  obtain st where st: "\<And>off. number_phases rnd True off (to_string ?n) = Inr ([], st)" "integer_state True ?n st"
    using phases_integer [OF n, of rnd] by blast
  have "number_event rnd True st = Inr (int_event i)"
    using st(2) True assms negated_id [of ?n 32] negated_id [of ?n 64]
    by (auto simp: number_event_def integer_state_def int_event_def max32_def split: if_splits)
  then show ?thesis using True st(1) by (simp add: read_number_def int_text_def Consume_def)
next
  case False
  let ?n = "nat i"
  have n: "?n \<le> max64 False" using False assms by (simp add: max64_def nat_le_iff)
  obtain st where st: "\<And>off. number_phases rnd False off (to_string ?n) = Inr ([], st)" "integer_state False ?n st"
    using phases_integer [OF n, of rnd] by blast
  have "number_event rnd False st = Inr (int_event i)"
    using st(2) False assms by (auto simp: number_event_def integer_state_def int_event_def max32_def split: if_splits)
  moreover have "peek (to_string ?n) \<noteq> CHR ''-''"
    using to_string_digits [of "peek (to_string ?n)" ?n] by (cases "to_string ?n") (auto simp: is_digit_char_def char_int_def)
  ultimately show ?thesis using False st(1) by (simp add: read_number_def int_text_def Consume_def)
qed

section \<open>Decimal fractions\<close>

lemma frac_int_all:
  assumes "digits ds" and "dec_from i ds < 2 ^ 53"
  shows "\<exists>n'. frac_int ds i e n = ([], dec_from i ds, e - int (length ds), n')"
  using assms
proof (induction ds arbitrary: i e n)
  case (Cons c ds)
  have "10 * i + digit_val c < 2 ^ 53" using dec_from_ge [of "10 * i + digit_val c" ds] Cons.prems(2) by simp
  then have "i \<le> 0x1FFFFFFFFFFFFF" "(i * 10 + digit_val c) mod 2 ^ 64 = 10 * i + digit_val c" by auto
  moreover obtain n' where "frac_int ds (10 * i + digit_val c) (e - 1) (if 10 * i + digit_val c \<noteq> 0 then Suc n else n) =
      ([], dec_from (10 * i + digit_val c) ds, (e - 1) - int (length ds), n')"
    using Cons.IH Cons.prems by (metis dec_from_simps(2) list.set_intros(2))
  ultimately show ?case using Cons.prems(1) by (simp add: Let_def)
qed simp

lemma read_decimal:
  assumes "digits ds" and "ds \<noteq> []" and "length ds \<le> 308" and "dec_from a ds < 2 ^ 53"
  shows "read_number rnd (to_string a @ CHR ''.'' # ds) =
    Inr ([], Ev_Double (rnd (rnd (of_nat (dec_from a ds)) / rnd (10 ^ length ds))))"
proof -
  have a: "a \<le> max64 False" using dec_from_ge [of a ds] assms(4) by (simp add: max64_def)
  obtain s1 st1 st where 1: "number_int False (to_string a @ CHR ''.'' # ds) = Inr (s1, st1)"
    "number_int64 rnd False s1 st1 = Inr (CHR ''.'' # ds, st)" "integer_state False a st"
    using integer_phases [OF a, of "CHR ''.'' # ds" rnd] by auto
  then have st: "(if ns_use64bit st then ns_i64 st else ns_i st) = a" "\<not> ns_useDouble st" "ns_expFrac st = 0" "ns_exp st = 0"
    by (auto simp: integer_state_def split: if_splits)
  obtain n' where f: "frac_int ds a 0 (ns_significandDigit st) = ([], dec_from a ds, - int (length ds), n')"
    using frac_int_all [OF assms(1,4), where e = 0 and n = "ns_significandDigit st"] by auto
  have "is_digit_char (peek ds)" using assms(1,2) by (cases ds) auto
  then have 2: "number_frac rnd (CHR ''.'' # ds) st =
      Inr ([], st\<lparr>ns_d := rnd (of_nat (dec_from a ds)), ns_useDouble := True, ns_expFrac := - int (length ds)\<rparr>)" (is "_ = Inr ([], ?st)")
    using f st by (simp add: number_frac_def)
  have 3: "number_phases rnd False off (to_string a @ CHR ''.'' # ds) = Inr ([], ?st)" for off
    using 1 2 st(2) by (simp add: number_phases_def number_big_def number_exp_def)
  have "ds = [] \<longleftrightarrow> length ds = 0" by simp
  then have "number_event rnd False ?st = Inr (Ev_Double (rnd (rnd (of_nat (dec_from a ds)) / rnd (10 ^ length ds))))"
    using st(4) assms(2,3) by (simp add: number_event_def StrtodNormalPrecision_def FastPath_def Pow10_def int32_def)
  moreover have "peek (to_string a @ t) \<noteq> CHR ''-''" for t
    using to_string_digits [of "peek (to_string a)" a] by (cases "to_string a") (auto simp: is_digit_char_def char_int_def)
  ultimately show ?thesis using 3 by (simp add: read_number_def Consume_def)
qed

section \<open>Rounding\<close>

text \<open>Numbers of 53 bits with up to 1074 of them after the point are doubles, so they are not rounded.\<close>

definition exact_double :: "rat \<Rightarrow> bool" where
  "exact_double x \<longleftrightarrow> (\<exists>m k. x = of_int m / 2 ^ k \<and> \<bar>m\<bar> \<le> 2 ^ 53 \<and> k \<le> 1074)"

lemma exact_nat: "n \<le> 2 ^ 53 \<Longrightarrow> exact_double (of_nat n)"
  unfolding exact_double_def by (rule exI [of _ "int n"], rule exI [of _ 0]) simp

locale rounding =
  fixes rnd :: rounding
  assumes exact: "exact_double x \<Longrightarrow> rnd x = x"
begin

lemma exact_power_ten: "k \<le> 15 \<Longrightarrow> rnd (10 ^ k) = 10 ^ k"
proof -
  assume "k \<le> 15"
  then have "(10 :: nat) ^ k \<le> 10 ^ 15" by (rule power_increasing) simp
  then have "(10 :: nat) ^ k \<le> 2 ^ 53" by simp
  from exact [OF exact_nat [OF this]] show ?thesis by simp
qed

text \<open>A fraction of few digits is read as the double nearest to it.\<close>

lemma read_fraction:
  assumes "digits ds" and "ds \<noteq> []" and "length ds \<le> 15" and "dec_from a ds < 2 ^ 53"
  shows "read_number rnd (to_string a @ CHR ''.'' # ds) = Inr ([], Ev_Double (rnd (of_nat (dec_from a ds) / 10 ^ length ds)))"
  using read_decimal [OF assms(1,2) _ assms(4), of rnd] exact [OF exact_nat, of "dec_from a ds"] exact_power_ten [OF assms(3)] assms(3,4)
  by simp

end

text \<open>Scaling brings a number to 53 bits before the point, or to at most 1074 bits after it.\<close>

definition scale_of :: "rat \<Rightarrow> int" where
  "scale_of x =
     (case quotient_of x of
        (a, b) \<Rightarrow>
          let s = 53 - (bitlen \<bar>a\<bar> - bitlen b)
          in if \<bar>x\<bar> * 2 powi s \<ge> 2 ^ 53 then s - 1 else s)"

definition round_even :: "rat \<Rightarrow> int" where
  "round_even x =
     (let n = \<lfloor>x\<rfloor>; f = x - of_int n
      in if f < 1 / 2 \<or> (f = 1 / 2 \<and> even n) then n else n + 1)"

definition round_double :: rounding where
  "round_double x =
     (if x = 0 then 0 else let s = min (scale_of x) 1074 in of_int (round_even (x * 2 powi s)) * 2 powi (- s))"

lemma scale_of_bound: "x \<noteq> 0 \<Longrightarrow> 2 ^ 52 \<le> \<bar>x\<bar> * 2 powi scale_of x"
proof -
  assume "x \<noteq> 0"
  obtain a b where q: "quotient_of x = (a, b)" by (cases "quotient_of x")
  have h: "2 ^ 52 \<le> y \<Longrightarrow> 2 ^ 52 \<le> (if 2 ^ 53 \<le> y then y / 2 else y)" for y :: rat by auto
  have half: "(2 :: rat) powi (z - 1) = 2 powi z / 2" for z by (simp add: power_int_diff)
  have b: "0 < b" and x: "x = of_int a / of_int b" using q quotient_of_denom_pos quotient_of_div by auto
  then have a: "0 < \<bar>a\<bar>" using \<open>x \<noteq> 0\<close> by auto
  let ?s = "53 - (bitlen \<bar>a\<bar> - bitlen b)"
  have 1: "2 ^ nat (bitlen \<bar>a\<bar> - 1) \<le> \<bar>a\<bar>" using bitlen_bounds [OF a] by simp
  have 2: "b < 2 ^ nat (bitlen b)" using bitlen_bounds [OF b] by simp
  have "y < 2 ^ nat (bitlen y) \<Longrightarrow> 0 < y \<Longrightarrow> 0 < bitlen y" for y :: int by (cases "bitlen y \<le> 0") auto
  then have "0 < bitlen \<bar>a\<bar>" "0 < bitlen b" using bitlen_bounds [OF a] 2 a b by blast+
  then have p: "(2 :: rat) powi (bitlen \<bar>a\<bar> - 1) = 2 ^ nat (bitlen \<bar>a\<bar> - 1)" "(2 :: rat) powi bitlen b = 2 ^ nat (bitlen b)"
    by (simp_all add: power_int_def)
  have "(2 :: rat) ^ nat (bitlen \<bar>a\<bar> - 1) \<le> of_int \<bar>a\<bar>" using 1 by (metis of_int_le_iff of_int_numeral of_int_power)
  moreover have "of_int b \<le> (2 :: rat) ^ nat (bitlen b)" using 2 by (metis less_imp_le of_int_le_iff of_int_numeral of_int_power)
  ultimately have "2 powi (bitlen \<bar>a\<bar> - 1) / 2 powi bitlen b \<le> \<bar>x\<bar>"
    unfolding p x using b by (simp add: abs_divide frac_le)
  then have "2 powi (bitlen \<bar>a\<bar> - 1) / 2 powi bitlen b * 2 powi ?s \<le> \<bar>x\<bar> * 2 powi ?s"
    by (rule mult_right_mono) simp
  moreover have "(2 :: rat) powi (bitlen \<bar>a\<bar> - 1) / 2 powi bitlen b * 2 powi ?s = 2 powi (bitlen \<bar>a\<bar> - 1 - bitlen b + ?s)"
    by (simp add: power_int_add power_int_diff)
  ultimately have "2 ^ 52 \<le> \<bar>x\<bar> * 2 powi ?s" by simp
  then have "2 ^ 52 \<le> \<bar>x\<bar> * 2 powi (if 2 ^ 53 \<le> \<bar>x\<bar> * 2 powi z then z - 1 else z)" if "z = ?s" for z
    unfolding that [symmetric] half times_divide_eq_right if_distrib [of "\<lambda>y. \<bar>x\<bar> * 2 powi y"]
    by (rule h)
  then show ?thesis by (simp add: scale_of_def q Let_def)
qed

lemma round_even_int: "round_even (of_int n) = n"
  by (simp add: round_even_def)

interpretation double_precision: rounding round_double
proof
  fix x assume "exact_double x"
  then obtain m k where x: "x = of_int m / 2 ^ k" "\<bar>m\<bar> \<le> 2 ^ 53" "k \<le> 1074" by (auto simp: exact_double_def)
  define s where "s = min (scale_of x) 1074"
  show "round_double x = x"
  proof (cases "x = 0")
    case False
    have xs: "x * 2 powi s = of_int m * 2 powi (s - int k)"
      by (simp add: x(1) power_int_diff)
    have "\<exists>n. x * 2 powi s = of_int n"
    proof (cases "int k \<le> s")
      case True
      then have "x * 2 powi s = of_int (m * 2 ^ nat (s - int k))" unfolding xs using True by (simp add: power_int_def)
      then show ?thesis by blast
    next
      case False
      then have "s = scale_of x" using x(3) by (simp add: s_def)
      then have b: "2 ^ 52 \<le> \<bar>of_int m :: rat\<bar> * 2 powi (s - int k)"
        using scale_of_bound [OF \<open>x \<noteq> 0\<close>] xs by (metis abs_mult abs_of_pos zero_less_numeral zero_less_power_int)
      define j where "j = nat (int k - s)"
      have j: "s - int k = - int j" "1 \<le> j" using False by (auto simp: j_def)
      have m: "\<bar>of_int m :: rat\<bar> \<le> 2 ^ 53" using x(2) by (metis of_int_abs of_int_le_iff of_int_numeral of_int_power)
      have p: "(2 :: rat) powi (s - int k) = 1 / 2 ^ j" by (simp add: j(1) power_int_minus divide_inverse)
      have "2 ^ 52 * 2 ^ j \<le> \<bar>of_int m :: rat\<bar>" using b by (simp add: p field_simps)
      with m have "(2 :: rat) ^ (52 + j) \<le> 2 ^ 53" by (simp add: power_add)
      then have "52 + j \<le> 53" by (rule power_le_imp_le_exp [rotated]) simp
      with j have "j = 1" by simp
      with \<open>2 ^ 52 * 2 ^ j \<le> \<bar>of_int m :: rat\<bar>\<close> m have "\<bar>of_int m :: rat\<bar> = 2 ^ 53" by simp
      then have "\<bar>m\<bar> = 2 ^ 53" by (metis of_int_abs of_int_eq_iff of_int_numeral of_int_power)
      then have "m = 2 * 2 ^ 52 \<or> m = 2 * - (2 ^ 52)" by auto
      then obtain n where "m = 2 * n" by blast
      then have "x * 2 powi s = of_int n" unfolding xs p \<open>j = 1\<close> by simp
      then show ?thesis by blast
    qed
    then obtain n where n: "x * 2 powi s = of_int n" by blast
    have "round_double x = x * 2 powi s * 2 powi (- s)"
      using False n by (simp add: round_double_def Let_def round_even_int flip: s_def)
    then show ?thesis by (simp add: power_int_minus)
  qed (simp add: round_double_def)
qed

end
