(* ===== verification/Rapid_Denotation.thy ===== *)
theory Rapid_Denotation
  imports Rapid_Numbers
begin

text \<open>
  What a JSON text means, independently of the reader: the grammar of numbers, the integer that a number of digits stands
  for, and for a decimal of up to 53 significant bits the product or quotient of its digits and a power of ten, each rounded. The
  lemmas relate these meanings to the phases of the reader of \<^verbatim>\<open>rapidjson/reader.h\<close>: whatever the reader accepts is
  in the grammar and has its meaning, and the numbers of ordinary size are accepted.
\<close>

section \<open>The grammar of numbers\<close>

text \<open>A number is a sign, the digits before and after the point, and an exponent: its letter, its sign and its digits.\<close>

type_synonym exponent = "(char \<times> string \<times> string) option"

definition exponent_text :: "exponent \<Rightarrow> string" where
  "exponent_text x = (case x of None \<Rightarrow> [] | Some (c, sg, ds) \<Rightarrow> c # sg @ ds)"

definition fraction_text :: "string \<Rightarrow> string" where
  "fraction_text fp = (if fp = [] then [] else CHR ''.'' # fp)"

definition number_text :: "bool \<Rightarrow> string \<Rightarrow> string \<Rightarrow> exponent \<Rightarrow> string" where
  "number_text neg ip fp x = (if neg then ''-'' else []) @ ip @ fraction_text fp @ exponent_text x"

definition integer_part :: "string \<Rightarrow> bool" where
  "integer_part ip \<longleftrightarrow> ip \<noteq> [] \<and> digits ip \<and> (hd ip = CHR ''0'' \<longrightarrow> ip = ''0'')"

definition exponent_part :: "exponent \<Rightarrow> bool" where
  "exponent_part x \<longleftrightarrow> (case x of None \<Rightarrow> True
     | Some (c, sg, ds) \<Rightarrow> c \<in> {CHR ''e'', CHR ''E''} \<and> sg \<in> {[], ''+'', ''-''} \<and> ds \<noteq> [] \<and> digits ds)"

definition number_parts :: "string \<Rightarrow> string \<Rightarrow> exponent \<Rightarrow> bool" where
  "number_parts ip fp x \<longleftrightarrow> integer_part ip \<and> digits fp \<and> exponent_part x"

section \<open>The meaning of numbers\<close>

definition exponent_value :: "exponent \<Rightarrow> int" where
  "exponent_value x =
     (case x of None \<Rightarrow> 0 | Some (c, sg, ds) \<Rightarrow> if sg = ''-'' then - int (dec_from 0 ds) else int (dec_from 0 ds))"

text \<open>The value of \<open>m * 10 ^ e\<close>, with one rounded operation, or two where the power is too small to be a double.\<close>

definition scaled :: "rounding \<Rightarrow> nat \<Rightarrow> int \<Rightarrow> double" where
  "scaled rnd m e =
     (let d = rnd (of_nat m)
      in if 0 \<le> e then rnd (d * rnd (10 ^ nat e))
         else if - 308 \<le> e then rnd (d / rnd (10 ^ nat (- e)))
         else if - 616 \<le> e then rnd (rnd (d / rnd (10 ^ 308)) / rnd (10 ^ nat (- e - 308)))
         else 0)"

definition integer_event :: "bool \<Rightarrow> nat \<Rightarrow> sax_event" where
  "integer_event neg n =
     (if neg then (if n \<le> 2 ^ 31 then Ev_Int (- int n) else Ev_Int64 (- int n))
      else (if n < 2 ^ 32 then Ev_Uint n else Ev_Uint64 n))"

text \<open>Numbers of ordinary size: few digits in all, and an exponent and a fraction that are far from overflowing.\<close>

definition moderate :: "string \<Rightarrow> string \<Rightarrow> exponent \<Rightarrow> bool" where
  "moderate ip fp x \<longleftrightarrow> dec_from 0 (ip @ fp) < 2 ^ 53 \<and> \<bar>exponent_value x\<bar> < 214748364 \<and> length fp < 2 ^ 30"

inductive number_means :: "rounding \<Rightarrow> string \<Rightarrow> sax_event \<Rightarrow> bool" for rnd where
  means_integer: "number_parts ip [] None \<Longrightarrow> dec_from 0 ip \<le> max64 neg \<Longrightarrow>
    number_means rnd (number_text neg ip [] None) (integer_event neg (dec_from 0 ip))"
| means_double: "number_parts ip fp x \<Longrightarrow> fp \<noteq> [] \<or> x \<noteq> None \<or> max64 neg < dec_from 0 ip \<Longrightarrow>
    moderate ip fp x \<longrightarrow> d = scaled rnd (dec_from 0 (ip @ fp)) (exponent_value x - int (length fp)) \<Longrightarrow>
    number_means rnd (number_text neg ip fp x) (Ev_Double (if neg then - d else d))"

definition ordinary_number :: "string \<Rightarrow> bool" where
  "ordinary_number p \<longleftrightarrow> (\<exists>neg ip fp x. p = number_text neg ip fp x \<and> number_parts ip fp x \<and>
     (fp = [] \<and> x = None \<and> dec_from 0 ip \<le> max64 neg \<or>
      moderate ip fp x \<and> exponent_value x - int (length fp) \<le> 308))"

section \<open>What is accepted is a number\<close>

lemma int_digits_consumes: "int_digits m l f s i n = (b, t, i', n') \<Longrightarrow> \<exists>ds. s = ds @ t \<and> digits ds"
proof (induction m l f s i n rule: int_digits.induct)
  case (2 m l f c s i n)
  show ?case
  proof (cases "is_digit_char c \<and> \<not> (i \<ge> l \<and> (i \<noteq> l \<or> digit_val c > f))")
    case True
    then obtain ds where "s = ds @ t" "digits ds" using 2 by auto
    with True show ?thesis by (intro exI [of _ "c # ds"]) simp
  next
    case False
    with 2 show ?thesis by (intro exI [of _ "[]"]) (auto split: if_splits)
  qed
qed simp

lemma number_int_consumes: "number_int neg s = Inr (t, st) \<Longrightarrow>
  \<exists>c ds. s = c # ds @ t \<and> digits (c # ds) \<and> (c = CHR ''0'' \<longrightarrow> ds = [] \<and> st = new_number)"
proof -
  assume a: "number_int neg s = Inr (t, st)"
  then have d: "is_digit_char (peek s)" by (auto simp: number_int_def split: if_splits)
  have s: "s = peek s # tl s" by (rule peek_digit [OF d])
  show ?thesis
  proof (cases "peek s = CHR ''0''")
    case True
    then show ?thesis using a s by (intro exI [of _ "CHR ''0''"] exI [of _ "[]"]) (auto simp: number_int_def)
  next
    case False
    obtain b t' i' n' where i: "int_digits (2 ^ 32) (if neg then 214748364 else 429496729) (if neg then 8 else 5) (tl s) (digit_val (peek s)) 0 =
      (b, t', i', n')" using prod_cases4 by blast
    then have "t = t'" using a d False by (simp add: number_int_def)
    with int_digits_consumes [OF i] obtain ds where "tl s = ds @ t" "digits ds" by blast
    with s d False show ?thesis by (intro exI [of _ "peek s"] exI [of _ ds]) auto
  qed
qed

lemma number_int64_consumes: "number_int64 rnd neg s st = Inr (t, st') \<Longrightarrow>
  \<exists>ds. s = ds @ t \<and> digits ds \<and> (\<not> ns_use64bit st \<longrightarrow> ds = [] \<and> st' = st)"
  by (cases "ns_use64bit st") (auto simp: number_int64_def split: prod.splits dest: int_digits_consumes)

lemma big_digits_consumes: "big_digits rnd off s d = Inr (t, d') \<Longrightarrow> \<exists>ds. s = ds @ t \<and> digits ds"
proof (induction rnd off s d rule: big_digits.induct)
  case (2 rnd off c s d)
  show ?case
  proof (cases "is_digit_char c")
    case True
    with 2 obtain ds where "s = ds @ t" "digits ds" by (auto split: if_splits)
    with True show ?thesis by (intro exI [of _ "c # ds"]) simp
  qed (use 2 in auto)
qed simp

lemma number_big_consumes: "number_big rnd off s st = Inr (t, st') \<Longrightarrow>
  \<exists>ds. s = ds @ t \<and> digits ds \<and> (\<not> ns_useDouble st \<longrightarrow> ds = [] \<and> st' = st) \<and> ns_useDouble st' = ns_useDouble st"
  by (cases "ns_useDouble st") (auto simp: number_big_def proceed_Inr dest: big_digits_consumes)

lemma frac_int_consumes: "frac_int s i e n = (t, r) \<Longrightarrow> \<exists>ds. s = ds @ t \<and> digits ds"
proof (induction s i e n rule: frac_int.induct)
  case (2 c s i e n)
  show ?case
  proof (cases "is_digit_char c \<and> i \<le> 0x1FFFFFFFFFFFFF")
    case True
    with 2 obtain ds where "s = ds @ t" "digits ds" by (auto simp: Let_def)
    with True show ?thesis by (intro exI [of _ "c # ds"]) simp
  qed (use 2 in auto)
qed simp

lemma frac_double_consumes: "frac_double rnd s d e n = (t, r) \<Longrightarrow> \<exists>ds. s = ds @ t \<and> digits ds"
proof (induction rnd s d e n rule: frac_double.induct)
  case (2 rnd c s d e n)
  show ?case
  proof (cases "is_digit_char c")
    case True
    with 2 obtain ds where "s = ds @ t" "digits ds" by (auto simp: Let_def split: if_splits)
    with True show ?thesis by (intro exI [of _ "c # ds"]) simp
  qed (use 2 in auto)
qed simp

lemma number_frac_consumes: "number_frac rnd s st = Inr (t, st') \<Longrightarrow>
  \<exists>fp. s = fraction_text fp @ t \<and> digits fp \<and> (fp = [] \<longrightarrow> st' = st) \<and> (fp \<noteq> [] \<longrightarrow> ns_useDouble st') \<and>
    (ns_useDouble st \<longrightarrow> ns_useDouble st')"
proof (cases "peek s = CHR ''.''")
  case True
  assume a: "number_frac rnd s st = Inr (t, st')"
  have s: "s = CHR ''.'' # tl s" using peek_Cons [OF True] by simp
  have d: "is_digit_char (peek (tl s))" using a True by (auto simp: number_frac_def split: if_splits)
  obtain s1 d1 e1 n1 where 1: "(if ns_useDouble st then (tl s, ns_d st, ns_expFrac st, ns_significandDigit st)
      else (case frac_int (tl s) (if ns_use64bit st then ns_i64 st else ns_i st) (ns_expFrac st) (ns_significandDigit st) of
              (s', i64, expFrac, n) \<Rightarrow> (s', rnd (of_nat i64), expFrac, n))) = (s1, d1, e1, n1)" using prod_cases4 by blast
  obtain d2 e2 where 2: "frac_double rnd s1 d1 e1 n1 = (t, d2, e2)" and st': "st' = st\<lparr>ns_d := d2, ns_useDouble := True, ns_expFrac := e2\<rparr>"
    using a d unfolding number_frac_def if_P [OF True] 1 by (auto split: prod.splits if_splits)
  obtain as where as: "tl s = as @ s1" "digits as"
    using 1 by (cases "ns_useDouble st") (auto split: prod.splits dest: frac_int_consumes)
  obtain bs where bs: "s1 = bs @ t" "digits bs" using frac_double_consumes [OF 2] by blast
  have "as @ bs \<noteq> []"
  proof
    assume e: "as @ bs = []"
    then have "s1 = tl s" "t = tl s" using as bs by simp_all
    obtain c r where c: "tl s = c # r" "is_digit_char c" using peek_digit [OF d] d by (cases "tl s") auto
    have "length t < length (c # r)" if "frac_double rnd (c # r) d e n = (t, x)" "is_digit_char c" for d e n x
    proof -
      have "\<exists>d' e' n'. frac_double rnd r d' e' n' = (t, x)" using that by (cases "n < 17") (simp_all add: Let_def, blast+)
      then show ?thesis using frac_double_consumes [of rnd r] by fastforce
    qed
    from this [of d1 e1 n1 "(d2, e2)"] show False using 2 c \<open>s1 = tl s\<close> \<open>t = tl s\<close> by simp
  qed
  with s as bs st' show ?thesis by (intro exI [of _ "as @ bs"]) (auto simp: fraction_text_def)
next
  case False
  assume "number_frac rnd s st = Inr (t, st')"
  with False show ?thesis by (intro exI [of _ "[]"]) (simp add: number_frac_def fraction_text_def)
qed

lemma exp_minus_consumes: "exp_minus s e = (t, e') \<Longrightarrow> \<exists>ds. s = ds @ t \<and> digits ds"
proof (induction s e rule: exp_minus.induct)
  case (2 c s e)
  show ?case
  proof (cases "is_digit_char c")
    case True
    have "\<exists>ds. s = ds @ t \<and> digits ds"
    proof (cases "e * 10 + int (digit_val c) \<ge> 214748364")
      case True
      then have "t = dropWhile is_digit_char s" using 2 \<open>is_digit_char c\<close> by simp
      then show ?thesis by (intro exI [of _ "takeWhile is_digit_char s"]) (auto dest: set_takeWhileD)
    qed (use 2 \<open>is_digit_char c\<close> in simp)
    then obtain ds where "s = ds @ t" "digits ds" by blast
    with True show ?thesis by (intro exI [of _ "c # ds"]) simp
  qed (use 2 in auto)
qed simp

lemma exp_plus_consumes: "exp_plus off mx s e = Inr (t, e') \<Longrightarrow> \<exists>ds. s = ds @ t \<and> digits ds"
proof (induction off mx s e rule: exp_plus.induct)
  case (2 off mx c s e)
  show ?case
  proof (cases "is_digit_char c")
    case True
    with 2 obtain ds where "s = ds @ t" "digits ds" by (auto simp: Let_def split: if_splits)
    with True show ?thesis by (intro exI [of _ "c # ds"]) simp
  qed (use 2 in auto)
qed simp

lemma number_exp_consumes: "number_exp rnd off s st = Inr (t, st') \<Longrightarrow>
  \<exists>x. s = exponent_text x @ t \<and> exponent_part x \<and> (x = None \<longrightarrow> st' = st) \<and> (x \<noteq> None \<longrightarrow> ns_useDouble st') \<and>
    (ns_useDouble st \<longrightarrow> ns_useDouble st')"
proof (cases "peek s = CHR ''e'' \<or> peek s = CHR ''E''")
  case True
  assume a: "number_exp rnd off s st = Inr (t, st')"
  have s: "s = peek s # tl s" using True peek_Cons [of s "peek s"] by auto
  obtain m s1 where m: "exp_sign (tl s) = (m, s1)" by (cases "exp_sign (tl s)")
  have sg: "\<exists>sg \<in> {[], ''+'', ''-''}. tl s = sg @ s1"
    using m peek_Cons [of "tl s"] by (auto simp: exp_sign_def split: if_splits)
  have d: "is_digit_char (peek s1)" using a True m by (auto simp: number_exp_def Let_def split: if_splits)
  have s1: "s1 = peek s1 # tl s1" by (rule peek_digit [OF d])
  have u: "ns_useDouble st'" and ds: "\<exists>ds. tl s1 = ds @ t \<and> digits ds"
    using a True m d by (auto simp: number_exp_def Let_def proceed_Inr split: if_splits prod.splits dest: exp_minus_consumes exp_plus_consumes)
  obtain sg where sg: "sg \<in> {[], ''+'', ''-''}" "tl s = sg @ s1" using sg by blast
  obtain ds where ds: "tl s1 = ds @ t" "digits ds" using ds by blast
  have "s = peek s # sg @ peek s1 # ds @ t" using s s1 sg(2) ds(1) by simp
  with True sg(1) ds(2) d u show ?thesis
    by (intro exI [of _ "Some (peek s, sg, peek s1 # ds)"]) (simp add: exponent_text_def exponent_part_def)
next
  case False
  assume "number_exp rnd off s st = Inr (t, st')"
  with False show ?thesis by (intro exI [of _ None]) (simp add: number_exp_def exponent_text_def exponent_part_def)
qed

text \<open>The phases of an accepted number, with the parts they consume.\<close>

lemma phases_parts:
  assumes "number_phases rnd neg off s = Inr (t, st)"
  obtains ip fp x where "s = ip @ fraction_text fp @ exponent_text x @ t" and "number_parts ip fp x"
    and "fp \<noteq> [] \<or> x \<noteq> None \<longrightarrow> ns_useDouble st"
proof -
  obtain s1 st1 s2 st2 s3 st3 s4 st4 where p: "number_int neg s = Inr (s1, st1)" "number_int64 rnd neg s1 st1 = Inr (s2, st2)"
    "number_big rnd off s2 st2 = Inr (s3, st3)" "number_frac rnd s3 st3 = Inr (s4, st4)" "number_exp rnd off s4 st4 = Inr (t, st)"
    using assms by (auto simp: number_phases_def proceed_Inr)
  obtain c ds1 where 1: "s = c # ds1 @ s1" "digits (c # ds1)" "c = CHR ''0'' \<longrightarrow> ds1 = [] \<and> st1 = new_number"
    using number_int_consumes [OF p(1)] by blast
  obtain ds2 where 2: "s1 = ds2 @ s2" "digits ds2" "\<not> ns_use64bit st1 \<longrightarrow> ds2 = [] \<and> st2 = st1"
    using number_int64_consumes [OF p(2)] by blast
  obtain ds3 where 3: "s2 = ds3 @ s3" "digits ds3" "\<not> ns_useDouble st2 \<longrightarrow> ds3 = []" using number_big_consumes [OF p(3)] by blast
  obtain fp where 4: "s3 = fraction_text fp @ s4" "digits fp" "fp \<noteq> [] \<longrightarrow> ns_useDouble st4" using number_frac_consumes [OF p(4)] by blast
  obtain x where 5: "s4 = exponent_text x @ t" "exponent_part x" "x \<noteq> None \<longrightarrow> ns_useDouble st" "ns_useDouble st4 \<longrightarrow> ns_useDouble st"
    using number_exp_consumes [OF p(5)] by blast
  let ?ip = "c # ds1 @ ds2 @ ds3"
  have "integer_part ?ip" using 1(2,3) 2(2,3) 3(2,3) by (auto simp: integer_part_def new_number_def)
  with 4(2) 5(2) have "number_parts ?ip fp x" by (simp add: number_parts_def)
  moreover have "s = ?ip @ fraction_text fp @ exponent_text x @ t" using 1(1) 2(1) 3(1) 4(1) 5(1) by simp
  ultimately show ?thesis using that 4(3) 5(3,4) by blast
qed

section \<open>The value of what is read\<close>

lemma to_string_push: "0 < a \<Longrightarrow> d < 10 \<Longrightarrow> to_string (10 * a + d) = to_string a @ [digit_char d]"
  by (subst to_string.simps) simp

lemma digit_char_val: "is_digit_char c \<Longrightarrow> digit_char (digit_val c) = c"
proof -
  assume "is_digit_char c"
  then have "char_int (digit_char (digit_val c)) = char_int c"
    using digit_val_le [of c] by (simp add: char_int_digit_char) (simp add: digit_val_def is_digit_char_def)
  then show ?thesis by (simp only: char_int_inject)
qed

lemma digit_val_pos: "is_digit_char c \<Longrightarrow> c \<noteq> CHR ''0'' \<Longrightarrow> 0 < digit_val c"
  using digit_char_val [of c] by (cases "digit_val c = 0") auto

lemma to_string_digits_of:
  assumes "integer_part ip"
  shows "to_string (dec_from 0 ip) = ip"
  using assms
proof (induction ip rule: rev_induct)
  case (snoc c as)
  have c: "is_digit_char c" "digit_val c < 10" using snoc.prems digit_val_le [of c] by (auto simp: integer_part_def)
  show ?case
  proof (cases as)
    case Nil
    then show ?thesis using c digit_char_val by (simp add: to_string.simps)
  next
    case (Cons d ds)
    then have as: "integer_part as" "is_digit_char d" "d \<noteq> CHR ''0''" using snoc.prems by (auto simp: integer_part_def)
    have "0 < dec_from 0 as" using digit_val_pos [OF as(2,3)] dec_from_ge [of "digit_val d" ds] Cons by simp
    then show ?thesis using to_string_push [of "dec_from 0 as" "digit_val c"] c digit_char_val snoc.IH [OF as(1)] by simp
  qed
qed (simp add: integer_part_def)

lemma fraction_stop: "\<not> is_digit_char (peek t) \<Longrightarrow> \<not> is_digit_char (peek (fraction_text fp @ t))"
  by (simp add: fraction_text_def)

lemma exponent_stop: "exponent_part x \<Longrightarrow> \<not> is_digit_char (peek (exponent_text x)) \<and> peek (exponent_text x) \<noteq> CHR ''.''"
  by (auto simp: exponent_part_def exponent_text_def split: option.splits)

text \<open>Integers of 64 bits, and larger ones.\<close>

lemma integer_read:
  assumes "integer_part ip" and "dec_from 0 ip \<le> max64 neg" and "\<not> is_digit_char (peek t)"
  shows "\<exists>s1 st1 st. number_int neg (ip @ t) = Inr (s1, st1) \<and> number_int64 rnd neg s1 st1 = Inr (t, st) \<and>
    integer_state neg (dec_from 0 ip) st"
  using integer_phases [OF assms(2,3)] by (simp only: to_string_digits_of [OF assms(1)])

lemma large_integer_double:
  assumes "integer_part ip" and "max64 neg < dec_from 0 ip" and "\<not> is_digit_char (peek t)"
    and "number_int neg (ip @ t) = Inr (s1, st1)" and "number_int64 rnd neg s1 st1 = Inr (s2, st2)"
  shows "ns_useDouble st2"
proof -
  let ?l = "if neg then 214748364 else 429496729 :: nat" and ?f = "if neg then 8 else 5 :: nat"
    and ?l64 = "if neg then 0x0CCCCCCCCCCCCCCC else 0x1999999999999999 :: nat"
  obtain c ds where ip: "ip = c # ds" using assms(1) by (cases ip) (auto simp: integer_part_def)
  have d: "is_digit_char c" "digits ds" using assms(1) ip by (auto simp: integer_part_def)
  have v: "dec_from (digit_val c) ds = dec_from 0 ip" using ip by simp
  have c: "c \<noteq> CHR ''0''"
  proof
    assume "c = CHR ''0''"
    then have "ip = ''0''" using assms(1) ip by (auto simp: integer_part_def)
    then have "dec_from 0 ip = 0" by (simp add: digit_val_def char_int_def)
    then show False using assms(2) by simp
  qed
  have f: "?f \<le> 9" by auto
  have m: "10 * ?l + ?f < 2 ^ 32" "10 * ?l64 + ?f < 2 ^ 64" by auto
  have i0: "digit_val c \<le> 10 * ?l + ?f" using digit_val_le [OF d(1)] by auto
  have "max32 neg < dec_from 0 ip" using assms(2) by (simp add: max32_def max64_def split: if_splits)
  then obtain as bs where s: "ds = as @ bs" "dec_from (digit_val c) as \<le> 10 * ?l + ?f"
      "int_digits (2 ^ 32) ?l ?f (ds @ t) (digit_val c) 0 = (True, bs @ t, dec_from (digit_val c) as, 0 + length as)"
    using int_digits_stops [OF d(2) i0 _ f m(1), where t = t and n = 0] v unfolding max32_limit by auto
  then have 1: "s1 = bs @ t" "st1 = new_number\<lparr>ns_i := dec_from (digit_val c) as, ns_i64 := dec_from (digit_val c) as, ns_use64bit := True, ns_significandDigit := length as\<rparr>"
    using assms(4) d c ip by (auto simp: number_int_def)
  have b: "digits bs" "dec_from (dec_from (digit_val c) as) bs = dec_from 0 ip" using d(2) v s(1) by auto
  have i1: "dec_from (digit_val c) as \<le> 10 * ?l64 + ?f" using s(2) by (auto split: if_splits)
  obtain as' bs' where "int_digits (2 ^ 64) ?l64 ?f (bs @ t) (dec_from (digit_val c) as) (length as) = (True, bs' @ t, dec_from (dec_from (digit_val c) as) as', length as + length as')"
    using int_digits_stops [OF b(1) i1 _ f m(2), where t = t and n = "length as"] b(2) assms(2) unfolding max64_limit by auto
  then show ?thesis using assms(5) unfolding 1 by (auto simp: number_int64_def)
qed

text \<open>Fractions and exponents of ordinary size.\<close>

lemma frac_int_text:
  assumes "digits ds" and "dec_from i ds < 2 ^ 53" and "\<not> is_digit_char (peek t)"
  shows "\<exists>n'. frac_int (ds @ t) i e n = (t, dec_from i ds, e - int (length ds), n')"
  using assms(1,2)
proof (induction ds arbitrary: i e n)
  case (Cons c ds)
  have "10 * i + digit_val c < 2 ^ 53" using dec_from_ge [of "10 * i + digit_val c" ds] Cons.prems(2) by simp
  then have "i \<le> 0x1FFFFFFFFFFFFF" "(i * 10 + digit_val c) mod 2 ^ 64 = 10 * i + digit_val c" by auto
  moreover obtain n' where "frac_int (ds @ t) (10 * i + digit_val c) (e - 1) (if 10 * i + digit_val c \<noteq> 0 then Suc n else n) =
      (t, dec_from (10 * i + digit_val c) ds, (e - 1) - int (length ds), n')"
    using Cons.IH Cons.prems by (metis dec_from_simps(2) list.set_intros(2))
  ultimately show ?case using Cons.prems(1) by (simp add: Let_def)
next
  case Nil
  then show ?case using assms(3) by (cases t) simp_all
qed

lemma frac_double_stop: "\<not> is_digit_char (peek t) \<Longrightarrow> frac_double rnd t d e n = (t, d, e)"
  by (cases t) simp_all

lemma exp_minus_text:
  assumes "digits ds" and "dec_from e ds < 214748364"
  shows "exp_minus ds (int e) = ([], int (dec_from e ds))"
  using assms
proof (induction ds arbitrary: e)
  case (Cons c ds)
  have "10 * e + digit_val c < 214748364" using dec_from_ge [of "10 * e + digit_val c" ds] Cons.prems(2) by simp
  then show ?case using Cons.IH [of "10 * e + digit_val c"] Cons.prems by (simp add: Let_def mult.commute)
qed simp

lemma exp_plus_text:
  assumes "digits ds" and "0 \<le> mx" and "int e \<le> mx"
  shows "exp_plus off mx ds (int e) =
    (if int (dec_from e ds) \<le> mx then Inr ([], int (dec_from e ds)) else Inl (Parse_error kParseErrorNumberTooBig off))"
  using assms(1,3)
proof (induction ds arbitrary: e)
  case (Cons c ds)
  have e: "int e * 10 + int (digit_val c) = int (10 * e + digit_val c)" by simp
  show ?case
  proof (cases "int (10 * e + digit_val c) \<le> mx")
    case True
    then show ?thesis using Cons.IH [OF _ True] Cons.prems(1) by (simp add: Let_def e)
  next
    case False
    then have "\<not> int (dec_from e (c # ds)) \<le> mx" using dec_from_ge [of "10 * e + digit_val c" ds] by simp
    then show ?thesis using False Cons.prems(1) by (simp add: Let_def e)
  qed
qed simp

lemma fraction_read:
  assumes "digits fp" and "fp \<noteq> []" and "dec_from a fp < 2 ^ 53" and "\<not> is_digit_char (peek t)" and "integer_state neg a st" and "a \<le> max64 neg"
  shows "\<exists>st'. number_frac rnd (fraction_text fp @ t) st = Inr (t, st') \<and> ns_useDouble st' \<and> ns_d st' = rnd (of_nat (dec_from a fp)) \<and>
    ns_expFrac st' = - int (length fp) \<and> ns_exp st' = 0"
proof -
  have st: "(if ns_use64bit st then ns_i64 st else ns_i st) = a" "\<not> ns_useDouble st" "ns_expFrac st = 0" "ns_exp st = 0"
    using assms(5) by (auto simp: integer_state_def split: if_splits)
  obtain n' where f: "frac_int (fp @ t) a 0 (ns_significandDigit st) = (t, dec_from a fp, - int (length fp), n')"
    using frac_int_text [OF assms(1,3,4), where e = 0 and n = "ns_significandDigit st"] by auto
  have d: "is_digit_char (peek (fp @ t))" using assms(1,2) by (cases fp) auto
  show ?thesis using f d st assms(2) frac_double_stop [OF assms(4)]
    by (simp add: number_frac_def fraction_text_def)
qed

lemma exponent_read:
  assumes "exponent_part (Some (c, sg, ds))" and "\<bar>exponent_value (Some (c, sg, ds))\<bar> < 214748364" and "- (2 ^ 30) < ns_expFrac st" and "ns_expFrac st \<le> 0"
  shows "number_exp rnd off (exponent_text (Some (c, sg, ds))) st =
    (if sg = ''-'' \<or> exponent_value (Some (c, sg, ds)) + ns_expFrac st \<le> 308
     then Inr ([], (if ns_useDouble st then st else st\<lparr>ns_d := rnd (of_nat (if ns_use64bit st then ns_i64 st else ns_i st)), ns_useDouble := True\<rparr>)
       \<lparr>ns_exp := exponent_value (Some (c, sg, ds))\<rparr>)
     else Inl (Parse_error kParseErrorNumberTooBig off))"
proof -
  have c: "c = CHR ''e'' \<or> c = CHR ''E''" "sg \<in> {[], ''+'', ''-''}" "ds \<noteq> []" "digits ds" using assms(1) by (auto simp: exponent_part_def)
  obtain d0 dr where ds: "ds = d0 # dr" "is_digit_char d0" "digits dr" using c(3,4) by (cases ds) auto
  have v: "dec_from (digit_val d0) dr < 214748364" using assms(2) ds(1) by (auto simp: exponent_value_def split: if_splits)
  have s: "exp_sign (sg @ ds) = (sg = ''-'', ds)"
    using c(2) ds(1,2) by (auto simp: exp_sign_def is_digit_char_def char_int_def)
  note m = exp_minus_text [OF ds(3) v]
  have "int (digit_val d0) \<le> 308 - ns_expFrac st" using digit_val_le [OF ds(2)] assms(4) by simp
  moreover have "0 \<le> 308 - ns_expFrac st" using assms(4) by simp
  ultimately have p: "exp_plus off (308 - ns_expFrac st) dr (int (digit_val d0)) =
      (if int (dec_from (digit_val d0) dr) \<le> 308 - ns_expFrac st then Inr ([], int (dec_from (digit_val d0) dr))
       else Inl (Parse_error kParseErrorNumberTooBig off))" by (intro exp_plus_text [OF ds(3)])
  show ?thesis
    using c(1) s ds(1,2) m p by (auto simp: number_exp_def exponent_text_def exponent_value_def Let_def)
qed

lemma scaled_event:
  assumes "ns_useDouble st" and "ns_d st = rnd (of_nat m)" and "ns_exp st + ns_expFrac st = e" and "\<bar>e\<bar> < 2 ^ 31" and "e \<le> 308"
  shows "number_event rnd neg st = Inr (Ev_Double (if neg then - scaled rnd m e else scaled rnd m e))"
proof -
  have "int32 e = e" using assms(4) by (simp add: int32_def)
  moreover have "StrtodNormalPrecision rnd (rnd (of_nat m)) e = Some (scaled rnd m e)"
    using assms(5) by (auto simp: StrtodNormalPrecision_def FastPath_def Pow10_def scaled_def Let_def)
  ultimately show ?thesis using assms(1-3) by (simp add: number_event_def)
qed

text \<open>The phases on a decimal of ordinary size: the exponent is too big exactly when the last place is.\<close>

lemma moderate_phases:
  assumes "number_parts ip fp x" and "moderate ip fp x" and "fp \<noteq> [] \<or> x \<noteq> None"
  defines "e \<equiv> exponent_value x - int (length fp)"
  shows "if e \<le> 308 then \<exists>st. number_phases rnd neg off (ip @ fraction_text fp @ exponent_text x) = Inr ([], st) \<and>
      number_event rnd neg st = Inr (Ev_Double (if neg then - scaled rnd (dec_from 0 (ip @ fp)) e else scaled rnd (dec_from 0 (ip @ fp)) e))
    else \<exists>f. number_phases rnd neg off (ip @ fraction_text fp @ exponent_text x) = Inl f"
proof -
  let ?x = "exponent_text x"
  have ip: "integer_part ip" and fp: "digits fp" and x: "exponent_part x" using assms(1) by (simp_all add: number_parts_def)
  have m: "dec_from (dec_from 0 ip) fp < 2 ^ 53" "\<bar>exponent_value x\<bar> < 214748364" "length fp < 2 ^ 30" using assms(2) by (simp_all add: moderate_def)
  have a: "dec_from 0 ip < 2 ^ 53" using dec_from_ge [of "dec_from 0 ip" fp] m(1) by simp
  then have n: "dec_from 0 ip \<le> max64 neg" by (simp add: max64_def)
  have nd: "\<not> is_digit_char (peek ?x)" "peek ?x \<noteq> CHR ''.''" using exponent_stop [OF x] by auto
  obtain s1 st1 st where i: "number_int neg (ip @ fraction_text fp @ ?x) = Inr (s1, st1)"
    "number_int64 rnd neg s1 st1 = Inr (fraction_text fp @ ?x, st)" "integer_state neg (dec_from 0 ip) st"
    using integer_read [OF ip n fraction_stop [OF nd(1)]] by blast
  have st: "(if ns_use64bit st then ns_i64 st else ns_i st) = dec_from 0 ip" "\<not> ns_useDouble st" "ns_expFrac st = 0" "ns_exp st = 0"
    using i(3) by (auto simp: integer_state_def split: if_splits)
  obtain st4 where f: "number_frac rnd (fraction_text fp @ ?x) st = Inr (?x, st4)" "ns_expFrac st4 = - int (length fp)" "ns_exp st4 = 0"
    "fp \<noteq> [] \<longrightarrow> ns_useDouble st4 \<and> ns_d st4 = rnd (of_nat (dec_from (dec_from 0 ip) fp))" "fp = [] \<longrightarrow> st4 = st"
  proof (cases "fp = []")
    case True
    then have "number_frac rnd (fraction_text fp @ ?x) st = Inr (?x, st)" using nd(2) by (simp add: number_frac_def fraction_text_def)
    with True st that show thesis by simp
  next
    case False
    from fraction_read [OF fp False m(1) nd(1) i(3) n] that False show thesis by blast
  qed
  have ph: "number_phases rnd neg off (ip @ fraction_text fp @ ?x) = number_exp rnd off ?x st4"
    using i(1,2) f(1) st(2) by (simp add: number_phases_def number_big_def)
  have big: "\<bar>e\<bar> < 2 ^ 31" using m(2,3) by (simp add: e_def)
  show ?thesis
  proof (cases x)
    case None
    then have "number_exp rnd off ?x st4 = Inr ([], st4)" by (simp add: exponent_text_def number_exp_def)
    moreover have "fp \<noteq> []" "exponent_value x = 0" using assms(3) None by (simp_all add: exponent_value_def)
    ultimately show ?thesis
      using scaled_event [of st4 rnd _ e neg] f(2-4) big ph by (simp add: e_def)
  next
    case (Some y)
    obtain c sg ds where y: "x = Some (c, sg, ds)" using Some by (cases y) auto
    have "- (2 ^ 30) < ns_expFrac st4" "ns_expFrac st4 \<le> 0" using f(2) m(3) by simp_all
    from exponent_read [OF x [unfolded y] m(2) [unfolded y] this, folded y]
    have r: "number_exp rnd off ?x st4 =
      (if sg = ''-'' \<or> e \<le> 308
       then Inr ([], (if ns_useDouble st4 then st4 else st4\<lparr>ns_d := rnd (of_nat (if ns_use64bit st4 then ns_i64 st4 else ns_i st4)), ns_useDouble := True\<rparr>)
         \<lparr>ns_exp := exponent_value x\<rparr>)
       else Inl (Parse_error kParseErrorNumberTooBig off))" by (simp add: f(2) e_def)
    have neg_small: "sg = ''-'' \<Longrightarrow> e \<le> 308" by (simp add: e_def y exponent_value_def)
    define st5 where "st5 = (if ns_useDouble st4 then st4 else st4\<lparr>ns_d := rnd (of_nat (if ns_use64bit st4 then ns_i64 st4 else ns_i st4)), ns_useDouble := True\<rparr>)
         \<lparr>ns_exp := exponent_value x\<rparr>"
    have d5: "ns_d st5 = rnd (of_nat (dec_from 0 (ip @ fp)))"
    proof (cases "fp = []")
      case True
      with f(5) st(2) show ?thesis using st(1) unfolding st5_def by (auto split: if_splits)
    next
      case False
      with f(4) show ?thesis unfolding st5_def by simp
    qed
    have "ns_useDouble st5" "ns_exp st5 = exponent_value x" "ns_expFrac st5 = ns_expFrac st4" by (simp_all add: st5_def)
    with d5 have v: "ns_useDouble st5" "ns_d st5 = rnd (of_nat (dec_from 0 (ip @ fp)))" "ns_exp st5 + ns_expFrac st5 = e"
      by (simp_all add: e_def f(2))
    show ?thesis
    proof (cases "e \<le> 308")
      case True
      then have "number_exp rnd off ?x st4 = Inr ([], st5)" by (simp add: r st5_def)
      with scaled_event [of st5 rnd "dec_from 0 (ip @ fp)", OF v big True] True show ?thesis by (simp add: ph)
    next
      case False
      then have "number_exp rnd off ?x st4 = Inl (Parse_error kParseErrorNumberTooBig off)" using neg_small by (auto simp: r)
      with False show ?thesis by (simp add: ph)
    qed
  qed
qed

lemma integer_event_read:
  assumes "integer_state neg n st" and "n \<le> max64 neg"
  shows "number_event rnd neg st = Inr (integer_event neg n)"
proof -
  have z: "negated w 0 = 0" if "0 < w" for w using that by (simp add: negated_def)
  show ?thesis
    using assms negated_id [of n 32] negated_id [of n 64] z [of 32] z [of 64]
    by (cases "n = 0") (auto simp: number_event_def integer_state_def integer_event_def max32_def max64_def split: if_splits)
qed

lemma sign_consumed:
  assumes "read_number rnd p = Inr ([], e)"
  obtains neg s st where "p = (if neg then ''-'' else []) @ s" and "number_phases rnd neg (length p) s = Inr ([], st)" and "number_event rnd neg st = Inr e"
proof -
  obtain neg s where c: "Consume p CHR ''-'' = (neg, s)" by (cases "Consume p CHR ''-''")
  obtain t st where "number_phases rnd neg (length p) s = Inr (t, st)"
    "(case number_event rnd neg st of Inl f \<Rightarrow> Inl f | Inr e \<Rightarrow> Inr (t, e)) = Inr ([], e)"
    using assms c by (auto simp: read_number_def proceed_Inr)
  then have "number_phases rnd neg (length p) s = Inr ([], st)" "number_event rnd neg st = Inr e" by (auto split: sum.splits)
  moreover have "p = (if neg then ''-'' else []) @ s" using c peek_Cons [of p "CHR ''-''"] by (auto simp: Consume_def split: if_splits)
  ultimately show ?thesis by (rule that [rotated])
qed

lemma read_number_means:
  assumes "read_number rnd p = Inr ([], e)"
  shows "number_means rnd p e"
proof -
  obtain neg s st where p: "p = (if neg then ''-'' else []) @ s" and ph: "number_phases rnd neg (length p) s = Inr ([], st)"
    and ev: "number_event rnd neg st = Inr e" using sign_consumed [OF assms] .
  obtain ip fp x where s: "s = ip @ fraction_text fp @ exponent_text x @ []" and parts: "number_parts ip fp x"
    and u: "fp \<noteq> [] \<or> x \<noteq> None \<longrightarrow> ns_useDouble st" using phases_parts [OF ph] .
  have tx: "p = number_text neg ip fp x" using p s by (simp add: number_text_def)
  have ip: "integer_part ip" using parts by (simp add: number_parts_def)
  let ?n = "dec_from 0 ip"
  show ?thesis
  proof (cases "fp = [] \<and> x = None")
    case True
    then have s': "s = ip @ []" using s by (simp add: fraction_text_def exponent_text_def)
    show ?thesis
    proof (cases "?n \<le> max64 neg")
      case n: True
      obtain s1 st1 st2 where "number_int neg s = Inr (s1, st1)" "number_int64 rnd neg s1 st1 = Inr ([], st2)" "integer_state neg ?n st2"
        using integer_read [OF ip n, of "[]" rnd] s' by auto
      then have "number_phases rnd neg (length p) s = Inr ([], st2)" "integer_state neg ?n st2"
        by (simp_all add: number_phases_def number_big_def number_frac_def number_exp_def integer_state_def)
      with ph ev integer_event_read [OF _ n] have "e = integer_event neg ?n" by simp
      with True tx parts n show ?thesis by (auto intro: means_integer)
    next
      case n: False
      obtain s1 st1 s2 st2 s3 st3 s4 st4 where q: "number_int neg s = Inr (s1, st1)" "number_int64 rnd neg s1 st1 = Inr (s2, st2)"
        "number_big rnd (length p) s2 st2 = Inr (s3, st3)" "number_frac rnd s3 st3 = Inr (s4, st4)" "number_exp rnd (length p) s4 st4 = Inr ([], st)"
        using ph by (auto simp: number_phases_def proceed_Inr)
      have "ns_useDouble st2" using large_integer_double [OF ip _ _ q(1) [unfolded s'] q(2)] n by simp
      then have "ns_useDouble st"
        using number_big_consumes [OF q(3)] number_frac_consumes [OF q(4)] number_exp_consumes [OF q(5)] by blast
      then obtain d where e: "e = Ev_Double (if neg then - d else d)" using ev by (auto simp: number_event_def split: option.splits)
      have "\<not> moderate ip fp x" using True n by (auto simp: moderate_def max64_def split: if_splits)
      then show ?thesis unfolding e tx by (intro means_double) (use parts n in auto)
    qed
  next
    case False
    then have "ns_useDouble st" using u by blast
    then obtain d where e: "e = Ev_Double (if neg then - d else d)" using ev by (auto simp: number_event_def split: option.splits)
    have "moderate ip fp x \<longrightarrow> d = scaled rnd (dec_from 0 (ip @ fp)) (exponent_value x - int (length fp))"
    proof
      assume "moderate ip fp x"
      from moderate_phases [OF parts this, of rnd neg "length p"] False ph ev s e
      show "d = scaled rnd (dec_from 0 (ip @ fp)) (exponent_value x - int (length fp))" by (auto split: if_splits)
    qed
    then show ?thesis unfolding e tx by (intro means_double) (use parts False in auto)
  qed
qed

lemma read_ordinary:
  assumes "ordinary_number p"
  shows "\<exists>e. read_number rnd p = Inr ([], e)"
proof -
  obtain neg ip fp x where p: "p = number_text neg ip fp x" "number_parts ip fp x"
    "fp = [] \<and> x = None \<and> dec_from 0 ip \<le> max64 neg \<or> moderate ip fp x \<and> exponent_value x - int (length fp) \<le> 308"
    using assms by (auto simp: ordinary_number_def)
  let ?s = "ip @ fraction_text fp @ exponent_text x"
  have ip: "integer_part ip" using p(2) by (simp add: number_parts_def)
  then have "peek ?s \<noteq> CHR ''-''" by (cases ip) (auto simp: integer_part_def)
  then have c: "Consume p CHR ''-'' = (neg, ?s)" by (auto simp: p(1) number_text_def Consume_def)
  have "\<exists>st e. number_phases rnd neg (length p) ?s = Inr ([], st) \<and> number_event rnd neg st = Inr e"
  proof (cases "fp = [] \<and> x = None")
    case True
    have n: "dec_from 0 ip \<le> max64 neg" using p(3) True by (auto simp: moderate_def max64_def)
    obtain s1 st1 st2 where "number_int neg ?s = Inr (s1, st1)" "number_int64 rnd neg s1 st1 = Inr ([], st2)" "integer_state neg (dec_from 0 ip) st2"
      using integer_read [OF ip n, of "[]" rnd] True by (auto simp: fraction_text_def exponent_text_def)
    then have "number_phases rnd neg (length p) ?s = Inr ([], st2)" "integer_state neg (dec_from 0 ip) st2"
      by (simp_all add: number_phases_def number_big_def number_frac_def number_exp_def integer_state_def)
    with integer_event_read [OF _ n] show ?thesis by blast
  next
    case False
    then show ?thesis using moderate_phases [OF p(2), of rnd neg "length p"] p(3) by auto
  qed
  then show ?thesis using c by (auto simp: read_number_def)
qed

end
