(* ===== verification/Rapid_Document.thy ===== *)
theory Rapid_Document
  imports Rapid_Denotation
begin

text \<open>
  The document of \<^verbatim>\<open>rapidjson/document.h\<close>: the values, the handler that builds them on a stack, parsing, and
  the access the extractors use. \<^term>\<open>None\<close> is a failed assertion. The handler is an instance of the interface of
  \<open>Rapid_Grammar\<close>, so that parsing a text gives the value the grammar assigns to it; the last section says which
  numbers the decimal texts stand for.
\<close>

section \<open>Values\<close>

datatype number_flag = kIntFlag | kUintFlag | kInt64Flag | kUint64Flag | kDoubleFlag

datatype number = Number_int int | Number_double double

datatype Value = V_Null | V_Bool bool | V_Number "number_flag list" number | V_String string
  | V_Object "(Value \<times> Value) list" | V_Array "Value list"

text \<open>The constructors for numbers set a flag for every type that can hold them.\<close>

definition Value_int :: "int \<Rightarrow> Value" where
  "Value_int i = V_Number ([kIntFlag, kInt64Flag] @ (if i \<ge> 0 then [kUintFlag, kUint64Flag] else [])) (Number_int i)"

definition Value_unsigned :: "nat \<Rightarrow> Value" where
  "Value_unsigned u =
     V_Number ([kUintFlag, kUint64Flag, kInt64Flag] @ (if u div 0x80000000 mod 2 = 1 then [] else [kIntFlag])) (Number_int (int u))"

definition Value_int64 :: "int \<Rightarrow> Value" where
  "Value_int64 i64 =
     V_Number ([kInt64Flag] @
       (if i64 \<ge> 0 then [kUint64Flag] @ (if i64 < 2 ^ 32 then [kUintFlag] else []) @ (if i64 < 2 ^ 31 then [kIntFlag] else [])
        else if i64 \<ge> - (2 ^ 31) then [kIntFlag] else [])) (Number_int i64)"

definition Value_uint64 :: "nat \<Rightarrow> Value" where
  "Value_uint64 u64 =
     V_Number ([kUint64Flag] @ (if u64 < 2 ^ 63 then [kInt64Flag] else []) @ (if u64 < 2 ^ 32 then [kUintFlag] else []) @
       (if u64 < 2 ^ 31 then [kIntFlag] else [])) (Number_int (int u64))"

definition Value_double :: "double \<Rightarrow> Value" where
  "Value_double d = V_Number [kDoubleFlag] (Number_double d)"

definition IsNull :: "Value \<Rightarrow> bool" where
  "IsNull v \<longleftrightarrow> v = V_Null"

definition IsObject :: "Value \<Rightarrow> bool" where
  "IsObject v \<longleftrightarrow> (case v of V_Object _ \<Rightarrow> True | _ \<Rightarrow> False)"

definition IsArray :: "Value \<Rightarrow> bool" where
  "IsArray v \<longleftrightarrow> (case v of V_Array _ \<Rightarrow> True | _ \<Rightarrow> False)"

fun GetString :: "Value \<Rightarrow> string option" where
  "GetString (V_String s) = Some s"
| "GetString _ = None"

fun GetInt :: "Value \<Rightarrow> int option" where
  "GetInt (V_Number fl (Number_int n)) = (if kIntFlag \<in> set fl then Some n else None)"
| "GetInt _ = None"

text \<open>The integer types of at most 32 bits are exact as a double, the others are rounded.\<close>

fun GetDouble :: "rounding \<Rightarrow> Value \<Rightarrow> double option" where
  "GetDouble rnd (V_Number fl (Number_double d)) = Some d"
| "GetDouble rnd (V_Number fl (Number_int n)) =
     Some (if kIntFlag \<in> set fl \<or> kUintFlag \<in> set fl then of_int n else rnd (of_int n))"
| "GetDouble rnd _ = None"

fun GetObject :: "Value \<Rightarrow> (Value \<times> Value) list option" where
  "GetObject (V_Object ms) = Some ms"
| "GetObject _ = None"

fun GetArray :: "Value \<Rightarrow> Value list option" where
  "GetArray (V_Array vs) = Some vs"
| "GetArray _ = None"

text \<open>The first member of a name; the names are compared with their length. A name that is no member fails an assertion.\<close>

fun FindMember :: "(Value \<times> Value) list \<Rightarrow> string \<Rightarrow> Value option option" where
  "FindMember [] name = Some None"
| "FindMember ((k, v) # ms) name =
     (case GetString k of None \<Rightarrow> None | Some s \<Rightarrow> if s = name then Some (Some v) else FindMember ms name)"

definition member_value :: "(Value \<times> Value) list \<Rightarrow> string \<Rightarrow> Value option" where
  "member_value ms name = (case FindMember ms name of None \<Rightarrow> None | Some r \<Rightarrow> r)"

section \<open>The document as a handler\<close>

text \<open>The stack of values, the last one first; the popped items are taken in the order they were pushed.\<close>

fun pair_up :: "Value list \<Rightarrow> (Value \<times> Value) list" where
  "pair_up (k # v # vs) = (k, v) # pair_up vs"
| "pair_up _ = []"

definition pop_under :: "nat \<Rightarrow> (Value list \<Rightarrow> Value) \<Rightarrow> Value list \<Rightarrow> Value list option" where
  "pop_under n f stack =
     (if length stack < n then None
      else (case drop n stack of [] \<Rightarrow> None | below # rest \<Rightarrow> Some (f (rev (take n stack)) # rest)))"

fun push_event :: "sax_event \<Rightarrow> Value list \<Rightarrow> Value list option" where
  "push_event Ev_Null st = Some (V_Null # st)"
| "push_event (Ev_Bool b) st = Some (V_Bool b # st)"
| "push_event (Ev_Int i) st = Some (Value_int i # st)"
| "push_event (Ev_Uint u) st = Some (Value_unsigned u # st)"
| "push_event (Ev_Int64 i) st = Some (Value_int64 i # st)"
| "push_event (Ev_Uint64 u) st = Some (Value_uint64 u # st)"
| "push_event (Ev_Double d) st = Some (Value_double d # st)"
| "push_event (Ev_String s) st = Some (V_String s # st)"
| "push_event (Ev_Key s) st = Some (V_String s # st)"
| "push_event Ev_StartObject st = Some (V_Object [] # st)"
| "push_event (Ev_EndObject n) st = pop_under (2 * n) (\<lambda>vs. V_Object (pair_up vs)) st"
| "push_event Ev_StartArray st = Some (V_Array [] # st)"
| "push_event (Ev_EndArray n) st = pop_under n V_Array st"

text \<open>Every event is accepted; a failed assertion stays in the state.\<close>

definition document_put :: "(Value list option) handler" where
  "document_put e st = (True, Option.bind st (push_event e))"

interpretation document: accepting document_put
  by unfold_locales (simp add: document_put_def)

lemma document_put_snd [simp]: "snd (document_put e st) = Option.bind st (push_event e)"
  by (simp add: document_put_def)

text \<open>A text that is not accepted leaves the document as it was.\<close>

definition Document_Parse :: "rounding \<Rightarrow> Value \<Rightarrow> string \<Rightarrow> Value option" where
  "Document_Parse rnd d text =
     (case Parse rnd document_put text (Some []) of
        Inr (Some [v]) \<Rightarrow> Some v
      | Inr _ \<Rightarrow> None
      | Inl (Parse_error code offset) \<Rightarrow> Some d
      | Inl _ \<Rightarrow> None)"

section \<open>The value of a text\<close>

fun leaf_value :: "sax_event \<Rightarrow> Value" where
  "leaf_value (Ev_Bool b) = V_Bool b"
| "leaf_value (Ev_Int i) = Value_int i"
| "leaf_value (Ev_Uint u) = Value_unsigned u"
| "leaf_value (Ev_Int64 i) = Value_int64 i"
| "leaf_value (Ev_Uint64 u) = Value_uint64 u"
| "leaf_value (Ev_Double d) = Value_double d"
| "leaf_value (Ev_String s) = V_String s"
| "leaf_value _ = V_Null"

fun tree_value :: "tree \<Rightarrow> Value" where
  "tree_value (T_leaf e) = leaf_value e"
| "tree_value (T_arr ts) = V_Array (map tree_value ts)"
| "tree_value (T_obj ks) = V_Object (map (\<lambda>(k, t). (V_String k, tree_value t)) ks)"

definition leaf_event :: "sax_event \<Rightarrow> bool" where
  "leaf_event e \<longleftrightarrow> (case e of Ev_StartObject \<Rightarrow> False | Ev_Key _ \<Rightarrow> False | Ev_EndObject _ \<Rightarrow> False
     | Ev_StartArray \<Rightarrow> False | Ev_EndArray _ \<Rightarrow> False | _ \<Rightarrow> True)"

lemma prim_event_leaf: "prim_event rnd s = Some e \<Longrightarrow> leaf_event e"
proof (erule prim_event_cases)
  assume "read_number rnd s = Inr ([], e)"
  then obtain neg st s1 where "(case number_event rnd neg st of Inl f \<Rightarrow> Inl f | Inr e \<Rightarrow> Inr (s1, e)) = Inr ([] :: string, e)"
    by (auto simp: read_number_def proceed_Inr split: prod.splits)
  then have "number_event rnd neg st = Inr e" by (cases "number_event rnd neg st") simp_all
  then show ?thesis by (auto simp: number_event_def leaf_event_def split: if_splits option.splits)
qed (simp_all add: leaf_event_def)

lemma push_leaf: "leaf_event e \<Longrightarrow> push_event e st = Some (leaf_value e # st)"
  by (cases e) (simp_all add: leaf_event_def)

lemma pop_pushed: "length vs = n \<Longrightarrow> pop_under n f (rev vs @ below # st) = Some (f vs # st)"
  by (simp add: pop_under_def)

lemma pair_up_concat: "pair_up (concat (map (\<lambda>(k, t). [f k, g t]) ks)) = map (\<lambda>(k, t). (f k, g t)) ks"
  by (induction ks) auto

lemma run_members:
  assumes "\<forall>k t st. (k, t) \<in> set ks \<longrightarrow> run document_put (tree_events t) (Some st) = Some (tree_value t # st)"
  shows "run document_put (members_events ks) (Some st) =
    Some (rev (concat (map (\<lambda>(k, t). [V_String k, tree_value t]) ks)) @ st)"
  using assms
proof (induction ks arbitrary: st)
  case (Cons a ks)
  obtain k t where a: "a = (k, t)" by (cases a)
  have "run document_put (tree_events t) (Some (V_String k # st)) = Some (tree_value t # V_String k # st)"
    using Cons.prems a by auto
  with Cons a show ?case by simp
qed simp

lemma run_elements:
  assumes "\<And>t st. t \<in> set ts \<Longrightarrow> run document_put (tree_events t) (Some st) = Some (tree_value t # st)"
  shows "run document_put (concat (map tree_events ts)) (Some st) = Some (rev (map tree_value ts) @ st)"
  using assms by (induction ts arbitrary: st) auto

lemma run_tree: "reads rnd v t \<Longrightarrow> run document_put (tree_events t) (Some st) = Some (tree_value t # st)"
proof (induction arbitrary: st rule: reads.induct)
  case (reads_prim s e)
  then show ?case using prim_event_leaf [OF reads_prim] by (simp add: push_leaf)
next
  case (reads_str raw out)
  then show ?case by simp
next
  case (reads_arr vs ts)
  then have "run document_put (tree_events t) (Some st) = Some (tree_value t # st)" if "t \<in> set ts" for t st
    using that by (auto simp: list_all2_conv_all_nth in_set_conv_nth)
  then have "run document_put (concat (map tree_events ts)) (Some (V_Array [] # st)) = Some (rev (map tree_value ts) @ V_Array [] # st)"
    by (rule run_elements)
  then show ?case using pop_pushed [of "map tree_value ts" "length ts" V_Array "V_Array []" st] by simp
next
  case (reads_obj ms ks)
  then have "run document_put (tree_events t) (Some st) = Some (tree_value t # st)" if "(k, t) \<in> set ks" for k t st
    using that by (fastforce simp: list_all2_conv_all_nth in_set_conv_nth)
  then have r: "run document_put (members_events ks) (Some (V_Object [] # st)) =
      Some (rev (concat (map (\<lambda>(k, t). [V_String k, tree_value t]) ks)) @ V_Object [] # st)"
    by (intro run_members) blast
  have "length (concat (map (\<lambda>(k, t). [V_String k, tree_value t]) ks)) = 2 * length ks"
    by (induction ks) auto
  from pop_pushed [OF this, of "\<lambda>vs. V_Object (pair_up vs)" "V_Object []" st] r
    pair_up_concat [of V_String tree_value ks]
  show ?case by simp
qed










lemma document_text:
  assumes "json_text v p" and "reads rnd v t" and "blank w1" and "blank w2" and "CHR 0x00 \<notin> set (w1 @ p @ w2)"
  shows "Document_Parse rnd d (w1 @ p @ w2) = Some (tree_value t)"
proof -
  have "takeWhile (\<lambda>c. c \<noteq> CHR 0x00) (w1 @ p @ w2) = w1 @ p @ w2"
    using assms(5) by (intro takeWhile_eq_all_conv [THEN iffD2]) auto
  then have "Parse rnd document_put (w1 @ p @ w2) (Some []) = Inr (Some [tree_value t])"
    unfolding document.Parse_iff using assms run_tree [OF assms(2), of "[]"] by metis
  then show ?thesis by (simp add: Document_Parse_def)
qed

text \<open>
  C14: parsing ends on every text and with every handler: the fuel of the model is enough, so the result is a value
  of the handler, an error with its position, or a failed assertion.
\<close>

theorem reader_returns: "Parse rnd put text h \<noteq> Inl Out_of_fuel"
  by (rule Parse_returns)

text \<open>
  C27: an exponent is read without overflow, but it is added to the number of decimals: a short text makes the sum
  wrap around, and the table of powers of ten is read outside its bounds, which fails its assertion.
\<close>

theorem exponent_overflow: "Document_Parse rnd d ''0.00000000000001e-2147483639'' = None"
proof -
  let ?e = "''e-2147483639''" and ?f = "''00000000000001e-2147483639''"
  have d: "is_digit_char (CHR ''2'')" by code_simp
  have 1: "number_int False (CHR ''0'' # CHR ''.'' # ?f) = Inr (CHR ''.'' # ?f, new_number)"
    by (simp add: number_int_def)
  have nd: "digit_val (CHR ''0'') = 0" "digit_val (CHR ''1'') = 1" "is_digit_char (CHR ''1'')" by code_simp+
  have f: "frac_int ?f 0 0 0 = (?e, 1, -14, 1)" by (simp add: nd)
  have 2: "number_frac rnd (CHR ''.'' # ?f) new_number =
      Inr (?e, new_number\<lparr>ns_d := rnd 1, ns_useDouble := True, ns_expFrac := -14\<rparr>)"
    using f by (simp add: number_frac_def new_number_def)
  have e: "exp_minus ''147483639'' 2 = ([], 2147483639)" by code_simp
  have v: "digit_val (CHR ''2'') = 2" by code_simp
  have 3: "number_exp rnd off ?e st = Inr ([], st\<lparr>ns_exp := -2147483639\<rparr>)" if "ns_useDouble st" for off st
    using that e d v by (simp add: number_exp_def exp_sign_def Let_def)
  have n: "\<not> ns_use64bit new_number" "\<not> ns_useDouble new_number" by (simp_all add: new_number_def)
  have "number_phases rnd False off (CHR ''0'' # CHR ''.'' # ?f) =
      Inr ([], new_number\<lparr>ns_d := rnd 1, ns_useDouble := True, ns_expFrac := -14, ns_exp := -2147483639\<rparr>)" for off
    unfolding number_phases_def 1 by (simp add: number_int64_def number_big_def 2 3 n)
  moreover have "number_event rnd False (new_number\<lparr>ns_d := rnd 1, ns_useDouble := True, ns_expFrac := -14, ns_exp := -2147483639\<rparr>) =
      Inl Assertion_failed"
    by (simp add: number_event_def StrtodNormalPrecision_def FastPath_def Pow10_def int32_def)
  ultimately have "read_number rnd (CHR ''0'' # CHR ''.'' # ?f) = Inl Assertion_failed"
    by (simp add: read_number_def Consume_def)
  then have "ParseValue rnd document_put (Suc n) (CHR ''0'' # CHR ''.'' # ?f) h = Inl Assertion_failed" for n h
    by (simp add: ParseValue.simps ParseNumber_def)
  then show ?thesis by (simp add: Document_Parse_def Parse_def Let_def skip_whitespace_def reader_fuel_def eval_nat_numeral)
qed

section \<open>Types\<close>

text \<open>
  A value is well typed if its flags name exactly the integer types that can hold it, a double has no integer type,
  and the names of members are strings.
\<close>

definition flags_ok :: "number_flag list \<Rightarrow> number \<Rightarrow> bool" where
  "flags_ok fl x \<longleftrightarrow>
     (case x of
        Number_int n \<Rightarrow>
          (kIntFlag \<in> set fl \<longleftrightarrow> - (2 ^ 31) \<le> n \<and> n < 2 ^ 31) \<and> (kUintFlag \<in> set fl \<longleftrightarrow> 0 \<le> n \<and> n < 2 ^ 32) \<and>
          (kInt64Flag \<in> set fl \<longleftrightarrow> - (2 ^ 63) \<le> n \<and> n < 2 ^ 63) \<and> (kUint64Flag \<in> set fl \<longleftrightarrow> 0 \<le> n \<and> n < 2 ^ 64) \<and>
          kDoubleFlag \<notin> set fl
      | Number_double d \<Rightarrow> set fl = {kDoubleFlag})"

inductive well_typed :: "Value \<Rightarrow> bool" where
  "well_typed V_Null"
| "well_typed (V_Bool b)"
| "flags_ok fl x \<Longrightarrow> well_typed (V_Number fl x)"
| "well_typed (V_String s)"
| "\<forall>m \<in> set ms. (\<exists>s. fst m = V_String s) \<and> well_typed (snd m) \<Longrightarrow> well_typed (V_Object ms)"
| "\<forall>v \<in> set vs. well_typed v \<Longrightarrow> well_typed (V_Array vs)"

text \<open>The integers of an event are in the range of its type.\<close>

fun in_range :: "sax_event \<Rightarrow> bool" where
  "in_range (Ev_Int i) \<longleftrightarrow> - (2 ^ 31) \<le> i \<and> i < 2 ^ 31"
| "in_range (Ev_Uint u) \<longleftrightarrow> u < 2 ^ 32"
| "in_range (Ev_Int64 i) \<longleftrightarrow> - (2 ^ 63) \<le> i \<and> i < 2 ^ 63"
| "in_range (Ev_Uint64 u) \<longleftrightarrow> u < 2 ^ 64"
| "in_range _ \<longleftrightarrow> True"

lemma leaf_well_typed: "in_range e \<Longrightarrow> well_typed (leaf_value e)"
proof (cases e)
  case (Ev_Uint u)
  moreover assume "in_range e"
  ultimately have u: "u < 2 ^ 32" by simp
  have "u div 0x80000000 mod 2 = 1 \<longleftrightarrow> \<not> u < 2 ^ 31"
  proof (cases "u < 2 ^ 31")
    case False
    then have "u div 0x80000000 = 1" using u by (intro div_nat_eqI) auto
    then show ?thesis using False by simp
  qed simp
  with u Ev_Uint show ?thesis by (auto simp: Value_unsigned_def flags_ok_def intro!: well_typed.intros)
qed (auto simp: Value_int_def Value_int64_def Value_uint64_def Value_double_def flags_ok_def intro!: well_typed.intros)

lemma int_digits_bound: "int_digits m l f s i n = (b, t, i', n') \<Longrightarrow> i < m \<Longrightarrow> i' < m"
  by (induction m l f s i n rule: int_digits.induct) (auto split: if_splits)

definition state_in_range :: "number_state \<Rightarrow> bool" where
  "state_in_range st \<longleftrightarrow> ns_i st < 2 ^ 32 \<and> ns_i64 st < 2 ^ 64"

lemma range_int: "number_int neg s = Inr (t, st) \<Longrightarrow> state_in_range st"
proof -
  have "digit_val (peek s) < 2 ^ 32" if "is_digit_char (peek s)" using digit_val_le [OF that] by simp
  then show "number_int neg s = Inr (t, st) \<Longrightarrow> ?thesis"
    by (auto simp: number_int_def state_in_range_def new_number_def split: if_splits prod.splits dest!: int_digits_bound)
qed

lemma range_int64: "number_int64 rnd neg s st = Inr (t, st') \<Longrightarrow> state_in_range st \<Longrightarrow> state_in_range st'"
  by (auto simp: number_int64_def state_in_range_def split: if_splits prod.splits dest!: int_digits_bound)

lemma range_rest:
  "number_big rnd off s st = Inr (t, st') \<Longrightarrow> state_in_range st \<Longrightarrow> state_in_range st'"
  "number_frac rnd s st = Inr (t, st') \<Longrightarrow> state_in_range st \<Longrightarrow> state_in_range st'"
  "number_exp rnd off s st = Inr (t, st') \<Longrightarrow> state_in_range st \<Longrightarrow> state_in_range st'"
  by (auto simp: number_big_def number_frac_def number_exp_def state_in_range_def proceed_Inr Let_def split: if_splits prod.splits)

lemma range_phases: "number_phases rnd neg off s = Inr (t, st) \<Longrightarrow> state_in_range st"
  unfolding number_phases_def proceed_Inr by (blast dest: range_int range_int64 range_rest)

lemma negated_range: "0 < w \<Longrightarrow> - (2 ^ (w - 1)) \<le> negated w n \<and> negated w n < 2 ^ (w - 1)"
proof -
  assume w: "0 < w"
  let ?u = "(2 ^ w - 1 - n + 1) mod 2 ^ w"
  have p: "(2 :: nat) ^ w = 2 * 2 ^ (w - 1)" "(2 :: int) ^ w = 2 * 2 ^ (w - 1)" using w by (simp_all flip: power_Suc)
  have "?u < 2 ^ w" by simp
  then have u: "int ?u < 2 * 2 ^ (w - 1)" using p(2) by (metis of_nat_less_iff of_nat_numeral of_nat_power)
  show ?thesis
  proof (cases "?u < 2 ^ (w - 1)")
    case True
    then have "int ?u < 2 ^ (w - 1)" by (metis of_nat_less_iff of_nat_numeral of_nat_power)
    moreover have "- (2 ^ (w - 1)) \<le> int ?u" by (rule order_trans [of _ 0]) (simp, rule of_nat_0_le_iff)
    ultimately show ?thesis unfolding negated_def Let_def if_P [OF True] by blast
  next
    case False
    then have "2 ^ (w - 1) \<le> int ?u" by (metis not_less of_nat_le_iff of_nat_numeral of_nat_power)
    with u False p(2) show ?thesis unfolding negated_def Let_def by auto
  qed
qed

lemma event_in_range: "number_event rnd neg st = Inr e \<Longrightarrow> state_in_range st \<Longrightarrow> in_range e"
  using negated_range [of 32 "ns_i st"] negated_range [of 64 "ns_i64 st"]
  by (auto simp: number_event_def state_in_range_def split: if_splits option.splits)

lemma prim_event_range: "prim_event rnd s = Some e \<Longrightarrow> in_range e"
proof (erule prim_event_cases)
  assume "read_number rnd s = Inr ([], e)"
  then obtain neg st s0 s1 where "number_phases rnd neg (length s) s0 = Inr (s1, st)"
    and "(case number_event rnd neg st of Inl f \<Rightarrow> Inl f | Inr e \<Rightarrow> Inr (s1, e)) = Inr ([] :: string, e)"
    by (auto simp: read_number_def proceed_Inr split: prod.splits)
  then show ?thesis using range_phases event_in_range by (cases "number_event rnd neg st") auto
qed simp_all

lemma reads_well_typed: "reads rnd v t \<Longrightarrow> well_typed (tree_value t)"
proof (induction rule: reads.induct)
  case (reads_prim s e)
  then show ?case by (simp add: leaf_well_typed prim_event_range)
next
  case (reads_str raw out)
  then show ?case by (simp add: well_typed.intros)
next
  case (reads_arr vs ts)
  then show ?case by (auto simp: list_all2_conv_all_nth in_set_conv_nth intro!: well_typed.intros)
next
  case (reads_obj ms ks)
  then have "well_typed (tree_value t)" if "(k, t) \<in> set ks" for k t
    using that by (fastforce simp: list_all2_conv_all_nth in_set_conv_nth)
  then show ?case by (auto intro!: well_typed.intros)
qed

text \<open>
  C15: the type of parsed documents: a value that is parsed is well typed, so that every number can be read with
  exactly the accessors of the integer types that hold it, and the name of every member is a string.
\<close>

theorem parsed_well_typed:
  assumes "Document_Parse rnd V_Null text = Some v"
  shows "well_typed v"
proof (cases "Parse rnd document_put text (Some [])")
  case (Inl f)
  with assms show ?thesis by (cases f) (auto simp: Document_Parse_def intro: well_typed.intros)
next
  case (Inr st)
  then obtain j t where t: "reads rnd j t" "st = Some [tree_value t]"
    by (auto simp: document.Parse_iff run_tree)
  with Inr assms reads_well_typed [OF t(1)] show ?thesis by (simp add: Document_Parse_def)
qed

theorem parsed_well_typed_witness: "well_typed (V_Array [V_Number [kUintFlag, kUint64Flag, kInt64Flag, kIntFlag] (Number_int 7)])"
proof -
  have "read_number rnd (CHR ''7'' # s) = Inr (s, Ev_Uint 7)" if "s = '']''" for rnd s
  proof -
    have "is_digit_char (CHR ''7'')" "digit_val (CHR ''7'') = 7" "\<not> is_digit_char (CHR '']'')" by code_simp+
    then show ?thesis unfolding that
      by (simp add: read_number_def Consume_def number_phases_def number_int_def number_int64_def number_big_def number_frac_def
          number_exp_def number_event_def new_number_def)
  qed
  then have "Document_Parse rnd V_Null ''[7]'' = Some (V_Array [Value_unsigned 7])" for rnd
    by (simp add: Document_Parse_def Parse_def Let_def skip_whitespace_def reader_fuel_def ParseValue.simps ParseArray_def
        ParseElements.simps ParseNumber_def emit_def document_put_def pop_under_def eval_nat_numeral)
  from parsed_well_typed [OF this [of "\<lambda>x. x"]] show ?thesis by (simp add: Value_unsigned_def)
qed

end
