(* ===== verification/Rapid_Mapper.thy ===== *)
theory Rapid_Mapper
  imports Rapid_Document Any_Mapper Rapid_Serializer
begin

text \<open>
  The mapper of the bidders, \<^verbatim>\<open>rtb/DSL/rapid_mapper.hpp\<close>: the extractors for \<^verbatim>\<open>rapidjson\<close> values of
  \<^verbatim>\<open>rtb/DSL/extractors.hpp\<close> on the document a request is parsed into. \<^term>\<open>None\<close> is a failed assertion of the
  document, which ends the process: it is no exception, so no handler catches it. Locale \<open>double_text\<close> is the
  interface to the printer of floating-point numbers. The theorems say that a printed request is read back, and
  what becomes of texts that are not as expected.
\<close>

section \<open>Extractors\<close>

text \<open>\<open>std::strcmp\<close> sees a name up to its first null character.\<close>

definition same_name :: "string \<Rightarrow> string \<Rightarrow> bool" where
  "same_name name word \<longleftrightarrow> takeWhile (\<lambda>c. c \<noteq> CHR 0x00) name = word"

text \<open>A loop over members with an action that may fail an assertion.\<close>

fun for_members :: "(string \<Rightarrow> Value \<Rightarrow> 's \<Rightarrow> 's option) \<Rightarrow> (Value \<times> Value) list \<Rightarrow> 's \<Rightarrow> 's option" where
  "for_members f [] st = Some st"
| "for_members f ((k, v) # ms) st =
     (case GetString k of None \<Rightarrow> None | Some name \<Rightarrow> Option.bind (f name v st) (for_members f ms))"

fun transform_values :: "(Value \<Rightarrow> 'a option) \<Rightarrow> Value list \<Rightarrow> 'a list option" where
  "transform_values f [] = Some []"
| "transform_values f (v # vs) = Option.bind (f v) (\<lambda>x. map_option (Cons x) (transform_values f vs))"

definition rapid_vector :: "(Value \<Rightarrow> 'a option) \<Rightarrow> Value \<Rightarrow> 'a list option" where
  "rapid_vector f v =
     (if IsNull v \<or> \<not> IsArray v then Some [] else Option.bind (GetArray v) (transform_values f))"

definition rapid_Banner :: "uninitialized \<Rightarrow> Value \<Rightarrow> Banner option option" where
  "rapid_Banner un v =
     (if IsNull v \<or> \<not> IsObject v then Some None
      else Option.bind (GetObject v) (\<lambda>m.
        Option.bind (Option.bind (member_value m ''h'') GetInt) (\<lambda>h.
        Option.bind (Option.bind (member_value m ''w'') GetInt) (\<lambda>w.
        Option.bind (Option.bind (member_value m ''pos'') GetInt) (\<lambda>pos.
          Some (Some ((new_Banner (un_pos un) (un_topframe un))
            \<lparr>bn_h := word_of_int h, bn_w := word_of_int w, bn_pos := AdPosition_of_int (un_enum un) pos\<rparr>)))))))"

definition impression_member :: "rounding \<Rightarrow> uninitialized \<Rightarrow> string \<Rightarrow> Value \<Rightarrow> Impression \<Rightarrow> Impression option" where
  "impression_member rnd un name v imp =
     (if same_name name ''id'' then map_option (\<lambda>s. imp\<lparr>imp_id := s\<rparr>) (GetString v)
      else if same_name name ''banner'' then map_option (\<lambda>b. imp\<lparr>imp_banner := b\<rparr>) (rapid_Banner un v)
      else if same_name name ''bidfloor'' then map_option (\<lambda>d. imp\<lparr>imp_bidfloor := d\<rparr>) (GetDouble rnd v)
      else if same_name name ''bidfloorcur'' then map_option (\<lambda>s. imp\<lparr>imp_bidfloorcur := s\<rparr>) (GetString v)
      else Some imp)"

definition rapid_Impression :: "rounding \<Rightarrow> uninitialized \<Rightarrow> Value \<Rightarrow> Impression option" where
  "rapid_Impression rnd un v =
     (if IsNull v \<or> \<not> IsObject v then Some new_Impression
      else Option.bind (GetObject v) (\<lambda>m. for_members (impression_member rnd un) m new_Impression))"

definition rapid_Geo :: "Value \<Rightarrow> Geo option option" where
  "rapid_Geo v =
     (if IsNull v \<or> \<not> IsObject v then Some None
      else Option.bind (GetObject v) (\<lambda>m.
        Option.bind (member_value m ''city'') (\<lambda>city.
        Option.bind (member_value m ''country'') (\<lambda>country.
        Option.bind (GetString city) (\<lambda>s1.
        Option.bind (GetString country) (\<lambda>s2. Some (Some (new_Geo\<lparr>geo_city := s1, geo_country := s2\<rparr>))))))))"

definition rapid_User :: "Value \<Rightarrow> User option option" where
  "rapid_User v =
     (if IsNull v \<or> \<not> IsObject v then Some None
      else Option.bind (GetObject v) (\<lambda>m.
        Option.bind (Option.bind (member_value m ''geo'') rapid_Geo) (\<lambda>geo. Some (Some (new_User\<lparr>user_geo := geo\<rparr>)))))"

definition rapid_Site :: "uninitialized \<Rightarrow> Value \<Rightarrow> Site option option" where
  "rapid_Site un v =
     (if IsNull v \<or> \<not> IsObject v then Some None
      else Option.bind (GetObject v) (\<lambda>m.
        Option.bind (member_value m ''id'') (\<lambda>id'.
        Option.bind (member_value m ''ref'') (\<lambda>ref.
        Option.bind (GetString id') (\<lambda>s1.
        Option.bind (GetString ref) (\<lambda>s2. Some (Some ((new_Site (un_privacypolicy un))\<lparr>site_id := s1, site_ref := s2\<rparr>))))))))"

definition request_member :: "rounding \<Rightarrow> uninitialized \<Rightarrow> string \<Rightarrow> Value \<Rightarrow> BidRequest \<Rightarrow> BidRequest option" where
  "request_member rnd un name v request =
     (if length name = 2 \<and> same_name name ''id'' then map_option (\<lambda>s. request\<lparr>brq_id := s\<rparr>) (GetString v)
      else if same_name name ''imp'' then map_option (\<lambda>x. request\<lparr>brq_imp := x\<rparr>) (rapid_vector (rapid_Impression rnd un) v)
      else if same_name name ''user'' then map_option (\<lambda>x. request\<lparr>brq_user := x\<rparr>) (rapid_User v)
      else if same_name name ''site'' then map_option (\<lambda>x. request\<lparr>brq_site := x\<rparr>) (rapid_Site un v)
      else Some request)"

definition rapid_BidRequest :: "rounding \<Rightarrow> uninitialized \<Rightarrow> Value \<Rightarrow> BidRequest option" where
  "rapid_BidRequest rnd un d =
     (if IsNull d \<or> \<not> IsObject d then Some (new_BidRequest (un_at un))
      else Option.bind (GetObject d) (\<lambda>m. for_members (request_member rnd un) m (new_BidRequest (un_at un))))"

text \<open>The mapper: the document of the thread is cleared, so that it is null before it is parsed into.\<close>

definition rapid_extract :: "rounding \<Rightarrow> uninitialized \<Rightarrow> string \<Rightarrow> BidRequest option" where
  "rapid_extract rnd un bid_request = Option.bind (Document_Parse rnd V_Null bid_request) (rapid_BidRequest rnd un)"

section \<open>What the writer writes the reader reads\<close>

lemma unescapes_char:
  assumes "unescapes raw out"
  shows "unescapes (escape_char c @ raw) (c # out)"
proof -
  let ?n = "of_char c :: nat"
  consider "?n \<in> {8, 9, 10, 12, 13, 34, 92}" | "?n < 32" "?n \<notin> {8, 9, 10, 12, 13}" | "32 \<le> ?n" "?n \<noteq> 34" "?n \<noteq> 92" by force
  then show ?thesis
  proof cases
    case 1
    then have "c \<in> char_of ` {8, 9, 10, 12, 13, 34, 92 :: nat}" by (metis char_of_char imageI)
    moreover have "char_of ` {8, 9, 10, 12, 13, 34, 92 :: nat} = {CHR 0x08, CHR 0x09, CHR 0x0A, CHR 0x0C, CHR 0x0D, CHR 0x22, CHR 0x5C}"
      by code_simp
    ultimately have "c \<in> {CHR 0x08, CHR 0x09, CHR 0x0A, CHR 0x0C, CHR 0x0D, CHR 0x22, CHR 0x5C}" by blast
    then obtain d where "escape_char c = [CHR 0x5C, d]" "escape_of d = Some c"
      by (auto simp: escape_char_def escape_table_def escape_of_def)
    then show ?thesis using raw_escape [OF _ assms] by simp
  next
    case 2
    define u where "u = [CHR ''0'', CHR ''0'', hexDigits ! (?n div 16), hexDigits ! (?n mod 16)]"
    have "\<forall>n \<in> set [0..<32]. let u = [CHR ''0'', CHR ''0'', hexDigits ! (n div 16), hexDigits ! (n mod 16)]
        in hex4 u \<and> hex4_number u = n \<and> UTF8_Encode n = [char_of n]"
      by code_simp
    then have u: "hex4 u" "hex4_number u = ?n" "UTF8_Encode ?n = [c]" using 2(1) by (auto simp: Let_def u_def)
    have "escape_char c = CHR 0x5C # CHR ''u'' # u" using 2 by (simp add: escape_char_def escape_table_def u_def)
    then show ?thesis using raw_unicode [OF u(1) _ assms] 2(1) u(2,3) by (simp add: high_surrogate_def)
  next
    case 3
    then have "c \<notin> {CHR 0x22, CHR 0x5C}" by auto
    moreover have "escape_char c = [c]" using 3 by (simp add: escape_char_def escape_table_def)
    ultimately show ?thesis using raw_plain [OF _ _ assms, of c] 3(1) by simp
  qed
qed

lemma unescapes_escape [simp]: "unescapes (escape s) s"
  by (induction s) (simp_all add: raw_Nil unescapes_char)

lemma unescapes_plain: "\<forall>c \<in> set s. c \<notin> {CHR 0x22, CHR 0x5C} \<and> 0x20 \<le> (of_char c :: nat) \<Longrightarrow> unescapes s s"
  by (induction s) (auto intro: raw_Nil raw_plain)

lemma prim_event_int: "- (2 ^ 63) \<le> i \<Longrightarrow> i < 2 ^ 64 \<Longrightarrow> prim_event rnd (int_text i) = Some (int_event i)"
proof -
  assume i: "- (2 ^ 63) \<le> i" "i < 2 ^ 64"
  have "number_chars (int_text i)"
    using to_string_digits by (auto simp: number_chars_def int_text_def quiet_def)
  then show ?thesis using number_not_literal [of "int_text i"] read_int [OF i, of rnd] by (simp add: prim_event_def)
qed

lemma int_event_value: "- (2 ^ 31) \<le> i \<Longrightarrow> i < 2 ^ 31 \<Longrightarrow> GetInt (leaf_value (int_event i)) = Some i"
  by (auto simp: int_event_def Value_int_def Value_unsigned_def)

section \<open>Printed requests\<close>

text \<open>The members of a request that these extractors know, as a JSON value, with every string escaped.\<close>

definition rapid_imp_json :: "(double \<Rightarrow> string) \<Rightarrow> Impression \<Rightarrow> json" where
  "rapid_imp_json dbl i = J_obj ([(''id'', J_str (escape (imp_id i)))] @
     (case imp_banner i of None \<Rightarrow> [] | Some b \<Rightarrow> [(''banner'', banner_json b)]) @
     [(''bidfloor'', J_prim (dbl (imp_bidfloor i))), (''bidfloorcur'', J_str (escape (imp_bidfloorcur i)))])"

definition rapid_geo_json :: "Geo \<Rightarrow> json" where
  "rapid_geo_json g = J_obj [(''city'', J_str (escape (geo_city g))), (''country'', J_str (escape (geo_country g)))]"

definition rapid_user_json :: "User \<Rightarrow> json" where
  "rapid_user_json u = J_obj (case user_geo u of None \<Rightarrow> [] | Some g \<Rightarrow> [(''geo'', rapid_geo_json g)])"

definition rapid_site_json :: "Site \<Rightarrow> json" where
  "rapid_site_json s = J_obj [(''id'', J_str (escape (site_id s))), (''ref'', J_str (escape (site_ref s)))]"

definition rapid_request_json :: "(double \<Rightarrow> string) \<Rightarrow> BidRequest \<Rightarrow> json" where
  "rapid_request_json dbl r = J_obj ([(''id'', J_str (escape (brq_id r))), (''imp'', J_arr (map (rapid_imp_json dbl) (brq_imp r)))] @
     (case brq_user r of None \<Rightarrow> [] | Some u \<Rightarrow> [(''user'', rapid_user_json u)]) @
     (case brq_site r of None \<Rightarrow> [] | Some s \<Rightarrow> [(''site'', rapid_site_json s)]))"

definition rapid_site_view :: "uninitialized \<Rightarrow> Site \<Rightarrow> Site" where
  "rapid_site_view un s = (new_Site (un_privacypolicy un))\<lparr>site_id := site_id s, site_ref := site_ref s\<rparr>"

definition rapid_request_view :: "uninitialized \<Rightarrow> BidRequest \<Rightarrow> BidRequest" where
  "rapid_request_view un r = (request_view un r)\<lparr>brq_site := map_option (rapid_site_view un) (brq_site r)\<rparr>"

text \<open>The same as trees, and as values of the document.\<close>

definition banner_tree :: "Banner \<Rightarrow> tree" where
  "banner_tree b = T_obj [(''h'', T_leaf (int_event (uint (bn_h b)))), (''w'', T_leaf (int_event (uint (bn_w b)))),
     (''pos'', T_leaf (int_event (AdPosition_code (bn_pos b))))]"

definition imp_tree :: "Impression \<Rightarrow> tree" where
  "imp_tree i = T_obj ([(''id'', T_leaf (Ev_String (imp_id i)))] @
     (case imp_banner i of None \<Rightarrow> [] | Some b \<Rightarrow> [(''banner'', banner_tree b)]) @
     [(''bidfloor'', T_leaf (Ev_Double (imp_bidfloor i))), (''bidfloorcur'', T_leaf (Ev_String (imp_bidfloorcur i)))])"

definition geo_tree :: "Geo \<Rightarrow> tree" where
  "geo_tree g = T_obj [(''city'', T_leaf (Ev_String (geo_city g))), (''country'', T_leaf (Ev_String (geo_country g)))]"

definition user_tree :: "User \<Rightarrow> tree" where
  "user_tree u = T_obj (case user_geo u of None \<Rightarrow> [] | Some g \<Rightarrow> [(''geo'', geo_tree g)])"

definition site_tree :: "Site \<Rightarrow> tree" where
  "site_tree s = T_obj [(''id'', T_leaf (Ev_String (site_id s))), (''ref'', T_leaf (Ev_String (site_ref s)))]"

definition request_tree :: "BidRequest \<Rightarrow> tree" where
  "request_tree r = T_obj ([(''id'', T_leaf (Ev_String (brq_id r))), (''imp'', T_arr (map imp_tree (brq_imp r)))] @
     (case brq_user r of None \<Rightarrow> [] | Some u \<Rightarrow> [(''user'', user_tree u)]) @
     (case brq_site r of None \<Rightarrow> [] | Some s \<Rightarrow> [(''site'', site_tree s)]))"

lemma reads_string [simp]: "reads rnd (J_str (escape s)) (T_leaf (Ev_String s))"
  by (simp add: reads_str)

lemma reads_int: "- (2 ^ 63) \<le> i \<Longrightarrow> i < 2 ^ 64 \<Longrightarrow> reads rnd (J_prim (int_text i)) (T_leaf (int_event i))"
  by (rule reads_prim [OF prim_event_int])

lemma plain_names [simp]: "unescapes ''id'' ''id''" "unescapes ''imp'' ''imp''" "unescapes ''user'' ''user''" "unescapes ''site'' ''site''"
  "unescapes ''banner'' ''banner''" "unescapes ''bidfloor'' ''bidfloor''" "unescapes ''bidfloorcur'' ''bidfloorcur''"
  "unescapes ''geo'' ''geo''" "unescapes ''city'' ''city''" "unescapes ''country'' ''country''" "unescapes ''ref'' ''ref''"
  "unescapes ''h'' ''h''" "unescapes ''w'' ''w''" "unescapes ''pos'' ''pos''"
  by (rule unescapes_plain, simp)+

lemma u16_int [simp]: "reads rnd (J_prim (int_text (uint w))) (T_leaf (int_event (uint w)))"
  "GetInt (leaf_value (int_event (uint w))) = Some (uint w)" for w :: u16
proof -
  have r: "0 \<le> uint w" "uint w < 2 ^ 16" using uint_lt2p [of w] by simp_all
  have p: "- (2 ^ 63) \<le> uint w" "- (2 ^ 31) \<le> uint w" "uint w < 2 ^ 31" "uint w < 2 ^ 64"
    by (rule order_trans [OF _ r(1)], simp)+ (use r(2) in simp_all)
  show "reads rnd (J_prim (int_text (uint w))) (T_leaf (int_event (uint w)))" by (rule reads_int [OF p(1,4)])
  show "GetInt (leaf_value (int_event (uint w))) = Some (uint w)" by (rule int_event_value [OF p(2,3)])
qed

lemma AdPosition_range: "- 128 \<le> AdPosition_code p \<and> AdPosition_code p < 128"
  by (cases p) simp_all

lemma reads_banner: "reads rnd (banner_json b) (banner_tree b)"
  using AdPosition_range [of "bn_pos b"] unfolding banner_json_def banner_tree_def by (intro reads_obj) (simp add: reads_int)

lemma reads_user: "reads rnd (rapid_user_json u) (user_tree u)"
  unfolding rapid_user_json_def user_tree_def rapid_geo_json_def geo_tree_def
  by (intro reads_obj) (auto intro!: reads_obj split: option.splits)

lemma reads_site: "reads rnd (rapid_site_json s) (site_tree s)"
  unfolding rapid_site_json_def site_tree_def by (intro reads_obj) simp

text \<open>The law of the printer: the number read from the text of a number is this number.\<close>

locale double_text =
  fixes rnd :: rounding and dbl :: "double \<Rightarrow> string" and printable :: "double \<Rightarrow> bool"
  assumes read: "printable d \<Longrightarrow> prim_event rnd (dbl d) = Some (Ev_Double d)"
begin

lemma reads_imp: "printable (imp_bidfloor i) \<Longrightarrow> reads rnd (rapid_imp_json dbl i) (imp_tree i)"
  unfolding rapid_imp_json_def imp_tree_def
  by (intro reads_obj) (auto simp: reads_banner reads_prim [OF read] split: option.splits)

lemma reads_request:
  assumes "\<forall>i \<in> set (brq_imp r). printable (imp_bidfloor i)"
  shows "reads rnd (rapid_request_json dbl r) (request_tree r)"
proof -
  have "reads rnd (J_arr (map (rapid_imp_json dbl) (brq_imp r))) (T_arr (map imp_tree (brq_imp r)))"
    using assms by (intro reads_arr) (simp add: list_all2_map1 list_all2_map2 list.rel_refl_strong reads_imp)
  then show ?thesis unfolding rapid_request_json_def request_tree_def
    by (intro reads_obj) (auto simp: reads_user reads_site split: option.splits)
qed

end

text \<open>What is extracted from these values.\<close>

lemma rapid_banner: "rapid_Banner un (tree_value (banner_tree b)) = Some (Some (banner_view un b))"
  using int_event_value [of "AdPosition_code (bn_pos b)"] AdPosition_range [of "bn_pos b"]
  by (simp add: rapid_Banner_def banner_tree_def IsNull_def IsObject_def member_value_def banner_view_def)

lemma rapid_imp: "rapid_Impression rnd un (tree_value (imp_tree i)) = Some (imp_view un i)"
  by (cases "imp_banner i")
    (simp_all add: rapid_Impression_def imp_tree_def IsNull_def IsObject_def impression_member_def same_name_def rapid_banner
      Value_double_def imp_view_def new_Impression_def)

lemma rapid_user: "user_geo u \<noteq> None \<Longrightarrow> rapid_User (tree_value (user_tree u)) = Some (Some (user_view u))"
  by (auto simp: rapid_User_def rapid_Geo_def user_tree_def geo_tree_def IsNull_def IsObject_def member_value_def user_view_def geo_view_def)

lemma rapid_site: "rapid_Site un (tree_value (site_tree s)) = Some (Some (rapid_site_view un s))"
  by (simp add: rapid_Site_def site_tree_def IsNull_def IsObject_def member_value_def rapid_site_view_def)

lemma transform_values_map: "(\<And>x. x \<in> set xs \<Longrightarrow> f (g x) = Some (h x)) \<Longrightarrow> transform_values f (map g xs) = Some (map h xs)"
  by (induction xs) simp_all

lemma rapid_request:
  assumes "\<forall>u. brq_user r = Some u \<longrightarrow> user_geo u \<noteq> None"
  shows "rapid_BidRequest rnd un (tree_value (request_tree r)) = Some (rapid_request_view un r)"
proof -
  have "rapid_vector (rapid_Impression rnd un) (V_Array (map (\<lambda>x. tree_value (imp_tree x)) (brq_imp r))) = Some (map (imp_view un) (brq_imp r))"
    by (simp add: rapid_vector_def IsNull_def IsArray_def transform_values_map rapid_imp)
  then show ?thesis
    using assms by (cases "brq_user r"; cases "brq_site r")
      (simp_all add: rapid_BidRequest_def request_tree_def IsNull_def IsObject_def request_member_def same_name_def rapid_user rapid_site
        comp_def rapid_request_view_def request_view_def new_BidRequest_def)
qed

lemma blank_no_null: "blank w \<Longrightarrow> CHR 0x00 \<notin> set w"
  by (auto simp: blank_def white_def)

lemma text_no_null:
  "json_text v p \<Longrightarrow> CHR 0x00 \<notin> set p"
  "elements_text vs b \<Longrightarrow> CHR 0x00 \<notin> set b"
  "members_text ms b' \<Longrightarrow> CHR 0x00 \<notin> set b'"
proof -
  have n: "char_int (CHR 0x00) = 0" by code_simp
  have p: "prim_text s \<Longrightarrow> CHR 0x00 \<notin> set s" for s using n by (auto simp: prim_text_def)
  have h: "\<not> hex_digit (CHR 0x00)" using n by (simp add: hex_digit_def)
  have b: "str_body s \<Longrightarrow> CHR 0x00 \<notin> set s" for s
  proof (induction s rule: str_body.induct)
    case (2 c cs)
    show ?case
    proof (cases "c = CHR 0x5C")
      case True
      then obtain d ds where c: "cs = d # ds" using 2(4) by (cases cs) auto
      show ?thesis
      proof (cases "simple_escape d")
        case True
        then show ?thesis using 2 c \<open>c = CHR 0x5C\<close> by (auto simp: simple_escape_def)
      next
        case False
        then have "CHR 0x00 \<notin> set (drop 4 ds)" "\<forall>x \<in> set (take 4 ds). hex_digit x" "d = CHR ''u''"
          using 2 c \<open>c = CHR 0x5C\<close> by auto
        moreover have "set ds = set (take 4 ds) \<union> set (drop 4 ds)" by (metis append_take_drop_id set_append)
        ultimately show ?thesis using h c \<open>c = CHR 0x5C\<close> by auto
      qed
    qed (use 2 in auto)
  qed simp
  show "json_text v p \<Longrightarrow> CHR 0x00 \<notin> set p" "elements_text vs b \<Longrightarrow> CHR 0x00 \<notin> set b" "members_text ms b' \<Longrightarrow> CHR 0x00 \<notin> set b'"
    by (induction rule: json_text_elements_text_members_text.inducts) (auto simp: quoted_def blank_no_null p b)
qed

section \<open>Amounts\<close>

text \<open>Amounts with two decimals that are doubles are printed by \<^term>\<open>cents_text\<close> so that they are read back.\<close>

definition exact_cents :: "double \<Rightarrow> bool" where
  "exact_cents d \<longleftrightarrow> whole_cents d \<and> d * 100 < 2 ^ 53 \<and> exact_double d"

sublocale rounding \<subseteq> cents: double_text rnd cents_text exact_cents
proof
  fix d assume d: "exact_cents d"
  define n where "n = nat \<lfloor>d * 100\<rfloor>"
  let ?ds = "[digit_char (n div 10 mod 10), digit_char (n mod 10)]"
  have w: "0 \<le> d" "of_int \<lfloor>d * 100\<rfloor> = d * 100" "d * 100 < 2 ^ 53" using d by (simp_all add: exact_cents_def whole_cents_def)
  then have n: "of_nat n = d * 100" by (simp add: n_def)
  then have "of_nat n < (of_nat (2 ^ 53) :: rat)" using w(3) by simp
  then have "n < 2 ^ 53" by (simp only: of_nat_less_iff)
  moreover have v: "dec_from (n div 100) ?ds = n"
    using two_digits [of n] by simp
  ultimately have "read_number rnd (to_string (n div 100) @ CHR ''.'' # ?ds) = Inr ([], Ev_Double (rnd (of_nat n / 10 ^ 2)))"
    using read_fraction [of ?ds "n div 100"] by (simp add: numeral_2_eq_2)
  moreover have "rnd (of_nat n / 10 ^ 2) = d" using n d exact [of d] by (simp add: exact_cents_def)
  ultimately have "read_number rnd (cents_text d) = Inr ([], Ev_Double d)"
    by (simp add: cents_text_def Let_def n_def)
  moreover have "number_chars (cents_text d)"
  proof -
    have "number_chars (to_string k)" for k using to_string_digits by (intro digits_number_chars) blast
    moreover have "digits ?ds" by simp
    then have "number_chars ?ds" by (rule digits_number_chars)
    ultimately show ?thesis by (simp add: cents_text_def Let_def quiet_def flip: n_def)
  qed
  ultimately show "prim_event rnd (cents_text d) = Some (Ev_Double d)"
    using number_not_literal [of "cents_text d"] by (simp add: prim_event_def)
qed

lemma cents_prim_text: "prim_text (cents_text d)"
proof -
  have "is_digit_char c \<Longrightarrow> \<not> quiet c" for c by (simp add: quiet_def)
  moreover have "\<not> quiet (CHR ''.'')" by code_simp
  ultimately have "number_chars (cents_text d)"
    using to_string_digits by (auto simp: number_chars_def cents_text_def Let_def)
  then show ?thesis by (rule number_prim_text) (simp add: cents_text_def Let_def)
qed

section \<open>What the mapper extracts\<close>

lemma extract_text:
  assumes "json_text v p" and "reads rnd v t" and "blank w1" and "blank w2"
  shows "rapid_extract rnd un (w1 @ p @ w2) = rapid_BidRequest rnd un (tree_value t)"
proof -
  have "CHR 0x00 \<notin> set (w1 @ p @ w2)"
    using text_no_null(1) [OF assms(1)] blank_no_null [OF assms(3)] blank_no_null [OF assms(4)] by simp
  then have "Document_Parse rnd V_Null (w1 @ p @ w2) = Some (tree_value t)" by (rule document_text [OF assms])
  then show ?thesis by (simp only: rapid_extract_def Option.bind.bind_lunit)
qed

lemma printed_request_read:
  assumes "double_text rnd dbl printable" and "\<forall>i \<in> set (brq_imp r). printable (imp_bidfloor i)"
    and "\<forall>u. brq_user r = Some u \<longrightarrow> user_geo u \<noteq> None"
    and "json_text (rapid_request_json dbl r) txt" and "blank w1" and "blank w2"
  shows "rapid_extract rnd un (w1 @ txt @ w2) = Some (rapid_request_view un r)"
  using extract_text [OF assms(4) double_text.reads_request [OF assms(1,2)] assms(5,6)] rapid_request [OF assms(3)] by simp

text \<open>
  C9: a bid request printed as JSON is read back by the mapper of the bidders, for any strings, any white space and
  any number of impressions, if its user, where it has one, has a location: the members its extractors know are those of the
  request. A user without a location would end the process in a failed assertion. The printer of floating-point
  numbers only has to print what the reader rounds to the same number again.
\<close>

theorem rapid_extract_printed:
  assumes "double_text rnd dbl printable" and "\<forall>i \<in> set (brq_imp r). printable (imp_bidfloor i)"
    and "\<forall>u. brq_user r = Some u \<longrightarrow> user_geo u \<noteq> None"
    and "json_text (rapid_request_json dbl r) txt" and "blank w1" and "blank w2"
  shows "rapid_extract rnd un (w1 @ txt @ w2) = Some (rapid_request_view un r)"
  by (rule printed_request_read [OF assms])

lemma example_rapid_ok: "json_ok (rapid_request_json cents_text example_request)"
  by code_simp

lemma example_printable: "\<forall>i \<in> set (brq_imp example_request). exact_cents (imp_bidfloor i)"
proof -
  have "exact_double (1 / 2)" unfolding exact_double_def by (rule exI [of _ 1], rule exI [of _ 1]) simp
  then show ?thesis by (simp add: example_request_def exact_cents_def whole_cents_def)
qed

lemma example_user_geo: "\<forall>u. brq_user example_request = Some u \<longrightarrow> user_geo u \<noteq> None"
  by (simp add: example_request_def)

theorem rapid_extract_printed_witness:
  "rapid_extract round_double example_uninitialized ('' '' @ print_json (rapid_request_json cents_text example_request) @ []) =
     Some example_request"
proof -
  have "rapid_request_view example_uninitialized example_request = example_request"
    by (simp add: rapid_request_view_def request_view_def example_request_def example_uninitialized_def imp_view_def banner_view_def
        user_view_def geo_view_def new_BidRequest_def new_Banner_def new_Impression_def new_User_def new_Geo_def)
  moreover have "blank '' ''" by (simp add: blank_def white_def)
  ultimately show ?thesis
    using rapid_extract_printed [OF double_precision.cents.double_text_axioms example_printable example_user_geo
        print_json_text(1) [OF example_rapid_ok] _ blank_Nil, of "'' ''" example_uninitialized] by simp
qed

text \<open>
  C28: a text that is not JSON is no error for this mapper: parsing leaves the document null, and the extractor takes
  it for a request without any members. The handlers, which answer a request they cannot parse, never see one.
\<close>

theorem malformed_request_silent:
  assumes "Parse rnd document_put text (Some []) = Inl (Parse_error code offset)"
  shows "rapid_extract rnd un text = Some (new_BidRequest (un_at un))"
  using assms by (simp add: rapid_extract_def Document_Parse_def rapid_BidRequest_def IsNull_def)

theorem malformed_request_silent_witness:
  "rapid_extract round_double example_uninitialized ''not JSON'' = Some (new_BidRequest AT_FIRST_PRICE)"
proof -
  have "Parse round_double document_put ''not JSON'' (Some []) = Inl (Parse_error kParseErrorValueInvalid 1)"
    by (simp add: Parse_def Let_def skip_whitespace_def reader_fuel_def ParseValue.simps ParseNull_def literal_def eval_nat_numeral)
  from malformed_request_silent [OF this, of example_uninitialized] show ?thesis by (simp add: example_uninitialized_def)
qed

lemma for_members_None: "(V_String k, v) \<in> set ms \<Longrightarrow> (\<And>st. f k v st = None) \<Longrightarrow> for_members f ms st = None"
proof (induction ms arbitrary: st)
  case (Cons m ms)
  obtain k' v' where m: "m = (k', v')" by (cases m)
  show ?case
  proof (cases "m = (V_String k, v)")
    case False
    then have "for_members f ms st' = None" for st' using Cons by simp
    then show ?thesis by (simp add: m split: option.splits) (metis bind_eq_None_conv)
  qed (use Cons.prems(2) in simp)
qed simp

text \<open>
  A request with a user object that has no \<^verbatim>\<open>geo\<close> member fails an assertion of the document, wherever the user
  stands in the request, and whatever its other members are: the extractor looks the member up without asking
  whether there is one.
\<close>

theorem user_without_geo_aborts:
  assumes "json_text v p" and "reads rnd v t" and "blank w1" and "blank w2"
    and "tree_value t = V_Object ms" and "(V_String ''user'', V_Object us) \<in> set ms" and "FindMember us ''geo'' = Some None"
  shows "rapid_extract rnd un (w1 @ p @ w2) = None"
proof -
  have "request_member rnd un ''user'' (V_Object us) st = None" for st
    using assms(7) by (simp add: request_member_def same_name_def rapid_User_def IsNull_def IsObject_def member_value_def)
  from for_members_None [where f = "request_member rnd un", OF assms(6) this] show ?thesis
    by (simp add: extract_text [OF assms(1-4)] rapid_BidRequest_def assms(5) IsNull_def IsObject_def)
qed

theorem user_without_geo_aborts_witness:
  "rapid_extract round_double example_uninitialized ([] @ ''{\"user\":{}}'' @ []) = None"
proof -
  let ?v = "J_obj [(''user'', J_obj [])]" and ?t = "T_obj [(''user'', T_obj [])]"
  have "json_ok ?v" by code_simp
  then have 1: "json_text ?v ''{\"user\":{}}''" using print_json_text(1) [of ?v] by (simp add: quoted_def)
  have "reads round_double (J_obj []) (T_obj [])" by (rule reads_obj) simp
  then have 2: "reads round_double ?v ?t" by (intro reads_obj) simp
  show ?thesis
    using user_without_geo_aborts [OF 1 2 blank_Nil blank_Nil, of "[(V_String ''user'', V_Object [])]" "[]" example_uninitialized] by simp
qed

end
