(* ===== verification/Bidding_Service.thy ===== *)
theory Bidding_Service
  imports Exchange_Handler Auction_Service Rapid_Mapper Http_Connection
begin

text \<open>
  The bidder as it is deployed: \<^verbatim>\<open>examples/bidder/http_bidder_test.cpp\<close> puts together the bidder by location, the
  handler with its decision table, the mapper over the documents of rapidjson, the dispatcher with the expressions of the
  program and the persistent connections of \<^verbatim>\<open>rtb/exchange/exchange_server.hpp\<close>. The theorem follows the bytes of
  any number of posted requests on a connection to the bytes of the replies.
\<close>

section \<open>The program\<close>

text \<open>
  What the program takes from outside: the rounding of the reader, the contents of uninitialised members, the printer of
  floating-point numbers, the time of a bid in microseconds and the configured time limit in milliseconds.
\<close>

record bidder_env =
  env_rnd :: "rat \<Rightarrow> double"
  env_un :: uninitialized
  env_dtoa :: "double \<Rightarrow> string"
  env_elapsed :: int
  env_timeout :: int

datatype bid_failure = Bid_undefined select_error | Out_of_range | Bad_function_call

definition rapid_dsl :: "bidder_env \<Rightarrow> BidRequest \<Rightarrow> dsl" where
  "rapid_dsl env req = \<lparr>dsl_extract = (\<lambda>_. Inr req), dsl_create = create_response (env_dtoa env)\<rparr>"

text \<open>The auction of the program: the bidder of the thread.\<close>

definition bidder_auction :: "('u \<Rightarrow> string \<times> 'u) \<Rightarrow> ('a, 'g, 'c, 'b) BidderCaches \<Rightarrow> ('u Bidder, bid_failure) auction_handler_type" where
  "bidder_auction uuid bc req b = (case bid uuid bc req b of Inl e \<Rightarrow> Inl (Bid_undefined e) | Inr rb \<Rightarrow> Inr rb)"

text \<open>The value \<^term>\<open>None\<close> is a failed assertion of the document; a text that is read never throws.\<close>

definition bidder_post :: "bidder_env \<Rightarrow> ('u \<Rightarrow> string \<times> 'u) \<Rightarrow> ('a, 'g, 'c, 'b) BidderCaches \<Rightarrow> string \<Rightarrow> reply \<Rightarrow> 'u Bidder \<Rightarrow>
    (bid_failure + (reply \<times> 'u Bidder)) option" where
  "bidder_post env uuid bc text r b =
     (case rapid_extract (env_rnd env) (env_un env) text of
        None \<Rightarrow> None
      | Some req \<Rightarrow>
          (let parser = rapid_dsl env req
           in handle_post parser (env_elapsed env) text r
                (http_bidder_handler Out_of_range Bad_function_call parser (env_elapsed env) (env_timeout env) (bidder_auction uuid bc)) b))"

text \<open>The process serves requests until an assertion or an exception ends it.\<close>

datatype 'u process_state = Running "'u Bidder" | Thrown bid_failure | Aborted

definition bid_route :: "bidder_env \<Rightarrow> ('u \<Rightarrow> string \<times> 'u) \<Rightarrow> ('a, 'g, 'c, 'b) BidderCaches \<Rightarrow>
    (reply \<times> 'u process_state, 'what) request_handler_type" where
  "bid_route env uuid bc rs match =
     (case rs of
        (r, Running b) \<Rightarrow>
          (case bidder_post env uuid bc (match_data match) r b of
             None \<Rightarrow> (r, Aborted)
           | Some (Inl e) \<Rightarrow> (r, Thrown e)
           | Some (Inr (r', b')) \<Rightarrow> (r', Running b'))
      | _ \<Rightarrow> rs)"

definition test_route :: "(reply \<times> 'u process_state, 'what) request_handler_type" where
  "test_route rs match = (case rs of (r, p) \<Rightarrow> (reply_flush (reply_append r ''test'') ''text'', p))"

definition bid_expression :: string where "bid_expression = ''/bid/('' @ CHR 0x5C # ''d+)''"
definition test_expression :: string where "test_expression = ''/test/''"

definition bidder_dispatcher :: "bidder_env \<Rightarrow> ('u \<Rightarrow> string \<times> 'u) \<Rightarrow> ('a, 'g, 'c, 'b) BidderCaches \<Rightarrow> string \<Rightarrow>
    (string, reply \<times> 'u process_state, string list) crud_dispatcher" where
  "bidder_dispatcher env uuid bc base_path =
     crud_match test_expression (on_post test_route) (crud_match bid_expression (on_post (bid_route env uuid bc)) (new_dispatcher base_path))"

definition bidder_handle :: "(string \<Rightarrow> string \<Rightarrow> string list option) \<Rightarrow>
    (string, reply \<times> 'u process_state, string list) crud_dispatcher \<times> 'u process_state \<Rightarrow> request \<Rightarrow> reply \<Rightarrow>
    ((string, reply \<times> 'u process_state, string list) crud_dispatcher \<times> 'u process_state) \<times> reply" where
  "bidder_handle rx h req rep =
     (case h of (d, p) \<Rightarrow>
       (let (d', rep', p') = handle_request_regex rx req d (rep, p) in ((d', p'), rep')))"

section \<open>Responses that can be written\<close>

definition groups_ok :: "BidResponse \<Rightarrow> bool" where
  "groups_ok r \<longleftrightarrow> (\<forall>s \<in> set (brs_seatbid r). int_ok (sb_group s))"

lemma push_bid_groups:
  assumes "\<forall>s \<in> set seats. int_ok (sb_group s)"
  shows "\<forall>s \<in> set (push_bid b seats). int_ok (sb_group s)"
proof (cases seats rule: rev_cases)
  case Nil
  then show ?thesis by (simp add: push_bid_def new_SeatBid_def int_ok_def Let_def)
next
  case (snoc xs x)
  with assms show ?thesis by (auto simp: push_bid_def Let_def)
qed

lemma respond_groups:
  assumes "respond g request imp ad (u, r) = (u', r')" and "groups_ok r"
  shows "groups_ok r'"
proof (cases ad)
  case None
  with assms show ?thesis by (simp add: respond_def)
next
  case (Some a)
  obtain uuid where "brs_seatbid r' = push_bid (make_bid uuid imp a) (brs_seatbid r)"
    using assms(1) Some by (auto simp: respond_def addBid_def Let_def split_beta)
  with assms(2) push_bid_groups show ?thesis by (simp add: groups_ok_def)
qed

lemma bid_loop_groups:
  "bid_loop (buildImpResponse g bc req) imps b = Inr b' \<Longrightarrow> groups_ok (bd_response b) \<Longrightarrow> groups_ok (bd_response b')"
proof (induction imps arbitrary: b)
  case (Cons imp imps)
  then obtain b1 where b1: "buildImpResponse g bc req imp b = Inr b1" "bid_loop (buildImpResponse g bc req) imps b1 = Inr b'"
    by (auto split: sum.splits)
  obtain ad s where "select bc req imp (bd_selector b) = Inr (ad, s)" using b1(1) by (auto simp: buildImpResponse_def split: sum.splits)
  with b1(1) have "respond g req imp ad (bd_uuid b, bd_response b) = (bd_uuid b1, bd_response b1)"
    by (auto simp: buildImpResponse_def Let_def split_beta prod_eq_iff)
  from respond_groups [OF this Cons.prems(2)] have "groups_ok (bd_response b1)" .
  with Cons.IH [OF b1(2)] show ?case .
qed simp

lemma bid_groups: "bid g bc req b = Inr (resp, b') \<Longrightarrow> groups_ok resp"
  using bid_loop_groups [of g bc req "brq_imp req" "b\<lparr>bd_response := BidResponse_clear (bd_response b)\<rparr>"]
  by (auto simp: bid_def groups_ok_def new_BidResponse_def split: sum.splits)

lemma ad_size_ok: "int_ok (uint (n :: u16))"
proof -
  have "uint n < 2 ^ 16" using uint_lt2p [of n] by simp
  then show ?thesis using order_trans [of "- (2 ^ 31)" 0 "uint n"] by (simp add: int_ok_def)
qed

lemma offered_bids_ok:
  assumes "map bid_content (all_bids resp) = map offered_content won" and "groups_ok resp" and "\<forall>d. prim_text (dtoa d)"
  shows "response_ok dtoa resp"
proof -
  have "bid_ok dtoa b" if b: "b \<in> set (all_bids resp)" for b
  proof -
    have "bid_content b \<in> set (map offered_content won)" unfolding assms(1) [symmetric] using b by simp
    then show ?thesis using assms(3) ad_size_ok by (auto simp: bid_content_def offered_content_def bid_ok_def)
  qed
  then show ?thesis using assms(2) by (auto simp: response_ok_def groups_ok_def all_bids_def)
qed

section \<open>A posted request\<close>

text \<open>The response to a request: the best offer for every impression that has one.\<close>

definition offers_of :: "('a, 'g, 'c, 'b) BidderCaches \<Rightarrow> BidRequest \<Rightarrow> BidResponse \<Rightarrow> bool" where
  "offers_of bc req resp \<longleftrightarrow>
     (\<exists>won. map fst won = filter (\<lambda>imp. \<exists>e. targeted bc req (the (imp_banner imp)) e) (brq_imp req) \<and>
       (\<forall>(imp, ad) \<in> set won. best_offer bc req (the (imp_banner imp)) ad) \<and>
       map bid_content (all_bids resp) = map offered_content won \<and>
       length (brs_seatbid resp) = (if won = [] then 0 else 1))"

definition in_time :: "bidder_env \<Rightarrow> bool" where
  "in_time env \<longleftrightarrow> env_elapsed env + 1000 \<le> 1000 * env_timeout env"

definition bid_reply :: "bidder_env \<Rightarrow> BidResponse \<Rightarrow> reply \<Rightarrow> reply" where
  "bid_reply env resp r =
     reply_flush (if in_time env then reply_append r (print_json (response_json (env_dtoa env) resp)) else r) ''json''"

lemma bidder_post_reply:
  assumes "rapid_extract (env_rnd env) (env_un env) text = Some req" and "brq_tmax req = 0"
    and "\<forall>imp \<in> set (brq_imp req). imp_banner imp \<noteq> None" and "as_selection_alg (bd_selector b) = None"
    and "\<forall>d. prim_text (env_dtoa env d)"
  shows "\<exists>resp b'. bid uuid bc req b = Inr (resp, b') \<and> offers_of bc req resp \<and> response_ok (env_dtoa env) resp \<and>
    bidder_post env uuid bc text r b = Some (Inr (bid_reply env resp r, b'))"
proof -
  from best_offers_bid [OF assms(4,3), of uuid bc] obtain resp b' won where b: "bid uuid bc req b = Inr (resp, b')" and
    won: "map fst won = filter (\<lambda>imp. \<exists>e. targeted bc req (the (imp_banner imp)) e) (brq_imp req)"
      "\<forall>(imp, ad) \<in> set won. best_offer bc req (the (imp_banner imp)) ad"
      "map bid_content (all_bids resp) = map offered_content won" "length (brs_seatbid resp) = (if won = [] then 0 else 1)" by blast
  have ok: "response_ok (env_dtoa env) resp" by (rule offered_bids_ok [OF won(3) bid_groups [OF b] assms(5)])
  let ?p = "rapid_dsl env req" and ?f = "bidder_auction uuid bc"
  let ?h = "auction_async ?f (error_logger (\<lambda>_ s. s) (logger (\<lambda>_ s. s) (new_exchange_handler (env_timeout env))))"
  have t: "(env_timeout env * 1000 - env_elapsed env) div 1000 > 0 \<longleftrightarrow> in_time env"
    by (auto simp: in_time_def zdiv_int pos_imp_zdiv_pos_iff)
  have f: "?f req b = Inr (resp, b')" by (simp add: bidder_auction_def b)
  have "handle_post ?p (env_elapsed env) text r
      ((http_bidder_handler Out_of_range Bad_function_call ?p (env_elapsed env) (env_timeout env) ?f)\<lparr>eh_decision := None\<rparr>) b =
      Some (Inr (bid_reply env resp r, b'))"
    using f create_response_text [OF ok]
    by (simp add: http_bidder_handler_def Let_def decision_def handle_post_def handle_post_common_def rapid_dsl_def run_log_def
        auction_async_def error_logger_def logger_def new_exchange_handler_def handle_auction_async_def auction_timeout_def
        assms(2) t timely_reply_def bid_reply_def)
  then have "bidder_post env uuid bc text r b = Some (Inr (bid_reply env resp r, b'))"
    by (simp add: bidder_post_def assms(1) Let_def decision_transparent)
  with b ok won show ?thesis unfolding offers_of_def by blast
qed

lemma bid_keeps_alg:
  assumes "bid uuid bc req b = Inr (resp, b')" and "as_selection_alg (bd_selector b) = None"
  shows "as_selection_alg (bd_selector b') = None"
proof -
  have s: "select bc req imp s = Inr (ad, s') \<Longrightarrow> as_selection_alg s' = as_selection_alg s" for imp s ad s'
    by (auto simp: select_def getGeoCampaigns_def getCampaignAds_def Let_def split_beta split: option.splits sum.splits if_splits)
  have l: "bid_loop (buildImpResponse uuid bc req) imps b1 = Inr b2 \<Longrightarrow> as_selection_alg (bd_selector b2) = as_selection_alg (bd_selector b1)"
    for imps b1 b2
  proof (induction imps arbitrary: b1)
    case (Cons imp imps)
    then obtain b' where b': "buildImpResponse uuid bc req imp b1 = Inr b'" "bid_loop (buildImpResponse uuid bc req) imps b' = Inr b2"
      by (auto split: sum.splits)
    then obtain ad s' where "select bc req imp (bd_selector b1) = Inr (ad, s')" "bd_selector b' = s'"
      by (auto simp: buildImpResponse_def Let_def split_beta split: sum.splits)
    with s Cons.IH [OF b'(2)] show ?case by simp
  qed simp
  from assms(1) l [of "brq_imp req" "b\<lparr>bd_response := BidResponse_clear (bd_response b)\<rparr>"] assms(2) show ?thesis
    by (auto simp: bid_def split: sum.splits)
qed

section \<open>A session of posted requests\<close>

text \<open>The library's matcher of regular expressions, as far as the program relies on it.\<close>

definition bidder_regex :: "(string \<Rightarrow> string \<Rightarrow> string list option) \<Rightarrow> bool" where
  "bidder_regex rx \<longleftrightarrow>
     (\<forall>n. n \<noteq> [] \<and> list_all is_digit_char n \<longrightarrow> rx (''/bid/'' @ n) bid_expression \<noteq> None \<and> rx (''/bid/'' @ n) test_expression = None)"

definition posts :: "(double \<Rightarrow> string) \<Rightarrow> BidRequest \<Rightarrow> request \<Rightarrow> bool" where
  "posts dbl bq r \<longleftrightarrow> complete_message r \<and> req_method r = ''POST'' \<and>
     (\<exists>n. n \<noteq> [] \<and> list_all is_digit_char n \<and> req_uri r = ''/bid/'' @ n) \<and>
     (\<exists>w1 txt w2. blank w1 \<and> json_text (rapid_request_json dbl bq) txt \<and> blank w2 \<and> req_data r = w1 @ txt @ w2)"

definition biddable :: "(double \<Rightarrow> bool) \<Rightarrow> BidRequest \<Rightarrow> bool" where
  "biddable printable bq \<longleftrightarrow> (\<forall>i \<in> set (brq_imp bq). imp_banner i \<noteq> None \<and> printable (imp_bidfloor i)) \<and>
     (\<forall>u. brq_user bq = Some u \<longrightarrow> user_geo u \<noteq> None)"

definition answers :: "bidder_env \<Rightarrow> ('a, 'g, 'c, 'b) BidderCaches \<Rightarrow> BidRequest \<Rightarrow> string \<Rightarrow> bool" where
  "answers env bc bq out \<longleftrightarrow>
     (\<exists>resp r body. offers_of bc (rapid_request_view (env_un env) bq) resp \<and>
       body = (if in_time env then print_json (response_json (env_dtoa env) resp) else []) \<and>
       rep_status r = Ok \<and> rep_content r = body \<and>
       rep_headers r = [\<lparr>hdr_name = ''Content-Length'', hdr_value = to_string (length body)\<rparr>,
         \<lparr>hdr_name = ''Content-Type'', hdr_value = extension_to_type ''json''\<rparr>] \<and>
       out = concat (to_buffers (keep_alive r)))"

definition bidder_table :: "bidder_env \<Rightarrow> ('u \<Rightarrow> string \<times> 'u) \<Rightarrow> ('a, 'g, 'c, 'b) BidderCaches \<Rightarrow>
    (string, reply \<times> 'u process_state, string list) crud_dispatcher \<Rightarrow> bool" where
  "bidder_table env uuid bc d \<longleftrightarrow> effective_table d = effective_table (bidder_dispatcher env uuid bc [])"

lemma expressions_ordered: "test_expression \<noteq> bid_expression" "\<not> test_expression < bid_expression"
  by code_simp+

lemma bidder_dispatcher_table:
  "effective_table (bidder_dispatcher env uuid bc p) =
     [(bid_expression, [''POST'' \<mapsto> bid_route env uuid bc]), (test_expression, [''POST'' \<mapsto> test_route])]"
  using expressions_ordered
  by (simp add: effective_table_def bidder_dispatcher_def crud_match_def new_dispatcher_def new_matcher_def on_post_def
      on_method_def live_handler_def fun_eq_iff)

lemma reply_flush_fields:
  assumes "rep_headers r = []"
  shows "rep_status (reply_flush r e) = Ok" "rep_content (reply_flush r e) = rep_content r"
    "rep_headers (reply_flush r e) = [\<lparr>hdr_name = ''Content-Length'', hdr_value = to_string (length (rep_content r))\<rparr>,
       \<lparr>hdr_name = ''Content-Type'', hdr_value = extension_to_type e\<rparr>]"
  using assms by (simp_all add: reply_flush_def flush_impl_def numeral_2_eq_2 [symmetric])

lemma post_dispatched:
  assumes "bidder_regex rx" and "bidder_table env uuid bc d" and "posts dbl bq r"
    and "bidder_post env uuid bc (req_data r) rep b = Some (Inr (rep', b'))"
  shows "\<exists>d'. bidder_handle rx (d, Running b) (received r) rep = ((d', Running b'), rep') \<and> bidder_table env uuid bc d'"
proof -
  obtain n where n: "n \<noteq> []" "list_all is_digit_char n" "req_uri r = ''/bid/'' @ n" "req_method r = ''POST''"
    using assms(3) by (auto simp: posts_def)
  have "c_str (req_uri r) = req_uri r"
    using n(2) by (auto simp: c_str_def n(3) list_all_iff is_digit_char_def char_int_def takeWhile_eq_all_conv)
  then have u: "c_str (req_uri (received r)) = req_uri r" by (simp add: received_def)
  obtain y where y: "rx (req_uri r) bid_expression = Some y" "rx (req_uri r) test_expression = None"
    using assms(1) n(1,2) unfolding n(3) bidder_regex_def by blast
  have p: "req_method (received r) = ''POST''" "req_data (received r) = req_data r" using n(4) by (simp_all add: received_def)
  have "snd (handle_request_regex rx (received r) d (rep, Running b)) = (rep', Running b')"
    unfolding handle_request_regex_def split_beta Let_def snd_conv dispatch_loop_response calls_effective
      effective_table_def [symmetric] assms(2) [unfolded bidder_table_def] bidder_dispatcher_table u
    by (simp add: y p bid_route_def assms(4))
  moreover have "effective_table (fst (handle_request_regex rx (received r) d (rep, Running b))) = effective_table d"
    by (simp add: handle_request_regex_def effective_table_def split_beta dispatch_loop_effective Let_def)
  ultimately show ?thesis using assms(2) by (auto simp: bidder_handle_def bidder_table_def split_beta prod_eq_iff)
qed

lemma posted_bid_answered:
  assumes "double_text (env_rnd env) dbl printable" and "\<forall>d. prim_text (env_dtoa env d)" and "bidder_regex rx"
    and "bidder_table env uuid bc d" and "posts dbl bq r" and "biddable printable bq" and "as_selection_alg (bd_selector b) = None"
    and "rep_headers rep = []" and "rep_content rep = []"
  shows "\<exists>d' b' rep'. bidder_handle rx (d, Running b) (received r) rep = ((d', Running b'), rep') \<and> bidder_table env uuid bc d' \<and>
    as_selection_alg (bd_selector b') = None \<and> answers env bc bq (concat (to_buffers (keep_alive rep')))"
proof -
  let ?req = "rapid_request_view (env_un env) bq"
  obtain w1 t w2 where w: "blank w1" "json_text (rapid_request_json dbl bq) t" "blank w2" "req_data r = w1 @ t @ w2"
    using assms(5) by (auto simp: posts_def)
  have x: "rapid_extract (env_rnd env) (env_un env) (req_data r) = Some ?req"
    using printed_request_read [OF assms(1) _ _ w(2,1,3)] assms(6) by (simp add: w(4) biddable_def)
  have "brq_tmax ?req = 0" "\<forall>imp \<in> set (brq_imp ?req). imp_banner imp \<noteq> None"
    using assms(6) by (auto simp: rapid_request_view_def request_view_def new_BidRequest_def biddable_def imp_view_def)
  from bidder_post_reply [OF x this assms(7,2), of uuid bc rep] obtain resp b' where
    b: "bid uuid bc ?req b = Inr (resp, b')" "offers_of bc ?req resp"
      "bidder_post env uuid bc (req_data r) rep b = Some (Inr (bid_reply env resp rep, b'))" by blast
  let ?r = "if in_time env then reply_append rep (print_json (response_json (env_dtoa env) resp)) else rep"
  have h: "rep_headers ?r = []" "rep_content ?r = (if in_time env then print_json (response_json (env_dtoa env) resp) else [])"
    using assms(8,9) by (simp_all add: reply_append_def)
  have "answers env bc bq (concat (to_buffers (keep_alive (bid_reply env resp rep))))"
    unfolding answers_def using b(2) reply_flush_fields [OF h(1), of "''json''"] h(2)
    by (intro exI [of _ resp] exI [of _ "bid_reply env resp rep"]) (simp add: bid_reply_def)
  with post_dispatched [OF assms(3-5) b(3)] bid_keeps_alg [OF b(1) assms(7)] show ?thesis by blast
qed

text \<open>
  C1: on a persistent connection of the bidder, every posted request gets its answer, and the process goes on. This is
  shown for any number of requests that each arrive whole in one segment, posted to \<^verbatim>\<open>/bid/\<close> and a number, with a body that is
  a bid request printed as JSON with any white space, in which every impression has a banner and the user, if there is one, has a
  location. Every reply has status 200 and its exact length. If the auction took less than the time limit, which is the same
  input for all requests, its body is the JSON text of a response that offers, for each impression with a targeted ad, one of
  the best, at price zero if nothing is authorised for any; if the auction took longer, its body is empty. The dispatcher, the
  decision table, the mapper and the selectors are those of the program; what an earlier request left in them makes no
  difference.
\<close>

theorem bid_session_answered:
  assumes "double_text (env_rnd env) dbl printable" and "\<forall>d. prim_text (env_dtoa env d)" and "bidder_regex rx"
    and "lexical_cast_ok lexical_cast" and "bidder_table env uuid bc d" and "as_selection_alg (bd_selector b) = None"
    and "list_all2 (posts dbl) bqs rs" and "list_all (biddable printable) bqs" and "ready c" and "c_reply c = new_reply g"
  shows "\<exists>d' b' outs. persistent_session lexical_cast (bidder_handle rx) (d, Running b) c (map message_bytes rs) =
      Inr ((d', Running b'), outs) \<and> list_all2 (answers env bc) bqs outs"
proof -
  have "list_all complete_message rs"
    using assms(7) by (induction rule: list_all2_induct) (simp_all add: posts_def)
  note s = persistent_session_spec [OF this assms(9,4), where handle = "bidder_handle rx" and h = "(d, Running b)"]
  have "\<exists>d' b' outs. session_spec (bidder_handle rx) (d, Running b) (new_reply g) rs = ((d', Running b'), outs) \<and>
      list_all2 (answers env bc) bqs outs"
    using assms(7,8,5,6)
  proof (induction arbitrary: d b g rule: list_all2_induct)
    case (Cons bq bqs r rs)
    have n: "rep_headers (new_reply g) = []" "rep_content (new_reply g) = []" by (simp_all add: new_reply_def)
    have "biddable printable bq" using Cons.prems(1) by simp
    from posted_bid_answered [OF assms(1-3) Cons.prems(2) Cons.hyps(1) this Cons.prems(3) n] obtain d1 b1 rep1 where
      1: "bidder_handle rx (d, Running b) (received r) (new_reply g) = ((d1, Running b1), rep1)" "bidder_table env uuid bc d1"
        "as_selection_alg (bd_selector b1) = None" "answers env bc bq (concat (to_buffers (keep_alive rep1)))" by blast
    from Cons.IH [OF _ 1(2,3), of Ok] Cons.prems(1) obtain d2 b2 outs where
      "session_spec (bidder_handle rx) (d1, Running b1) (new_reply Ok) rs = ((d2, Running b2), outs)"
      "list_all2 (answers env bc) bqs outs" by auto
    with 1 show ?case by simp
  qed simp
  then show ?thesis unfolding s assms(10) by auto
qed

definition example_env :: bidder_env where
  "example_env = \<lparr>env_rnd = round_double, env_un = example_uninitialized, env_dtoa = cents_text, env_elapsed = 2000, env_timeout = 50\<rparr>"

definition example_regex :: "string \<Rightarrow> string \<Rightarrow> string list option" where
  "example_regex u e = (if e = bid_expression \<and> take 5 u = ''/bid/'' \<and> drop 5 u \<noteq> [] \<and> list_all is_digit_char (drop 5 u)
     then Some [u, drop 5 u] else None)"

definition example_post :: request where
  "example_post = (let body = print_json (rapid_request_json cents_text example_request)
     in \<lparr>req_method = ''POST'', req_uri = ''/bid/1'', http_version_major = 1, http_version_minor = 1,
          req_headers = [\<lparr>hdr_name = ''Content-Length'', hdr_value = to_string (length body)\<rparr>], req_data = body\<rparr>)"

lemma example_post_complete: "complete_message example_post"
  by code_simp

theorem bid_session_answered_witness:
  "\<exists>d' b' out1 out2. persistent_session dec_cast (bidder_handle example_regex)
      (bidder_dispatcher example_env (\<lambda>u. (''uuid'', u)) sample_caches [], Running (new_Bidder () NBR_UNKNOWN_ERROR))
      (new_connection [] 0 0 Ok) [message_bytes example_post, message_bytes example_post] = Inr ((d', Running b'), [out1, out2]) \<and>
    answers example_env sample_caches example_request out1 \<and> answers example_env sample_caches example_request out2"
proof -
  have n: "test_expression \<noteq> bid_expression" by code_simp
  have e: "env_rnd example_env = round_double" "env_dtoa example_env = cents_text" by (simp_all add: example_env_def)
  have rx: "bidder_regex example_regex" by (simp add: bidder_regex_def example_regex_def n)
  have p: "posts cents_text example_request example_post"
    unfolding posts_def
    by (intro conjI example_post_complete exI [of _ "''1''"] exI [of _ "[]"] blank_Nil print_json_text(1) [OF example_rapid_ok]
        exI [of _ "print_json (rapid_request_json cents_text example_request)"])
      (simp_all add: example_post_def Let_def is_digit_char_def char_int_def)
  have b: "biddable exact_cents example_request"
    using example_printable example_user_geo by (simp add: biddable_def example_request_def)
  have r: "ready (new_connection [] 0 0 Ok)" "c_reply (new_connection [] 0 0 Ok) = new_reply Ok"
    by (simp_all add: ready_def new_connection_def empty_request_def)
  have "as_selection_alg (bd_selector (new_Bidder () NBR_UNKNOWN_ERROR)) = None" by (simp add: new_Bidder_def new_AdSelector_def)
  from bid_session_answered [where env = example_env and dbl = cents_text and bqs = "[example_request, example_request]"
      and rs = "[example_post, example_post]", unfolded e, OF double_precision.cents.double_text_axioms _ rx dec_cast_ok _ this _ _ r,
      of "\<lambda>u. (''uuid'', u)" sample_caches "bidder_dispatcher example_env (\<lambda>u. (''uuid'', u)) sample_caches []"] p b
  show ?thesis by (auto simp: cents_prim_text bidder_table_def list_all2_Cons1)
qed

end
