(* ===== verification/Rapid_Iterative.thy ===== *)
theory Rapid_Iterative
  imports Rapid_Grammar
begin

text \<open>
  The second parser of \<^verbatim>\<open>rapidjson/reader.h\<close>: \<open>IterativeParse\<close> keeps the open objects and arrays on a stack of its
  own, where the first one uses the stack of the processor, and is driven by a table of states and tokens. The theorem
  says in which cases the two parsers do the same.
\<close>

section \<open>States and tokens\<close>

datatype IterativeParsingState = IterativeParsingFinishState | IterativeParsingErrorState | IterativeParsingStartState
  | IterativeParsingObjectInitialState | IterativeParsingMemberKeyState | IterativeParsingMemberValueState
  | IterativeParsingObjectFinishState | IterativeParsingArrayInitialState | IterativeParsingElementState
  | IterativeParsingArrayFinishState | IterativeParsingValueState | IterativeParsingElementDelimiterState
  | IterativeParsingMemberDelimiterState | IterativeParsingKeyValueDelimiterState

datatype Token = LeftBracketToken | RightBracketToken | LeftCurlyBracketToken | RightCurlyBracketToken | CommaToken
  | ColonToken | StringToken | FalseToken | TrueToken | NullToken | NumberToken

definition Tokenize :: "char \<Rightarrow> Token" where
  "Tokenize c =
     (if c = CHR 0x22 then StringToken else if c = CHR '','' then CommaToken else if c = CHR '':'' then ColonToken
      else if c = CHR ''['' then LeftBracketToken else if c = CHR '']'' then RightBracketToken
      else if c = CHR ''f'' then FalseToken else if c = CHR ''n'' then NullToken else if c = CHR ''t'' then TrueToken
      else if c = CHR ''{'' then LeftCurlyBracketToken else if c = CHR ''}'' then RightCurlyBracketToken
      else NumberToken)"

text \<open>The rows of the table that are not all errors; the row of a value starts with brackets and ends with scalars.\<close>

definition value_row :: "IterativeParsingState \<Rightarrow> IterativeParsingState \<Rightarrow> Token \<Rightarrow> IterativeParsingState" where
  "value_row right_bracket scalar token =
     (case token of
        LeftBracketToken \<Rightarrow> IterativeParsingArrayInitialState
      | RightBracketToken \<Rightarrow> right_bracket
      | LeftCurlyBracketToken \<Rightarrow> IterativeParsingObjectInitialState
      | RightCurlyBracketToken \<Rightarrow> IterativeParsingErrorState
      | CommaToken \<Rightarrow> IterativeParsingErrorState
      | ColonToken \<Rightarrow> IterativeParsingErrorState
      | StringToken \<Rightarrow> scalar
      | FalseToken \<Rightarrow> scalar
      | TrueToken \<Rightarrow> scalar
      | NullToken \<Rightarrow> scalar
      | NumberToken \<Rightarrow> scalar)"

definition Predict :: "IterativeParsingState \<Rightarrow> Token \<Rightarrow> IterativeParsingState" where
  "Predict state token =
     (case state of
        IterativeParsingStartState \<Rightarrow> value_row IterativeParsingErrorState IterativeParsingValueState token
      | IterativeParsingObjectInitialState \<Rightarrow>
          (case token of RightCurlyBracketToken \<Rightarrow> IterativeParsingObjectFinishState
           | StringToken \<Rightarrow> IterativeParsingMemberKeyState | _ \<Rightarrow> IterativeParsingErrorState)
      | IterativeParsingMemberKeyState \<Rightarrow>
          (case token of ColonToken \<Rightarrow> IterativeParsingKeyValueDelimiterState | _ \<Rightarrow> IterativeParsingErrorState)
      | IterativeParsingMemberValueState \<Rightarrow>
          (case token of RightCurlyBracketToken \<Rightarrow> IterativeParsingObjectFinishState
           | CommaToken \<Rightarrow> IterativeParsingMemberDelimiterState | _ \<Rightarrow> IterativeParsingErrorState)
      | IterativeParsingArrayInitialState \<Rightarrow> value_row IterativeParsingArrayFinishState IterativeParsingElementState token
      | IterativeParsingElementState \<Rightarrow>
          (case token of RightBracketToken \<Rightarrow> IterativeParsingArrayFinishState
           | CommaToken \<Rightarrow> IterativeParsingElementDelimiterState | _ \<Rightarrow> IterativeParsingErrorState)
      | IterativeParsingElementDelimiterState \<Rightarrow> value_row IterativeParsingArrayFinishState IterativeParsingElementState token
      | IterativeParsingMemberDelimiterState \<Rightarrow>
          (case token of RightCurlyBracketToken \<Rightarrow> IterativeParsingObjectFinishState
           | StringToken \<Rightarrow> IterativeParsingMemberKeyState | _ \<Rightarrow> IterativeParsingErrorState)
      | IterativeParsingKeyValueDelimiterState \<Rightarrow> value_row IterativeParsingErrorState IterativeParsingMemberValueState token
      | _ \<Rightarrow> IterativeParsingErrorState)"

section \<open>Transitions\<close>

text \<open>
  The stack of the reader holds a state and a counter for each open container. Top and pop of an empty stack are a
  failure; a predicted error leaves the text where it is.
\<close>

type_synonym frames = "(IterativeParsingState \<times> nat) list"

definition state_above :: "IterativeParsingState \<Rightarrow> IterativeParsingState" where
  "state_above src =
     (if src = IterativeParsingArrayInitialState \<or> src = IterativeParsingElementDelimiterState then IterativeParsingElementState
      else if src = IterativeParsingKeyValueDelimiterState then IterativeParsingMemberValueState
      else src)"

definition open_container :: "'h handler \<Rightarrow> sax_event \<Rightarrow> IterativeParsingState \<Rightarrow> IterativeParsingState \<Rightarrow> frames \<Rightarrow> string \<Rightarrow> 'h \<Rightarrow>
    (IterativeParsingState \<times> frames \<times> 'h) reading" where
  "open_container put e src dst stk s h =
     proceed (emit put e h (length s) (tl s)) (\<lambda>s' h'. Inr (s', dst, (state_above src, 0) # stk, h'))"

definition count_item :: "IterativeParsingState \<Rightarrow> frames \<Rightarrow> string \<Rightarrow> 'h \<Rightarrow> (IterativeParsingState \<times> frames \<times> 'h) reading" where
  "count_item dst stk s h =
     (case stk of [] \<Rightarrow> Inl Assertion_failed | (n, c) # below \<Rightarrow> Inr (tl s, dst, (n, Suc c) # below, h))"

definition close_container :: "'h handler \<Rightarrow> (nat \<Rightarrow> sax_event) \<Rightarrow> IterativeParsingState \<Rightarrow> IterativeParsingState \<Rightarrow> ParseErrorCode \<Rightarrow>
    IterativeParsingState \<Rightarrow> frames \<Rightarrow> string \<Rightarrow> 'h \<Rightarrow> (IterativeParsingState \<times> frames \<times> 'h) reading" where
  "close_container put e delimiter item code src stk s h =
     (if src = delimiter then Inl (Parse_error code (length s))
      else (case stk of
              [] \<Rightarrow> Inl Assertion_failed
            | (n, c) # below \<Rightarrow>
                let c' = (if src = item then Suc c else c);
                    n' = (if n = IterativeParsingStartState then IterativeParsingFinishState else n)
                in proceed (emit put (e c') h (length s) (tl s)) (\<lambda>s' h'. Inr (s', n', below, h'))))"

text \<open>A value that is no container.\<close>

definition scalar_value :: "rounding \<Rightarrow> 'h handler \<Rightarrow> IterativeParsingState \<Rightarrow> frames \<Rightarrow> string \<Rightarrow> 'h \<Rightarrow>
    (IterativeParsingState \<times> frames \<times> 'h) reading" where
  "scalar_value rnd put dst stk s h = proceed (ParseValue rnd put (reader_fuel s) s h) (\<lambda>s' h'. Inr (s', dst, stk, h'))"

definition Transit :: "rounding \<Rightarrow> 'h handler \<Rightarrow> IterativeParsingState \<Rightarrow> Token \<Rightarrow> IterativeParsingState \<Rightarrow> frames \<Rightarrow> string \<Rightarrow> 'h \<Rightarrow>
    (IterativeParsingState \<times> frames \<times> 'h) reading" where
  "Transit rnd put src token dst stk s h =
     (case dst of
        IterativeParsingErrorState \<Rightarrow> Inr (s, dst, stk, h)
      | IterativeParsingObjectInitialState \<Rightarrow> open_container put Ev_StartObject src dst stk s h
      | IterativeParsingArrayInitialState \<Rightarrow> open_container put Ev_StartArray src dst stk s h
      | IterativeParsingMemberKeyState \<Rightarrow> proceed (ParseString put True s h) (\<lambda>s' h'. Inr (s', dst, stk, h'))
      | IterativeParsingKeyValueDelimiterState \<Rightarrow>
          if token = ColonToken then Inr (tl s, dst, stk, h) else Inl Assertion_failed
      | IterativeParsingMemberValueState \<Rightarrow> scalar_value rnd put dst stk s h
      | IterativeParsingElementState \<Rightarrow> scalar_value rnd put dst stk s h
      | IterativeParsingMemberDelimiterState \<Rightarrow> count_item dst stk s h
      | IterativeParsingElementDelimiterState \<Rightarrow> count_item dst stk s h
      | IterativeParsingObjectFinishState \<Rightarrow>
          close_container put Ev_EndObject IterativeParsingMemberDelimiterState IterativeParsingMemberValueState
            kParseErrorObjectMissName src stk s h
      | IterativeParsingArrayFinishState \<Rightarrow>
          close_container put Ev_EndArray IterativeParsingElementDelimiterState IterativeParsingElementState
            kParseErrorValueInvalid src stk s h
      | IterativeParsingValueState \<Rightarrow> scalar_value rnd put IterativeParsingFinishState stk s h
      | _ \<Rightarrow> Inl Assertion_failed)"

definition HandleError :: "IterativeParsingState \<Rightarrow> nat \<Rightarrow> failure" where
  "HandleError src left =
     (case src of
        IterativeParsingStartState \<Rightarrow> Parse_error kParseErrorDocumentEmpty left
      | IterativeParsingFinishState \<Rightarrow> Parse_error kParseErrorDocumentRootNotSingular left
      | IterativeParsingObjectInitialState \<Rightarrow> Parse_error kParseErrorObjectMissName left
      | IterativeParsingMemberDelimiterState \<Rightarrow> Parse_error kParseErrorObjectMissName left
      | IterativeParsingMemberKeyState \<Rightarrow> Parse_error kParseErrorObjectMissColon left
      | IterativeParsingMemberValueState \<Rightarrow> Parse_error kParseErrorObjectMissCommaOrCurlyBracket left
      | IterativeParsingKeyValueDelimiterState \<Rightarrow> Parse_error kParseErrorValueInvalid left
      | IterativeParsingArrayInitialState \<Rightarrow> Parse_error kParseErrorValueInvalid left
      | IterativeParsingElementDelimiterState \<Rightarrow> Parse_error kParseErrorValueInvalid left
      | IterativeParsingElementState \<Rightarrow> Parse_error kParseErrorArrayMissCommaOrSquareBracket left
      | _ \<Rightarrow> Assertion_failed)"

section \<open>The loop\<close>

lemma Tokenize_String [simp]: "Tokenize c = StringToken \<longleftrightarrow> c = CHR 0x22"
  by (simp add: Tokenize_def)

lemma Predict_MemberKey: "Predict state t = IterativeParsingMemberKeyState \<Longrightarrow> t = StringToken"
  by (cases t) (simp_all add: Predict_def value_row_def split: IterativeParsingState.splits)

lemma returns_scalar: "returns (length s) (scalar_value rnd put d stk s h)"
  unfolding scalar_value_def
  by (rule returns_proceed) (use returns_parse_all [of "reader_fuel s" rnd put] in \<open>auto simp: reader_fuel_def\<close>)

lemma returns_taken: "peek s \<noteq> CHR 0x00 \<Longrightarrow> (\<And>t x. returns (Suc (length t)) (f t x)) \<Longrightarrow> returns (length s) (proceed (emit put e h off (tl s)) f)"
  by (rule returns_proceed [OF returns_emit [OF tl_shorter]], assumption, rule returns_mono, blast) simp

lemma returns_close: "peek s \<noteq> CHR 0x00 \<Longrightarrow> returns (length s) (close_container put e dl it code src stk s h)"
  unfolding close_container_def Let_def by (auto intro!: returns_taken split: list.split)

lemma returns_open: "peek s \<noteq> CHR 0x00 \<Longrightarrow> returns (length s) (open_container put e src dst stk s h)"
  unfolding open_container_def by (rule returns_taken) simp_all

lemma Transit_returns:
  assumes "peek s \<noteq> CHR 0x00" and "Predict state (Tokenize (peek s)) \<noteq> IterativeParsingErrorState"
  shows "returns (length s) (Transit rnd put state (Tokenize (peek s)) (Predict state (Tokenize (peek s))) stk s h)"
proof (cases "Predict state (Tokenize (peek s)) = IterativeParsingMemberKeyState")
  case True
  then have q: "peek s = CHR 0x22" using Predict_MemberKey by fastforce
  show ?thesis unfolding Transit_def True
    by (simp, rule returns_proceed [OF returns_string [OF q]]) simp
next
  case False
  then show ?thesis using assms returns_scalar returns_close returns_open tl_shorter [OF assms(1)]
    by (cases "Predict state (Tokenize (peek s))") (auto simp: Transit_def count_item_def split: list.split)
qed

text \<open>Every turn of the loop consumes a character.\<close>

function IterativeLoop :: "rounding \<Rightarrow> 'h handler \<Rightarrow> IterativeParsingState \<Rightarrow> frames \<Rightarrow> string \<Rightarrow> 'h \<Rightarrow> failure + 'h" where
  "IterativeLoop rnd put state stk s h =
     (if peek s = CHR 0x00 then
        if state = IterativeParsingFinishState then Inr h else Inl (HandleError state (length s))
      else
        (let t = Tokenize (peek s); n = Predict state t
         in case Transit rnd put state t n stk s h of
              Inl f \<Rightarrow> Inl f
            | Inr (s', d, stk', h') \<Rightarrow>
                if d = IterativeParsingErrorState then Inl (HandleError state (length s'))
                else IterativeLoop rnd put d stk' (skip_whitespace s') h'))"
  by pat_completeness auto
termination
proof (relation "measure (\<lambda>(rnd, put, state, stk, s, h). length s)")
  fix rnd :: rounding and put :: "'h handler" and state stk s and h :: 'h and t n r r' s' d' d q stk' h'
  assume "peek s \<noteq> CHR 0x00" "t = Tokenize (peek s)" "n = Predict state t"
    "Transit rnd put state t n stk s h = Inr r" "(s', r') = r" "(d, q) = r'" "(stk', h') = q" "d \<noteq> IterativeParsingErrorState"
  moreover from this have "n \<noteq> IterativeParsingErrorState" by (auto simp: Transit_def)
  ultimately have "length s' < length s"
    using Transit_returns [of s state rnd put stk h] by (auto simp: returns_def)
  then show "((rnd, put, d, stk', skip_whitespace s', h'), rnd, put, state, stk, s, h) \<in> measure (\<lambda>(rnd, put, state, stk, s, h). length s)"
    using skip_length [of s'] by simp
qed simp

declare IterativeLoop.simps [simp del]

definition IterativeParse :: "rounding \<Rightarrow> 'h handler \<Rightarrow> string \<Rightarrow> 'h \<Rightarrow> failure + 'h" where
  "IterativeParse rnd put text h =
     (let s = takeWhile (\<lambda>c. c \<noteq> CHR 0x00) text
      in case IterativeLoop rnd put IterativeParsingStartState [] (skip_whitespace s) h of
           Inl (Parse_error code left) \<Rightarrow> Inl (Parse_error code (length s - left))
         | r \<Rightarrow> r)"

section \<open>The two parsers\<close>

text \<open>
  The handler stops the first parser after a bracket is taken, and the second one before: the offset of this error
  is masked.
\<close>

fun masked :: "failure + 'a \<Rightarrow> failure + 'a" where
  "masked (Inl (Parse_error code left)) = Inl (Parse_error code (if code = kParseErrorTermination then 0 else left))"
| "masked r = r"

definition continue :: "'a reading \<Rightarrow> (string \<Rightarrow> 'a \<Rightarrow> failure + 'b) \<Rightarrow> failure + 'b" where
  "continue r f = (case r of Inl e \<Rightarrow> Inl e | Inr (s, x) \<Rightarrow> f s x)"

lemma continue_simps [simp]: "continue (Inl e) f = Inl e" "continue (Inr (s, x)) f = f s x"
  by (simp_all add: continue_def)

lemma continue_proceed [simp]: "continue (proceed r f) g = continue r (\<lambda>s x. continue (f s x) g)"
  by (simp add: continue_def proceed_def split: sum.split)

lemma continue_mask: "(\<And>t x. r = Inr (t, x) \<Longrightarrow> masked (f t x) = masked (g t x)) \<Longrightarrow> masked (continue r f) = masked (continue r g)"
  by (auto simp: continue_def split: sum.split)

lemma emit_mask:
  assumes "\<And>x. masked (f s x) = masked (g s x)"
  shows "masked (continue (emit put e h l s) f) = masked (continue (emit put e h l' s) g)"
  using assms by (auto simp: emit_def split: prod.split)

definition after_value :: "IterativeParsingState \<Rightarrow> IterativeParsingState" where
  "after_value src = (if src = IterativeParsingStartState then IterativeParsingFinishState else state_above src)"

definition value_position :: "IterativeParsingState \<Rightarrow> char \<Rightarrow> bool" where
  "value_position src c \<longleftrightarrow>
     src = IterativeParsingStartState \<and> c \<notin> {CHR 0x00, CHR '']'', CHR ''}'', CHR '','', CHR '':''} \<or>
     src = IterativeParsingArrayInitialState \<and> c \<noteq> CHR '']'' \<or>
     src \<in> {IterativeParsingElementDelimiterState, IterativeParsingKeyValueDelimiterState}"

definition closed_state :: "IterativeParsingState \<Rightarrow> IterativeParsingState" where
  "closed_state n = (if n = IterativeParsingStartState then IterativeParsingFinishState else n)"

lemma loop_turn:
  assumes "peek s \<noteq> CHR 0x00" and "Predict src (Tokenize (peek s)) \<noteq> IterativeParsingErrorState"
  shows "IterativeLoop rnd put src stk s h =
    continue (Transit rnd put src (Tokenize (peek s)) (Predict src (Tokenize (peek s))) stk s h)
      (\<lambda>s' (d, stk', h'). if d = IterativeParsingErrorState then Inl (HandleError src (length s'))
         else IterativeLoop rnd put d stk' (skip_whitespace s') h')"
  using assms(1) by (subst IterativeLoop.simps) (simp add: Let_def continue_def split: sum.split)

lemma loop_error:
  assumes "peek s = CHR 0x00 \<or> Predict src (Tokenize (peek s)) = IterativeParsingErrorState" and "src \<noteq> IterativeParsingFinishState"
  shows "IterativeLoop rnd put src stk s h = Inl (HandleError src (length s))"
  using assms by (subst IterativeLoop.simps) (auto simp: Let_def Transit_def)

lemma number_error:
  assumes "peek s \<in> {CHR 0x00, CHR '']'', CHR ''}'', CHR '','', CHR '':''}" and "0 < m"
  shows "ParseValue rnd put m s h = Inl (Parse_error kParseErrorValueInvalid (length s))"
proof -
  obtain n where m: "m = Suc n" using assms(2) by (cases m) auto
  have "number_int neg s = Inl (Parse_error kParseErrorValueInvalid (length s))" for neg
    using assms(1) by (auto simp: number_int_def is_digit_char_def char_int_def)
  then have "ParseNumber rnd put s h = Inl (Parse_error kParseErrorValueInvalid (length s))"
    using assms(1) by (auto simp: ParseNumber_def read_number_def Consume_def number_phases_def)
  then show ?thesis using assms(1) by (auto simp: m ParseValue.simps [of rnd put "Suc n"])
qed

lemma scalar_fuel:
  assumes "peek s \<notin> {CHR ''{'', CHR ''[''}" and "0 < m" and "0 < k"
  shows "ParseValue rnd put m s h = ParseValue rnd put k s h"
  using assms by (auto simp: ParseValue.simps [of rnd put m] ParseValue.simps [of rnd put k] gr0_conv_Suc)

lemma value_scalar:
  assumes "value_position src (peek s)" and "peek s \<notin> {CHR ''{'', CHR ''[''}" and "0 < m"
  shows "IterativeLoop rnd put src stk s h =
    continue (ParseValue rnd put m s h) (\<lambda>t x. IterativeLoop rnd put (after_value src) stk (skip_whitespace t) x)"
proof (cases "peek s \<in> {CHR 0x00, CHR '']'', CHR ''}'', CHR '','', CHR '':''}")
  case True
  show ?thesis
  proof (cases "src = IterativeParsingElementDelimiterState \<and> peek s = CHR '']''")
    case True
    then show ?thesis using number_error [of s m rnd put h] assms(3)
      by (subst loop_turn) (auto simp: Predict_def value_row_def Tokenize_def Transit_def close_container_def)
  next
    case False
    have "HandleError src (length s) = Parse_error kParseErrorValueInvalid (length s)"
      using assms(1) True by (auto simp: value_position_def HandleError_def)
    moreover have "peek s = CHR 0x00 \<or> Predict src (Tokenize (peek s)) = IterativeParsingErrorState"
      using assms(1) True False by (auto simp: value_position_def Predict_def value_row_def Tokenize_def)
    moreover have "src \<noteq> IterativeParsingFinishState" using assms(1) by (auto simp: value_position_def)
    ultimately show ?thesis using loop_error [of s src rnd put stk h] number_error [OF True assms(3), of rnd put h] by simp
  qed
next
  case False
  then have p: "Predict src (Tokenize (peek s)) =
      (if src = IterativeParsingStartState then IterativeParsingValueState else state_above src)"
    "src \<in> {IterativeParsingStartState, IterativeParsingArrayInitialState, IterativeParsingElementDelimiterState, IterativeParsingKeyValueDelimiterState}"
    using assms(1,2) by (auto simp: value_position_def Predict_def value_row_def Tokenize_def state_above_def)
  have t: "Transit rnd put src (Tokenize (peek s)) (Predict src (Tokenize (peek s))) stk s h = scalar_value rnd put (after_value src) stk s h"
    using p(2) unfolding p(1) by (auto simp: Transit_def after_value_def state_above_def)
  have n: "after_value src \<noteq> IterativeParsingErrorState" "Predict src (Tokenize (peek s)) \<noteq> IterativeParsingErrorState"
    using p by (auto simp: after_value_def state_above_def)
  have z: "peek s \<noteq> CHR 0x00" using False by simp
  show ?thesis
    unfolding loop_turn [OF z n(2)] t scalar_value_def scalar_fuel [OF assms(2,3), of "reader_fuel s"]
    using n(1) scalar_fuel [OF assms(2,3), of "reader_fuel s" rnd put h] by (simp add: reader_fuel_def)
qed

text \<open>Opening a container: the event, and an empty container or the loop over its items.\<close>

lemma open_close:
  assumes "peek s \<noteq> CHR 0x00" and "initial \<in> {IterativeParsingObjectInitialState, IterativeParsingArrayInitialState}"
    and "Predict src (Tokenize (peek s)) = initial"
    and "Transit rnd put src (Tokenize (peek s)) initial stk s h = open_container put e src initial stk s h"
    and "close = (if initial = IterativeParsingObjectInitialState then CHR ''}'' else CHR '']'')"
    and "e' = (if initial = IterativeParsingObjectInitialState then Ev_EndObject 0 else Ev_EndArray 0)"
    and "\<And>u y. length u < length s \<Longrightarrow> peek u \<noteq> close \<Longrightarrow>
      masked (IterativeLoop rnd put initial ((state_above src, 0) # stk) u y) =
      masked (continue (loop u y) (\<lambda>t x. IterativeLoop rnd put (closed_state (state_above src)) stk (skip_whitespace t) x))"
    and "state_above src \<noteq> IterativeParsingErrorState"
  shows "masked (IterativeLoop rnd put src stk s h) =
    masked (continue (proceed (emit put e h off (tl s)) (\<lambda>s1 h1. let s2 = skip_whitespace s1
      in if peek s2 = close then emit put e' h1 (length (tl s2)) (tl s2) else loop s2 h1))
      (\<lambda>t x. IterativeLoop rnd put (closed_state (state_above src)) stk (skip_whitespace t) x))"
proof -
  have ne: "initial \<noteq> IterativeParsingErrorState" "closed_state (state_above src) \<noteq> IterativeParsingErrorState"
    using assms(2,8) by (auto simp: closed_state_def)
  have l: "length (skip_whitespace (tl s)) < length s" using skip_length [of "tl s"] tl_shorter [OF assms(1)] by simp
  let ?u = "skip_whitespace (tl s)"
  have empty: "masked (IterativeLoop rnd put initial ((state_above src, 0) # stk) ?u y) =
      masked (continue (emit put e' y (length (tl ?u)) (tl ?u))
        (\<lambda>t x. IterativeLoop rnd put (closed_state (state_above src)) stk (skip_whitespace t) x))" if c: "peek ?u = close" for y
  proof -
    have z: "peek ?u \<noteq> CHR 0x00" using c assms(5) by simp
    have p: "Predict initial (Tokenize (peek ?u)) =
        (if initial = IterativeParsingObjectInitialState then IterativeParsingObjectFinishState else IterativeParsingArrayFinishState)"
      using assms(2,5) c by (auto simp: Predict_def value_row_def Tokenize_def)
    have t: "Transit rnd put initial (Tokenize (peek ?u)) (Predict initial (Tokenize (peek ?u))) ((state_above src, 0) # stk) ?u y =
        proceed (emit put e' y (length ?u) (tl ?u)) (\<lambda>s' h'. Inr (s', closed_state (state_above src), stk, h'))"
      unfolding p using assms(2,6) by (auto simp: Transit_def close_container_def closed_state_def)
    have q: "Predict initial (Tokenize (peek ?u)) \<noteq> IterativeParsingErrorState" unfolding p by simp
    show ?thesis unfolding loop_turn [OF z q] t continue_proceed by (rule emit_mask) (simp add: ne)
  qed
  have q: "Predict src (Tokenize (peek s)) \<noteq> IterativeParsingErrorState" using assms(3) ne by simp
  show ?thesis
    unfolding loop_turn [OF assms(1) q] assms(3,4) open_container_def continue_proceed
    by (rule emit_mask) (use empty assms(7) [OF l] in \<open>auto simp: ne Let_def\<close>)
qed

text \<open>After an item: a comma leads to the next item, the closing bracket to the state below.\<close>

lemma after_item:
  assumes "(item, delimiter, close, code, mk) \<in>
      {(IterativeParsingMemberValueState, IterativeParsingMemberDelimiterState, CHR ''}'', kParseErrorObjectMissCommaOrCurlyBracket, Ev_EndObject),
       (IterativeParsingElementState, IterativeParsingElementDelimiterState, CHR '']'', kParseErrorArrayMissCommaOrSquareBracket, Ev_EndArray)}"
    and "\<And>u y. length u \<le> length t \<Longrightarrow>
      masked (IterativeLoop rnd put delimiter ((n, Suc c) # stk) u y) =
      masked (continue (loop u y) (\<lambda>t x. IterativeLoop rnd put (closed_state n) stk (skip_whitespace t) x))"
    and "n \<noteq> IterativeParsingErrorState"
  shows "masked (IterativeLoop rnd put item ((n, c) # stk) (skip_whitespace t) x) =
    masked (continue (next_item put close (mk (Suc c)) code loop t x) (\<lambda>t x. IterativeLoop rnd put (closed_state n) stk (skip_whitespace t) x))"
proof -
  let ?u = "skip_whitespace t"
  have ne: "closed_state n \<noteq> IterativeParsingErrorState" using assms(3) by (simp add: closed_state_def)
  consider (comma) "peek ?u = CHR '',''" | (close) "peek ?u = close" | (other) "peek ?u \<noteq> CHR '',''" "peek ?u \<noteq> close" by blast
  then show ?thesis
  proof cases
    case comma
    then have p: "Predict item (Tokenize (peek ?u)) = delimiter" "delimiter \<noteq> IterativeParsingErrorState"
      using assms(1) by (auto simp: Predict_def Tokenize_def)
    have q: "Predict item (Tokenize (peek ?u)) \<noteq> IterativeParsingErrorState" using p by simp
    have tr: "Transit rnd put item (Tokenize (peek ?u)) delimiter ((n, c) # stk) ?u x = Inr (tl ?u, delimiter, (n, Suc c) # stk, x)"
      using assms(1) by (auto simp: Transit_def count_item_def)
    have "length (skip_whitespace (tl ?u)) \<le> length t" using skip_length [of "tl ?u"] skip_length [of t] by simp
    note step = assms(2) [OF this, of x]
    have z: "peek ?u \<noteq> CHR 0x00" using comma by simp
    have "IterativeLoop rnd put item ((n, c) # stk) ?u x = IterativeLoop rnd put delimiter ((n, Suc c) # stk) (skip_whitespace (tl ?u)) x"
      unfolding loop_turn [OF z q] p(1) tr by (simp add: p(2))
    with step comma show ?thesis by (simp add: Let_def)
  next
    case close
    then have p: "Predict item (Tokenize (peek ?u)) =
        (if item = IterativeParsingMemberValueState then IterativeParsingObjectFinishState else IterativeParsingArrayFinishState)"
      using assms(1) by (auto simp: Predict_def Tokenize_def)
    have tr: "Transit rnd put item (Tokenize (peek ?u)) (Predict item (Tokenize (peek ?u))) ((n, c) # stk) ?u x =
        proceed (emit put (mk (Suc c)) x (length ?u) (tl ?u)) (\<lambda>s' h'. Inr (s', closed_state n, stk, h'))"
      unfolding p using assms(1) by (auto simp: Transit_def close_container_def closed_state_def)
    have q: "Predict item (Tokenize (peek ?u)) \<noteq> IterativeParsingErrorState" unfolding p by simp
    have z: "peek ?u \<noteq> CHR 0x00" and nc: "close \<noteq> CHR '',''" using close assms(1) by auto
    have "masked (IterativeLoop rnd put item ((n, c) # stk) ?u x) =
        masked (continue (emit put (mk (Suc c)) x (length (tl ?u)) (tl ?u)) (\<lambda>t x. IterativeLoop rnd put (closed_state n) stk (skip_whitespace t) x))"
      unfolding loop_turn [OF z q] tr continue_proceed by (rule emit_mask) (simp add: ne)
    then show ?thesis using close nc by (simp add: Let_def)
  next
    case other
    then have "peek ?u = CHR 0x00 \<or> Predict item (Tokenize (peek ?u)) = IterativeParsingErrorState"
      using assms(1) by (auto simp: Predict_def Tokenize_def)
    then have "IterativeLoop rnd put item ((n, c) # stk) ?u x = Inl (HandleError item (length ?u))"
      using assms(1) by (intro loop_error) auto
    then show ?thesis using other assms(1) by (auto simp: Let_def HandleError_def)
  qed
qed

definition value_agrees :: "rounding \<Rightarrow> 'h handler \<Rightarrow> string \<Rightarrow> bool" where
  "value_agrees rnd put s \<longleftrightarrow> (\<forall>m src stk h. 3 * length s + 3 \<le> m \<longrightarrow> value_position src (peek s) \<longrightarrow>
     masked (IterativeLoop rnd put src stk s h) =
     masked (continue (ParseValue rnd put m s h) (\<lambda>t x. IterativeLoop rnd put (after_value src) stk (skip_whitespace t) x)))"

definition members_agree :: "rounding \<Rightarrow> 'h handler \<Rightarrow> string \<Rightarrow> bool" where
  "members_agree rnd put s \<longleftrightarrow> (\<forall>m src n c stk h. 3 * length s + 4 \<le> m \<longrightarrow> n \<noteq> IterativeParsingErrorState \<longrightarrow>
     (src = IterativeParsingObjectInitialState \<and> peek s \<noteq> CHR ''}'' \<or> src = IterativeParsingMemberDelimiterState) \<longrightarrow>
     masked (IterativeLoop rnd put src ((n, c) # stk) s h) =
     masked (continue (ParseMembers rnd put m c s h) (\<lambda>t x. IterativeLoop rnd put (closed_state n) stk (skip_whitespace t) x)))"

definition elements_agree :: "rounding \<Rightarrow> 'h handler \<Rightarrow> string \<Rightarrow> bool" where
  "elements_agree rnd put s \<longleftrightarrow> (\<forall>m src n c stk h. 3 * length s + 4 \<le> m \<longrightarrow> n \<noteq> IterativeParsingErrorState \<longrightarrow>
     (src = IterativeParsingArrayInitialState \<and> peek s \<noteq> CHR '']'' \<or> src = IterativeParsingElementDelimiterState) \<longrightarrow>
     masked (IterativeLoop rnd put src ((n, c) # stk) s h) =
     masked (continue (ParseElements rnd put m c s h) (\<lambda>t x. IterativeLoop rnd put (closed_state n) stk (skip_whitespace t) x)))"

lemma value_step:
  assumes "\<And>u. length u < length s \<Longrightarrow> members_agree rnd put u \<and> elements_agree rnd put u"
  shows "value_agrees rnd put s"
  unfolding value_agrees_def
proof (intro allI impI)
  fix m src stk h assume m: "3 * length s + 3 \<le> m" and v: "value_position src (peek s)"
  then obtain k where k: "m = Suc k" by (cases m) auto
  have n: "state_above src \<noteq> IterativeParsingErrorState" and a: "after_value src = closed_state (state_above src)"
    using v by (auto simp: value_position_def state_above_def after_value_def closed_state_def)
  have l: "3 * length u + 4 \<le> k" if "length u < length s" for u :: string using m k that by simp
  consider "peek s = CHR ''{''" | "peek s = CHR ''[''" | "peek s \<notin> {CHR ''{'', CHR ''[''}" by blast
  then show "masked (IterativeLoop rnd put src stk s h) =
      masked (continue (ParseValue rnd put m s h) (\<lambda>t x. IterativeLoop rnd put (after_value src) stk (skip_whitespace t) x))"
  proof cases
    case 1
    have p: "Predict src (Tokenize (peek s)) = IterativeParsingObjectInitialState"
      using v 1 by (auto simp: value_position_def Predict_def value_row_def Tokenize_def)
    have "ParseValue rnd put m s h = ParseObject put (ParseMembers rnd put k) s h"
      by (simp add: k 1 ParseValue.simps [of rnd put "Suc k"])
    then show ?thesis unfolding a ParseObject_def
      using assms l 1 by (subst open_close [OF _ _ p _ refl refl, where loop = "ParseMembers rnd put k 0"])
        (auto simp: Transit_def n members_agree_def)
  next
    case 2
    have p: "Predict src (Tokenize (peek s)) = IterativeParsingArrayInitialState"
      using v 2 by (auto simp: value_position_def Predict_def value_row_def Tokenize_def)
    have "ParseValue rnd put m s h = ParseArray put (ParseElements rnd put k) s h"
      by (simp add: k 2 ParseValue.simps [of rnd put "Suc k"])
    then show ?thesis unfolding a ParseArray_def
      using assms l 2 by (subst open_close [OF _ _ p _ refl refl, where loop = "ParseElements rnd put k 0"])
        (auto simp: Transit_def n elements_agree_def)
  next
    case 3
    then show ?thesis using value_scalar [OF v 3, of m rnd put stk h] k by simp
  qed
qed

lemma members_step:
  assumes "\<And>u. length u < length s \<Longrightarrow> value_agrees rnd put u \<and> members_agree rnd put u"
  shows "members_agree rnd put s"
  unfolding members_agree_def
proof (intro allI impI)
  fix m src n c stk h assume m: "3 * length s + 4 \<le> m" and n: "n \<noteq> IterativeParsingErrorState"
    and src: "src = IterativeParsingObjectInitialState \<and> peek s \<noteq> CHR ''}'' \<or> src = IterativeParsingMemberDelimiterState"
  then obtain k where k: "m = Suc k" by (cases m) auto
  let ?rest = "\<lambda>t x. IterativeLoop rnd put (closed_state n) stk (skip_whitespace t) x"
  show "masked (IterativeLoop rnd put src ((n, c) # stk) s h) = masked (continue (ParseMembers rnd put m c s h) ?rest)"
  proof (cases "peek s = CHR 0x22")
    case False
    have r: "ParseMembers rnd put m c s h = Inl (Parse_error kParseErrorObjectMissName (length s))"
      using False by (simp add: k ParseMembers.simps [of rnd put "Suc k"])
    show ?thesis
    proof (cases "src = IterativeParsingMemberDelimiterState \<and> peek s = CHR ''}''")
      case True
      then show ?thesis unfolding r by (subst loop_turn) (auto simp: Predict_def Tokenize_def Transit_def close_container_def)
    next
      case nd: False
      have "peek s = CHR 0x00 \<or> Predict src (Tokenize (peek s)) = IterativeParsingErrorState"
        using False src nd by (auto simp: Predict_def Tokenize_def)
      then show ?thesis unfolding r using src by (subst loop_error) (auto simp: HandleError_def)
    qed
  next
    case True
    have p: "Predict src (Tokenize (peek s)) = IterativeParsingMemberKeyState"
      using src True by (auto simp: Predict_def Tokenize_def)
    have z: "peek s \<noteq> CHR 0x00" and q: "Predict src (Tokenize (peek s)) \<noteq> IterativeParsingErrorState"
      and nn: "\<not> peek s \<noteq> CHR 0x22" using True p by simp_all
    have key: "masked (IterativeLoop rnd put IterativeParsingMemberKeyState ((n, c) # stk) (skip_whitespace t) x) =
        masked (continue (let s2 = skip_whitespace t in if peek s2 \<noteq> CHR '':'' then Inl (Parse_error kParseErrorObjectMissColon (length s2))
          else proceed (ParseValue rnd put k (skip_whitespace (tl s2)) x)
            (next_item put CHR ''}'' (Ev_EndObject (Suc c)) kParseErrorObjectMissCommaOrCurlyBracket (ParseMembers rnd put k (Suc c)))) ?rest)"
      if t: "length t < length s" for t x
    proof (cases "peek (skip_whitespace t) = CHR '':''")
      case False
      then have "peek (skip_whitespace t) = CHR 0x00 \<or>
          Predict IterativeParsingMemberKeyState (Tokenize (peek (skip_whitespace t))) = IterativeParsingErrorState"
        by (auto simp: Predict_def Tokenize_def)
      then show ?thesis using False by (subst loop_error) (auto simp: HandleError_def Let_def)
    next
      case colon: True
      let ?u = "skip_whitespace (tl (skip_whitespace t))"
      have u: "length ?u < length s" using skip_tl_shorter [of t] colon t by simp
      have "IterativeLoop rnd put IterativeParsingMemberKeyState ((n, c) # stk) (skip_whitespace t) x =
          IterativeLoop rnd put IterativeParsingKeyValueDelimiterState ((n, c) # stk) ?u x"
        using colon by (subst loop_turn) (simp_all add: Predict_def Tokenize_def Transit_def)
      also have "masked \<dots> = masked (continue (ParseValue rnd put k ?u x)
          (\<lambda>t x. IterativeLoop rnd put IterativeParsingMemberValueState ((n, c) # stk) (skip_whitespace t) x))"
        using assms [OF u] u m k by (simp add: value_agrees_def value_position_def after_value_def state_above_def)
      also have "\<dots> = masked (continue (ParseValue rnd put k ?u x) (\<lambda>t x. continue
          (next_item put CHR ''}'' (Ev_EndObject (Suc c)) kParseErrorObjectMissCommaOrCurlyBracket (ParseMembers rnd put k (Suc c)) t x) ?rest))"
      proof (rule continue_mask)
        fix t x' assume "ParseValue rnd put k ?u x = Inr (t, x')"
        moreover have "returns (length ?u) (ParseValue rnd put k ?u x)"
          using returns_parse_all [of k rnd put] u m k by auto
        ultimately have t: "length t < length s" using u by (auto simp: returns_def)
        show "masked (IterativeLoop rnd put IterativeParsingMemberValueState ((n, c) # stk) (skip_whitespace t) x') =
            masked (continue (next_item put CHR ''}'' (Ev_EndObject (Suc c)) kParseErrorObjectMissCommaOrCurlyBracket (ParseMembers rnd put k (Suc c)) t x') ?rest)"
          by (rule after_item [where item = IterativeParsingMemberValueState and delimiter = IterativeParsingMemberDelimiterState])
            (use assms t m k n in \<open>auto simp: members_agree_def\<close>)
      qed
      finally show ?thesis using colon by (simp add: Let_def [of "skip_whitespace t"])
    qed
    have "masked (IterativeLoop rnd put src ((n, c) # stk) s h) = masked (continue (ParseString put True s h)
        (\<lambda>t x. IterativeLoop rnd put IterativeParsingMemberKeyState ((n, c) # stk) (skip_whitespace t) x))"
      unfolding loop_turn [OF z q] p by (simp add: Transit_def)
    also have "\<dots> = masked (continue (ParseMembers rnd put m c s h) ?rest)"
      unfolding k ParseMembers.simps [of rnd put "Suc k"] nat.case if_not_P [OF nn] continue_proceed
      by (rule continue_mask, rule key) (use returns_string [OF True, of put True h] in \<open>auto simp: returns_def\<close>)
    finally show ?thesis .
  qed
qed

lemma elements_step:
  assumes "value_agrees rnd put s" and "\<And>u. length u < length s \<Longrightarrow> elements_agree rnd put u"
  shows "elements_agree rnd put s"
  unfolding elements_agree_def
proof (intro allI impI)
  fix m src n c stk h assume m: "3 * length s + 4 \<le> m" and n: "n \<noteq> IterativeParsingErrorState"
    and src: "src = IterativeParsingArrayInitialState \<and> peek s \<noteq> CHR '']'' \<or> src = IterativeParsingElementDelimiterState"
  then obtain k where k: "m = Suc k" by (cases m) auto
  let ?rest = "\<lambda>t x. IterativeLoop rnd put (closed_state n) stk (skip_whitespace t) x"
  have "masked (IterativeLoop rnd put src ((n, c) # stk) s h) = masked (continue (ParseValue rnd put k s h)
      (\<lambda>t x. IterativeLoop rnd put IterativeParsingElementState ((n, c) # stk) (skip_whitespace t) x))"
    using assms(1) m k src by (auto simp: value_agrees_def value_position_def after_value_def state_above_def)
  also have "\<dots> = masked (continue (ParseValue rnd put k s h) (\<lambda>t x. continue
      (next_item put CHR '']'' (Ev_EndArray (Suc c)) kParseErrorArrayMissCommaOrSquareBracket (ParseElements rnd put k (Suc c)) t x) ?rest))"
  proof (rule continue_mask)
    fix t x assume "ParseValue rnd put k s h = Inr (t, x)"
    moreover have "returns (length s) (ParseValue rnd put k s h)" using returns_parse_all [of k rnd put] m k by auto
    ultimately have t: "length t < length s" by (auto simp: returns_def)
    show "masked (IterativeLoop rnd put IterativeParsingElementState ((n, c) # stk) (skip_whitespace t) x) =
        masked (continue (next_item put CHR '']'' (Ev_EndArray (Suc c)) kParseErrorArrayMissCommaOrSquareBracket (ParseElements rnd put k (Suc c)) t x) ?rest)"
      by (rule after_item [where item = IterativeParsingElementState and delimiter = IterativeParsingElementDelimiterState])
        (use assms(2) t m k n in \<open>auto simp: elements_agree_def\<close>)
  qed
  also have "\<dots> = masked (continue (ParseElements rnd put m c s h) ?rest)"
    unfolding k ParseElements.simps [of rnd put "Suc k"] nat.case continue_proceed ..
  finally show "masked (IterativeLoop rnd put src ((n, c) # stk) s h) = masked (continue (ParseElements rnd put m c s h) ?rest)" .
qed

lemma all_agree: "value_agrees rnd put s \<and> members_agree rnd put s \<and> elements_agree rnd put s"
proof (induction s rule: length_induct)
  case (1 s)
  have v: "value_agrees rnd put s" by (rule value_step) (use 1 in blast)
  moreover have "members_agree rnd put s" by (rule members_step) (use 1 in blast)
  moreover have "elements_agree rnd put s" by (rule elements_step [OF v]) (use 1 in blast)
  ultimately show ?case by blast
qed

section \<open>Equivalence\<close>

definition from_start :: "nat \<Rightarrow> failure + 'a \<Rightarrow> failure + 'a" where
  "from_start n r = (case r of Inl (Parse_error code left) \<Rightarrow> Inl (Parse_error code (n - left)) | _ \<Rightarrow> r)"

lemma masked_from_start:
  assumes "masked r = masked r'"
  shows "masked (from_start n r) = masked (from_start n r')"
  using assms by (cases r rule: masked.cases; cases r' rule: masked.cases) (auto simp: from_start_def split: if_splits)

lemma Parse_continue:
  assumes "s = takeWhile (\<lambda>c. c \<noteq> CHR 0x00) text" and "peek (skip_whitespace s) \<noteq> CHR 0x00"
  shows "Parse rnd put text h = from_start (length s) (continue (ParseValue rnd put (reader_fuel (skip_whitespace s)) (skip_whitespace s) h)
    (\<lambda>t x. IterativeLoop rnd put IterativeParsingFinishState [] (skip_whitespace t) x))"
proof -
  have f: "IterativeLoop rnd put IterativeParsingFinishState [] u x =
      (if peek u \<noteq> CHR 0x00 then Inl (Parse_error kParseErrorDocumentRootNotSingular (length u)) else Inr x)" for u x
    by (subst IterativeLoop.simps) (simp add: Predict_def Transit_def HandleError_def)
  show ?thesis
    using assms(2) unfolding Parse_def assms(1) [symmetric] f
    by (auto simp: Let_def from_start_def continue_def split: sum.split failure.split)
qed

text \<open>
  C11: the iterative parser does what the recursive one does. For every text, every handler and every rounding, both send
  the same events to the handler and end with its same state, or with the same error at the same offset; only
  when the handler stops the parsing at a bracket, the offsets may differ by the bracket. There is one exception: a
  text that starts with a comma, a colon or a closing bracket is an invalid value for the recursive parser, and
  an empty document for the iterative one.
\<close>

theorem iterative_parse_equivalent:
  "masked (IterativeParse rnd put text h) = masked
     (let s = takeWhile (\<lambda>c. c \<noteq> CHR 0x00) text; s0 = skip_whitespace s
      in if peek s0 \<in> {CHR '']'', CHR ''}'', CHR '','', CHR '':''}
         then Inl (Parse_error kParseErrorDocumentEmpty (length s - length s0)) else Parse rnd put text h)"
proof -
  define s where "s = takeWhile (\<lambda>c. c \<noteq> CHR 0x00) text"
  define s0 where "s0 = skip_whitespace s"
  have i: "IterativeParse rnd put text h = from_start (length s) (IterativeLoop rnd put IterativeParsingStartState [] s0 h)"
    by (simp add: IterativeParse_def from_start_def s_def s0_def Let_def split: sum.split failure.split)
  show ?thesis
  proof (cases "peek s0 \<in> {CHR 0x00, CHR '']'', CHR ''}'', CHR '','', CHR '':''}")
    case True
    then have "IterativeLoop rnd put IterativeParsingStartState [] s0 h = Inl (Parse_error kParseErrorDocumentEmpty (length s0))"
      by (subst loop_error) (auto simp: Predict_def value_row_def Tokenize_def HandleError_def)
    then show ?thesis using True unfolding i
      by (auto simp: Let_def from_start_def Parse_def s_def [symmetric] s0_def [symmetric])
  next
    case False
    then have v: "value_position IterativeParsingStartState (peek s0)" by (simp add: value_position_def)
    have "value_agrees rnd put s0" using all_agree by blast
    from this [unfolded value_agrees_def, rule_format, OF _ v, of "reader_fuel s0" "[]" h] have "masked (IterativeLoop rnd put IterativeParsingStartState [] s0 h) = masked (continue (ParseValue rnd put (reader_fuel s0) s0 h)
        (\<lambda>t x. IterativeLoop rnd put IterativeParsingFinishState [] (skip_whitespace t) x))"
      by (simp add: reader_fuel_def after_value_def)
    from masked_from_start [OF this, of "length s"] show ?thesis
      using False Parse_continue [OF s_def, of rnd put h, folded s0_def] unfolding i
      by (auto simp: Let_def s_def [symmetric] s0_def [symmetric])
  qed
qed


section \<open>Token by token\<close>

text \<open>
  The same parser, called for one event after the other. The result of a call is the state of the reader, its stack, the
  text that is left and the state of the handler; an error is a call that returns false.
\<close>

definition is_delimiter :: "IterativeParsingState \<Rightarrow> bool" where
  "is_delimiter s \<longleftrightarrow> s = IterativeParsingElementDelimiterState \<or> s = IterativeParsingMemberDelimiterState \<or>
     s = IterativeParsingKeyValueDelimiterState"

lemma no_number_delimiter: "peek s = CHR 0x00 \<Longrightarrow> \<not> is_delimiter (Predict state (Tokenize (peek s)))"
  by (cases state) (auto simp: Predict_def value_row_def Tokenize_def is_delimiter_def)

function IterativeParseNext :: "rounding \<Rightarrow> 'h handler \<Rightarrow> IterativeParsingState \<Rightarrow> frames \<Rightarrow> string \<Rightarrow> 'h \<Rightarrow>
    failure + (IterativeParsingState \<times> frames \<times> string \<times> 'h)" where
  "IterativeParseNext rnd put state stk s h =
     (if peek s = CHR 0x00 then
        if state = IterativeParsingFinishState then Inr (state, [], s, h) else Inl (HandleError state (length s))
      else
        (let s0 = skip_whitespace s; t = Tokenize (peek s0); n = Predict state t
         in case Transit rnd put state t n stk s0 h of
              Inl f \<Rightarrow> Inl f
            | Inr (s', d, stk', h') \<Rightarrow>
                if d = IterativeParsingErrorState then Inl (HandleError state (length s'))
                else if d = IterativeParsingFinishState then
                  (let s2 = skip_whitespace s'
                   in if peek s2 \<noteq> CHR 0x00 then Inl (HandleError d (length s2)) else Inr (d, stk', s2, h'))
                else if \<not> is_delimiter n then Inr (d, stk', s', h')
                else IterativeParseNext rnd put d stk' s' h'))"
  by pat_completeness auto
termination
proof (relation "measure (\<lambda>(rnd, put, state, stk, s, h). length s)")
  fix rnd :: rounding and put :: "'h handler" and state stk s and h :: 'h and s0 t n r r' s' d' d q stk' h'
  assume a: "s0 = skip_whitespace s" "t = Tokenize (peek s0)" "n = Predict state t"
    "Transit rnd put state t n stk s0 h = Inr r" "(s', r') = r" "(d, q) = r'" "(stk', h') = q" "\<not> \<not> is_delimiter n"
  then have "peek s0 \<noteq> CHR 0x00" using no_number_delimiter [of s0 state] by blast
  moreover have "n \<noteq> IterativeParsingErrorState" using a(8) by (auto simp: is_delimiter_def)
  ultimately have "length s' < length s0"
    using a Transit_returns [of s0 state rnd put stk h] by (auto simp: returns_def)
  then show "((rnd, put, d, stk', s', h'), rnd, put, state, stk, s, h) \<in> measure (\<lambda>(rnd, put, state, stk, s, h). length s)"
    using skip_length [of s] a(1) by simp
qed simp

declare IterativeParseNext.simps [simp del]


lemma next_at_end:
  assumes "peek s = CHR 0x00" and "state \<noteq> IterativeParsingFinishState" and "state \<noteq> IterativeParsingErrorState"
  shows "(case Transit rnd put state (Tokenize (peek s)) (Predict state (Tokenize (peek s))) stk s h of
            Inl f \<Rightarrow> f = (if state = IterativeParsingStartState then Parse_error kParseErrorValueInvalid (length s) else HandleError state (length s))
          | Inr (s', d, _) \<Rightarrow> d = IterativeParsingErrorState \<and> s' = s \<and> state \<noteq> IterativeParsingStartState)"
  using assms number_error [of s "reader_fuel s" rnd put h]
  by (cases state) (auto simp: Tokenize_def Predict_def value_row_def Transit_def scalar_value_def HandleError_def reader_fuel_def)

lemma Transit_not_start:
  assumes "Transit rnd put src (Tokenize c) (Predict src (Tokenize c)) stk s h = Inr (s', d, stk', h')"
  shows "d \<noteq> IterativeParsingStartState"
proof -
  have p: "proceed r f = Inr x \<longleftrightarrow> (\<exists>t y. r = Inr (t, y) \<and> f t y = Inr x)" for r :: "'a reading" and f and x :: "string \<times> 'b"
    by (auto simp: proceed_def split: sum.splits)
  show ?thesis using assms
    by (cases "Predict src (Tokenize c)")
      (auto simp: Transit_def p open_container_def close_container_def count_item_def scalar_value_def Let_def split: if_splits list.splits)
qed

lemma next_is_turns:
  assumes "state \<notin> {IterativeParsingStartState, IterativeParsingFinishState, IterativeParsingErrorState} \<or>
           state = IterativeParsingStartState \<and> (peek s = CHR 0x00 \<or> peek (skip_whitespace s) \<noteq> CHR 0x00)"
  shows "case IterativeParseNext rnd put state stk s h of
           Inl f \<Rightarrow> IterativeLoop rnd put state stk (skip_whitespace s) h = Inl f
         | Inr (d, stk', s', h') \<Rightarrow> length s' < length s \<and>
             d \<notin> {IterativeParsingStartState, IterativeParsingErrorState} \<and> (d = IterativeParsingFinishState \<longrightarrow> peek s' = CHR 0x00) \<and>
             IterativeLoop rnd put state stk (skip_whitespace s) h = IterativeLoop rnd put d stk' (skip_whitespace s') h'"
  using assms
proof (induction rnd put state stk s h rule: IterativeParseNext.induct)
  case (1 rnd put state stk s h)
  let ?s0 = "skip_whitespace s" and ?n = "Predict state (Tokenize (peek (skip_whitespace s)))"
  have f: "state \<noteq> IterativeParsingFinishState" "state \<noteq> IterativeParsingErrorState" using "1.prems" by auto
  have nul: "peek t = CHR 0x00 \<Longrightarrow> skip_whitespace t = t" for t
    using skip_blank [of "[]" t] by (simp add: white_def blank_def)
  consider (none) "peek s = CHR 0x00" | (trailing) "peek s \<noteq> CHR 0x00" "peek ?s0 = CHR 0x00" | (token) "peek s \<noteq> CHR 0x00" "peek ?s0 \<noteq> CHR 0x00"
    by blast
  then show ?case
  proof cases
    case none
    then show ?thesis using f nul [OF none] loop_error [of s state]
      by (simp add: IterativeParseNext.simps [of rnd put state stk s h])
  next
    case trailing
    then show ?thesis using f "1.prems" next_at_end [OF trailing(2) f, of rnd put stk h] loop_error [of ?s0 state rnd put stk h]
      by (auto simp: IterativeParseNext.simps [of rnd put state stk s h] Let_def split: sum.splits)
  next
    case token
    show ?thesis
    proof (cases "Transit rnd put state (Tokenize (peek ?s0)) ?n stk ?s0 h")
      case (Inl x)
      then show ?thesis using token by (simp add: IterativeParseNext.simps [of rnd put state stk s h] IterativeLoop.simps [of rnd put state stk ?s0 h] Let_def)
    next
      case (Inr y)
      obtain s' d stk' h' where y: "y = (s', d, stk', h')" by (cases y) auto
      note t = Inr [unfolded y]
      note pn = IterativeParseNext.simps [of rnd put state stk s h] and turn = IterativeLoop.simps [of rnd put state stk ?s0 h]
      have shorter: "d \<noteq> IterativeParsingErrorState \<Longrightarrow> length s' < length s"
      proof -
        assume "d \<noteq> IterativeParsingErrorState"
        then have "?n \<noteq> IterativeParsingErrorState" using t by (auto simp: Transit_def)
        then show ?thesis using Transit_returns [OF token(2), of state rnd put stk h] t skip_length [of s] by simp
      qed
      have delimiter: "is_delimiter ?n \<Longrightarrow> d \<notin> {IterativeParsingStartState, IterativeParsingFinishState}"
        using t by (auto simp: is_delimiter_def Transit_def count_item_def split: list.splits if_splits)
      consider (error) "d = IterativeParsingErrorState" | (finish) "d = IterativeParsingFinishState"
        | (again) "d \<notin> {IterativeParsingErrorState, IterativeParsingFinishState}" "is_delimiter ?n"
        | (ready) "d \<notin> {IterativeParsingErrorState, IterativeParsingFinishState}" "\<not> is_delimiter ?n" by blast
      then show ?thesis
      proof cases
        case error
        then show ?thesis using token t by (simp add: pn turn Let_def)
      next
        case finish
        have e: "IterativeLoop rnd put IterativeParsingFinishState stk' u x =
            (if peek u \<noteq> CHR 0x00 then Inl (HandleError IterativeParsingFinishState (length u)) else Inr x)" for u x
          by (subst IterativeLoop.simps) (simp add: Predict_def Transit_def)
        show ?thesis using finish token t shorter skip_length [of s'] nul by (auto simp: pn turn e Let_def)
      next
        case again
        have "d \<notin> {IterativeParsingStartState, IterativeParsingFinishState, IterativeParsingErrorState}" using again delimiter by auto
        from "1.IH" [OF token(1) refl refl refl t refl refl refl] this again
        have "case IterativeParseNext rnd put d stk' s' h' of
           Inl f \<Rightarrow> IterativeLoop rnd put d stk' (skip_whitespace s') h' = Inl f
         | Inr (d2, stk2, s2, h2) \<Rightarrow> length s2 < length s' \<and>
             d2 \<notin> {IterativeParsingStartState, IterativeParsingErrorState} \<and> (d2 = IterativeParsingFinishState \<longrightarrow> peek s2 = CHR 0x00) \<and>
             IterativeLoop rnd put d stk' (skip_whitespace s') h' = IterativeLoop rnd put d2 stk2 (skip_whitespace s2) h2"
          by simp
        moreover have "IterativeParseNext rnd put state stk s h = IterativeParseNext rnd put d stk' s' h'"
          "IterativeLoop rnd put state stk ?s0 h = IterativeLoop rnd put d stk' (skip_whitespace s') h'" "length s' < length s"
          using again token t shorter by (simp_all add: pn turn Let_def)
        ultimately show ?thesis by (auto split: sum.splits prod.splits)
      next
        case ready
        then show ?thesis using token t shorter Transit_not_start [OF t] by (simp add: pn turn Let_def)
      qed
    qed
  qed
qed

text \<open>The loop of a caller, which asks for events until an error is reported or the parsing is complete.\<close>

function pulled :: "rounding \<Rightarrow> 'h handler \<Rightarrow> IterativeParsingState \<Rightarrow> frames \<Rightarrow> string \<Rightarrow> 'h \<Rightarrow> failure + 'h" where
  "pulled rnd put state stk s h =
     (case IterativeParseNext rnd put state stk s h of
        Inl f \<Rightarrow> Inl f
      | Inr (d, stk', s', h') \<Rightarrow>
          if d = IterativeParsingFinishState \<or> \<not> length s' < length s then Inr h' else pulled rnd put d stk' s' h')"
  by pat_completeness auto
termination by (relation "measure (\<lambda>(rnd, put, state, stk, s, h). length s)") auto

declare pulled.simps [simp del]

lemma pulled_loop:
  assumes "state \<notin> {IterativeParsingStartState, IterativeParsingFinishState, IterativeParsingErrorState} \<or>
           state = IterativeParsingStartState \<and> (peek s = CHR 0x00 \<or> peek (skip_whitespace s) \<noteq> CHR 0x00)"
  shows "pulled rnd put state stk s h = IterativeLoop rnd put state stk (skip_whitespace s) h"
  using assms
proof (induction rnd put state stk s h rule: pulled.induct)
  case (1 rnd put state stk s h)
  note p = pulled.simps [of rnd put state stk s h] and n = next_is_turns [OF "1.prems", of rnd put stk h]
  show ?case
  proof (cases "IterativeParseNext rnd put state stk s h")
    case (Inl x)
    then show ?thesis using n by (simp add: p)
  next
    case (Inr y)
    obtain d stk' s' h' where y: "y = (d, stk', s', h')" by (cases y) auto
    have l: "length s' < length s" "d \<noteq> IterativeParsingStartState" "d \<noteq> IterativeParsingErrorState"
      "d = IterativeParsingFinishState \<Longrightarrow> peek s' = CHR 0x00"
      "IterativeLoop rnd put state stk (skip_whitespace s) h = IterativeLoop rnd put d stk' (skip_whitespace s') h'"
      using n by (simp_all add: Inr y)
    show ?thesis
    proof (cases "d = IterativeParsingFinishState")
      case True
      have "skip_whitespace s' = s'" using l(4) [OF True] skip_blank [of "[]" s'] by (simp add: white_def blank_def)
      then show ?thesis using l True by (simp add: p Inr y IterativeLoop.simps [of rnd put IterativeParsingFinishState])
    next
      case False
      then show ?thesis using l "1.IH" [OF Inr [unfolded y] refl refl refl] by (simp add: p Inr y)
    qed
  qed
qed

text \<open>
  A caller that asks the iterative parser for one event after the other and stops at the first error gets what
  \<open>IterativeParse\<close> gives: the handler sees the same events, and the result or the error at its offset is the same. Texts of
  white space only are the exception, because the white space is skipped after the end of the text has been looked for:
  the call that should find the document empty reports an invalid value.
\<close>

theorem pulled_parse_equivalent:
  "let s = takeWhile (\<lambda>c. c \<noteq> CHR 0x00) text; r = pulled rnd put IterativeParsingStartState [] s h
   in (case r of Inl (Parse_error code left) \<Rightarrow> Inl (Parse_error code (length s - left)) | _ \<Rightarrow> r) =
        (if s \<noteq> [] \<and> skip_whitespace s = [] then Inl (Parse_error kParseErrorValueInvalid (length s))
         else IterativeParse rnd put text h)"
proof -
  define s where "s = takeWhile (\<lambda>c. c \<noteq> CHR 0x00) text"
  have clean: "\<forall>c \<in> set s. c \<noteq> CHR 0x00" unfolding s_def by (blast dest: set_takeWhileD)
  then have "\<forall>c \<in> set (skip_whitespace s). c \<noteq> CHR 0x00" unfolding skip_def_white by (blast dest: set_dropWhileD)
  then have at_end: "peek (skip_whitespace s) = CHR 0x00 \<longleftrightarrow> skip_whitespace s = []"
    by (cases "skip_whitespace s") (simp_all add: peek_def)
  show ?thesis
  proof (cases "s \<noteq> [] \<and> skip_whitespace s = []")
    case True
    then have "peek s \<noteq> CHR 0x00" using clean by (cases s) (simp_all add: peek_def)
    then have "IterativeParseNext rnd put IterativeParsingStartState [] s h = Inl (Parse_error kParseErrorValueInvalid 0)"
      using True at_end next_at_end [of "skip_whitespace s" IterativeParsingStartState rnd put "[]" h]
      by (auto simp: IterativeParseNext.simps [of rnd put IterativeParsingStartState "[]" s] Let_def split: sum.splits)
    then show ?thesis using True by (simp add: s_def [symmetric] pulled.simps [of rnd put IterativeParsingStartState])
  next
    case False
    then have "peek s = CHR 0x00 \<or> peek (skip_whitespace s) \<noteq> CHR 0x00" using at_end by (auto simp: peek_def)
    then have "pulled rnd put IterativeParsingStartState [] s h = IterativeLoop rnd put IterativeParsingStartState [] (skip_whitespace s) h"
      by (simp add: pulled_loop)
    then show ?thesis using False unfolding IterativeParse_def s_def [symmetric] Let_def if_not_P [OF False]
      by (simp split: sum.split failure.split)
  qed
qed

end
