(* ===== verification/Rapid_Value.thy ===== *)
theory Rapid_Value
  imports Rapid_Mapper
begin

text \<open>
  Values of \<^verbatim>\<open>rapidjson/document.h\<close> as data of their own: writing them (\<open>Accept\<close> with the writer of \<open>Rapid_Writer\<close> and the
  64-bit printer of \<^verbatim>\<open>rapidjson/internal/itoa.h\<close>), comparing them and editing them. A value that is written is read back
  by the parser; comparison is equality of JSON values under conditions that the last section shows to be necessary; the
  operations on members and elements refine those on maps and lists.
\<close>

section \<open>Integers of 64 bits\<close>

definition lut4 :: "nat \<Rightarrow> string" where
  "lut4 c =
     (let d1 = 2 * (c div 100); d2 = 2 * (c mod 100)
      in [cDigitsLut ! d1, cDigitsLut ! (d1 + 1), cDigitsLut ! d2, cDigitsLut ! (d2 + 1)])"

definition u64toa :: "nat \<Rightarrow> string" where
  "u64toa value =
     (if value < 100000000 then
        if value < 10000 then
          let d1 = 2 * (value div 100); d2 = 2 * (value mod 100)
          in (if value \<ge> 1000 then [cDigitsLut ! d1] else []) @
             (if value \<ge> 100 then [cDigitsLut ! (d1 + 1)] else []) @
             (if value \<ge> 10 then [cDigitsLut ! d2] else []) @ [cDigitsLut ! (d2 + 1)]
        else
          let b = value div 10000; c = value mod 10000; d1 = 2 * (b div 100); d2 = 2 * (b mod 100)
          in (if value \<ge> 10000000 then [cDigitsLut ! d1] else []) @
             (if value \<ge> 1000000 then [cDigitsLut ! (d1 + 1)] else []) @
             (if value \<ge> 100000 then [cDigitsLut ! d2] else []) @ [cDigitsLut ! (d2 + 1)] @ lut4 c
      else if value < 10000000000000000 then
        let v0 = value div 100000000; v1 = value mod 100000000; b0 = v0 div 10000; c0 = v0 mod 10000;
            d1 = 2 * (b0 div 100); d2 = 2 * (b0 mod 100); d3 = 2 * (c0 div 100); d4 = 2 * (c0 mod 100);
            b1 = v1 div 10000; c1 = v1 mod 10000
        in (if value \<ge> 1000000000000000 then [cDigitsLut ! d1] else []) @
           (if value \<ge> 100000000000000 then [cDigitsLut ! (d1 + 1)] else []) @
           (if value \<ge> 10000000000000 then [cDigitsLut ! d2] else []) @
           (if value \<ge> 1000000000000 then [cDigitsLut ! (d2 + 1)] else []) @
           (if value \<ge> 100000000000 then [cDigitsLut ! d3] else []) @
           (if value \<ge> 10000000000 then [cDigitsLut ! (d3 + 1)] else []) @
           (if value \<ge> 1000000000 then [cDigitsLut ! d4] else []) @
           (if value \<ge> 100000000 then [cDigitsLut ! (d4 + 1)] else []) @ lut4 b1 @ lut4 c1
      else
        let a = value div 10000000000000000; value' = value mod 10000000000000000;
            v0 = value' div 100000000; v1 = value' mod 100000000
        in (if a < 10 then [char_of (48 + a)]
            else if a < 100 then [cDigitsLut ! (2 * a), cDigitsLut ! (2 * a + 1)]
            else if a < 1000 then
              let i = 2 * (a mod 100) in [char_of (48 + a div 100), cDigitsLut ! i, cDigitsLut ! (i + 1)]
            else lut4 a) @
           lut4 (v0 div 10000) @ lut4 (v0 mod 10000) @ lut4 (v1 div 10000) @ lut4 (v1 mod 10000))"

definition i64toa :: "int \<Rightarrow> string" where
  "i64toa value =
     (let u = nat (value mod 2 ^ 64)
      in if value < 0 then CHR ''-'' # u64toa ((2 ^ 64 - 1 - u + 1) mod 2 ^ 64) else u64toa u)"

definition four_chars :: "nat \<Rightarrow> string" where
  "four_chars c = two_chars (c div 100) @ two_chars (c mod 100)"

lemma lut_chars: "i < 100 \<Longrightarrow> cDigitsLut ! (2 * i) = digit_char (i div 10)" "i < 100 \<Longrightarrow> cDigitsLut ! Suc (2 * i) = digit_char (i mod 10)"
  using lut by auto

lemma pair_bounds: "m < 10000 \<Longrightarrow> m div 100 < 100" "m mod 100 < 100" for m :: nat
  by (auto simp: div_less_iff_less_mult)

lemma lut4_chars: "c < 10000 \<Longrightarrow> lut4 c = four_chars c"
  by (simp add: lut4_def four_chars_def two_chars_def Let_def lut_chars pair_bounds)

lemma to_string_four: "10000 \<le> n \<Longrightarrow> to_string n = to_string (n div 10000) @ four_chars (n mod 10000)"
  using to_string_quad by (simp add: four_chars_def)

lemma to_string_eight:
  assumes "100000000 \<le> n"
  shows "to_string n = to_string (n div 100000000) @ four_chars (n mod 100000000 div 10000) @ four_chars (n mod 100000000 mod 10000)"
proof -
  have d: "n div 10000 div 10000 = n div 100000000" by (simp flip: div_mult2_eq)
  have m: "n mod 100000000 div 10000 = n div 10000 mod 10000" "n mod 100000000 mod 10000 = n mod 10000"
    using mod_mult2_eq [of n 10000 10000] by (simp_all add: mod_mod_cancel)
  have "to_string n = to_string (n div 10000) @ four_chars (n mod 10000)" using assms by (intro to_string_four) simp
  also have "to_string (n div 10000) = to_string (n div 100000000) @ four_chars (n div 10000 mod 10000)"
    using to_string_four [of "n div 10000"] assms by (simp add: d less_eq_div_iff_mult_less_eq)
  finally show ?thesis unfolding m by simp
qed

text \<open>Up to eight digits without leading zeros.\<close>

lemma eight_digits:
  assumes "0 < v" and "v < 100000000"
  shows "to_string v = (let b = v div 10000; c = v mod 10000; d1 = 2 * (b div 100); d2 = 2 * (b mod 100); d3 = 2 * (c div 100); d4 = 2 * (c mod 100)
     in (if v \<ge> 10000000 then [cDigitsLut ! d1] else []) @ (if v \<ge> 1000000 then [cDigitsLut ! (d1 + 1)] else []) @
        (if v \<ge> 100000 then [cDigitsLut ! d2] else []) @ (if v \<ge> 10000 then [cDigitsLut ! (d2 + 1)] else []) @
        (if v \<ge> 1000 then [cDigitsLut ! d3] else []) @ (if v \<ge> 100 then [cDigitsLut ! (d3 + 1)] else []) @
        (if v \<ge> 10 then [cDigitsLut ! d4] else []) @ [cDigitsLut ! (d4 + 1)])"
proof (cases "v < 10000")
  case True
  then show ?thesis by (simp add: Let_def lut_chars pair_bounds to_string_small [OF True])
next
  case False
  let ?b = "v div 10000" and ?c = "v mod 10000"
  have b: "?b < 10000" using assms(2) by (simp add: div_less_iff_less_mult)
  have c: "?c < 10000" by simp
  have ge: "10000000 \<le> v \<longleftrightarrow> 1000 \<le> ?b" "1000000 \<le> v \<longleftrightarrow> 100 \<le> ?b" "100000 \<le> v \<longleftrightarrow> 10 \<le> ?b"
    by (auto simp: less_eq_div_iff_mult_less_eq)
  show ?thesis using False to_string_four [of v] unfolding Let_def ge
    by (simp add: to_string_small [OF b] lut_chars pair_bounds(2) pair_bounds(1) [OF b] pair_bounds(1) [OF c] four_chars_def two_chars_def)
qed

lemma u64toa_to_string: "n < 2 ^ 64 \<Longrightarrow> u64toa n = to_string n"
proof -
  assume n: "n < 2 ^ 64"
  have m4: "m mod 10000 < 10000" "m < 100000000 \<Longrightarrow> m div 10000 < 10000" for m :: nat by (auto simp: div_less_iff_less_mult)
  have m8: "m mod 100000000 < 100000000" for m :: nat by simp
  consider "n < 10000" | "10000 \<le> n" "n < 100000000" | "100000000 \<le> n" "n < 10000000000000000" | "10000000000000000 \<le> n" by linarith
  then show ?thesis
  proof cases
    case 1
    then show ?thesis by (simp add: u64toa_def Let_def lut_chars pair_bounds to_string_small [OF 1])
  next
    case 2
    let ?b = "n div 10000"
    have b: "?b < 10000" using 2 by (simp add: div_less_iff_less_mult)
    have ge: "10000000 \<le> n \<longleftrightarrow> 1000 \<le> ?b" "1000000 \<le> n \<longleftrightarrow> 100 \<le> ?b" "100000 \<le> n \<longleftrightarrow> 10 \<le> ?b"
      by (auto simp: less_eq_div_iff_mult_less_eq)
    show ?thesis using 2 to_string_four [of n]
      by (simp add: u64toa_def Let_def lut_chars pair_bounds b ge lut4_chars m4 to_string_small [OF b])
  next
    case 3
    let ?v = "n div 100000000" and ?w = "n mod 100000000"
    have v: "0 < ?v" "?v < 100000000" using 3 by (simp_all add: div_less_iff_less_mult div_greater_zero_iff)
    have ge: "1000000000000000 \<le> n \<longleftrightarrow> 10000000 \<le> ?v" "100000000000000 \<le> n \<longleftrightarrow> 1000000 \<le> ?v" "10000000000000 \<le> n \<longleftrightarrow> 100000 \<le> ?v"
      "1000000000000 \<le> n \<longleftrightarrow> 10000 \<le> ?v" "100000000000 \<le> n \<longleftrightarrow> 1000 \<le> ?v" "10000000000 \<le> n \<longleftrightarrow> 100 \<le> ?v" "1000000000 \<le> n \<longleftrightarrow> 10 \<le> ?v"
      by (auto simp: less_eq_div_iff_mult_less_eq)
    show ?thesis using 3 to_string_eight [OF 3(1)] eight_digits [OF v]
      by (simp add: u64toa_def Let_def ge lut4_chars m4(1) m4(2) [OF m8])
  next
    case 4
    let ?a = "n div 10000000000000000" and ?r = "n mod 10000000000000000"
    have a: "?a < 10000" "0 < ?a" using n 4 by (simp_all add: div_less_iff_less_mult div_greater_zero_iff)
    have d: "n div 100000000 div 100000000 = ?a" by (simp flip: div_mult2_eq)
    have r: "?r div 100000000 = n div 100000000 mod 100000000" "?r mod 100000000 = n mod 100000000"
      using mod_mult2_eq [of n 100000000 100000000] by (simp_all add: mod_mod_cancel)
    have "to_string (n div 100000000) = to_string ?a @ four_chars (?r div 100000000 div 10000) @ four_chars (?r div 100000000 mod 10000)"
      using to_string_eight [of "n div 100000000"] 4 by (simp add: d r less_eq_div_iff_mult_less_eq)
    then have s: "to_string n = to_string ?a @ four_chars (?r div 100000000 div 10000) @ four_chars (?r div 100000000 mod 10000) @
        four_chars (?r mod 100000000 div 10000) @ four_chars (?r mod 100000000 mod 10000)"
      using to_string_eight [of n] 4 by (simp add: r(2))
    have h: "to_string ?a = (if ?a < 10 then [char_of (48 + ?a)] else if ?a < 100 then [cDigitsLut ! (2 * ?a), cDigitsLut ! (2 * ?a + 1)]
        else if ?a < 1000 then [char_of (48 + ?a div 100), cDigitsLut ! (2 * (?a mod 100)), cDigitsLut ! (2 * (?a mod 100) + 1)] else lut4 ?a)"
    proof -
      consider "?a < 10" | "10 \<le> ?a" "?a < 100" | "100 \<le> ?a" "?a < 1000" | "1000 \<le> ?a" by linarith
      then show ?thesis
      proof cases
        case 1
        then show ?thesis by (simp add: to_string_digit digit_char_def)
      next
        case 2
        then show ?thesis by (simp add: to_string_two two_chars_def lut_chars)
      next
        case 3
        then have "?a div 100 < 10" by (simp add: div_less_iff_less_mult)
        with 3 show ?thesis by (simp add: to_string_pair [of ?a] to_string_digit digit_char_def two_chars_def lut_chars del: div_mult2_eq)
      next
        case 4
        then have "10 \<le> ?a div 100" by (simp add: less_eq_div_iff_mult_less_eq)
        with 4 show ?thesis using pair_bounds(1) [OF a(1)]
          by (simp add: to_string_pair [of ?a] to_string_two lut4_chars [OF a(1)] four_chars_def)
      qed
    qed
    have "?r div 100000000 < 100000000" by (simp add: r)
    then show ?thesis using 4 unfolding s h
      by (simp add: u64toa_def Let_def lut4_chars m4(1) m4(2) [OF m8] m4(2))
  qed
qed


lemma i64toa_int_text:
  assumes "- (2 ^ 63) \<le> i" and "i < 2 ^ 63"
  shows "i64toa i = int_text i"
proof (cases "i < 0")
  case True
  then obtain k where k: "i = - int k" "0 < k" by (metis neg_int_cases)
  with assms(1) have le: "k \<le> 9223372036854775808" by simp
  have "(i + 18446744073709551616) mod 18446744073709551616 = i + 18446744073709551616" using k le by (intro mod_pos_pos_trivial) auto
  then have m: "nat (i mod 2 ^ 64) = 18446744073709551616 - k" using k le by simp
  have "(2 ^ 64 - 1 - (18446744073709551616 - k) + 1) mod 2 ^ 64 = k" using k le by simp
  then show ?thesis using True k le unfolding i64toa_def Let_def m by (simp add: int_text_def u64toa_to_string)
next
  case False
  then show ?thesis using assms by (simp add: i64toa_def int_text_def Let_def u64toa_to_string)
qed

section \<open>Writing a value\<close>

text \<open>The events of the writer that the serializers of responses do not use.\<close>

definition wr_Null :: "writer \<Rightarrow> writer option" where
  "wr_Null w = map_option (put ''null'') (Prefix False w)"

definition wr_Bool :: "bool \<Rightarrow> writer \<Rightarrow> writer option" where
  "wr_Bool b w = map_option (put (if b then ''true'' else ''false'')) (Prefix False w)"

definition wr_Uint :: "nat \<Rightarrow> writer \<Rightarrow> writer option" where
  "wr_Uint u w = map_option (put (u32toa u)) (Prefix False w)"

definition wr_Int64 :: "int \<Rightarrow> writer \<Rightarrow> writer option" where
  "wr_Int64 i64 w = map_option (put (i64toa i64)) (Prefix False w)"

definition wr_Uint64 :: "nat \<Rightarrow> writer \<Rightarrow> writer option" where
  "wr_Uint64 u64 w = map_option (put (u64toa u64)) (Prefix False w)"

fun writer_event :: "(double \<Rightarrow> string) \<Rightarrow> sax_event \<Rightarrow> writer \<Rightarrow> writer option" where
  "writer_event dtoa Ev_Null = wr_Null"
| "writer_event dtoa (Ev_Bool b) = wr_Bool b"
| "writer_event dtoa (Ev_Int i) = wr_Int i"
| "writer_event dtoa (Ev_Uint u) = wr_Uint u"
| "writer_event dtoa (Ev_Int64 i) = wr_Int64 i"
| "writer_event dtoa (Ev_Uint64 u) = wr_Uint64 u"
| "writer_event dtoa (Ev_Double d) = wr_Double dtoa d"
| "writer_event dtoa (Ev_String s) = wr_String s"
| "writer_event dtoa (Ev_Key s) = wr_String s"
| "writer_event dtoa Ev_StartObject = StartObject"
| "writer_event dtoa (Ev_EndObject n) = EndObject"
| "writer_event dtoa Ev_StartArray = StartArray"
| "writer_event dtoa (Ev_EndArray n) = EndArray"

text \<open>The writer as a handler of events: it accepts every event, and a failed assertion stays in the state.\<close>

definition writer_put :: "(double \<Rightarrow> string) \<Rightarrow> (writer option) handler" where
  "writer_put dtoa e st = (True, Option.bind st (writer_event dtoa e))"

text \<open>
  \<open>Accept\<close> sends the events of a value to a handler and stops when the handler returns false; \<^term>\<open>None\<close> is a failed
  assertion on the name of a member.
\<close>

fun number_accept :: "number_flag list \<Rightarrow> number \<Rightarrow> sax_event" where
  "number_accept fl (Number_double d) = Ev_Double d"
| "number_accept fl (Number_int n) =
     (if kIntFlag \<in> set fl then Ev_Int n
      else if kUintFlag \<in> set fl then Ev_Uint (nat n)
      else if kInt64Flag \<in> set fl then Ev_Int64 n
      else Ev_Uint64 (nat n))"

fun Accept :: "'h handler \<Rightarrow> Value \<Rightarrow> 'h \<Rightarrow> (bool \<times> 'h) option"
  and accept_members :: "'h handler \<Rightarrow> (Value \<times> Value) list \<Rightarrow> 'h \<Rightarrow> (bool \<times> 'h) option"
  and accept_elements :: "'h handler \<Rightarrow> Value list \<Rightarrow> 'h \<Rightarrow> (bool \<times> 'h) option" where
  "Accept hnd V_Null h = Some (hnd Ev_Null h)"
| "Accept hnd (V_Bool b) h = Some (hnd (Ev_Bool b) h)"
| "Accept hnd (V_Object ms) h =
     (case hnd Ev_StartObject h of
        (False, h) \<Rightarrow> Some (False, h)
      | (True, h) \<Rightarrow>
          (case accept_members hnd ms h of
             None \<Rightarrow> None
           | Some (False, h) \<Rightarrow> Some (False, h)
           | Some (True, h) \<Rightarrow> Some (hnd (Ev_EndObject (length ms)) h)))"
| "Accept hnd (V_Array vs) h =
     (case hnd Ev_StartArray h of
        (False, h) \<Rightarrow> Some (False, h)
      | (True, h) \<Rightarrow>
          (case accept_elements hnd vs h of
             None \<Rightarrow> None
           | Some (False, h) \<Rightarrow> Some (False, h)
           | Some (True, h) \<Rightarrow> Some (hnd (Ev_EndArray (length vs)) h)))"
| "Accept hnd (V_String s) h = Some (hnd (Ev_String s) h)"
| "Accept hnd (V_Number fl n) h = Some (hnd (number_accept fl n) h)"
| "accept_members hnd [] h = Some (True, h)"
| "accept_members hnd ((name, v) # ms) h =
     (case GetString name of
        None \<Rightarrow> None
      | Some s \<Rightarrow>
          (case hnd (Ev_Key s) h of
             (False, h) \<Rightarrow> Some (False, h)
           | (True, h) \<Rightarrow>
               (case Accept hnd v h of
                  None \<Rightarrow> None
                | Some (False, h) \<Rightarrow> Some (False, h)
                | Some (True, h) \<Rightarrow> accept_members hnd ms h)))"
| "accept_elements hnd [] h = Some (True, h)"
| "accept_elements hnd (v # vs) h =
     (case Accept hnd v h of
        None \<Rightarrow> None
      | Some (False, h) \<Rightarrow> Some (False, h)
      | Some (True, h) \<Rightarrow> accept_elements hnd vs h)"

text \<open>The text of a value, as a \<open>StringBuffer\<close> holds it after \<open>Accept\<close> with a new writer.\<close>

definition stringify :: "(double \<Rightarrow> string) \<Rightarrow> Value \<Rightarrow> string option" where
  "stringify dtoa v =
     (case Accept (writer_put dtoa) v (Some new_Writer) of
        Some (_, Some w) \<Rightarrow> Some (wr_out w)
      | _ \<Rightarrow> None)"


text \<open>The events of a value, as the leaves of a tree.\<close>

fun value_tree :: "Value \<Rightarrow> tree" where
  "value_tree V_Null = T_leaf Ev_Null"
| "value_tree (V_Bool b) = T_leaf (Ev_Bool b)"
| "value_tree (V_Number fl n) = T_leaf (number_accept fl n)"
| "value_tree (V_String s) = T_leaf (Ev_String s)"
| "value_tree (V_Object ms) = T_obj (map (\<lambda>(k, v). (case k of V_String s \<Rightarrow> s | _ \<Rightarrow> [], value_tree v)) ms)"
| "value_tree (V_Array vs) = T_arr (map value_tree vs)"

text \<open>
  Values that a document can hold: the names are strings, every integer has 64 bits and the flags of its types, and
  the doubles are those the printer is trusted with.
\<close>

fun storable :: "(double \<Rightarrow> bool) \<Rightarrow> Value \<Rightarrow> bool" where
  "storable P V_Null \<longleftrightarrow> True"
| "storable P (V_Bool b) \<longleftrightarrow> True"
| "storable P (V_Number fl n) \<longleftrightarrow> flags_ok fl n \<and>
     (case n of Number_int i \<Rightarrow> - (2 ^ 63) \<le> i \<and> i < 2 ^ 64 | Number_double d \<Rightarrow> P d)"
| "storable P (V_String s) \<longleftrightarrow> True"
| "storable P (V_Object ms) \<longleftrightarrow> (\<forall>(k, v) \<in> set ms. (\<exists>s. k = V_String s) \<and> storable P v)"
| "storable P (V_Array vs) \<longleftrightarrow> (\<forall>v \<in> set vs. storable P v)"

fun value_json :: "(double \<Rightarrow> string) \<Rightarrow> Value \<Rightarrow> json" where
  "value_json dtoa V_Null = J_prim ''null''"
| "value_json dtoa (V_Bool b) = J_prim (if b then ''true'' else ''false'')"
| "value_json dtoa (V_Number fl n) = J_prim (case n of Number_int i \<Rightarrow> int_text i | Number_double d \<Rightarrow> dtoa d)"
| "value_json dtoa (V_String s) = J_str (escape s)"
| "value_json dtoa (V_Object ms) = J_obj (map (\<lambda>(k, v). (escape (case k of V_String s \<Rightarrow> s | _ \<Rightarrow> []), value_json dtoa v)) ms)"
| "value_json dtoa (V_Array vs) = J_arr (map (value_json dtoa) vs)"

lemma true_pair: "p = (True, snd p) \<longleftrightarrow> fst p"
  by (cases p) auto

lemma accept_events:
  "\<forall>e h. fst (hnd e h) \<Longrightarrow> storable P v \<Longrightarrow> Accept hnd v h = Some (True, run hnd (tree_events (value_tree v)) h)"
  "\<forall>e h. fst (hnd e h) \<Longrightarrow> storable P (V_Object ms) \<Longrightarrow> accept_members hnd ms h =
     Some (True, run hnd (members_events (map (\<lambda>(k, v). (case k of V_String s \<Rightarrow> s | _ \<Rightarrow> [], value_tree v)) ms)) h)"
  "\<forall>e h. fst (hnd e h) \<Longrightarrow> storable P (V_Array vs) \<Longrightarrow> accept_elements hnd vs h =
     Some (True, run hnd (concat (map (\<lambda>v. tree_events (value_tree v)) vs)) h)"
proof (induction hnd v h and hnd ms h and hnd vs h rule: Accept_accept_members_accept_elements.induct)
  case (3 hnd ms h)
  obtain h1 where "hnd Ev_StartObject h = (True, h1)" using "3.prems"(1) by (cases "hnd Ev_StartObject h") (metis fst_conv)
  with 3 show ?case by (auto simp: run_def comp_def true_pair)
next
  case (4 hnd vs h)
  obtain h1 where "hnd Ev_StartArray h = (True, h1)" using "4.prems"(1) by (cases "hnd Ev_StartArray h") (metis fst_conv)
  with 4 show ?case by (auto simp: run_def comp_def true_pair)
next
  case (8 hnd name v ms h)
  then obtain s where s: "name = V_String s" by auto
  obtain h1 where "hnd (Ev_Key s) h = (True, h1)" using "8.prems"(1) by (cases "hnd (Ev_Key s) h") (metis fst_conv)
  with 8 s show ?case by (auto simp: run_def comp_def true_pair)
next
  case (10 hnd v vs h)
  then show ?case by (auto simp: run_def comp_def)
qed (auto simp: run_def true_pair)


lemma calls_fun:
  "calls [] = Some" "calls (f # fs) = (\<lambda>w. Option.bind (f w) (calls fs))" "calls (fs @ gs) = (\<lambda>w. Option.bind (calls fs w) (calls gs))"
  by (auto simp: calls_append)

lemma calls_one [simp]: "calls [f] = f"
proof
  show "calls [f] w = f w" for w by (cases "f w") simp_all
qed

lemma run_writer_bind: "run (writer_put dtoa) es st = Option.bind st (calls (map (writer_event dtoa) es))"
proof (induction es arbitrary: st)
  case Nil
  then show ?case by (cases st) (simp_all add: run_def)
next
  case (Cons e es)
  then show ?case by (cases st) (simp_all add: run_def writer_put_def)
qed

lemma run_writer: "run (writer_put dtoa) es (Some w) = calls (map (writer_event dtoa) es) w"
  by (simp add: run_writer_bind)

lemma writes_number:
  assumes "flags_ok fl n" and "case n of Number_int i \<Rightarrow> - (2 ^ 63) \<le> i \<and> i < 2 ^ 64 | Number_double d \<Rightarrow> P d"
  shows "writes (writer_event dtoa (number_accept fl n)) (value_json dtoa (V_Number fl n))"
proof (cases n)
  case (Number_int i)
  have p: "0 \<le> i \<Longrightarrow> int_text i = to_string (nat i)" by (simp add: int_text_def)
  show ?thesis
    using assms u32toa_to_string [of "nat i"] u64toa_to_string [of "nat i"] i64toa_int_text [of i] i32toa_int_text [of i] p
    by (auto simp: Number_int flags_ok_def writes_def is_str_def wr_Int_def wr_Uint_def wr_Int64_def wr_Uint64_def)
next
  case (Number_double d)
  then show ?thesis using writes_Double by simp
qed

abbreviation value_calls :: "(double \<Rightarrow> string) \<Rightarrow> Value \<Rightarrow> writer \<Rightarrow> writer option" where
  "value_calls dtoa v \<equiv> calls (map (writer_event dtoa) (tree_events (value_tree v)))"

lemma calls_concat: "calls (concat fss) = calls (map calls fss)"
  by (induction fss) (simp_all add: calls_fun)

lemma writes_value: "storable P v \<Longrightarrow> writes (value_calls dtoa v) (value_json dtoa v)"
proof (induction v rule: value_tree.induct)
  case (5 ms)
  let ?n = "\<lambda>k. case k of V_String s \<Rightarrow> s | _ \<Rightarrow> []"
  let ?kfs = "map (\<lambda>(k, v). (?n k, value_calls dtoa v)) ms"
  have "list_all2 (\<lambda>(k, f) (k', v). k' = escape k \<and> writes f v) ?kfs (map (\<lambda>(k, v). (escape (?n k), value_json dtoa v)) ms)"
    using 5 by (auto simp: list_all2_map1 list_all2_map2 intro!: list.rel_refl_strong)
  from writes_object [OF this] have "writes (calls (StartObject # concat (map (\<lambda>(k, f). [wr_String k, f]) ?kfs) @ [EndObject]))
      (value_json dtoa (V_Object ms))" by simp
  moreover have "calls (map (writer_event dtoa) (members_events (map (\<lambda>(k, v). (?n k, value_tree v)) ms))) =
      calls (concat (map (\<lambda>(k, f). [wr_String k, f]) ?kfs))"
    by (induction ms) (auto simp: calls_fun)
  ultimately show ?case by (simp add: writes_def calls_fun del: calls.simps)
next
  case (6 vs)
  have "list_all2 writes (map (value_calls dtoa) vs) (map (value_json dtoa) vs)"
    using 6 by (auto simp: list_all2_map1 list_all2_map2 intro!: list.rel_refl_strong)
  from writes_array [OF this] show ?case
    by (simp add: writes_def calls_fun map_concat calls_concat comp_def del: calls.simps)
next
  case (3 fl n)
  then show ?case using writes_number [of fl n P dtoa] by (auto split: number.splits)
qed (auto simp: writes_def wr_Null_def wr_Bool_def wr_String_def WriteString_def quoted_def is_str_def)

lemma new_Writer_Prefix: "Prefix b new_Writer = Some (new_Writer\<lparr>wr_root := True\<rparr>)"
  by (simp add: Prefix_def new_Writer_def)

lemma stringify_text:
  assumes "storable P v"
  shows "stringify dtoa v = Some (print_json (value_json dtoa v))"
proof -
  have "\<forall>e h. fst (writer_put dtoa e h)" by (simp add: writer_put_def)
  from accept_events(1) [OF this assms] have "Accept (writer_put dtoa) v (Some new_Writer) = Some (True, value_calls dtoa v new_Writer)"
    by (simp add: run_writer)
  moreover have "value_calls dtoa v new_Writer = Some (put (print_json (value_json dtoa v)) (new_Writer\<lparr>wr_root := True\<rparr>))"
    using writes_value [OF assms, of dtoa] by (simp add: writes_def new_Writer_Prefix)
  ultimately show ?thesis by (simp add: stringify_def put_def new_Writer_def)
qed


section \<open>Reading it back\<close>

text \<open>A value without the flags of its numbers, which are determined by the numbers.\<close>

fun plain :: "Value \<Rightarrow> Value" where
  "plain (V_Number fl n) = V_Number [] n"
| "plain (V_Object ms) = V_Object (map (\<lambda>(k, v). (k, plain v)) ms)"
| "plain (V_Array vs) = V_Array (map plain vs)"
| "plain v = v"

fun read_tree :: "Value \<Rightarrow> tree" where
  "read_tree V_Null = T_leaf Ev_Null"
| "read_tree (V_Bool b) = T_leaf (Ev_Bool b)"
| "read_tree (V_Number fl n) = T_leaf (case n of Number_int i \<Rightarrow> int_event i | Number_double d \<Rightarrow> Ev_Double d)"
| "read_tree (V_String s) = T_leaf (Ev_String s)"
| "read_tree (V_Object ms) = T_obj (map (\<lambda>(k, v). (case k of V_String s \<Rightarrow> s | _ \<Rightarrow> [], read_tree v)) ms)"
| "read_tree (V_Array vs) = T_arr (map read_tree vs)"

lemma reads_value:
  assumes "double_text rnd dtoa P"
  shows "storable P v \<Longrightarrow> reads rnd (value_json dtoa v) (read_tree v)"
proof (induction v rule: read_tree.induct)
  case (3 fl n)
  then show ?case using reads_int double_text.read [OF assms] by (auto split: number.splits intro: reads_prim)
next
  case (5 ms)
  have "reads rnd (value_json dtoa w) (read_tree w)" if "(k, w) \<in> set ms" for k w
    using "5.IH" [OF that refl] "5.prems" that by auto
  then show ?case
    by (auto simp: list_all2_map1 list_all2_map2 intro!: reads_obj list.rel_refl_strong)
next
  case (6 vs)
  then show ?case by (auto simp: list_all2_map1 list_all2_map2 intro!: reads_arr list.rel_refl_strong)
qed (auto simp: prim_event_def intro: reads_prim)

lemma int_event_plain: "- (2 ^ 63) \<le> i \<Longrightarrow> i < 2 ^ 64 \<Longrightarrow> plain (leaf_value (int_event i)) = V_Number [] (Number_int i)"
  by (auto simp: int_event_def Value_int_def Value_unsigned_def Value_int64_def Value_uint64_def)

lemma plain_read: "storable P v \<Longrightarrow> plain (tree_value (read_tree v)) = plain v"
proof (induction v rule: read_tree.induct)
  case (3 fl n)
  then show ?case using int_event_plain by (auto simp: Value_double_def split: number.splits)
qed auto

lemma int_event_storable: "- (2 ^ 63) \<le> i \<Longrightarrow> i < 2 ^ 64 \<Longrightarrow> storable P (leaf_value (int_event i))"
proof -
  assume i: "- (2 ^ 63) \<le> i" "i < 2 ^ 64"
  then have "in_range (int_event i)" by (auto simp: int_event_def)
  from leaf_well_typed [OF this] show ?thesis using i
    by (auto simp: int_event_def Value_int_def Value_unsigned_def Value_int64_def Value_uint64_def elim: well_typed.cases)
qed

lemma read_storable: "storable P v \<Longrightarrow> storable P (tree_value (read_tree v))"
proof (induction v rule: read_tree.induct)
  case (3 fl n)
  then show ?case using int_event_storable by (auto simp: Value_double_def flags_ok_def split: number.splits)
qed auto

lemma members_ok_all: "members_ok ms \<longleftrightarrow> (\<forall>(k, v) \<in> set ms. str_body k \<and> json_ok v)"
  by (induction ms) auto

lemma elements_ok_all: "elements_ok vs \<longleftrightarrow> (\<forall>v \<in> set vs. json_ok v)"
  by (induction vs) auto

lemma value_json_ok:
  "storable P v \<Longrightarrow> \<forall>d. P d \<longrightarrow> prim_text (dtoa d) \<Longrightarrow> json_ok (value_json dtoa v)"
proof (induction v rule: value_json.induct)
  case (3 dtoa fl n)
  have "number_chars (int_text i)" for i using to_string_digits by (auto simp: number_chars_def int_text_def quiet_def)
  then have "prim_text (int_text i)" for i by (rule number_prim_text) (simp add: int_text_def)
  then show ?case using 3 by (auto split: number.splits)
next
  case (5 dtoa ms)
  have "json_ok (value_json dtoa w)" if "(k, w) \<in> set ms" for k w
    using "5.IH" [OF that refl] "5.prems" that by auto
  then show ?case by (auto simp: members_ok_all)
next
  case (6 dtoa vs)
  then show ?case by (auto simp: elements_ok_all)
qed (auto simp: literal_prim_text)

text \<open>
  C13: a value that is written is read back. For every value that a document can hold, writing fails no assertion, and
  parsing the text, also with white space around it, gives the same value: the same members in the same order,
  strings of any bytes, and integers up to the 64-bit limits, again with the flags of all types that hold them. The
  printer of doubles must give texts of numbers that are read back.
\<close>

theorem stringify_round_trip:
  assumes "double_text rnd dtoa printable" and "\<forall>d. printable d \<longrightarrow> prim_text (dtoa d)"
    and "storable printable v" and "blank w1" and "blank w2"
  shows "\<exists>text v'. stringify dtoa v = Some text \<and> Document_Parse rnd V_Null (w1 @ text @ w2) = Some v' \<and>
    plain v' = plain v \<and> storable printable v'"
proof -
  let ?p = "print_json (value_json dtoa v)"
  have t: "json_text (value_json dtoa v) ?p" by (rule print_json_text(1) [OF value_json_ok [OF assms(3,2)]])
  have "CHR 0x00 \<notin> set (w1 @ ?p @ w2)"
    using text_no_null(1) [OF t] blank_no_null [OF assms(4)] blank_no_null [OF assms(5)] by simp
  from document_text [OF t reads_value [OF assms(1,3)] assms(4,5) this]
  show ?thesis using stringify_text [OF assms(3)] plain_read [OF assms(3)] read_storable [OF assms(3)] by blast
qed


theorem stringify_round_trip_witness:
  "\<exists>text v'. stringify cents_text (V_Object [(V_String ''n'', Value_int64 (- (2 ^ 63))), (V_String [CHR 0x00], V_Array [V_Bool True, Value_double (1 / 2)])]) = Some text \<and>
     Document_Parse round_double V_Null ('' '' @ text @ []) = Some v' \<and>
     plain v' = V_Object [(V_String ''n'', V_Number [] (Number_int (- (2 ^ 63)))), (V_String [CHR 0x00], V_Array [V_Bool True, V_Number [] (Number_double (1 / 2))])]"
proof -
  let ?v = "V_Object [(V_String ''n'', Value_int64 (- (2 ^ 63))), (V_String [CHR 0x00], V_Array [V_Bool True, Value_double (1 / 2)])]"
  have "exact_double (1 / 2)" unfolding exact_double_def by (rule exI [of _ 1], rule exI [of _ 1]) simp
  then have s: "storable exact_cents ?v"
    by (simp add: Value_int64_def Value_double_def flags_ok_def exact_cents_def whole_cents_def)
  have b: "blank '' ''" "blank []" by (simp_all add: blank_def white_def)
  show ?thesis
    using stringify_round_trip [OF double_precision.cents.double_text_axioms _ s b] cents_prim_text
    by (fastforce simp: Value_int64_def Value_double_def)
qed

section \<open>Comparing values\<close>

text \<open>
  Two integers are compared by the 64 bits they are stored in; if one of the numbers is a double, both are converted.
\<close>

definition number_equal :: "rounding \<Rightarrow> number_flag list \<Rightarrow> number \<Rightarrow> number_flag list \<Rightarrow> number \<Rightarrow> bool" where
  "number_equal rnd fl m gl n =
     (case (m, n) of
        (Number_int i, Number_int j) \<Rightarrow> i mod 2 ^ 64 = j mod 2 ^ 64
      | _ \<Rightarrow> GetDouble rnd (V_Number fl m) = GetDouble rnd (V_Number gl n))"

fun value_equal :: "rounding \<Rightarrow> Value \<Rightarrow> Value \<Rightarrow> bool option"
  and members_equal :: "rounding \<Rightarrow> (Value \<times> Value) list \<Rightarrow> (Value \<times> Value) list \<Rightarrow> bool option"
  and elements_equal :: "rounding \<Rightarrow> Value list \<Rightarrow> Value list \<Rightarrow> bool option" where
  "value_equal rnd (V_Object ms) rhs =
     (case rhs of V_Object ns \<Rightarrow> if length ms \<noteq> length ns then Some False else members_equal rnd ms ns | _ \<Rightarrow> Some False)"
| "value_equal rnd (V_Array vs) rhs =
     (case rhs of V_Array ws \<Rightarrow> if length vs \<noteq> length ws then Some False else elements_equal rnd vs ws | _ \<Rightarrow> Some False)"
| "value_equal rnd (V_String s) rhs = Some (case rhs of V_String t \<Rightarrow> s = t | _ \<Rightarrow> False)"
| "value_equal rnd (V_Number fl m) rhs = Some (case rhs of V_Number gl n \<Rightarrow> number_equal rnd fl m gl n | _ \<Rightarrow> False)"
| "value_equal rnd V_Null rhs = Some (rhs = V_Null)"
| "value_equal rnd (V_Bool b) rhs = Some (rhs = V_Bool b)"
| "members_equal rnd [] ns = Some True"
| "members_equal rnd ((name, v) # ms) ns =
     (case GetString name of
        None \<Rightarrow> None
      | Some s \<Rightarrow>
          (case FindMember ns s of
             None \<Rightarrow> None
           | Some None \<Rightarrow> Some False
           | Some (Some w) \<Rightarrow>
               (case value_equal rnd v w of
                  Some True \<Rightarrow> members_equal rnd ms ns
                | r \<Rightarrow> r)))"
| "elements_equal rnd [] ws = Some True"
| "elements_equal rnd (v # vs) ws =
     (case ws of
        [] \<Rightarrow> None
      | w # ws \<Rightarrow> (case value_equal rnd v w of Some True \<Rightarrow> elements_equal rnd vs ws | r \<Rightarrow> r))"

text \<open>The meaning of a value: objects are maps, numbers are numbers.\<close>

datatype meaning = M_null | M_bool bool | M_number rat | M_string string | M_object "string \<Rightarrow> meaning option" | M_array "meaning list"

definition name_of :: "Value \<Rightarrow> string" where
  "name_of k = (case k of V_String s \<Rightarrow> s | _ \<Rightarrow> [])"

lemma name_of_String [simp]: "name_of (V_String s) = s"
  by (simp add: name_of_def)

fun meaning_of :: "Value \<Rightarrow> meaning" where
  "meaning_of V_Null = M_null"
| "meaning_of (V_Bool b) = M_bool b"
| "meaning_of (V_Number fl n) = M_number (case n of Number_int i \<Rightarrow> of_int i | Number_double d \<Rightarrow> d)"
| "meaning_of (V_String s) = M_string s"
| "meaning_of (V_Object ms) = M_object (map_of (map (\<lambda>(k, v). (name_of k, meaning_of v)) ms))"
| "meaning_of (V_Array vs) = M_array (map meaning_of vs)"

text \<open>Values whose comparison is exact: names are distinct strings, and integers have at most 53 bits.\<close>

fun comparable :: "Value \<Rightarrow> bool" where
  "comparable (V_Number fl n) \<longleftrightarrow> (case n of Number_int i \<Rightarrow> \<bar>i\<bar> \<le> 2 ^ 53 | Number_double d \<Rightarrow> True)"
| "comparable (V_Object ms) \<longleftrightarrow> distinct (map fst ms) \<and> (\<forall>(k, v) \<in> set ms. (\<exists>s. k = V_String s) \<and> comparable v)"
| "comparable (V_Array vs) \<longleftrightarrow> (\<forall>v \<in> set vs. comparable v)"
| "comparable v \<longleftrightarrow> True"


lemma card_dom_map_of: "distinct (map fst xs) \<Longrightarrow> card (dom (map_of xs)) = length xs"
  by (simp add: dom_map_of_conv_image_fst distinct_card flip: set_map)

lemma map_of_same:
  assumes "distinct (map fst xs)" and "distinct (map fst ys)"
  shows "length xs = length ys \<and> (\<forall>(k, x) \<in> set xs. map_of ys k = Some x) \<longleftrightarrow> map_of xs = map_of ys"
proof
  assume l: "length xs = length ys \<and> (\<forall>(k, x) \<in> set xs. map_of ys k = Some x)"
  then have le: "map_of xs \<subseteq>\<^sub>m map_of ys" by (auto simp: map_le_def dom_map_of_conv_image_fst map_of_is_SomeI [OF assms(1)])
  then have "dom (map_of xs) \<subseteq> dom (map_of ys)" by (rule map_le_implies_dom_le)
  moreover have "card (dom (map_of xs)) = card (dom (map_of ys))" using l assms by (simp add: card_dom_map_of)
  ultimately have "dom (map_of xs) = dom (map_of ys)" by (intro card_subset_eq) (simp_all add: finite_dom_map_of)
  then have "map_of ys \<subseteq>\<^sub>m map_of xs" using le by (auto simp: map_le_def)
  with le show "map_of xs = map_of ys" by (rule map_le_antisym)
next
  assume e: "map_of xs = map_of ys"
  then have "length xs = length ys" using assms by (metis card_dom_map_of)
  then show "length xs = length ys \<and> (\<forall>(k, x) \<in> set xs. map_of ys k = Some x)"
    using assms(1) by (auto simp flip: e)
qed

definition named :: "(Value \<times> Value) list \<Rightarrow> bool" where
  "named ms \<longleftrightarrow> (\<forall>(k, v) \<in> set ms. \<exists>s. k = V_String s)"

abbreviation by_name :: "(Value \<times> Value) list \<Rightarrow> (string \<times> Value) list" where
  "by_name ms \<equiv> map (\<lambda>(k, v). (name_of k, v)) ms"

lemma FindMember_map: "named ns \<Longrightarrow> FindMember ns s = Some (map_of (by_name ns) s)"
  by (induction ns) (auto simp: named_def)

lemma distinct_names: "named ms \<Longrightarrow> distinct (map fst (by_name ms)) \<longleftrightarrow> distinct (map fst ms)"
  by (induction ms) (force simp: named_def)+

context rounding
begin

lemma exact_int: "\<bar>i\<bar> \<le> 2 ^ 53 \<Longrightarrow> rnd (of_int i) = of_int i"
  by (rule exact, unfold exact_double_def, rule exI [of _ i], rule exI [of _ 0]) simp

lemma number_equal_iff:
  assumes "comparable (V_Number fl m)" and "comparable (V_Number gl n)"
  shows "number_equal rnd fl m gl n \<longleftrightarrow> meaning_of (V_Number fl m) = meaning_of (V_Number gl n)"
proof -
  have "i mod 2 ^ 64 = j mod 2 ^ 64 \<longleftrightarrow> i = j" if "\<bar>i\<bar> \<le> 2 ^ 53" "\<bar>j\<bar> \<le> 2 ^ 53" for i j :: int
  proof
    assume "i mod 2 ^ 64 = j mod 2 ^ 64"
    then have "2 ^ 64 dvd i - j" by (simp only: mod_eq_dvd_iff)
    moreover have "\<bar>i - j\<bar> < 2 ^ 64" using that by simp
    ultimately show "i = j" by (metis dvd_imp_le_int eq_iff_diff_eq_0 not_le abs_numeral power_abs)
  qed simp
  then show ?thesis using assms exact_int
    by (auto simp: number_equal_def split: number.splits)
qed

end


lemma map_meaning: "map_of (map (\<lambda>(k, v). (name_of k, meaning_of v)) ns) s = map_option meaning_of (map_of (by_name ns) s)"
  by (induction ns) auto

lemma comparable_object: "comparable (V_Object ms) \<Longrightarrow> named ms \<and> distinct (map fst (by_name ms)) \<and> (\<forall>(k, v) \<in> set ms. comparable v)"
  using distinct_names [of ms] by (auto simp: named_def)

lemma found_comparable: "comparable (V_Object ns) \<Longrightarrow> map_of (by_name ns) s = Some w \<Longrightarrow> comparable w"
  by (auto dest!: map_of_SomeD)

lemma value_equal_meaning:
  "rounding rnd \<Longrightarrow> comparable v \<Longrightarrow> comparable w \<Longrightarrow> value_equal rnd v w = Some (meaning_of v = meaning_of w)"
  "rounding rnd \<Longrightarrow> (\<forall>(k, v) \<in> set ms. (\<exists>s. k = V_String s) \<and> comparable v) \<Longrightarrow> comparable (V_Object ns) \<Longrightarrow>
    members_equal rnd ms ns = Some (\<forall>(k, v) \<in> set ms. map_of (map (\<lambda>(k, v). (name_of k, meaning_of v)) ns) (name_of k) = Some (meaning_of v))"
  "rounding rnd \<Longrightarrow> comparable (V_Array vs) \<Longrightarrow> comparable (V_Array ws) \<Longrightarrow> length vs = length ws \<Longrightarrow>
    elements_equal rnd vs ws = Some (map meaning_of vs = map meaning_of ws)"
proof (induction rnd v w and rnd ms ns and rnd vs ws rule: value_equal_members_equal_elements_equal.induct)
  case (1 rnd ms rhs)
  show ?case
  proof (cases rhs)
    case (V_Object ns)
    let ?m = "\<lambda>ms. map (\<lambda>(k, v). (name_of k, meaning_of v)) ms"
    have d: "distinct (map fst (?m xs))" if "comparable (V_Object xs)" for xs
      using comparable_object [OF that] by (simp add: comp_def case_prod_beta)
    have "map_of (?m ms) = map_of (?m ns) \<longleftrightarrow> length ms = length ns \<and> (\<forall>(k, v) \<in> set ms. map_of (?m ns) (name_of k) = Some (meaning_of v))"
      using map_of_same [OF d d, of ms ns] "1.prems" V_Object by auto
    then show ?thesis using 1 V_Object by auto
  qed (use 1 in auto)
next
  case (8 rnd name v ms ns)
  obtain s where s: "name = V_String s" using "8.prems"(2) by auto
  have f: "FindMember ns s = Some (map_of (by_name ns) s)"
    using FindMember_map comparable_object [OF "8.prems"(3)] by blast
  show ?case
  proof (cases "map_of (by_name ns) s")
    case None
    then show ?thesis by (simp add: s f map_meaning)
  next
    case (Some w)
    have "value_equal rnd v w = Some (meaning_of v = meaning_of w)"
      using "8.IH"(1) [of s "Some w" w] "8.prems" found_comparable [OF "8.prems"(3) Some] by (simp add: s f Some)
    then show ?thesis using "8.IH"(2) [of s "Some w" w] "8.prems"
      by (cases "meaning_of v = meaning_of w") (auto simp: s f Some map_meaning)
  qed
next
  case (10 rnd v vs ws)
  then obtain w us where w: "ws = w # us" by (cases ws) auto
  have "value_equal rnd v w = Some (meaning_of v = meaning_of w)" using 10 w by simp
  then show ?case using 10 w by (cases "meaning_of v = meaning_of w") auto
next
  case (2 rnd vs rhs)
  then show ?case by (cases rhs) (auto dest: map_eq_imp_length_eq)
next
  case (4 rnd fl m rhs)
  then show ?case using rounding.number_equal_iff by (cases rhs) auto
next
  case (5 rnd rhs)
  then show ?case by (cases rhs) auto
next
  case (6 rnd b rhs)
  then show ?case by (cases rhs) auto
qed (auto split: Value.split)


text \<open>
  C18: the operator for equality compares what values mean. For values whose objects have distinct names and whose integers have at most
  53 bits, it fails no assertion and returns whether the values are equal when the order of members does not
  count, integers and doubles are numbers of one kind, and arrays are compared element by element.
\<close>

theorem value_equal_iff:
  assumes "rounding rnd" and "comparable v" and "comparable w"
  shows "value_equal rnd v w = Some (meaning_of v = meaning_of w)"
  by (rule value_equal_meaning(1) [OF assms])

theorem value_equal_iff_witness:
  "value_equal round_double (V_Object [(V_String ''a'', Value_int 1), (V_String ''b'', V_Null)])
     (V_Object [(V_String ''b'', V_Null), (V_String ''a'', Value_double 1)]) = Some True"
proof -
  have "comparable (V_Object [(V_String ''a'', Value_int 1), (V_String ''b'', V_Null)])"
    "comparable (V_Object [(V_String ''b'', V_Null), (V_String ''a'', Value_double 1)])"
    by (simp_all add: Value_int_def Value_double_def)
  from value_equal_iff [OF double_precision.rounding_axioms this]
  show ?thesis by (simp add: Value_int_def Value_double_def fun_upd_twist)
qed

text \<open>
  C29: the range of integers is necessary. For every negative 64-bit integer, the document of its text and the document of
  the text of the integer that is larger by \<open>2 ^ 64\<close> compare equal, in both directions, although they stand for different
  numbers: both are stored in the same 64 bits, and only these are compared.
\<close>

theorem different_numbers_equal:
  assumes "- (2 ^ 63) \<le> i" and "i < 0"
  shows "\<exists>v w. Document_Parse rnd V_Null (int_text i) = Some v \<and> Document_Parse rnd V_Null (int_text (i + 2 ^ 64)) = Some w \<and>
    value_equal rnd v w = Some True \<and> value_equal rnd w v = Some True \<and>
    meaning_of v = M_number (of_int i) \<and> meaning_of w = M_number (of_int (i + 2 ^ 64))"
proof -
  have p: "Document_Parse rnd V_Null (int_text j) = Some (leaf_value (int_event j))" if "- (2 ^ 63) \<le> j" "j < 2 ^ 64" for j
  proof -
    have j: "json_text (J_prim (int_text j)) (int_text j)" by (rule text_prim) simp
    from document_text [OF j reads_int [OF that] blank_Nil blank_Nil] text_no_null(1) [OF j] show ?thesis by simp
  qed
  have q: "\<exists>fl. leaf_value (int_event j) = V_Number fl (Number_int j)" if "- (2 ^ 63) \<le> j" "j < 2 ^ 64" for j
    using that by (auto simp: int_event_def Value_int_def Value_unsigned_def Value_int64_def Value_uint64_def)
  have r: "- (2 ^ 63) \<le> i" "i < 2 ^ 64" "- (2 ^ 63) \<le> i + 2 ^ 64" "i + 2 ^ 64 < 2 ^ 64" using assms by simp_all
  obtain fl gl where "leaf_value (int_event i) = V_Number fl (Number_int i)"
    "leaf_value (int_event (i + 2 ^ 64)) = V_Number gl (Number_int (i + 2 ^ 64))"
    using q [OF r(1,2)] q [OF r(3,4)] by blast
  then show ?thesis using p [OF r(1,2)] p [OF r(3,4)] by (simp add: number_equal_def)
qed

theorem different_numbers_equal_witness:
  "\<exists>v w. Document_Parse round_double V_Null (int_text (- 1)) = Some v \<and>
     Document_Parse round_double V_Null (int_text 18446744073709551615) = Some w \<and>
     value_equal round_double v w = Some True \<and> meaning_of v \<noteq> meaning_of w"
proof -
  have "- (2 ^ 63) \<le> (- 1 :: int)" "(- 1 :: int) < 0" by simp_all
  from different_numbers_equal [OF this, of round_double] show ?thesis by fastforce
qed

text \<open>
  An object in which a name occurs twice: it can equal itself, although the comment on the operator says that such objects equal
  none, and it can equal an object that does not equal it.
\<close>

lemma repeated_name_equal:
  assumes "value_equal rnd v v = Some True" and "k \<noteq> l"
  shows "value_equal rnd (V_Object [(V_String k, v), (V_String k, v)]) (V_Object [(V_String k, v), (V_String k, v)]) = Some True"
    and "value_equal rnd (V_Object [(V_String k, v), (V_String k, v)]) (V_Object [(V_String k, v), (V_String l, v)]) = Some True"
    and "value_equal rnd (V_Object [(V_String k, v), (V_String l, v)]) (V_Object [(V_String k, v), (V_String k, v)]) = Some False"
  using assms by simp_all

section \<open>Editing objects and arrays\<close>

text \<open>
  Iterators are positions; the end is the number of members or elements. A name and a value that are added are
  moved: they become null.
\<close>

fun find_position :: "(Value \<times> Value) list \<Rightarrow> string \<Rightarrow> nat option" where
  "find_position [] name = Some 0"
| "find_position ((k, v) # ms) name =
     (case GetString k of
        None \<Rightarrow> None
      | Some s \<Rightarrow> if s = name then Some 0 else map_option Suc (find_position ms name))"

definition HasMember :: "Value \<Rightarrow> string \<Rightarrow> bool option" where
  "HasMember obj name =
     (case obj of V_Object ms \<Rightarrow> map_option (\<lambda>m. m \<noteq> length ms) (find_position ms name) | _ \<Rightarrow> None)"

definition AddMember :: "Value \<Rightarrow> Value \<Rightarrow> Value \<Rightarrow> (Value \<times> Value \<times> Value) option" where
  "AddMember obj name v =
     (case (obj, name) of (V_Object ms, V_String s) \<Rightarrow> Some (V_Object (ms @ [(name, v)]), V_Null, V_Null) | _ \<Rightarrow> None)"

definition RemoveAllMembers :: "Value \<Rightarrow> Value option" where
  "RemoveAllMembers obj = (case obj of V_Object ms \<Rightarrow> Some (V_Object []) | _ \<Rightarrow> None)"

definition RemoveMember_at :: "Value \<Rightarrow> nat \<Rightarrow> (Value \<times> nat) option" where
  "RemoveMember_at obj m =
     (case obj of
        V_Object ms \<Rightarrow>
          (if m < length ms then
             Some (V_Object (butlast (if length ms > 1 \<and> m \<noteq> length ms - 1 then ms[m := last ms] else ms)), m)
           else None)
      | _ \<Rightarrow> None)"

definition EraseMember_range :: "Value \<Rightarrow> nat \<Rightarrow> nat \<Rightarrow> (Value \<times> nat) option" where
  "EraseMember_range obj from until =
     (case obj of
        V_Object ms \<Rightarrow>
          (if ms \<noteq> [] \<and> from \<le> until \<and> until \<le> length ms then Some (V_Object (take from ms @ drop until ms), from) else None)
      | _ \<Rightarrow> None)"

text \<open>The variants that look for a name say whether it was a member.\<close>

definition with_member :: "(Value \<Rightarrow> nat \<Rightarrow> (Value \<times> nat) option) \<Rightarrow> Value \<Rightarrow> string \<Rightarrow> (Value \<times> bool) option" where
  "with_member f obj name =
     (case obj of
        V_Object ms \<Rightarrow>
          (case find_position ms name of
             None \<Rightarrow> None
           | Some m \<Rightarrow> if m \<noteq> length ms then map_option (\<lambda>(obj', _). (obj', True)) (f obj m) else Some (obj, False))
      | _ \<Rightarrow> None)"

definition RemoveMember :: "Value \<Rightarrow> string \<Rightarrow> (Value \<times> bool) option" where
  "RemoveMember obj name = with_member RemoveMember_at obj name"

definition EraseMember :: "Value \<Rightarrow> string \<Rightarrow> (Value \<times> bool) option" where
  "EraseMember obj name = with_member (\<lambda>obj m. EraseMember_range obj m (m + 1)) obj name"

definition Clear :: "Value \<Rightarrow> Value option" where
  "Clear arr = (case arr of V_Array vs \<Rightarrow> Some (V_Array []) | _ \<Rightarrow> None)"

definition element_at :: "Value \<Rightarrow> nat \<Rightarrow> Value option" where
  "element_at arr i = (case arr of V_Array vs \<Rightarrow> if i < length vs then Some (vs ! i) else None | _ \<Rightarrow> None)"

definition PushBack :: "Value \<Rightarrow> Value \<Rightarrow> (Value \<times> Value) option" where
  "PushBack arr v = (case arr of V_Array vs \<Rightarrow> Some (V_Array (vs @ [v]), V_Null) | _ \<Rightarrow> None)"

definition PopBack :: "Value \<Rightarrow> Value option" where
  "PopBack arr = (case arr of V_Array vs \<Rightarrow> if vs = [] then None else Some (V_Array (butlast vs)) | _ \<Rightarrow> None)"

definition Erase :: "Value \<Rightarrow> nat \<Rightarrow> nat \<Rightarrow> (Value \<times> nat) option" where
  "Erase arr from until =
     (case arr of
        V_Array vs \<Rightarrow>
          (if vs \<noteq> [] \<and> from \<le> until \<and> until \<le> length vs then Some (V_Array (take from vs @ drop until vs), from) else None)
      | _ \<Rightarrow> None)"

text \<open>The map of an object, and the objects whose names are distinct strings.\<close>

abbreviation members_map :: "(Value \<times> Value) list \<Rightarrow> string \<Rightarrow> Value option" where
  "members_map ms \<equiv> map_of (by_name ms)"

definition proper :: "(Value \<times> Value) list \<Rightarrow> bool" where
  "proper ms \<longleftrightarrow> named ms \<and> distinct (map fst ms)"

lemma find_split:
  assumes "named ms"
  shows "(members_map ms k = None \<and> find_position ms k = Some (length ms)) \<or>
    (\<exists>as v bs. ms = as @ (V_String k, v) # bs \<and> members_map ms k = Some v \<and> find_position ms k = Some (length as))"
  using assms
proof (induction ms)
  case (Cons m ms)
  obtain s v where m: "m = (V_String s, v)" using Cons.prems by (cases m) (auto simp: named_def)
  show ?case
  proof (cases "s = k")
    case True
    then show ?thesis by (intro disjI2 exI [of _ "[]"]) (simp add: m)
  next
    case False
    have "named ms" using Cons.prems by (simp add: named_def)
    from Cons.IH [OF this] show ?thesis
    proof (elim disjE exE conjE)
      fix as w bs assume "ms = as @ (V_String k, w) # bs" "members_map ms k = Some w" "find_position ms k = Some (length as)"
      then show ?thesis using False by (intro disjI2 exI [of _ "m # as"] exI [of _ w] exI [of _ bs]) (simp add: m)
    qed (use False m in simp)
  qed
qed simp

lemma map_of_absent: "named ms \<Longrightarrow> members_map ms k = None \<longleftrightarrow> V_String k \<notin> fst ` set ms"
  by (induction ms) (force simp: named_def)+

lemma proper_split:
  assumes "proper (as @ (V_String k, v) # bs)"
  shows "proper (as @ bs)" and "members_map (as @ bs) = (members_map (as @ (V_String k, v) # bs))(k := None)"
proof -
  show p: "proper (as @ bs)" using assms by (auto simp: proper_def named_def)
  have "V_String k \<notin> fst ` set as" "V_String k \<notin> fst ` set bs" "named as" "named bs" using assms by (auto simp: proper_def named_def)
  then have "members_map as k = None" "members_map bs k = None" by (simp_all add: map_of_absent)
  then show "members_map (as @ bs) = (members_map (as @ (V_String k, v) # bs))(k := None)"
    by (intro ext) (auto simp: map_add_def split: option.split)
qed


lemma erase_split: "EraseMember_range (V_Object (as @ m # bs)) (length as) (length as + 1) = Some (V_Object (as @ bs), length as)"
  by (simp add: EraseMember_range_def)

lemma remove_split:
  "RemoveMember_at (V_Object (as @ m # bs)) (length as) =
     Some (V_Object (as @ (if bs = [] then [] else last bs # butlast bs)), length as)"
  by (auto simp: RemoveMember_at_def butlast_append neq_Nil_conv list_update_append)

lemma moved_last:
  assumes "proper (as @ bs)" and "bs \<noteq> []"
  shows "proper (as @ last bs # butlast bs)" and "members_map (as @ last bs # butlast bs) = members_map (as @ bs)"
proof -
  have s: "butlast bs @ [last bs] = bs" using assms(2) by simp
  have e: "set (as @ last bs # butlast bs) = set (as @ bs)" using arg_cong [OF s, of set] by simp
  have "map fst (butlast bs) @ [fst (last bs)] = map fst bs" using arg_cong [OF s, of "map fst"] by simp
  then have "distinct (map fst (as @ butlast bs @ [last bs]))" using assms(1) s by (simp add: proper_def del: append_butlast_last_id)
  then have d: "distinct (map fst (as @ last bs # butlast bs))" by auto
  then show pr: "proper (as @ last bs # butlast bs)" using assms(1) e by (simp add: proper_def named_def del: set_append)
  have "distinct (map fst (by_name (as @ last bs # butlast bs)))" "distinct (map fst (by_name (as @ bs)))"
    using distinct_names [of "as @ last bs # butlast bs"] distinct_names [of "as @ bs"] assms(1) pr unfolding proper_def by blast+
  then show "members_map (as @ last bs # butlast bs) = members_map (as @ bs)"
    by (subst map_of_inject_set) (use e in \<open>simp_all only: set_map\<close>)
qed

text \<open>
  C17: objects are maps. On an object whose names are distinct strings, looking up a name is looking it up in the map of the
  object; adding a member with a new name is an update of the map; and both ways to remove a member, the one that moves the
  last member to its place and the one that keeps the order, delete the name from the map and say whether it was there.
  The names stay distinct, and no assertion fails.
\<close>

theorem object_refines_map:
  assumes "proper ms"
  shows "FindMember ms k = Some (members_map ms k) \<and> HasMember (V_Object ms) k = Some (members_map ms k \<noteq> None) \<and>
    (members_map ms k = None \<longrightarrow> (\<exists>ms'. AddMember (V_Object ms) (V_String k) v = Some (V_Object ms', V_Null, V_Null) \<and>
        proper ms' \<and> members_map ms' = (members_map ms)(k \<mapsto> v))) \<and>
    (\<exists>ms'. RemoveMember (V_Object ms) k = Some (V_Object ms', members_map ms k \<noteq> None) \<and> proper ms' \<and> members_map ms' = (members_map ms)(k := None)) \<and>
    (\<exists>ms'. EraseMember (V_Object ms) k = Some (V_Object ms', members_map ms k \<noteq> None) \<and> proper ms' \<and> members_map ms' = (members_map ms)(k := None) \<and>
       ms' = filter (\<lambda>m. fst m \<noteq> V_String k) ms)"
proof -
  have n: "named ms" using assms by (simp add: proper_def)
  have f: "FindMember ms k = Some (members_map ms k)" by (rule FindMember_map [OF n])
  show ?thesis
  proof (cases "members_map ms k")
    case None
    then have p: "find_position ms k = Some (length ms)" using find_split [OF n, of k] by auto
    have a: "V_String k \<notin> fst ` set ms" using None map_of_absent [OF n] by simp
    then have "filter (\<lambda>m. fst m \<noteq> V_String k) ms = ms" by (intro filter_True) force
    moreover have "proper (ms @ [(V_String k, v)])" using assms a by (auto simp: proper_def named_def)
    moreover have "members_map (ms @ [(V_String k, v)]) = (members_map ms)(k \<mapsto> v)"
      using None by (intro ext) (auto simp: map_add_def split: option.split)
    moreover have "(members_map ms)(k := None) = members_map ms" using None by (simp add: fun_upd_idem)
    ultimately show ?thesis using None f p assms
      by (simp add: HasMember_def AddMember_def RemoveMember_def EraseMember_def with_member_def)
  next
    case (Some w)
    then obtain as bs where s: "ms = as @ (V_String k, w) # bs" and p: "find_position ms k = Some (length as)"
      using find_split [OF n, of k] by auto
    note q = proper_split [of as k w bs, folded s, OF assms]
    have "V_String k \<notin> fst ` set as" "V_String k \<notin> fst ` set bs" using assms by (auto simp: s proper_def)
    then have fl: "filter (\<lambda>m. fst m \<noteq> V_String k) ms = as @ bs"
      by (simp add: s) (metis (mono_tags, lifting) filter_True image_eqI)
    have l: "length as \<noteq> length ms" by (simp add: s)
    have rm: "RemoveMember (V_Object ms) k = Some (V_Object (as @ (if bs = [] then [] else last bs # butlast bs)), True)"
      using remove_split [of as "(V_String k, w)" bs, folded s] by (simp add: RemoveMember_def with_member_def p l)
    have r: "\<exists>ms'. RemoveMember (V_Object ms) k = Some (V_Object ms', True) \<and> proper ms' \<and> members_map ms' = (members_map ms)(k := None)"
    proof (cases "bs = []")
      case True
      show ?thesis by (rule exI [of _ "as @ bs"]) (use q in \<open>simp add: rm True\<close>)
    next
      case False
      show ?thesis
        by (rule exI [of _ "as @ last bs # butlast bs"]) (simp only: rm False if_False moved_last [OF q(1) False] q(2) simp_thms)
    qed
    have e: "EraseMember (V_Object ms) k = Some (V_Object (as @ bs), True)"
      using erase_split [of as "(V_String k, w)" bs, folded s] by (simp add: EraseMember_def with_member_def p l)
    have er: "\<exists>ms'. EraseMember (V_Object ms) k = Some (V_Object ms', True) \<and> proper ms' \<and> members_map ms' = (members_map ms)(k := None) \<and>
        ms' = filter (\<lambda>m. fst m \<noteq> V_String k) ms"
      by (rule exI [of _ "as @ bs"]) (simp only: e fl q simp_thms)
    have h: "HasMember (V_Object ms) k = Some True" using p by (simp add: HasMember_def s)
    have "(members_map ms k = None) = False" using Some by simp
    then show ?thesis using f h r er by (simp only: simp_thms)
  qed
qed

theorem object_refines_map_witness:
  "proper [(V_String ''a'', V_Null), (V_String ''b'', V_Bool True)] \<and>
    (\<exists>ms'. RemoveMember (V_Object [(V_String ''a'', V_Null), (V_String ''b'', V_Bool True)]) ''a'' = Some (V_Object ms', True) \<and>
      members_map ms' ''a'' = None \<and> members_map ms' ''b'' = Some (V_Bool True))"
proof -
  let ?ms = "[(V_String ''a'', V_Null), (V_String ''b'', V_Bool True)]"
  have p: "proper ?ms" by (simp add: proper_def named_def)
  obtain ms' where "RemoveMember (V_Object ?ms) ''a'' = Some (V_Object ms', members_map ?ms ''a'' \<noteq> None)"
    "members_map ms' = (members_map ?ms)(''a'' := None)"
    using object_refines_map [OF p, of "''a''" V_Null] by blast
  then show ?thesis using p by simp
qed

end
