(* ===== verification/Audit_Codec.thy ===== *)
theory Audit_Codec
  imports RTB_Prelude
begin

text \<open>
  The records of the audit log (\<^verbatim>\<open>benchmarks/audit_codec.hpp\<close>). A record is a header, a fixed part with a type code and
  a value for each argument, and the texts of the arguments that are strings; the fixed part holds the offset of
  each text. Memory is a function from addresses to bytes, and numbers are copied to it with their lowest byte first.
  The theorems say that decoding the fields of a record gives back the arguments, and for which arguments it aborts.
\<close>

section \<open>Memory\<close>

type_synonym memory = "nat \<Rightarrow> char"

definition memcpy_to :: "memory \<Rightarrow> nat \<Rightarrow> string \<Rightarrow> memory" where
  "memcpy_to m a bytes = (\<lambda>i. if a \<le> i \<and> i < a + length bytes then bytes ! (i - a) else m i)"

definition memcpy_from :: "memory \<Rightarrow> nat \<Rightarrow> nat \<Rightarrow> string" where
  "memcpy_from m a n = map m [a..<a + n]"

fun le_bytes :: "nat \<Rightarrow> nat \<Rightarrow> string" where
  "le_bytes 0 v = []"
| "le_bytes (Suc k) v = char_of (v mod 256) # le_bytes k (v div 256)"

fun le_value :: "string \<Rightarrow> nat" where
  "le_value [] = 0"
| "le_value (c # cs) = of_char c + 256 * le_value cs"

lemma length_le_bytes [simp]: "length (le_bytes k v) = k"
  by (induction k arbitrary: v) auto

lemma le_value_bytes: "v < 256 ^ k \<Longrightarrow> le_value (le_bytes k v) = v"
proof (induction k arbitrary: v)
  case (Suc k)
  then have "v div 256 < 256 ^ k" by (simp add: less_mult_imp_div_less mult.commute)
  with Suc.IH show ?case by simp
qed simp

lemma length_memcpy_from [simp]: "length (memcpy_from m a n) = n"
  by (simp add: memcpy_from_def)

lemma memcpy_outside: "i < a \<or> a + length bytes \<le> i \<Longrightarrow> memcpy_to m a bytes i = m i"
  by (auto simp: memcpy_to_def)

lemma memcpy_from_cong: "(\<And>i. a \<le> i \<Longrightarrow> i < a + n \<Longrightarrow> m i = m' i) \<Longrightarrow> memcpy_from m a n = memcpy_from m' a n"
  by (simp add: memcpy_from_def)

lemma memcpy_from_to [simp]: "memcpy_from (memcpy_to m a bytes) a (length bytes) = bytes"
  by (rule nth_equalityI) (auto simp: memcpy_from_def memcpy_to_def)

lemma memcpy_from_le [simp]: "memcpy_from (memcpy_to m a (le_bytes k v)) a k = le_bytes k v"
  using memcpy_from_to [of m a "le_bytes k v"] by simp

section \<open>Arguments and their types\<close>

text \<open>Numbers as their bits, so that a signed and an unsigned number of one size differ in their constructor only.\<close>

datatype audit_arg =
    Arg_bool bool | Arg_uint8 "8 word" | Arg_int8 "8 word" | Arg_uint16 "16 word" | Arg_int16 "16 word"
  | Arg_uint32 "32 word" | Arg_int32 "32 word" | Arg_uint64 "64 word" | Arg_int64 "64 word"
  | Arg_float "32 word" | Arg_double "64 word" | Arg_string string

definition type_codes :: string where
  "type_codes = ''?BbHhLlQqfdS''"

fun index_of :: "audit_arg \<Rightarrow> nat" where
  "index_of (Arg_bool _) = 0"
| "index_of (Arg_uint8 _) = 1"
| "index_of (Arg_int8 _) = 2"
| "index_of (Arg_uint16 _) = 3"
| "index_of (Arg_int16 _) = 4"
| "index_of (Arg_uint32 _) = 5"
| "index_of (Arg_int32 _) = 6"
| "index_of (Arg_uint64 _) = 7"
| "index_of (Arg_int64 _) = 8"
| "index_of (Arg_float _) = 9"
| "index_of (Arg_double _) = 10"
| "index_of (Arg_string _) = 11"

definition code_of :: "audit_arg \<Rightarrow> char" where
  "code_of arg = type_codes ! index_of arg"

fun sizeof :: "audit_arg \<Rightarrow> nat" where
  "sizeof (Arg_bool _) = 1"
| "sizeof (Arg_uint8 _) = 1"
| "sizeof (Arg_int8 _) = 1"
| "sizeof (Arg_uint16 _) = 2"
| "sizeof (Arg_int16 _) = 2"
| "sizeof (Arg_uint32 _) = 4"
| "sizeof (Arg_int32 _) = 4"
| "sizeof (Arg_uint64 _) = 8"
| "sizeof (Arg_int64 _) = 8"
| "sizeof (Arg_float _) = 4"
| "sizeof (Arg_double _) = 8"
| "sizeof (Arg_string _) = 16"

fun bits_of :: "audit_arg \<Rightarrow> nat" where
  "bits_of (Arg_bool b) = (if b then 1 else 0)"
| "bits_of (Arg_uint8 w) = unat w"
| "bits_of (Arg_int8 w) = unat w"
| "bits_of (Arg_uint16 w) = unat w"
| "bits_of (Arg_int16 w) = unat w"
| "bits_of (Arg_uint32 w) = unat w"
| "bits_of (Arg_int32 w) = unat w"
| "bits_of (Arg_uint64 w) = unat w"
| "bits_of (Arg_int64 w) = unat w"
| "bits_of (Arg_float w) = unat w"
| "bits_of (Arg_double w) = unat w"
| "bits_of (Arg_string _) = 0"

section \<open>Sizes\<close>

fun is_blob :: "audit_arg \<Rightarrow> bool" where
  "is_blob (Arg_string _) = True"
| "is_blob _ = False"

definition field_size :: "audit_arg \<Rightarrow> 32 word" where
  "field_size arg = 1 + (if is_blob arg then 4 else of_nat (sizeof arg))"

fun blob_size :: "audit_arg \<Rightarrow> 32 word" where
  "blob_size (Arg_string s) = of_nat (1 + 4 + length s)"
| "blob_size _ = 0"

definition record_size :: "audit_arg list \<Rightarrow> 32 word" where
  "record_size args = sum_list (map field_size args)"

definition full_record_size :: "audit_arg list \<Rightarrow> 32 word" where
  "full_record_size args = 1 + 4 + record_size args + sum_list (map blob_size args)"

section \<open>Encoding\<close>

text \<open>A pointer into the buffer is returned with the memory.\<close>

fun encode_field :: "memory \<Rightarrow> nat \<Rightarrow> 32 word \<Rightarrow> audit_arg \<Rightarrow> memory \<times> 32 word \<times> 32 word" where
  "encode_field m buf blob_offset (Arg_string s) =
     (let m = m(buf := code_of (Arg_string s));
          m = memcpy_to m (buf + 1) (le_bytes 4 (unat blob_offset))
      in (m, blob_offset + blob_size (Arg_string s), 1 + 4))"
| "encode_field m buf blob_offset arg =
     (let m = m(buf := code_of arg);
          m = memcpy_to m (buf + 1) (le_bytes (sizeof arg) (bits_of arg))
      in (m, blob_offset, 1 + of_nat (sizeof arg)))"

fun encode_blob :: "memory \<Rightarrow> nat \<Rightarrow> audit_arg \<Rightarrow> memory \<times> 32 word" where
  "encode_blob m buf (Arg_string s) =
     (let m = m(buf := CHR 0x02);
          blob_len = (of_nat (length s) :: 32 word);
          m = memcpy_to m (buf + 1) (le_bytes 4 (unat blob_len));
          m = memcpy_to m (buf + 1 + 4) (take (unat blob_len) s)
      in (m, blob_size (Arg_string s)))"
| "encode_blob m buf _ = (m, 0)"

fun encode_fields :: "memory \<Rightarrow> nat \<Rightarrow> 32 word \<Rightarrow> audit_arg list \<Rightarrow> memory \<times> nat \<times> 32 word" where
  "encode_fields m buf off [] = (m, buf, off)"
| "encode_fields m buf off (arg # args) =
     (let (m, off, n) = encode_field m buf off arg in encode_fields m (buf + unat n) off args)"

fun encode_blobs :: "memory \<Rightarrow> nat \<Rightarrow> audit_arg list \<Rightarrow> memory \<times> nat" where
  "encode_blobs m buf [] = (m, buf)"
| "encode_blobs m buf (arg # args) =
     (let (m, n) = encode_blob m buf arg in encode_blobs m (buf + unat n) args)"

text \<open>The result is the memory and the number of bytes, or nothing when an assertion fails.\<close>

definition encode_record :: "memory \<Rightarrow> nat \<Rightarrow> audit_arg list \<Rightarrow> (memory \<times> nat) option" where
  "encode_record m buf args =
     (let fixed_part_size = record_size args;
          m = m(buf := CHR 0x01);
          m = memcpy_to m (buf + 1) (le_bytes 4 (unat fixed_part_size));
          rbeg = buf + 1 + 4;
          (m, bbeg, rel_blob_offset) = encode_fields m rbeg 0 args;
          rec_size = (of_nat (bbeg - rbeg) :: 32 word);
          (m, bend) = encode_blobs m bbeg args;
          blobs_part_size = (of_nat (bend - bbeg) :: 32 word)
      in if blobs_part_size \<noteq> sum_list (map blob_size args) \<or> rel_blob_offset \<noteq> blobs_part_size \<or> rec_size \<noteq> fixed_part_size
         then None
         else Some (m, 1 + 4 + unat fixed_part_size + unat blobs_part_size))"

section \<open>Decoding\<close>

definition decode_bits :: "memory \<Rightarrow> nat \<Rightarrow> nat \<Rightarrow> nat" where
  "decode_bits m addr n = le_value (memcpy_from m addr n)"

definition decode_string :: "memory \<Rightarrow> nat \<Rightarrow> nat \<Rightarrow> audit_arg" where
  "decode_string m buf blob_buf =
     (let blob_offset = decode_bits m buf 4;
          blob_buf = blob_buf + blob_offset + 1;
          blob_len = decode_bits m blob_buf 4;
          blob_buf = blob_buf + 4
      in Arg_string (memcpy_from m blob_buf blob_len))"

text \<open>The value that is handed to the function of the caller, and where the next field starts; nothing after \<open>abort\<close>.\<close>

definition decode_field :: "memory \<Rightarrow> nat \<Rightarrow> nat \<Rightarrow> (audit_arg \<times> nat) option" where
  "decode_field m buf blob_buf =
     (let type_code = m buf; buf = buf + 1; value = decode_bits m buf
      in if type_code = type_codes ! 1 then Some (Arg_uint8 (of_nat (value 1)), buf + 1)
         else if type_code = type_codes ! 2 then Some (Arg_int8 (of_nat (value 1)), buf + 1)
         else if type_code = type_codes ! 3 then Some (Arg_uint16 (of_nat (value 2)), buf + 2)
         else if type_code = type_codes ! 4 then Some (Arg_int16 (of_nat (value 2)), buf + 2)
         else if type_code = type_codes ! 5 then Some (Arg_uint32 (of_nat (value 4)), buf + 4)
         else if type_code = type_codes ! 6 then Some (Arg_int32 (of_nat (value 4)), buf + 4)
         else if type_code = type_codes ! 7 then Some (Arg_uint64 (of_nat (value 8)), buf + 8)
         else if type_code = type_codes ! 8 then Some (Arg_int64 (of_nat (value 8)), buf + 8)
         else if type_code = type_codes ! 9 then Some (Arg_float (of_nat (value 4)), buf + 4)
         else if type_code = type_codes ! 10 then Some (Arg_double (of_nat (value 8)), buf + 8)
         else if type_code = type_codes ! 11 then Some (decode_string m buf blob_buf, buf + 4)
         else None)"


text \<open>A reader of a record, which takes its fields one after the other.\<close>

fun decode_fields :: "memory \<Rightarrow> nat \<Rightarrow> nat \<Rightarrow> nat \<Rightarrow> audit_arg list option" where
  "decode_fields m buf blob_buf 0 = Some []"
| "decode_fields m buf blob_buf (Suc n) =
     (case decode_field m buf blob_buf of
        None \<Rightarrow> None
      | Some (arg, buf') \<Rightarrow> map_option ((#) arg) (decode_fields m buf' blob_buf n))"

section \<open>The bytes of a record\<close>

definition field_bytes :: "32 word \<Rightarrow> audit_arg \<Rightarrow> string" where
  "field_bytes off arg = code_of arg # (if is_blob arg then le_bytes 4 (unat off) else le_bytes (sizeof arg) (bits_of arg))"

fun blob_bytes :: "audit_arg \<Rightarrow> string" where
  "blob_bytes (Arg_string s) = CHR 0x02 # le_bytes 4 (length s) @ s"
| "blob_bytes _ = []"

fun fixed_bytes :: "32 word \<Rightarrow> audit_arg list \<Rightarrow> string" where
  "fixed_bytes off [] = []"
| "fixed_bytes off (arg # args) = field_bytes off arg @ fixed_bytes (off + blob_size arg) args"

definition record_length :: "audit_arg list \<Rightarrow> nat" where
  "record_length args = 5 + length (fixed_bytes 0 args) + length (concat (map blob_bytes args))"

definition record_bytes :: "audit_arg list \<Rightarrow> string" where
  "record_bytes args = CHR 0x01 # le_bytes 4 (unat (record_size args)) @ fixed_bytes 0 args @ concat (map blob_bytes args)"

text \<open>A memory holds some bytes from an address on.\<close>

definition holds :: "memory \<Rightarrow> nat \<Rightarrow> string \<Rightarrow> bool" where
  "holds m a bytes \<longleftrightarrow> memcpy_from m a (length bytes) = bytes"

lemma memcpy_from_split: "memcpy_from m a (n + k) = memcpy_from m a n @ memcpy_from m (a + n) k"
  using upt_add_eq_append [of a "a + n" k] by (simp add: memcpy_from_def add.assoc)

lemma holds_append [simp]: "holds m a (x @ y) \<longleftrightarrow> holds m a x \<and> holds m (a + length x) y"
  by (simp add: holds_def memcpy_from_split)

lemma holds_Cons [simp]: "holds m a (c # y) \<longleftrightarrow> m a = c \<and> holds m (a + 1) y"
  using holds_append [of m a "[c]" y] by (simp add: holds_def memcpy_from_def)

lemma holds_Nil [simp]: "holds m a []"
  by (simp add: holds_def memcpy_from_def)

lemma holds_memcpy: "holds (memcpy_to m a bytes) a bytes"
  by (simp add: holds_def)

lemma memcpy_append: "memcpy_to m a (x @ y) = memcpy_to (memcpy_to m a x) (a + length x) y"
  by (rule ext) (auto simp: memcpy_to_def nth_append)

lemma memcpy_Cons: "memcpy_to m a (c # y) = memcpy_to (m(a := c)) (a + 1) y"
  by (rule ext) (auto simp: memcpy_to_def nth_Cons')

lemma memcpy_none [simp]: "memcpy_to m a [] = m"
  by (rule ext) (auto simp: memcpy_to_def)

lemma length_fixed_bytes: "length (fixed_bytes off args) = (\<Sum>arg\<leftarrow>args. 1 + (if is_blob arg then 4 else sizeof arg))"
  by (induction args arbitrary: off) (auto simp: field_bytes_def)

lemma unat_small: "n < 4294967296 \<Longrightarrow> unat (of_nat n :: 32 word) = n"
  by (simp add: unat_of_nat take_bit_nat_eq_self_iff)

lemma length_blob_bytes:
  assumes "length (blob_bytes arg) < 4294967296"
  shows "unat (blob_size arg) = length (blob_bytes arg)" and "blob_size arg = of_nat (length (blob_bytes arg))"
proof -
  show "blob_size arg = of_nat (length (blob_bytes arg))" by (cases arg) simp_all
  then show "unat (blob_size arg) = length (blob_bytes arg)" using assms unat_small by simp
qed

lemma encode_field_bytes:
  "encode_field m buf off arg = (memcpy_to m buf (field_bytes off arg), off + blob_size arg, of_nat (length (field_bytes off arg)))"
  by (cases arg) (simp_all add: field_bytes_def memcpy_Cons Let_def)

lemma encode_fields_bytes:
  "encode_fields m buf off args =
     (memcpy_to m buf (fixed_bytes off args), buf + length (fixed_bytes off args), off + sum_list (map blob_size args))"
proof (induction args arbitrary: m buf off)
  case (Cons arg args)
  have "length (field_bytes off arg) < 4294967296" by (cases arg) (simp_all add: field_bytes_def)
  then show ?case by (simp add: encode_field_bytes Cons.IH memcpy_append unat_small add.assoc)
qed simp

lemma encode_blob_bytes:
  assumes "length (blob_bytes arg) < 4294967296"
  shows "encode_blob m buf arg = (memcpy_to m buf (blob_bytes arg), of_nat (length (blob_bytes arg)))"
  using assms
  by (cases arg) (simp_all add: memcpy_Cons memcpy_append Let_def unat_small add.commute)

lemma encode_blobs_bytes:
  assumes "length (concat (map blob_bytes args)) < 4294967296"
  shows "encode_blobs m buf args = (memcpy_to m buf (concat (map blob_bytes args)), buf + length (concat (map blob_bytes args)))"
  using assms
proof (induction args arbitrary: m buf)
  case (Cons arg args)
  then show ?case by (simp add: encode_blob_bytes memcpy_append unat_small)
qed simp


lemma encode_record_bytes:
  assumes "record_length args < 4294967296"
  shows "encode_record m buf args = Some (memcpy_to m buf (record_bytes args), record_length args)"
proof -
  let ?f = "fixed_bytes 0 args" and ?b = "concat (map blob_bytes args)"
  have l: "length ?f < 4294967296" "length ?b < 4294967296" using assms by (simp_all add: record_length_def)
  have "field_size arg = of_nat (1 + (if is_blob arg then 4 else sizeof arg))" for arg by (simp add: field_size_def)
  then have f: "record_size args = of_nat (length ?f)"
    unfolding record_size_def length_fixed_bytes by (induction args) simp_all
  have b: "sum_list (map blob_size args) = of_nat (length ?b)"
    using l(2) by (induction args) (simp_all add: length_blob_bytes(2))
  show ?thesis
    using l by (simp add: encode_record_def Let_def encode_fields_bytes encode_blobs_bytes f b unat_small record_length_def record_bytes_def
        memcpy_Cons memcpy_append add.assoc)
qed

lemma full_record_size_length:
  assumes "record_length args < 4294967296"
  shows "unat (full_record_size args) = record_length args"
proof -
  let ?f = "fixed_bytes 0 args" and ?b = "concat (map blob_bytes args)"
  have l: "length ?b < 4294967296" using assms by (simp add: record_length_def)
  have "field_size arg = of_nat (1 + (if is_blob arg then 4 else sizeof arg))" for arg by (simp add: field_size_def)
  then have f: "record_size args = of_nat (length ?f)"
    unfolding record_size_def length_fixed_bytes by (induction args) simp_all
  have b: "sum_list (map blob_size args) = of_nat (length ?b)"
    using l by (induction args) (simp_all add: length_blob_bytes(2))
  have "full_record_size args = of_nat (record_length args)" by (simp add: full_record_size_def f b record_length_def)
  then show ?thesis using assms unat_small by simp
qed

lemma decode_bits_held: "holds m a (le_bytes k v) \<Longrightarrow> v < 256 ^ k \<Longrightarrow> decode_bits m a k = v"
  by (simp add: decode_bits_def holds_def le_value_bytes)

lemma bits_of_bound: "bits_of arg < 256 ^ sizeof arg"
proof -
  have "unat (a :: 8 word) < 256" "unat (b :: 16 word) < 65536" "unat (c :: 32 word) < 4294967296"
    "unat (d :: 64 word) < 18446744073709551616" for a b c d
    using unsigned_less [where 'a=nat and w=a] unsigned_less [where 'a=nat and w=b]
      unsigned_less [where 'a=nat and w=c] unsigned_less [where 'a=nat and w=d] by simp_all
  then show ?thesis by (cases arg) simp_all
qed

lemma decode_field_bytes:
  assumes "holds m buf (field_bytes off arg)" and "holds m (blob_buf + unat off) (blob_bytes arg)"
    and "length (blob_bytes arg) < 4294967296" and "\<forall>b. arg \<noteq> Arg_bool b"
  shows "decode_field m buf blob_buf = Some (arg, buf + length (field_bytes off arg))"
proof (cases "is_blob arg")
  case True
  then obtain s where s: "arg = Arg_string s" by (cases arg) auto
  have "unat off < 256 ^ 4" using unsigned_less [where 'a=nat and w=off] by simp
  then have o: "m buf = CHR ''S''" "decode_bits m (buf + 1) 4 = unat off"
    using assms(1) decode_bits_held [of m "buf + 1" 4 "unat off"] by (simp_all add: s field_bytes_def code_of_def type_codes_def)
  let ?b = "blob_buf + unat off + 1"
  have "length s < 256 ^ 4" using assms(3) by (simp add: s)
  then have "decode_bits m ?b 4 = length s" "holds m (?b + 4) s"
    using assms(2) decode_bits_held [of m ?b 4 "length s"] by (simp_all add: s)
  then have "decode_string m (buf + 1) blob_buf = arg"
    by (simp only: decode_string_def Let_def o(2) s holds_def)
  then show ?thesis using o by (simp add: decode_field_def type_codes_def Let_def s field_bytes_def)
next
  case False
  then have "m buf = code_of arg" "decode_bits m (buf + 1) (sizeof arg) = bits_of arg"
    using assms(1) bits_of_bound [of arg] decode_bits_held [of m "buf + 1" "sizeof arg" "bits_of arg"]
    by (simp_all add: field_bytes_def)
  then show ?thesis using False assms(4)
    by (cases arg) (auto simp: decode_field_def code_of_def type_codes_def Let_def field_bytes_def)
qed


lemma decode_fields_bytes:
  assumes "holds m buf (fixed_bytes off args)" and "holds m (blob_buf + unat off) (concat (map blob_bytes args))"
    and "unat off + length (concat (map blob_bytes args)) < 4294967296"
  shows "decode_fields m buf blob_buf (length args) = (if \<exists>b. Arg_bool b \<in> set args then None else Some args)"
  using assms
proof (induction args arbitrary: buf off)
  case (Cons arg args)
  have l: "length (blob_bytes arg) < 4294967296" using Cons.prems by auto
  have o: "unat (off + blob_size arg) = unat off + length (blob_bytes arg)"
    using Cons.prems(3) by (simp add: length_blob_bytes [OF l] unat_word_ariths unat_small)
  show ?case
  proof (cases "\<exists>b. arg = Arg_bool b")
    case True
    then show ?thesis using Cons.prems(1)
      by (auto simp: field_bytes_def code_of_def decode_field_def type_codes_def Let_def)
  next
    case False
    then have "decode_field m buf blob_buf = Some (arg, buf + length (field_bytes off arg))"
      by (intro decode_field_bytes) (use Cons.prems l in auto)
    moreover have "decode_fields m (buf + length (field_bytes off arg)) blob_buf (length args) =
        (if \<exists>b. Arg_bool b \<in> set args then None else Some args)"
      by (rule Cons.IH [of _ "off + blob_size arg"]) (use Cons.prems o in \<open>auto simp: add.assoc\<close>)
    ultimately show ?thesis using False by auto
  qed
qed simp

lemma record_held:
  assumes "holds m buf (record_bytes args)" and "record_length args < 4294967296"
  shows "m buf = CHR 0x01" and "decode_bits m (buf + 1) 4 = length (fixed_bytes 0 args)"
    and "decode_fields m (buf + 5) (buf + 5 + decode_bits m (buf + 1) 4) (length args) =
           (if \<exists>b. Arg_bool b \<in> set args then None else Some args)"
proof -
  have "field_size arg = of_nat (1 + (if is_blob arg then 4 else sizeof arg))" for arg by (simp add: field_size_def)
  then have "record_size args = of_nat (length (fixed_bytes 0 args))"
    unfolding record_size_def length_fixed_bytes by (induction args) simp_all
  then have r: "unat (record_size args) = length (fixed_bytes 0 args)"
    using assms(2) unat_small by (simp add: record_length_def)
  have l: "length (fixed_bytes 0 args) < 256 ^ 4" using assms(2) by (simp add: record_length_def)
  show "m buf = CHR 0x01" using assms(1) by (simp add: record_bytes_def)
  show d: "decode_bits m (buf + 1) 4 = length (fixed_bytes 0 args)"
    by (rule decode_bits_held) (use assms(1) l r in \<open>simp_all add: record_bytes_def\<close>)
  show "decode_fields m (buf + 5) (buf + 5 + decode_bits m (buf + 1) 4) (length args) =
      (if \<exists>b. Arg_bool b \<in> set args then None else Some args)"
    unfolding d by (rule decode_fields_bytes [of _ _ 0]) (use assms in \<open>simp_all add: record_bytes_def record_length_def add.commute add.left_commute\<close>)
qed

section \<open>Round trip\<close>

text \<open>
  C12: a record that is encoded into a buffer can be decoded. No assertion fails, the record has the size that was
  computed for it before, nothing outside of these bytes is written, and a reader that takes the length of the fixed part
  from the header and decodes one field after the other gets the arguments: numbers at their width and with their
  sign, and texts of any bytes. The size of the record must fit 32 bits and no argument may be a \<open>bool\<close>.
\<close>

theorem audit_round_trip:
  assumes "record_length args < 4294967296" and "\<forall>b. Arg_bool b \<notin> set args"
  shows "\<exists>m'. encode_record m buf args = Some (m', unat (full_record_size args)) \<and>
     (\<forall>i. i < buf \<or> buf + unat (full_record_size args) \<le> i \<longrightarrow> m' i = m i) \<and>
     m' buf = CHR 0x01 \<and>
     decode_fields m' (buf + 5) (buf + 5 + decode_bits m' (buf + 1) 4) (length args) = Some args"
proof -
  let ?m = "memcpy_to m buf (record_bytes args)"
  have l: "length (record_bytes args) = record_length args" by (simp add: record_bytes_def record_length_def)
  have "\<forall>i. i < buf \<or> buf + unat (full_record_size args) \<le> i \<longrightarrow> ?m i = m i"
    using memcpy_outside [of _ buf "record_bytes args" m] by (simp add: full_record_size_length assms(1) l)
  then show ?thesis
    using encode_record_bytes [OF assms(1), of m buf] record_held [OF holds_memcpy assms(1)] assms(2)
    by (intro exI [of _ ?m] conjI) (simp_all add: full_record_size_length assms(1))
qed

theorem audit_round_trip_witness:
  "\<exists>m'. encode_record (\<lambda>_. CHR 0x00) 8 [Arg_int8 97, Arg_int32 1, Arg_string ''abcdef'', Arg_double 5] = Some (m', 37) \<and>
     decode_fields m' 13 (13 + decode_bits m' 9 4) 4 = Some [Arg_int8 97, Arg_int32 1, Arg_string ''abcdef'', Arg_double 5]"
proof -
  let ?args = "[Arg_int8 97, Arg_int32 1, Arg_string ''abcdef'', Arg_double 5]"
  have r: "record_length ?args = 37" by (simp add: record_length_def length_fixed_bytes field_bytes_def)
  have l: "length ?args = 4" by simp
  have "\<exists>m'. encode_record (\<lambda>_. CHR 0x00) 8 ?args = Some (m', unat (full_record_size ?args)) \<and>
     (\<forall>i. i < 8 \<or> 8 + unat (full_record_size ?args) \<le> i \<longrightarrow> m' i = CHR 0x00) \<and> m' 8 = CHR 0x01 \<and>
     decode_fields m' (8 + 5) (8 + 5 + decode_bits m' (8 + 1) 4) (length ?args) = Some ?args"
    by (rule audit_round_trip) (unfold r, simp_all)
  then show ?thesis by (simp add: l full_record_size_length r del: list.size) blast
qed

text \<open>
  The encoder accepts a \<open>bool\<close>, but the decoder has no case for its type code: whatever follows, decoding the field
  ends the process.
\<close>

theorem bool_field_aborts:
  assumes "record_length args < 4294967296" and "Arg_bool b \<in> set args"
  shows "\<exists>m'. encode_record m buf args = Some (m', unat (full_record_size args)) \<and>
     decode_fields m' (buf + 5) (buf + 5 + decode_bits m' (buf + 1) 4) (length args) = None"
  using assms encode_record_bytes [OF assms(1), of m buf] record_held [OF holds_memcpy assms(1), of m buf]
  by (intro exI [of _ "memcpy_to m buf (record_bytes args)"] conjI) (auto simp: full_record_size_length)

theorem bool_field_aborts_witness:
  "\<exists>m'. encode_record (\<lambda>_. CHR 0x00) 8 [Arg_bool True] = Some (m', 7) \<and> decode_fields m' 13 (13 + decode_bits m' 9 4) 1 = None"
  using bool_field_aborts [of "[Arg_bool True]" True "\<lambda>_. CHR 0x00" 8]
  by (simp add: record_length_def field_bytes_def full_record_size_def record_size_def field_size_def)

end
