(* ===== verification/Audit_Buffer.thy ===== *)
theory Audit_Buffer
  imports Audit_Codec
begin

text \<open>
  The buffer of the audit log (\<^verbatim>\<open>benchmarks/audit_buffer.hpp\<close>). Threads reserve space in memory-mapped files without a
  common lock: each takes the current file, adds its size to the offset of the file, and the thread that crosses the
  end of the file publishes the next one, while a service thread prepares the one after. The model has one step for
  each atomic operation and for each section under the lock of the places, and a run is any interleaving of the steps of any
  number of threads. Sizes and offsets are natural numbers: they do not wrap around at 64 bits.

  The theorems say that in every interleaving the reserved ranges are disjoint and inside the files, so that every
  record that was written can be read back; that the calls of a single thread behave as a simple allocator; that the
  largest size that is accepted can never be reserved; and that a delayed thread can turn the index of the current file
  back, so that the preparation of a file finds its place occupied.
\<close>

section \<open>State\<close>

text \<open>
  A file that is mapped whole. Files are numbered as they are created, and a shared pointer to a file is its number; a file
  lives as long as someone points to it.
\<close>

record log_segment =
  seg_offset :: nat
  seg_memory :: memory

definition new_segment :: log_segment where
  "new_segment = \<lparr>seg_offset = 0, seg_memory = (\<lambda>_. CHR 0x00)\<rparr>"

text \<open>Where a thread is in \<open>reserve\<close>, with its local variables.\<close>

datatype reserve_pc =
    Outside
  | Thrown string
  | Load_index nat
  | Load_segment nat nat
  | Advance_offset nat nat nat
  | Reset_segment nat nat nat nat
  | Request_next nat nat nat nat
  | Mark_end nat nat nat nat
  | Publish_index nat nat
  | Reserved nat nat nat

text \<open>
  The buffer, the requests that are posted to the service thread, and the threads. The last two components record what has
  been reserved and written, for the theorems; no step depends on them.
\<close>

record log_buffer =
  filesize :: nat
  all_segments :: "log_segment list"
  segments :: "nat option list"
  segment_idx :: nat
  make_segment_idx :: nat
  next_segment_requests :: nat
  aborted :: bool
  callers :: "nat \<Rightarrow> reserve_pc"
  reservations :: "(nat \<times> nat \<times> nat) list"
  records :: "(nat \<times> nat \<times> audit_arg list) list"

definition upd_segment :: "nat \<Rightarrow> (log_segment \<Rightarrow> log_segment) \<Rightarrow> log_buffer \<Rightarrow> log_buffer" where
  "upd_segment g f b = b\<lparr>all_segments := (all_segments b)[g := f (all_segments b ! g)]\<rparr>"

definition go :: "nat \<Rightarrow> reserve_pc \<Rightarrow> log_buffer \<Rightarrow> log_buffer" where
  "go t pc b = b\<lparr>callers := (callers b)(t := pc)\<rparr>"

section \<open>Operations\<close>

definition log_segment_reserve :: "nat \<Rightarrow> log_segment \<Rightarrow> nat \<times> log_segment" where
  "log_segment_reserve required_size sg = (seg_offset sg, sg\<lparr>seg_offset := seg_offset sg + required_size\<rparr>)"

definition prep_next_segment :: "log_buffer \<Rightarrow> log_buffer" where
  "prep_next_segment b =
     (let segment = length (all_segments b);
          psegment = make_segment_idx b mod 3;
          b' = b\<lparr>all_segments := all_segments b @ [new_segment], make_segment_idx := make_segment_idx b + 1\<rparr>
      in if segments b ! psegment \<noteq> None then b'\<lparr>aborted := True\<rparr>
         else b'\<lparr>segments := (segments b)[psegment := Some segment]\<rparr>)"

definition segmented_log_buffer :: "nat \<Rightarrow> log_buffer" where
  "segmented_log_buffer fs =
     prep_next_segment (prep_next_segment
       \<lparr>filesize = fs, all_segments = [], segments = [None, None, None], segment_idx = 0, make_segment_idx = 0,
        next_segment_requests = 0, aborted = False, callers = (\<lambda>_. Outside), reservations = [], records = []\<rparr>)"

text \<open>A call of \<open>reserve\<close>, and the steps of its loop.\<close>

definition reserve_call :: "nat \<Rightarrow> nat \<Rightarrow> log_buffer \<Rightarrow> log_buffer" where
  "reserve_call t required_size b =
     (if required_size > filesize b - 1 then go t (Thrown ''too much memory requested'') b else go t (Load_index required_size) b)"

definition advance_offset :: "nat \<Rightarrow> nat \<Rightarrow> nat \<Rightarrow> nat \<Rightarrow> log_buffer \<Rightarrow> log_buffer" where
  "advance_offset t required_size idx g b =
     (let (p, sg) = log_segment_reserve required_size (all_segments b ! g);
          b' = upd_segment g (\<lambda>_. sg) b;
          last_pos = filesize b - 1
      in if p < last_pos \<and> p + required_size \<ge> last_pos then go t (Reset_segment required_size idx g p) b'
         else if p \<ge> last_pos then go t (Load_index required_size) b'
         else go t (Reserved g p required_size) (b'\<lparr>reservations := reservations b' @ [(g, p, required_size)]\<rparr>))"

definition reserve_step :: "nat \<Rightarrow> log_buffer \<Rightarrow> log_buffer" where
  "reserve_step t b =
     (case callers b t of
        Load_index required_size \<Rightarrow> go t (Load_segment required_size (segment_idx b)) b
      | Load_segment required_size idx \<Rightarrow>
          (case segments b ! (idx mod 3) of
             None \<Rightarrow> go t (Load_index required_size) b
           | Some g \<Rightarrow> go t (Advance_offset required_size idx g) b)
      | Advance_offset required_size idx g \<Rightarrow> advance_offset t required_size idx g b
      | Reset_segment required_size idx g p \<Rightarrow> go t (Request_next required_size idx g p) (b\<lparr>segments := (segments b)[idx mod 3 := None]\<rparr>)
      | Request_next required_size idx g p \<Rightarrow> go t (Mark_end required_size idx g p) (b\<lparr>next_segment_requests := next_segment_requests b + 1\<rparr>)
      | Mark_end required_size idx g p \<Rightarrow>
          go t (Publish_index required_size idx) (upd_segment g (\<lambda>sg. sg\<lparr>seg_memory := (seg_memory sg)(p := CHR 0x19)\<rparr>) b)
      | Publish_index required_size idx \<Rightarrow> go t (Load_index required_size) (b\<lparr>segment_idx := idx + 1\<rparr>)
      | _ \<Rightarrow> b)"

text \<open>
  The use of the buffer: a record is encoded at the address that was reserved for its size, which is computed in 32
  bits and must not be larger.
\<close>

definition write_record :: "nat \<Rightarrow> audit_arg list \<Rightarrow> log_buffer \<Rightarrow> log_buffer option" where
  "write_record t args b =
     (case callers b t of
        Reserved g p required_size \<Rightarrow>
          (if record_length args < 4294967296 \<and> required_size = unat (full_record_size args) then
             (case encode_record (seg_memory (all_segments b ! g)) p args of
                None \<Rightarrow> None
              | Some (m, _) \<Rightarrow>
                  Some (go t Outside (upd_segment g (\<lambda>sg. sg\<lparr>seg_memory := m\<rparr>) (b\<lparr>records := records b @ [(g, p, args)]\<rparr>))))
           else None)
      | _ \<Rightarrow> None)"

section \<open>Interleavings\<close>

datatype buffer_event = Call_reserve nat nat | Continue_reserve nat | Serve_request | Write_record nat "audit_arg list"

definition idle :: "reserve_pc \<Rightarrow> bool" where
  "idle pc \<longleftrightarrow> (case pc of Outside \<Rightarrow> True | Thrown _ \<Rightarrow> True | Reserved _ _ _ \<Rightarrow> True | _ \<Rightarrow> False)"

definition buffer_step :: "buffer_event \<Rightarrow> log_buffer \<Rightarrow> log_buffer option" where
  "buffer_step e b =
     (if aborted b then None
      else case e of
        Call_reserve t required_size \<Rightarrow> if idle (callers b t) then Some (reserve_call t required_size b) else None
      | Continue_reserve t \<Rightarrow> if idle (callers b t) then None else Some (reserve_step t b)
      | Serve_request \<Rightarrow>
          if next_segment_requests b = 0 then None
          else Some (prep_next_segment (b\<lparr>next_segment_requests := next_segment_requests b - 1\<rparr>))
      | Write_record t args \<Rightarrow> write_record t args b)"

fun buffer_run :: "buffer_event list \<Rightarrow> log_buffer \<Rightarrow> log_buffer option" where
  "buffer_run [] b = Some b"
| "buffer_run (e # es) b = (case buffer_step e b of None \<Rightarrow> None | Some b' \<Rightarrow> buffer_run es b')"

inductive buffer_reachable :: "nat \<Rightarrow> log_buffer \<Rightarrow> bool" for fs where
  start: "buffer_reachable fs (segmented_log_buffer fs)"
| more: "buffer_reachable fs b \<Longrightarrow> buffer_step e b = Some b' \<Longrightarrow> buffer_reachable fs b'"


section \<open>The invariant\<close>

abbreviation offset_of :: "log_buffer \<Rightarrow> nat \<Rightarrow> nat" where
  "offset_of b g \<equiv> seg_offset (all_segments b ! g)"

abbreviation memory_of :: "log_buffer \<Rightarrow> nat \<Rightarrow> memory" where
  "memory_of b g \<equiv> seg_memory (all_segments b ! g)"

text \<open>Reservations are inside their files and below the offset; later ones start behind earlier ones.\<close>

definition ranges_ok :: "log_buffer \<Rightarrow> bool" where
  "ranges_ok b \<longleftrightarrow>
     (\<forall>(g, p, n) \<in> set (reservations b). g < length (all_segments b) \<and> p + n < filesize b - 1 \<and> p + n \<le> offset_of b g) \<and>
     sorted_wrt (\<lambda>(g, p, n) (h, q, k). g = h \<longrightarrow> p + n \<le> q) (reservations b)"

definition slots_ok :: "log_buffer \<Rightarrow> bool" where
  "slots_ok b \<longleftrightarrow> length (segments b) = 3 \<and> (\<forall>g. Some g \<in> set (segments b) \<longrightarrow> g < length (all_segments b))"

text \<open>A thread that has crossed the end of a file: no reservation of the file ends behind its position.\<close>

definition crossed :: "log_buffer \<Rightarrow> nat \<Rightarrow> nat \<Rightarrow> bool" where
  "crossed b g p \<longleftrightarrow> g < length (all_segments b) \<and> filesize b - 1 \<le> offset_of b g \<and>
     (\<forall>(h, q, k) \<in> set (reservations b). h = g \<longrightarrow> q + k \<le> p)"

definition pc_ok :: "log_buffer \<Rightarrow> reserve_pc \<Rightarrow> bool" where
  "pc_ok b pc \<longleftrightarrow> (case pc of
        Advance_offset n idx g \<Rightarrow> g < length (all_segments b)
      | Reset_segment n idx g p \<Rightarrow> crossed b g p
      | Request_next n idx g p \<Rightarrow> crossed b g p
      | Mark_end n idx g p \<Rightarrow> crossed b g p
      | Reserved g p n \<Rightarrow> (g, p, n) \<in> set (reservations b)
      | _ \<Rightarrow> True)"

definition apart :: "nat \<times> nat \<times> nat \<Rightarrow> nat \<times> nat \<times> nat \<Rightarrow> bool" where
  "apart x y = (case (x, y) of ((g, p, n), (h, q, k)) \<Rightarrow> g = h \<longrightarrow> p + n \<le> q \<or> q + k \<le> p)"

definition threads_ok :: "log_buffer \<Rightarrow> bool" where
  "threads_ok b \<longleftrightarrow> (\<forall>t. pc_ok b (callers b t)) \<and>
     (\<forall>t u g p n h q k. callers b t = Reserved g p n \<longrightarrow> callers b u = Reserved h q k \<longrightarrow> t \<noteq> u \<longrightarrow> apart (g, p, n) (h, q, k))"

text \<open>What has been written is still there, and no thread may write there again.\<close>

definition records_ok :: "log_buffer \<Rightarrow> bool" where
  "records_ok b \<longleftrightarrow>
     (\<forall>(g, p, args) \<in> set (records b). record_length args < 4294967296 \<and> (g, p, record_length args) \<in> set (reservations b) \<and>
        holds (memory_of b g) p (record_bytes args) \<and>
        (\<forall>t h q k. callers b t = Reserved h q k \<longrightarrow> apart (g, p, record_length args) (h, q, k)))"

definition buffer_inv :: "log_buffer \<Rightarrow> bool" where
  "buffer_inv b \<longleftrightarrow> ranges_ok b \<and> slots_ok b \<and> threads_ok b \<and> records_ok b"

lemmas inv_defs = buffer_inv_def ranges_ok_def slots_ok_def threads_ok_def records_ok_def

lemma go_simps [simp]:
  "filesize (go t pc b) = filesize b" "all_segments (go t pc b) = all_segments b" "segments (go t pc b) = segments b"
  "reservations (go t pc b) = reservations b" "records (go t pc b) = records b" "callers (go t pc b) = (callers b)(t := pc)"
  "segment_idx (go t pc b) = segment_idx b" "make_segment_idx (go t pc b) = make_segment_idx b" "aborted (go t pc b) = aborted b"
  "next_segment_requests (go t pc b) = next_segment_requests b"
  by (simp_all add: go_def)

lemma upd_segment_simps [simp]:
  "filesize (upd_segment g f b) = filesize b" "segments (upd_segment g f b) = segments b"
  "reservations (upd_segment g f b) = reservations b" "records (upd_segment g f b) = records b" "callers (upd_segment g f b) = callers b"
  "segment_idx (upd_segment g f b) = segment_idx b" "make_segment_idx (upd_segment g f b) = make_segment_idx b"
  "aborted (upd_segment g f b) = aborted b" "next_segment_requests (upd_segment g f b) = next_segment_requests b"
  "length (all_segments (upd_segment g f b)) = length (all_segments b)"
  "all_segments (upd_segment g f b) = (all_segments b)[g := f (all_segments b ! g)]"
  by (simp_all add: upd_segment_def)

lemma pc_ok_simps [simp]:
  "pc_ok b Outside" "pc_ok b (Thrown e)" "pc_ok b (Load_index n)" "pc_ok b (Load_segment n i)" "pc_ok b (Publish_index n i)"
  "pc_ok b (Advance_offset n i g) \<longleftrightarrow> g < length (all_segments b)"
  "pc_ok b (Reset_segment n i g p) \<longleftrightarrow> crossed b g p" "pc_ok b (Request_next n i g p) \<longleftrightarrow> crossed b g p"
  "pc_ok b (Mark_end n i g p) \<longleftrightarrow> crossed b g p" "pc_ok b (Reserved g p n) \<longleftrightarrow> (g, p, n) \<in> set (reservations b)"
  by (simp_all add: pc_ok_def)

text \<open>A step that only moves a thread to a place where it owns nothing.\<close>

lemma go_inv:
  assumes "buffer_inv b" and "pc_ok b pc" and "\<forall>g p n. pc \<noteq> Reserved g p n"
  shows "buffer_inv (go t pc b)"
proof -
  have "pc_ok (go t pc b) x = pc_ok b x" for x by (cases x) (simp_all add: crossed_def)
  then show ?thesis using assms by (auto simp: inv_defs fun_upd_def)
qed


lemma pc_ok_irrelevant [simp]:
  "pc_ok (b\<lparr>segment_idx := i\<rparr>) pc = pc_ok b pc" "pc_ok (b\<lparr>next_segment_requests := i\<rparr>) pc = pc_ok b pc"
  "pc_ok (b\<lparr>segments := s\<rparr>) pc = pc_ok b pc" "pc_ok (b\<lparr>records := r\<rparr>) pc = pc_ok b pc"
  by (cases pc; simp add: crossed_def)+

lemma inv_irrelevant [simp]:
  "buffer_inv (b\<lparr>segment_idx := i\<rparr>) = buffer_inv b" "buffer_inv (b\<lparr>next_segment_requests := i\<rparr>) = buffer_inv b"
  by (simp_all add: inv_defs)

lemma inv_reset: "buffer_inv b \<Longrightarrow> buffer_inv (b\<lparr>segments := (segments b)[i := None]\<rparr>)"
  by (auto simp: inv_defs dest!: subsetD [OF set_update_subset_insert])

lemma prep_inv:
  assumes "buffer_inv b"
  shows "buffer_inv (prep_next_segment b)"
proof -
  have n: "g < length (all_segments b) \<Longrightarrow> (all_segments b @ [new_segment]) ! g = all_segments b ! g" for g
    by (simp add: nth_append)
  have c: "crossed b g p \<Longrightarrow> crossed (b\<lparr>all_segments := all_segments b @ [new_segment], make_segment_idx := k, segments := s, aborted := a\<rparr>) g p" for g p k s a
    by (auto simp: crossed_def n)
  have p: "pc_ok b pc \<Longrightarrow> pc_ok (b\<lparr>all_segments := all_segments b @ [new_segment], make_segment_idx := k, segments := s, aborted := a\<rparr>) pc" for pc k s a
    by (cases pc) (auto simp: c)
  have i: "buffer_inv (b\<lparr>all_segments := all_segments b @ [new_segment], make_segment_idx := k, segments := s, aborted := a\<rparr>)"
    if "length s = 3" "\<forall>g. Some g \<in> set s \<longrightarrow> g < Suc (length (all_segments b))" for k s a
    using assms that p by (fastforce simp: inv_defs n)
  have l: "length (segments b) = 3" "\<forall>g. Some g \<in> set (segments b) \<longrightarrow> g < length (all_segments b)"
    using assms by (auto simp: inv_defs)
  show ?thesis
  proof (cases "segments b ! (make_segment_idx b mod 3)")
    case None
    then have "prep_next_segment b = b\<lparr>all_segments := all_segments b @ [new_segment], make_segment_idx := make_segment_idx b + 1,
        segments := (segments b)[make_segment_idx b mod 3 := Some (length (all_segments b))], aborted := aborted b\<rparr>"
      by (simp add: prep_next_segment_def Let_def)
    also have "buffer_inv \<dots>"
      by (rule i) (use l in \<open>auto simp: less_Suc_eq dest!: subsetD [OF set_update_subset_insert]\<close>)
    finally show ?thesis .
  next
    case (Some g)
    then have "prep_next_segment b = b\<lparr>all_segments := all_segments b @ [new_segment], make_segment_idx := make_segment_idx b + 1,
        segments := segments b, aborted := True\<rparr>"
      by (simp add: prep_next_segment_def Let_def)
    also have "buffer_inv \<dots>" by (rule i) (use l in auto)
    finally show ?thesis .
  qed
qed

text \<open>A file whose offset grows and whose memory stays as it is where records are.\<close>

lemma segment_inv:
  assumes "buffer_inv b" and "offset_of b g \<le> seg_offset (f (all_segments b ! g))"
    and "\<And>p args. (g, p, args) \<in> set (records b) \<Longrightarrow> holds (seg_memory (f (all_segments b ! g))) p (record_bytes args)"
  shows "buffer_inv (upd_segment g f b)"
proof -
  let ?s = "(all_segments b)[g := f (all_segments b ! g)]"
  have o: "offset_of b h \<le> seg_offset (?s ! h)" for h
    using assms(2) by (cases "g < length (all_segments b)") (auto simp: nth_list_update not_less list_update_beyond)
  have p: "pc_ok b pc \<Longrightarrow> pc_ok (upd_segment g f b) pc" for pc
    using o by (cases pc) (auto simp: crossed_def intro: order_trans)
  have "(h, p, args) \<in> set (records b) \<Longrightarrow> holds (memory_of b h) p (record_bytes args) \<Longrightarrow> holds (seg_memory (?s ! h)) p (record_bytes args)" for h p args
    using assms(3) by (cases "g < length (all_segments b)") (auto simp: nth_list_update not_less list_update_beyond)
  then show ?thesis using assms(1) p o unfolding inv_defs by (fastforce intro: order_trans)
qed


lemma thread_ok: "buffer_inv b \<Longrightarrow> pc_ok b (callers b t)"
  by (simp add: inv_defs)

lemma slot_bound: "buffer_inv b \<Longrightarrow> segments b ! (i mod 3) = Some g \<Longrightarrow> g < length (all_segments b)"
  using nth_mem [of "i mod 3" "segments b"] by (auto simp: inv_defs)

lemma reserved_ends: "buffer_inv b \<Longrightarrow> (g, p, n) \<in> set (reservations b) \<Longrightarrow> p + n \<le> offset_of b g"
  by (auto simp: inv_defs)

lemma record_reserved: "buffer_inv b \<Longrightarrow> (g, p, args) \<in> set (records b) \<Longrightarrow>
    (g, p, record_length args) \<in> set (reservations b) \<and> holds (memory_of b g) p (record_bytes args)"
  by (auto simp: inv_defs)

text \<open>A new reservation starts where the offset was, behind all others of its file.\<close>

lemma new_reservation_inv:
  assumes "buffer_inv b" and g: "g < length (all_segments b)" and p: "p + n < filesize b - 1" "p + n \<le> offset_of b g"
    and last: "\<forall>(h, q, k) \<in> set (reservations b). h = g \<longrightarrow> q + k \<le> p" and avail: "offset_of b g < filesize b - 1"
  shows "buffer_inv (go t (Reserved g p n) (b\<lparr>reservations := reservations b @ [(g, p, n)]\<rparr>))"
proof -
  let ?b = "b\<lparr>reservations := reservations b @ [(g, p, n)]\<rparr>"
  have c: "crossed b h q \<Longrightarrow> crossed ?b h q" for h q using avail by (auto simp: crossed_def)
  have k: "pc_ok b pc \<Longrightarrow> pc_ok (go t x ?b) pc" for pc x using c by (cases pc) (auto simp: crossed_def)
  have a: "(h, q, k) \<in> set (reservations b) \<Longrightarrow> apart (h, q, k) (g, p, n) \<and> apart (g, p, n) (h, q, k)" for h q k
    using last by (auto simp: apart_def)
  have r: "callers b u = Reserved h q k \<Longrightarrow> (h, q, k) \<in> set (reservations b)" for u h q k
    using thread_ok [OF assms(1), of u] by simp
  have "ranges_ok (go t (Reserved g p n) ?b)" using assms by (auto simp: inv_defs sorted_wrt_append)
  moreover have "slots_ok (go t (Reserved g p n) ?b)" using assms(1) by (simp add: inv_defs)
  moreover have "threads_ok (go t (Reserved g p n) ?b)"
    using assms(1) k a r by (auto simp: threads_ok_def buffer_inv_def)
  moreover have "records_ok (go t (Reserved g p n) ?b)"
    using assms(1) a r by (fastforce simp: records_ok_def buffer_inv_def)
  ultimately show ?thesis by (simp add: buffer_inv_def)
qed

lemma advance_inv:
  assumes "buffer_inv b" and "g < length (all_segments b)"
  shows "buffer_inv (advance_offset t n idx g b)"
proof -
  let ?sg = "\<lparr>seg_offset = offset_of b g + n, seg_memory = memory_of b g\<rparr>"
  let ?b = "upd_segment g (\<lambda>_. ?sg) b"
  have e: "(all_segments b ! g)\<lparr>seg_offset := k\<rparr> = \<lparr>seg_offset = k, seg_memory = memory_of b g\<rparr>" for k
    by (cases "all_segments b ! g") simp
  have i: "buffer_inv ?b" by (rule segment_inv [OF assms(1)]) (use record_reserved [OF assms(1)] in auto)
  have ends: "\<forall>(h, q, k) \<in> set (reservations b). h = g \<longrightarrow> q + k \<le> offset_of b g"
    using reserved_ends [OF assms(1)] by auto
  consider (cross) "offset_of b g < filesize b - 1" "filesize b - 1 \<le> offset_of b g + n" | (closed) "filesize b - 1 \<le> offset_of b g"
    | (granted) "offset_of b g + n < filesize b - 1" by linarith
  then show ?thesis
  proof cases
    case cross
    then have "advance_offset t n idx g b = go t (Reset_segment n idx g (offset_of b g)) ?b"
      by (simp add: advance_offset_def log_segment_reserve_def e)
    moreover have "buffer_inv \<dots>" by (rule go_inv [OF i]) (use cross assms(2) ends in \<open>simp_all add: crossed_def\<close>)
    ultimately show ?thesis by simp
  next
    case closed
    then have "advance_offset t n idx g b = go t (Load_index n) ?b"
      by (simp add: advance_offset_def log_segment_reserve_def e)
    moreover have "buffer_inv \<dots>" by (rule go_inv [OF i]) simp_all
    ultimately show ?thesis by simp
  next
    case granted
    then have "advance_offset t n idx g b = go t (Reserved g (offset_of b g) n) (?b\<lparr>reservations := reservations ?b @ [(g, offset_of b g, n)]\<rparr>)"
      by (simp add: advance_offset_def log_segment_reserve_def e)
    moreover have "buffer_inv \<dots>"
      by (rule new_reservation_inv [OF i]) (use granted assms(2) ends in simp_all)
    ultimately show ?thesis by simp
  qed
qed

lemma reserve_step_inv:
  assumes "buffer_inv b"
  shows "buffer_inv (reserve_step t b)"
proof (cases "callers b t")
  case (Load_index n)
  then show ?thesis by (simp add: reserve_step_def go_inv assms)
next
  case (Load_segment n idx)
  then show ?thesis using slot_bound [OF assms]
    by (auto simp: reserve_step_def go_inv assms split: option.split)
next
  case (Advance_offset n idx g)
  then show ?thesis using thread_ok [OF assms, of t] advance_inv [OF assms] by (simp add: reserve_step_def)
next
  case (Reset_segment n idx g p)
  then have "crossed b g p" using thread_ok [OF assms, of t] by simp
  with Reset_segment show ?thesis using inv_reset [OF assms]
    by (auto simp: reserve_step_def crossed_def intro: go_inv)
next
  case (Request_next n idx g p)
  then have "crossed b g p" using thread_ok [OF assms, of t] by simp
  with Request_next show ?thesis using assms by (auto simp: reserve_step_def crossed_def intro!: go_inv)
next
  case (Mark_end n idx g p)
  then have c: "crossed b g p" using thread_ok [OF assms, of t] by simp
  have "holds ((memory_of b g)(p := CHR 0x19)) q (record_bytes args)" if "(g, q, args) \<in> set (records b)" for q args
  proof -
    have "q + record_length args \<le> p" "holds (memory_of b g) q (record_bytes args)"
      using c record_reserved [OF assms that] by (auto simp: crossed_def)
    moreover have "length (record_bytes args) = record_length args" by (simp add: record_bytes_def record_length_def)
    ultimately show ?thesis unfolding holds_def by (subst memcpy_from_cong [of _ _ _ "memory_of b g"]) auto
  qed
  then have "buffer_inv (upd_segment g (\<lambda>sg. sg\<lparr>seg_memory := (seg_memory sg)(p := CHR 0x19)\<rparr>) b)"
    by (intro segment_inv [OF assms]) simp_all
  then show ?thesis by (auto simp: reserve_step_def Mark_end intro: go_inv)
next
  case (Publish_index n idx)
  then show ?thesis using assms by (auto simp: reserve_step_def intro: go_inv)
qed (use assms in \<open>simp_all add: reserve_step_def\<close>)


lemma write_record_inv:
  assumes "buffer_inv b" and "write_record t args b = Some b'"
  shows "buffer_inv b'"
proof -
  obtain g p n m k where c: "callers b t = Reserved g p n" and l: "record_length args < 4294967296" "n = unat (full_record_size args)"
    and e: "encode_record (memory_of b g) p args = Some (m, k)"
    and b': "b' = go t Outside (upd_segment g (\<lambda>sg. sg\<lparr>seg_memory := m\<rparr>) (b\<lparr>records := records b @ [(g, p, args)]\<rparr>))"
    using assms(2) by (auto simp: write_record_def split: reserve_pc.splits if_splits option.splits)
  have n: "n = record_length args" using l by (simp add: full_record_size_length)
  have m: "m = memcpy_to (memory_of b g) p (record_bytes args)" using e by (simp add: encode_record_bytes [OF l(1)])
  have len: "length (record_bytes a) = record_length a" for a by (simp add: record_bytes_def record_length_def)
  have r: "(g, p, n) \<in> set (reservations b)" using thread_ok [OF assms(1), of t] c by simp
  then have g: "g < length (all_segments b)" using assms(1) by (auto simp: inv_defs)
  have old: "holds m q (record_bytes a)" if "(g, q, a) \<in> set (records b)" for q a
  proof -
    have "apart (g, q, record_length a) (g, p, n)" "holds (memory_of b g) q (record_bytes a)"
      using assms(1) that c by (auto simp: buffer_inv_def records_ok_def)
    moreover from this(1) have "memcpy_from m q (length (record_bytes a)) = memcpy_from (memory_of b g) q (length (record_bytes a))"
      by (intro memcpy_from_cong) (auto simp: m memcpy_to_def len n apart_def)
    ultimately show ?thesis by (simp add: holds_def)
  qed
  have others: "u \<noteq> t \<Longrightarrow> callers b u = Reserved h q k \<Longrightarrow> apart (g, p, n) (h, q, k)" for u h q k
    using assms(1) c by (auto simp: buffer_inv_def threads_ok_def)
  let ?c = "go t Outside (upd_segment g (\<lambda>sg. sg\<lparr>seg_memory := m\<rparr>) b)"
  have i: "buffer_inv ?c" by (rule go_inv [OF segment_inv [OF assms(1)]]) (use old in simp_all)
  have same: "b' = ?c\<lparr>records := records b @ [(g, p, args)]\<rparr>" by (simp add: b' go_def upd_segment_def)
  have "records_ok b'" using i others r g l n holds_memcpy [of "memory_of b g" p "record_bytes args"]
    by (auto simp: same buffer_inv_def records_ok_def m)
  then show ?thesis using i by (simp add: same inv_defs)
qed

lemma buffer_step_inv:
  assumes "buffer_inv b" and "buffer_step e b = Some b'"
  shows "buffer_inv b'"
proof (cases e)
  case (Call_reserve t n)
  then show ?thesis using assms by (auto simp: buffer_step_def reserve_call_def intro: go_inv split: if_splits)
next
  case (Continue_reserve t)
  then show ?thesis using assms by (auto simp: buffer_step_def intro: reserve_step_inv split: if_splits)
next
  case Serve_request
  then show ?thesis using assms by (auto simp: buffer_step_def intro!: prep_inv split: if_splits)
next
  case (Write_record t args)
  then show ?thesis using assms by (auto simp: buffer_step_def intro: write_record_inv split: if_splits)
qed

lemma empty_inv:
  "buffer_inv \<lparr>filesize = fs, all_segments = [], segments = [None, None, None], segment_idx = 0, make_segment_idx = 0,
      next_segment_requests = 0, aborted = False, callers = (\<lambda>_. Outside), reservations = [], records = []\<rparr>"
  by (simp add: inv_defs)

lemma buffer_reachable_inv: "buffer_reachable fs b \<Longrightarrow> buffer_inv b"
  by (induction rule: buffer_reachable.induct) (auto simp: segmented_log_buffer_def intro: prep_inv empty_inv buffer_step_inv)

lemma reserve_call_filesize: "filesize (reserve_call t n b) = filesize b"
  by (simp add: reserve_call_def)

lemma step_filesize: "buffer_step e b = Some b' \<Longrightarrow> filesize b' = filesize b"
  by (cases e) (auto simp: buffer_step_def reserve_call_def reserve_step_def prep_next_segment_def advance_offset_def log_segment_reserve_def
      write_record_def Let_def split: if_splits option.splits reserve_pc.splits)

lemma reachable_filesize: "buffer_reachable fs b \<Longrightarrow> filesize b = fs"
  by (induction rule: buffer_reachable.induct) (auto simp: segmented_log_buffer_def prep_next_segment_def step_filesize Let_def)


lemma run_reachable: "buffer_run es b = Some b' \<Longrightarrow> buffer_reachable fs b \<Longrightarrow> buffer_reachable fs b'"
  by (induction es arbitrary: b) (auto split: option.splits intro: buffer_reachable.more)

section \<open>Any interleaving\<close>

text \<open>
  C7: whatever the interleaving of the threads and of the service thread, the audit log stays intact. Every range that has
  been reserved lies inside an existing file, before its last byte, and no two ranges of a file overlap; and every
  record that was written into its range can be decoded from the file at any later time, whatever the other threads
  have reserved, written or marked as the end of a file.
\<close>

theorem audit_log_intact:
  assumes "buffer_reachable fs b"
  shows "(\<forall>(g, p, n) \<in> set (reservations b). g < length (all_segments b) \<and> p + n < fs - 1) \<and>
    (\<forall>i j g p n q k. i < j \<and> j < length (reservations b) \<and> reservations b ! i = (g, p, n) \<and> reservations b ! j = (g, q, k) \<longrightarrow> p + n \<le> q) \<and>
    (\<forall>(g, p, args) \<in> set (records b). (\<forall>x. Arg_bool x \<notin> set args) \<longrightarrow>
       (let m = memory_of b g in m p = CHR 0x01 \<and> decode_fields m (p + 5) (p + 5 + decode_bits m (p + 1) 4) (length args) = Some args))"
proof (intro conjI)
  have i: "buffer_inv b" and f: "filesize b = fs" using buffer_reachable_inv reachable_filesize assms by auto
  show "\<forall>(g, p, n) \<in> set (reservations b). g < length (all_segments b) \<and> p + n < fs - 1"
    using i f by (auto simp: inv_defs)
  show "\<forall>i j g p n q k. i < j \<and> j < length (reservations b) \<and> reservations b ! i = (g, p, n) \<and> reservations b ! j = (g, q, k) \<longrightarrow> p + n \<le> q"
    using i by (fastforce simp: inv_defs sorted_wrt_iff_nth_less)
  show "\<forall>(g, p, args) \<in> set (records b). (\<forall>x. Arg_bool x \<notin> set args) \<longrightarrow>
       (let m = memory_of b g in m p = CHR 0x01 \<and> decode_fields m (p + 5) (p + 5 + decode_bits m (p + 1) 4) (length args) = Some args)"
    using i record_held by (fastforce simp: buffer_inv_def records_ok_def Let_def)
qed



lemmas run_simps = buffer_step_def reserve_step_def reserve_call_def idle_def advance_offset_def log_segment_reserve_def Let_def

lemma run_append: "buffer_run (xs @ ys) b = (case buffer_run xs b of None \<Rightarrow> None | Some b' \<Rightarrow> buffer_run ys b')"
  by (induction xs arbitrary: b) (auto split: option.splits)

section \<open>A single thread\<close>

text \<open>
  The abstract allocator: a file and an offset in it. A size that does not fit goes to the start of the next file.
\<close>

fun allocate :: "nat \<Rightarrow> nat \<Rightarrow> nat \<Rightarrow> nat list \<Rightarrow> (nat \<times> nat \<times> nat) list" where
  "allocate fs g p [] = []"
| "allocate fs g p (n # ns) =
     (if p + n < fs - 1 then (g, p, n) # allocate fs g (p + n) ns else (Suc g, 0, n) # allocate fs (Suc g) n ns)"

text \<open>
  The steps of the thread and of the service thread: a call whose size fits takes three steps; one that crosses the end of a
  file takes seven steps to publish the next file and three more, and the service thread prepares a file.
\<close>

fun alone :: "nat \<Rightarrow> nat \<Rightarrow> nat \<Rightarrow> nat list \<Rightarrow> buffer_event list" where
  "alone fs t p [] = []"
| "alone fs t p (n # ns) =
     Call_reserve t n # (if p + n < fs - 1 then replicate 3 (Continue_reserve t) @ alone fs t (p + n) ns
       else replicate 7 (Continue_reserve t) @ [Serve_request] @ replicate 3 (Continue_reserve t) @ alone fs t n ns)"

lemma replicate_turns: "replicate 3 x = [x, x, x]" "replicate 7 x = [x, x, x, x, x, x, x]"
  by (simp_all add: eval_nat_numeral)

text \<open>One step at each place of the loop.\<close>

lemma run_step:
  assumes "\<not> aborted b"
  shows "callers b t = Load_index n \<Longrightarrow> buffer_run (Continue_reserve t # es) b = buffer_run es (go t (Load_segment n (segment_idx b)) b)"
    and "callers b t = Load_segment n i \<Longrightarrow> segments b ! (i mod 3) = Some g \<Longrightarrow>
      buffer_run (Continue_reserve t # es) b = buffer_run es (go t (Advance_offset n i g) b)"
    and "callers b t = Advance_offset n i g \<Longrightarrow> buffer_run (Continue_reserve t # es) b = buffer_run es (advance_offset t n i g b)"
    and "callers b t = Reset_segment n i g p \<Longrightarrow>
      buffer_run (Continue_reserve t # es) b = buffer_run es (go t (Request_next n i g p) (b\<lparr>segments := (segments b)[i mod 3 := None]\<rparr>))"
    and "callers b t = Request_next n i g p \<Longrightarrow>
      buffer_run (Continue_reserve t # es) b = buffer_run es (go t (Mark_end n i g p) (b\<lparr>next_segment_requests := Suc (next_segment_requests b)\<rparr>))"
    and "callers b t = Mark_end n i g p \<Longrightarrow>
      buffer_run (Continue_reserve t # es) b =
        buffer_run es (go t (Publish_index n i) (upd_segment g (\<lambda>sg. sg\<lparr>seg_memory := (seg_memory sg)(p := CHR 0x19)\<rparr>) b))"
    and "callers b t = Publish_index n i \<Longrightarrow> buffer_run (Continue_reserve t # es) b = buffer_run es (go t (Load_index n) (b\<lparr>segment_idx := Suc i\<rparr>))"
  using assms by (simp_all add: buffer_step_def reserve_step_def idle_def)

lemma granted_turn:
  assumes "\<not> aborted b" and "callers b t = Load_index n" and "segments b ! (segment_idx b mod 3) = Some g" and "offset_of b g + n < filesize b - 1"
  shows "buffer_run (replicate 3 (Continue_reserve t)) b =
    Some (b\<lparr>all_segments := (all_segments b)[g := (all_segments b ! g)\<lparr>seg_offset := offset_of b g + n\<rparr>],
      callers := (callers b)(t := Reserved g (offset_of b g) n), reservations := reservations b @ [(g, offset_of b g, n)]\<rparr>)"
  using assms by (simp add: replicate_turns run_step advance_offset_def log_segment_reserve_def go_def upd_segment_def del: buffer_run.simps(2))

lemma crossing_turn:
  assumes "\<not> aborted b" and "callers b t = Load_index n" and "segments b ! (segment_idx b mod 3) = Some g" and "g < length (all_segments b)"
    and "offset_of b g < filesize b - 1" and "filesize b - 1 \<le> offset_of b g + n"
  shows "buffer_run (replicate 7 (Continue_reserve t)) b =
    Some (b\<lparr>all_segments := (all_segments b)[g := (all_segments b ! g)\<lparr>seg_offset := offset_of b g + n, seg_memory := (memory_of b g)(offset_of b g := CHR 0x19)\<rparr>],
        segments := (segments b)[segment_idx b mod 3 := None], segment_idx := Suc (segment_idx b),
        next_segment_requests := Suc (next_segment_requests b)\<rparr>)"
proof -
  have "(callers b)(t := Load_index n) = callers b" using assms(2) by (simp add: fun_upd_idem)
  then show ?thesis using assms
    by (simp add: replicate_turns run_step advance_offset_def log_segment_reserve_def go_def upd_segment_def del: buffer_run.simps(2))
qed


text \<open>The buffer between two calls: the current file, the next one, and no request that is not served.\<close>

definition quiet :: "nat \<Rightarrow> nat \<Rightarrow> nat \<Rightarrow> log_buffer \<Rightarrow> bool" where
  "quiet fs i p b \<longleftrightarrow> filesize b = fs \<and> \<not> aborted b \<and> segment_idx b = i \<and> make_segment_idx b = i + 2 \<and> next_segment_requests b = 0 \<and>
     length (all_segments b) = i + 2 \<and> segments b = [None, None, None][i mod 3 := Some i, Suc i mod 3 := Some (Suc i)] \<and>
     offset_of b i = p \<and> offset_of b (Suc i) = 0 \<and> p < fs - 1"

lemma mod3_cases:
  obtains "i mod 3 = 0" "Suc i mod 3 = 1" "Suc (Suc i) mod 3 = 2" | "i mod 3 = 1" "Suc i mod 3 = 2" "Suc (Suc i) mod 3 = 0"
    | "i mod 3 = 2" "Suc i mod 3 = 0" "Suc (Suc i) mod 3 = (1 :: nat)"
proof -
  consider "i mod 3 = 0" | "i mod 3 = 1" | "i mod 3 = 2" by linarith
  then show thesis using that by cases (simp_all add: mod_Suc)
qed

lemma quiet_granted:
  assumes "quiet fs i p b" and "callers b t = Load_index n" and "p + n < fs - 1"
  shows "\<exists>b'. buffer_run (replicate 3 (Continue_reserve t)) b = Some b' \<and> quiet fs i (p + n) b' \<and>
     callers b' t = Reserved i p n \<and> (\<forall>u. u \<noteq> t \<longrightarrow> callers b' u = callers b u) \<and> reservations b' = reservations b @ [(i, p, n)]"
proof -
  have "segments b ! (segment_idx b mod 3) = Some i" using assms(1) by (cases i rule: mod3_cases) (simp_all add: quiet_def)
  from granted_turn [OF _ assms(2) this] show ?thesis using assms by (auto simp: quiet_def)
qed

lemma quiet_crossing:
  assumes "quiet fs i p b" and "callers b t = Load_index n" and "\<not> p + n < fs - 1"
  shows "\<exists>b'. buffer_run (replicate 7 (Continue_reserve t) @ [Serve_request]) b = Some b' \<and> quiet fs (Suc i) 0 b' \<and>
     callers b' t = Load_index n \<and> (\<forall>u. u \<noteq> t \<longrightarrow> callers b' u = callers b u) \<and> reservations b' = reservations b"
proof -
  have "segments b ! (segment_idx b mod 3) = Some i" using assms(1) by (cases i rule: mod3_cases) (simp_all add: quiet_def)
  from crossing_turn [OF _ assms(2) this] show ?thesis using assms
    by (cases i rule: mod3_cases) (auto simp: quiet_def run_append buffer_step_def prep_next_segment_def Let_def nth_append nth_list_update new_segment_def)
qed


lemma quiet_start: "1 < fs \<Longrightarrow> quiet fs 0 0 (segmented_log_buffer fs)"
  by (simp add: quiet_def segmented_log_buffer_def prep_next_segment_def new_segment_def Let_def)

lemma quiet_call:
  assumes "quiet fs i p b" and "idle (callers b t)" and "n \<le> fs - 1"
  shows "\<exists>b'. buffer_run (Call_reserve t n # es) b = buffer_run es b' \<and> quiet fs i p b' \<and> callers b' t = Load_index n \<and>
    (\<forall>u. u \<noteq> t \<longrightarrow> callers b' u = callers b u) \<and> reservations b' = reservations b"
  using assms by (auto simp: quiet_def buffer_step_def reserve_call_def)

lemma alone_run:
  assumes "quiet fs i p b" and "idle (callers b t)" and "\<forall>n \<in> set ns. n < fs - 1"
  shows "\<exists>b'. buffer_run (alone fs t p ns) b = Some b' \<and> \<not> aborted b' \<and> idle (callers b' t) \<and>
    reservations b' = reservations b @ allocate fs i p ns"
  using assms
proof (induction ns arbitrary: i p b)
  case Nil
  then show ?case by (simp add: quiet_def)
next
  case (Cons n ns)
  note call = quiet_call [OF Cons.prems(1,2), of n]
  show ?case
  proof (cases "p + n < fs - 1")
    case True
    let ?es = "replicate 3 (Continue_reserve t) @ alone fs t (p + n) ns"
    obtain c where c: "buffer_run (Call_reserve t n # ?es) b = buffer_run ?es c" "quiet fs i p c" "callers c t = Load_index n"
      "reservations c = reservations b" using call [of ?es] Cons.prems(3) by auto
    obtain d where d: "buffer_run (replicate 3 (Continue_reserve t)) c = Some d" "quiet fs i (p + n) d" "callers d t = Reserved i p n"
      "reservations d = reservations c @ [(i, p, n)]" using quiet_granted [OF c(2,3) True] by auto
    have "idle (callers d t)" by (simp add: d(3) idle_def)
    from Cons.IH [OF d(2) this] Cons.prems(3) c(1,4) d(1,4) True show ?thesis by (auto simp: run_append)
  next
    case False
    let ?a = "replicate 3 (Continue_reserve t) @ alone fs t n ns"
    let ?es = "(replicate 7 (Continue_reserve t) @ [Serve_request]) @ ?a"
    obtain c where c: "buffer_run (Call_reserve t n # ?es) b = buffer_run ?es c" "quiet fs i p c" "callers c t = Load_index n"
      "reservations c = reservations b" using call [of ?es] Cons.prems(3) by auto
    obtain e where e: "buffer_run (replicate 7 (Continue_reserve t) @ [Serve_request]) c = Some e" "quiet fs (Suc i) 0 e"
      "callers e t = Load_index n" "reservations e = reservations c" using quiet_crossing [OF c(2,3) False] by auto
    have n: "0 + n < fs - 1" using Cons.prems(3) by simp
    obtain d where d: "buffer_run (replicate 3 (Continue_reserve t)) e = Some d" "quiet fs (Suc i) (0 + n) d" "callers d t = Reserved (Suc i) 0 n"
      "reservations d = reservations e @ [(Suc i, 0, n)]" using quiet_granted [OF e(2,3) n] by auto
    have "idle (callers d t)" by (simp add: d(3) idle_def)
    from Cons.IH [OF d(2) this] Cons.prems(3) d(1,4)
    obtain b' where b': "buffer_run ?a e = Some b'" "\<not> aborted b'" "idle (callers b' t)"
      "reservations b' = reservations e @ (Suc i, 0, n) # allocate fs (Suc i) n ns" by (auto simp: run_append)
    have "buffer_run ?es c = Some b'" using e(1) b'(1) by (simp only: run_append [of _ ?a]) simp
    then show ?thesis using c(1,4) e(4) b'(2-) False by auto
  qed
qed

text \<open>
  C16: when one thread uses the buffer, every call returns, and the ranges it gets are those of a simple allocator: each
  range starts where the last one ended, and a size that does not fit before the last byte of the file goes to
  the start of the next file. A call takes three steps, or ten when it changes the file.
\<close>

theorem reserve_alone_allocates:
  assumes "1 < fs" and "\<forall>n \<in> set ns. n < fs - 1"
  shows "\<exists>b. buffer_run (alone fs t 0 ns) (segmented_log_buffer fs) = Some b \<and> \<not> aborted b \<and> idle (callers b t) \<and>
    reservations b = allocate fs 0 0 ns"
proof -
  have "idle (callers (segmented_log_buffer fs) t)" "reservations (segmented_log_buffer fs) = []"
    by (simp_all add: segmented_log_buffer_def prep_next_segment_def Let_def idle_def)
  then show ?thesis using alone_run [OF quiet_start [OF assms(1)] _ assms(2)] by fastforce
qed

theorem reserve_alone_allocates_witness:
  "\<exists>b. buffer_run (alone 100 0 0 [60, 30, 20, 98]) (segmented_log_buffer 100) = Some b \<and>
     reservations b = [(0, 0, 60), (0, 60, 30), (1, 0, 20), (2, 0, 98)]"
  using reserve_alone_allocates [of 100 "[60, 30, 20, 98]" 0] by auto

section \<open>Two defects\<close>

text \<open>
  C30: a size of one byte less than a file is accepted, but never reserved, in no interleaving: it always reaches the last
  byte, which is kept for the mark of the end. A thread that asks for it, even alone, marks one file after the other as
  ended and creates new ones for ever.
\<close>

theorem full_size_never_reserved:
  assumes "1 < fs"
  shows "(\<forall>b. buffer_reachable fs b \<longrightarrow> (\<forall>t g p. callers b t \<noteq> Reserved g p (fs - 1))) \<and>
    (\<forall>t k. \<exists>b. buffer_run (Call_reserve t (fs - 1) # concat (replicate k (replicate 7 (Continue_reserve t) @ [Serve_request]))) (segmented_log_buffer fs) = Some b \<and>
       callers b t = Load_index (fs - 1) \<and> reservations b = [] \<and> length (all_segments b) = k + 2)"
proof (intro conjI allI impI)
  fix b t g p assume r: "buffer_reachable fs b"
  show "callers b t \<noteq> Reserved g p (fs - 1)"
  proof
    assume "callers b t = Reserved g p (fs - 1)"
    then have "(g, p, fs - 1) \<in> set (reservations b)" using thread_ok [OF buffer_reachable_inv [OF r], of t] by simp
    then show False using buffer_reachable_inv [OF r] reachable_filesize [OF r] by (auto simp: inv_defs)
  qed
next
  fix t k
  let ?turn = "replicate 7 (Continue_reserve t) @ [Serve_request]"
  have turns: "quiet fs i p b \<Longrightarrow> callers b t = Load_index (fs - 1) \<Longrightarrow>
      \<exists>b'. buffer_run (concat (replicate k ?turn)) b = Some b' \<and> callers b' t = Load_index (fs - 1) \<and> reservations b' = reservations b \<and>
        length (all_segments b') = i + k + 2" for i p b
  proof (induction k arbitrary: i p b)
    case 0
    then show ?case by (simp add: quiet_def)
  next
    case (Suc k)
    obtain c where c: "buffer_run ?turn b = Some c" "quiet fs (Suc i) 0 c" "callers c t = Load_index (fs - 1)" "reservations c = reservations b"
      using quiet_crossing [OF Suc.prems] by auto
    have "buffer_run (concat (replicate (Suc k) ?turn)) b = buffer_run (concat (replicate k ?turn)) c"
      using c(1) run_append [of ?turn "concat (replicate k ?turn)" b] by simp
    then show ?case using Suc.IH [OF c(2,3)] c(4) by auto
  qed
  have "idle (callers (segmented_log_buffer fs) t)" "reservations (segmented_log_buffer fs) = []"
    by (simp_all add: segmented_log_buffer_def prep_next_segment_def Let_def idle_def)
  then obtain b where b: "buffer_run (Call_reserve t (fs - 1) # concat (replicate k ?turn)) (segmented_log_buffer fs) = buffer_run (concat (replicate k ?turn)) b"
    "quiet fs 0 0 b" "callers b t = Load_index (fs - 1)" "reservations b = []"
    using quiet_call [OF quiet_start [OF assms], of t "fs - 1" "concat (replicate k ?turn)"] by auto
  then show "\<exists>b. buffer_run (Call_reserve t (fs - 1) # concat (replicate k ?turn)) (segmented_log_buffer fs) = Some b \<and>
       callers b t = Load_index (fs - 1) \<and> reservations b = [] \<and> length (all_segments b) = k + 2"
    using turns [OF b(2,3)] by auto
qed


theorem full_size_never_reserved_witness:
  "(\<forall>t g p. callers (segmented_log_buffer 100) t \<noteq> Reserved g p 99) \<and>
   (\<exists>b. buffer_run (Call_reserve 0 99 # concat (replicate 1000 (replicate 7 (Continue_reserve 0) @ [Serve_request]))) (segmented_log_buffer 100) = Some b \<and>
      reservations b = [] \<and> length (all_segments b) = 1002)"
  using full_size_never_reserved [of 100] buffer_reachable.start [of 100] by fastforce

text \<open>
  Three threads that ask for \<open>n\<close> bytes each, in files that have room for \<open>n\<close> bytes but not for twice as many: the first two have
  read the index of the first file when the third one fills it and the second file. The run is given up to the
  step that turns the index back, and from there to the failed assertion.
\<close>

definition delayed_writers :: "nat \<Rightarrow> nat \<Rightarrow> buffer_event list" where
  "delayed_writers fs n =
     [Call_reserve 1 n, Continue_reserve 1, Call_reserve 2 n, Continue_reserve 2] @ alone fs 0 0 [n, n, n] @
     replicate 2 (Continue_reserve 1) @ replicate 5 (Continue_reserve 2)"

definition resumed_writers :: "nat \<Rightarrow> buffer_event list" where
  "resumed_writers n =
     Continue_reserve 2 # Serve_request # replicate 3 (Continue_reserve 2) @ Call_reserve 1 n # replicate 7 (Continue_reserve 1) @ [Serve_request]"

lemma index_back_cause:
  assumes "buffer_step e b = Some b'" and "segment_idx b' < segment_idx b"
  shows "\<exists>t m idx. e = Continue_reserve t \<and> callers b t = Publish_index m idx \<and> idx + 1 < segment_idx b"
  using assms
  by (cases e) (auto simp: buffer_step_def reserve_call_def reserve_step_def prep_next_segment_def write_record_def advance_offset_def
      log_segment_reserve_def upd_segment_def go_def Let_def split: if_splits option.splits reserve_pc.splits)



lemma quiet_turns:
  assumes "quiet fs i p b" and "idle (callers b t)" and "n < fs - 1"
  shows "\<exists>b'. buffer_run (if p + n < fs - 1 then Call_reserve t n # replicate 3 (Continue_reserve t)
        else Call_reserve t n # replicate 7 (Continue_reserve t) @ [Serve_request] @ replicate 3 (Continue_reserve t)) b = Some b' \<and>
      quiet fs (if p + n < fs - 1 then i else Suc i) (if p + n < fs - 1 then p + n else n) b' \<and>
      idle (callers b' t) \<and> (\<forall>u. u \<noteq> t \<longrightarrow> callers b' u = callers b u)"
proof -
  have n: "n \<le> fs - 1" using assms(3) by simp
  show ?thesis
  proof (cases "p + n < fs - 1")
    case True
    obtain c where c: "buffer_run (Call_reserve t n # replicate 3 (Continue_reserve t)) b = buffer_run (replicate 3 (Continue_reserve t)) c"
      "quiet fs i p c" "callers c t = Load_index n" "\<forall>u. u \<noteq> t \<longrightarrow> callers c u = callers b u"
      using quiet_call [OF assms(1,2) n] by blast
    obtain d where d: "buffer_run (replicate 3 (Continue_reserve t)) c = Some d" "quiet fs i (p + n) d" "callers d t = Reserved i p n"
      "\<forall>u. u \<noteq> t \<longrightarrow> callers d u = callers c u" using quiet_granted [OF c(2,3) True] by blast
    show ?thesis using True c d by (intro exI [of _ d]) (simp add: idle_def del: replicate.simps buffer_run.simps)
  next
    case False
    let ?c = "(replicate 7 (Continue_reserve t) @ [Serve_request]) @ replicate 3 (Continue_reserve t)"
    obtain c where c: "buffer_run (Call_reserve t n # ?c) b = buffer_run ?c c"
      "quiet fs i p c" "callers c t = Load_index n" "\<forall>u. u \<noteq> t \<longrightarrow> callers c u = callers b u"
      using quiet_call [OF assms(1,2) n] by blast
    obtain d where d: "buffer_run (replicate 7 (Continue_reserve t) @ [Serve_request]) c = Some d" "quiet fs (Suc i) 0 d" "callers d t = Load_index n"
      "\<forall>u. u \<noteq> t \<longrightarrow> callers d u = callers c u" using quiet_crossing [OF c(2,3) False] by blast
    have "0 + n < fs - 1" using assms(3) by simp
    from quiet_granted [OF d(2,3) this] obtain e where e: "buffer_run (replicate 3 (Continue_reserve t)) d = Some e" "quiet fs (Suc i) (0 + n) e"
      "callers e t = Reserved (Suc i) 0 n" "\<forall>u. u \<noteq> t \<longrightarrow> callers e u = callers d u" by blast
    have "buffer_run ?c c = Some e" by (simp only: run_append [of "replicate 7 (Continue_reserve t) @ [Serve_request]"] d(1) e(1) option.case)
    then show ?thesis using False c d(4) e(2-4) by (intro exI [of _ e]) (simp add: idle_def del: replicate.simps buffer_run.simps)
  qed
qed

lemma list_of_three: "[x, y, z][2 := v] = [x, y, v]" "[x, y, z][0 := v] = [v, y, z]" "[x, y, z] ! 2 = z"
  by (simp_all add: numeral_2_eq_2)

lemma delayed_run:
  assumes "n < fs - 1" and "fs - 1 \<le> 2 * n"
  shows "\<exists>b. buffer_run (delayed_writers fs n) (segmented_log_buffer fs) = Some b \<and> filesize b = fs \<and> \<not> aborted b \<and>
    segments b = [None, None, Some 2] \<and> segment_idx b = 2 \<and> make_segment_idx b = 4 \<and> next_segment_requests b = 1 \<and>
    length (all_segments b) = 4 \<and> callers b 1 = Reserved 3 0 n \<and> callers b 2 = Publish_index n 0"
proof -
  have n: "0 + n < fs - 1" "\<not> n + n < fs - 1" "n < fs - 1" "\<not> fs \<le> 1" using assms by auto
  let ?w = "[Call_reserve 1 n, Continue_reserve 1, Call_reserve 2 n, Continue_reserve 2]"
  let ?t1 = "Call_reserve 0 n # replicate 3 (Continue_reserve 0)"
  let ?t2 = "Call_reserve 0 n # replicate 7 (Continue_reserve 0) @ [Serve_request] @ replicate 3 (Continue_reserve 0)"
  let ?v = "replicate 2 (Continue_reserve 1) @ replicate 5 (Continue_reserve 2)"
  obtain a where a: "buffer_run ?w (segmented_log_buffer fs) = Some a" "quiet fs 0 0 a" "idle (callers a 0)"
    "callers a 1 = Load_segment n 0" "callers a 2 = Load_segment n 0"
    using assms(1) by (auto simp: quiet_def segmented_log_buffer_def prep_next_segment_def new_segment_def Let_def buffer_step_def reserve_call_def
      reserve_step_def idle_def go_def)
  obtain b where b: "buffer_run ?t1 a = Some b" "quiet fs 0 n b" "idle (callers b 0)" "callers b 1 = Load_segment n 0" "callers b 2 = Load_segment n 0"
    using quiet_turns [OF a(2,3) n(3), unfolded if_P [OF n(1)]] a(4,5) by (metis add_0 numeral_One zero_neq_numeral zero_neq_one)
  obtain c where c: "buffer_run ?t2 b = Some c" "quiet fs 1 n c" "idle (callers c 0)" "callers c 1 = Load_segment n 0" "callers c 2 = Load_segment n 0"
    using quiet_turns [OF b(2,3) n(3), unfolded if_not_P [OF n(2)]] b(4,5) by (metis One_nat_def zero_neq_numeral zero_neq_one)
  obtain d where d: "buffer_run ?t2 c = Some d" "quiet fs 2 n d" "callers d 1 = Load_segment n 0" "callers d 2 = Load_segment n 0"
    using quiet_turns [OF c(2,3) n(3), unfolded if_not_P [OF n(2)]] c(4,5) by (metis Suc_1 zero_neq_numeral zero_neq_one)
  have "alone fs 0 0 [n, n, n] = ?t1 @ ?t2 @ ?t2" using n by simp
  then have "buffer_run (delayed_writers fs n) (segmented_log_buffer fs) = buffer_run ?v d"
    by (simp only: delayed_writers_def run_append a(1) b(1) c(1) d(1) option.case)
  moreover have "?v = [Continue_reserve 1, Continue_reserve 1, Continue_reserve 2, Continue_reserve 2, Continue_reserve 2, Continue_reserve 2, Continue_reserve 2]"
    by (simp add: eval_nat_numeral)
  moreover have q: "filesize d = fs" "\<not> aborted d" "segment_idx d = 2" "make_segment_idx d = 4" "next_segment_requests d = 0"
    "length (all_segments d) = 4" "offset_of d (Suc 2) = 0" "segments d = [None, None, None][2 mod 3 := Some 2, Suc 2 mod 3 := Some (Suc 2)]"
    using d(2)[unfolded quiet_def] by (elim conjE, (assumption | simp only: numeral_plus_numeral semiring_norm))+
  have "offset_of d 3 = 0" "segments d = [Some 3, None, Some 2]" using q(7,8) list_of_three by simp_all
  ultimately show ?thesis using d(3,4) n q(1-6)
    by (simp add: run_step advance_offset_def log_segment_reserve_def go_def upd_segment_def Let_def del: buffer_run.simps(2))
qed

lemma resumed_run:
  assumes "n < fs - 1" and "fs - 1 \<le> 2 * n" and "filesize b = fs" and "\<not> aborted b" and "segments b = [None, None, Some 2]"
    and "segment_idx b = 2" and "make_segment_idx b = 4" and "next_segment_requests b = 1" and "length (all_segments b) = 4"
    and "callers b 1 = Reserved 3 0 n" and "callers b 2 = Publish_index n 0"
  shows "\<exists>b' b''. buffer_step (Continue_reserve 2) b = Some b' \<and> segment_idx b' = 1 \<and> buffer_run (resumed_writers n) b = Some b'' \<and> aborted b''"
proof -
  have n: "\<not> n + n < fs - 1" "\<not> fs \<le> 1" "n \<le> fs - 1" using assms(1,2) by auto
  let ?c = "Call_reserve 1 n # replicate 7 (Continue_reserve 1) @ [Serve_request]"
  let ?r = "replicate 3 (Continue_reserve 2)"
  obtain b' where b': "buffer_step (Continue_reserve 2) b = Some b'" "filesize b' = fs" "\<not> aborted b'" "segments b' = [None, None, Some 2]"
    "segment_idx b' = 1" "make_segment_idx b' = 4" "next_segment_requests b' = 1" "length (all_segments b') = 4" "callers b' 1 = Reserved 3 0 n"
    "callers b' 2 = Load_index n"
    using assms by (simp add: buffer_step_def reserve_step_def idle_def)
  obtain c where c: "buffer_step Serve_request b' = Some c" "filesize c = fs" "\<not> aborted c" "segments c = [None, Some 4, Some 2]"
    "segment_idx c = 1" "make_segment_idx c = 5" "next_segment_requests c = 0" "length (all_segments c) = 5" "callers c 1 = Reserved 3 0 n"
    "callers c 2 = Load_index n" "offset_of c 4 = 0"
    using b' by (simp add: buffer_step_def prep_next_segment_def Let_def nth_append new_segment_def)
  have "segments c ! (segment_idx c mod 3) = Some 4" "offset_of c 4 + n < filesize c - 1" using c assms(1) by simp_all
  from granted_turn [OF c(3,10) this] obtain d where d: "buffer_run ?r c = Some d" "filesize d = fs" "\<not> aborted d" "segments d = [None, Some 4, Some 2]"
    "segment_idx d = 1" "make_segment_idx d = 5" "next_segment_requests d = 0" "length (all_segments d) = 5" "callers d 1 = Reserved 3 0 n" "offset_of d 4 = n"
    using c by simp
  obtain e where e: "buffer_step (Call_reserve 1 n) d = Some e" "filesize e = fs" "\<not> aborted e" "segments e = [None, Some 4, Some 2]"
    "segment_idx e = 1" "make_segment_idx e = 5" "next_segment_requests e = 0" "length (all_segments e) = 5" "callers e 1 = Load_index n" "offset_of e 4 = n"
    using d n by (simp add: buffer_step_def reserve_call_def idle_def)
  have "segments e ! (segment_idx e mod 3) = Some 4" "4 < length (all_segments e)" "offset_of e 4 < filesize e - 1"
    "filesize e - 1 \<le> offset_of e 4 + n" using e assms(1,2) by simp_all
  from crossing_turn [OF e(3,9) this] obtain f where f: "buffer_run (replicate 7 (Continue_reserve 1)) e = Some f" "\<not> aborted f"
    "segments f = [None, None, Some 2]" "make_segment_idx f = 5" "next_segment_requests f = 1"
    using e by simp
  have "buffer_run [Serve_request] f = Some g \<longrightarrow> aborted g" "buffer_run [Serve_request] f \<noteq> None" for g
    using f list_of_three by (auto simp: buffer_step_def prep_next_segment_def Let_def)
  then obtain g where g: "buffer_run [Serve_request] f = Some g" "aborted g" by auto
  have "buffer_run ?c d = Some g"
    using e(1) f(1) g(1) by (simp add: run_append del: replicate.simps)
  then have "buffer_run (resumed_writers n) b = Some g"
    using b'(1) c(1) d(1) by (simp add: resumed_writers_def run_append del: replicate.simps)
  with b' g(2) show ?thesis by blast
qed

text \<open>
  C31: threads that are delayed between reading the index of the current file and taking the file find a later file at
  its place, because places are used in turn. If such a thread crosses the end of this file, it publishes the index it has
  read plus one, so the index of the current file goes back; when the file at this index is full too, the file that is
  prepared next finds its place occupied, and the assertion of \<open>prep_next_segment\<close> ends the process. This can happen for
  every file size, with records of every size of which a file has room for one but not for two. In any state, the only step
  that turns the index back is the publication by a thread that has read an older index.
\<close>

theorem delayed_threads_abort:
  assumes "n < fs - 1" and "fs - 1 \<le> 2 * n"
  shows "(\<exists>es b b'. buffer_run es (segmented_log_buffer fs) = Some b \<and> buffer_step (Continue_reserve 2) b = Some b' \<and>
      segment_idx b' < segment_idx b) \<and>
    (\<exists>es b. (\<forall>t m. Call_reserve t m \<in> set es \<longrightarrow> m = n) \<and> buffer_run es (segmented_log_buffer fs) = Some b \<and> aborted b) \<and>
    (\<forall>b e b'. buffer_step e b = Some b' \<longrightarrow> segment_idx b' < segment_idx b \<longrightarrow>
      (\<exists>t m idx. e = Continue_reserve t \<and> callers b t = Publish_index m idx \<and> idx + 1 < segment_idx b))"
proof -
  obtain b where b: "buffer_run (delayed_writers fs n) (segmented_log_buffer fs) = Some b" "filesize b = fs" "\<not> aborted b"
    "segments b = [None, None, Some 2]" "segment_idx b = 2" "make_segment_idx b = 4" "next_segment_requests b = 1"
    "length (all_segments b) = 4" "callers b 1 = Reserved 3 0 n" "callers b 2 = Publish_index n 0"
    using delayed_run [OF assms] by blast
  obtain b' c where c: "buffer_step (Continue_reserve 2) b = Some b'" "segment_idx b' = 1" "buffer_run (resumed_writers n) b = Some c" "aborted c"
    using resumed_run [OF assms b(2-10)] by blast
  have "buffer_run (delayed_writers fs n @ resumed_writers n) (segmented_log_buffer fs) = Some c"
    by (simp only: run_append b(1) c(3) option.case)
  moreover have "\<forall>t m. Call_reserve t m \<in> set (delayed_writers fs n @ resumed_writers n) \<longrightarrow> m = n"
    by (auto simp: delayed_writers_def resumed_writers_def)
  moreover have "segment_idx b' < segment_idx b" by (simp add: b(5) c(2))
  ultimately show ?thesis using b(1) c(1,4) index_back_cause by blast
qed

theorem delayed_threads_abort_witness:
  "\<exists>es b. (\<forall>t m. Call_reserve t m \<in> set es \<longrightarrow> m = 60) \<and> buffer_run es (segmented_log_buffer 100) = Some b \<and> aborted b"
proof -
  have "(60 :: nat) < 100 - 1" "(100 :: nat) - 1 \<le> 2 * 60" by simp_all
  from delayed_threads_abort [OF this] show ?thesis by blast
qed

lemma run_records: "buffer_run es b = Some b' \<Longrightarrow> (\<forall>t args. Write_record t args \<notin> set es) \<Longrightarrow> records b' = records b"
proof (induction es arbitrary: b)
  case (Cons e es)
  then obtain c where c: "buffer_step e b = Some c" "buffer_run es c = Some b'" by (auto split: option.splits)
  have "records c = records b" using c(1) Cons.prems(2)
    by (cases e) (auto simp: buffer_step_def reserve_call_def reserve_step_def prep_next_segment_def advance_offset_def log_segment_reserve_def
        Let_def split: if_splits option.splits reserve_pc.splits)
  then show ?case using Cons.IH [OF c(2)] Cons.prems(2) by simp
qed simp

theorem audit_log_intact_witness:
  "\<exists>b. buffer_reachable 100 b \<and> records b = [(0, 0, [Arg_uint8 5, Arg_string ''a''])] \<and> reservations b = [(0, 0, 18)] \<and>
     memory_of b 0 0 = CHR 0x01 \<and>
     decode_fields (memory_of b 0) 5 (5 + decode_bits (memory_of b 0) 1 4) (length [Arg_uint8 5, Arg_string ''a'']) = Some [Arg_uint8 5, Arg_string ''a'']"
proof -
  let ?args = "[Arg_uint8 5, Arg_string ''a'']"
  let ?s = "segmented_log_buffer 100"
  have l: "record_length ?args = 18" by (simp add: record_length_def length_fixed_bytes field_bytes_def)
  have u: "unat (full_record_size ?args) = 18" using full_record_size_length [of ?args] l by simp
  have i: "idle (callers ?s 0)" "reservations ?s = []" "records ?s = []"
    by (simp_all add: segmented_log_buffer_def prep_next_segment_def Let_def idle_def)
  obtain c where c: "buffer_run (Call_reserve 0 18 # []) ?s = buffer_run [] c" "quiet 100 0 0 c" "callers c 0 = Load_index 18" "reservations c = []"
    using quiet_call [OF quiet_start i(1), of 18 "[]"] i(2) by auto
  obtain d where d: "buffer_run (replicate 3 (Continue_reserve 0)) c = Some d" "quiet 100 0 18 d" "callers d 0 = Reserved 0 0 18"
    "reservations d = [(0, 0, 18)]" using quiet_granted [OF c(2,3)] c(4) by auto
  have rc: "records c = []" using c(1) i(3) by (auto simp: buffer_step_def reserve_call_def split: if_splits)
  have rd: "records d = []" using run_records [OF d(1)] rc by simp
  obtain b where b: "buffer_step (Write_record 0 ?args) d = Some b" "records b = [(0, 0, ?args)]" "reservations b = [(0, 0, 18)]"
    using d rd l u by (auto simp: buffer_step_def write_record_def quiet_def encode_record_bytes)
  have "buffer_run [Call_reserve 0 18] ?s = Some c" using c(1) by simp
  from run_reachable [OF this buffer_reachable.start] have "buffer_reachable 100 d" by (rule run_reachable [OF d(1)])
  from buffer_reachable.more [OF this b(1)] have r: "buffer_reachable 100 b" .
  show ?thesis using r b(2,3) audit_log_intact [OF r] by (intro exI [of _ b]) (auto simp: Let_def)
qed

end
