(* ===== verification/Spec2Isabelle.thy ===== *)
theory Spec2Isabelle
  imports Http_Server Bidding_Service Rapid_Iterative Rapid_Value Audit_Buffer
begin

text \<open>
  \<^bold>\<open>A verification development for vanilla-rtb.\<close>

  vanilla-rtb is a C++ toolkit for real-time bidding. An exchange posts a bid request in JSON over
  HTTP; a bidder selects ads for the impressions of the request from caches in shared memory, limits
  the bids by the budgets of their campaigns and answers within a time limit. The program has these
  parts.

  \<^item> \<^bold>\<open>The HTTP server\<close> (\<^verbatim>\<open>CRUD/\<close>): a byte-wise request parser, replies, one-shot and persistent
    connections, a connection manager and a dispatcher of REST routes to handlers. Theories
    \<open>Http_Parser\<close> (\<^verbatim>\<open>service/request_parser\<close>, \<^verbatim>\<open>request.hpp\<close>, \<^verbatim>\<open>header.hpp\<close>), \<open>Http_Reply\<close> (\<^verbatim>\<open>service/reply\<close>,
    \<^verbatim>\<open>mime_types\<close>), \<open>Http_Handler\<close> (\<^verbatim>\<open>service/request_handler\<close>), \<open>Crud_Dispatch\<close> (\<^verbatim>\<open>handlers/\<close> and the routes
    of \<^verbatim>\<open>main.cpp\<close>), \<open>Http_Connection\<close> (\<^verbatim>\<open>service/connection.hpp\<close>, \<^verbatim>\<open>persistent_connection.hpp\<close>) and
    \<open>Http_Server\<close> (\<^verbatim>\<open>service/server.hpp\<close>, \<^verbatim>\<open>connection_manager.hpp\<close>, \<^verbatim>\<open>spin_lock.hpp\<close>).
  \<^item> \<^bold>\<open>The data model\<close> (\<^verbatim>\<open>rtb/core/openrtb.hpp\<close>): theory \<open>Openrtb\<close>, one record per structure and one
    datatype per enumeration, with the constructors of the source.
  \<^item> \<^bold>\<open>Decision tables\<close> (\<^verbatim>\<open>rtb/common/decision_tree.hpp\<close>, \<^verbatim>\<open>decision_router.hpp\<close>): theory \<open>Decision\<close>.
  \<^item> \<^bold>\<open>Caches\<close>: \<open>Entity_Cache\<close> (\<^verbatim>\<open>rtb/datacache\<close>: the generic cache in a memory segment that grows, and
    the entities of ads, campaigns and accounts), \<open>Text_Records\<close> and \<open>Matchers\<close> (\<^verbatim>\<open>rtb/common/split_string.hpp\<close>,
    \<^verbatim>\<open>examples/matchers\<close>, \<^verbatim>\<open>examples/datacache\<close>: reading of tab-separated files into caches, and lookup).
  \<^item> \<^bold>\<open>Budgets\<close>: \<open>Campaign\<close> (\<^verbatim>\<open>examples/campaign\<close>: the budget cache, the banker, win notices, the slave
    banker and the campaign manager) with \<open>Archive\<close>, the sequences of primitive values that
    \<open>boost::serialization\<close> saves and loads.
  \<^item> \<^bold>\<open>Bidders\<close>: \<open>Bidder\<close> (\<^verbatim>\<open>examples/bidder\<close>: selection by location) and \<open>Ico_Bidder\<close> (\<^verbatim>\<open>rtb/core/bidder.hpp\<close>,
    \<^verbatim>\<open>ad_selector.hpp\<close>, \<^verbatim>\<open>algos.hpp\<close> and \<^verbatim>\<open>examples/bidder_experimental\<close>: selection by domain).
  \<^item> \<^bold>\<open>Messages and exchange\<close>: \<open>Messaging\<close> (\<^verbatim>\<open>rtb/messaging\<close>: serialization of requests and responses and the
    datagram communicator), \<open>Exchange\<close> (\<^verbatim>\<open>rtb/exchange/multibidder_collector.hpp\<close>,
    \<^verbatim>\<open>multibidder_communicator.hpp\<close>, \<^verbatim>\<open>examples/multiexchange\<close>: the auction among several bidder processes) and
    \<open>Exchange_Handler\<close> (\<^verbatim>\<open>rtb/exchange/exchange_handler.hpp\<close> and the decision table of
    \<^verbatim>\<open>examples/bidder/http_bidder_test.cpp\<close>).

  \<^item> \<^bold>\<open>JSON by tokens\<close>: \<open>Jsmn\<close> (\<^verbatim>\<open>parsers/jsmn.c\<close>: the tokenizer), \<open>Json_Encode\<close> (\<^verbatim>\<open>rtb/DSL/encoders.hpp\<close>: tokens to a value) and
    \<open>Any_Mapper\<close> (\<^verbatim>\<open>rtb/DSL/any_mapper.hpp\<close>, \<^verbatim>\<open>extractors.hpp\<close>: values to bid requests), with \<open>Auction_Service\<close>, the handler of
    requests over this mapper.
  \<^item> \<^bold>\<open>JSON by events\<close>: \<open>Rapid_Reader\<close>, \<open>Rapid_Grammar\<close>, \<open>Rapid_Numbers\<close>, \<open>Rapid_Denotation\<close> and \<open>Rapid_Iterative\<close> (\<^verbatim>\<open>rapidjson/reader.h\<close>: the
    recursive and the iterative parser, against a grammar of JSON and what its numbers denote), \<open>Rapid_Document\<close>
    (\<^verbatim>\<open>rapidjson/document.h\<close>: what parsing builds), \<open>Rapid_Value\<close> (the same file: writing, comparing and
    editing values), \<open>Rapid_Mapper\<close> (\<^verbatim>\<open>rtb/DSL/rapid_mapper.hpp\<close>: values to bid requests),
    \<open>Rapid_Writer\<close> (\<^verbatim>\<open>rapidjson/writer.h\<close>, \<^verbatim>\<open>internal/itoa.h\<close>, \<^verbatim>\<open>dtoa.h\<close>) and \<open>Rapid_Serializer\<close>
    (\<^verbatim>\<open>rtb/DSL/rapid_serializer.hpp\<close>: responses to text).
  \<^item> \<^bold>\<open>The bidder as a program\<close>: \<open>Bidding_Service\<close> (\<^verbatim>\<open>examples/bidder/http_bidder_test.cpp\<close>, \<^verbatim>\<open>rtb/exchange/exchange_server.hpp\<close>) joins
    connections, dispatcher, handler, mapper, caches, selection and serializer.

  \<^item> \<^bold>\<open>The audit log\<close> (\<^verbatim>\<open>benchmarks/\<close>): \<open>Audit_Codec\<close> (\<^verbatim>\<open>audit_codec.hpp\<close>: records of typed fields) and \<open>Audit_Buffer\<close>
    (\<^verbatim>\<open>audit_buffer.hpp\<close>: reservation of space in mapped files by concurrent threads).

  \<open>RTB_Prelude\<close> holds the scalar types, the functions of the C++ library that several parts use and the
  lemmas on lists, words and decimal numbers they share.
\<close>

text \<open>
  \<^bold>\<open>How the code is represented.\<close> A class is a record of its data members, a member function a
  definition on it, an enumeration a datatype; overloads and names that clash with the library carry a
  prefix or suffix. Every early return and every exception is a branch: exceptions are the left side of a
  sum. Bytes are values of type \<^typ>\<open>char\<close>, promoted to signed integers where the code does so. Unsigned
  64-bit numbers are words, so sums of prices and budgets wrap around; version numbers and sizes of the
  HTTP parser wrap as 32-bit integers. Prices of type \<open>double\<close> are rational numbers: rounding is not
  represented. Asynchronous code is a sequence of events on a state: \<open>server_event\<close> for the HTTP server,
  lists of received datagrams for the communicator, atomic steps of threads for the audit buffer.

  \<^bold>\<open>Bounds.\<close> The receive buffer of a connection has 8192 bytes and that of a datagram 4096, as in the code.
  The mapper over tokens has 128 of them, as in the code. Loops are structural recursions or have a measure, so they
  need no fuel, with two exceptions. The run of a decision table, which may loop for ever, is a partial function to an
  option, and the claims about it state that it returns. The recursive parser of rapidjson, three functions that call
  each other, has fuel: \<open>reader_fuel\<close> gives it three steps for each character and four more, and \<open>reader_returns\<close> shows
  that this is enough for every text, so the result is never the one of missing fuel. Texts end at their first
  null character, the stack of the processor is as deep as the text needs, and the counts of members and elements do
  not wrap around, which takes a text of four gigabytes. An assertion that fails is a result of its own
  (\<open>Assertion_failed\<close>, or \<open>None\<close>).

  \<^bold>\<open>Interfaces.\<close> Code that is not part of the repository is a parameter with its documented laws.
  \<open>ordered_unique_index\<close> states what the containers of \<open>boost::multi_index\<close> promise and is interpreted for
  every cache on an association list sorted by its key; \<open>http_request_handler\<close> states what the connections rely
  on of a request handler and is interpreted for the file server and for the dispatcher; \<open>archive_codec\<close>
  states that a binary archive gives back what was saved; \<open>std_sort\<close> states the contract of \<open>std::sort\<close>.
  \<open>number_casts\<close> states what the encoder of tokens relies on of \<open>lexical_cast\<close>, \<open>double_text\<close> that the digits of a number are
  read back to it, \<open>accepting\<close> that a handler of events does not stop the parser, and \<open>rounding\<close> is the rounding of the sums, products
  and quotients of doubles, a parameter of the parser. Regular expressions, the file system, the clock (as elapsed time) and
  the generator of identifiers are arguments of the definitions that use them.
\<close>

text \<open>
  \<^bold>\<open>What is shown.\<close>

  \<^item> \<^emph>\<open>Parser and replies.\<close> A well-formed request is parsed to what was printed, a parsed request is
    well-formed, splitting the input does not matter, no header is read before it exists; the wire form of
    a reply can be read back, and its length and type are those of its content.
  \<^item> \<^emph>\<open>File server and dispatcher.\<close> URL decoding inverts encoding; no path outside the document root is
    opened; exactly the matching handlers run.
  \<^item> \<^emph>\<open>Connections and server.\<close> What a client reads for a request that arrives in one piece; that a
    persistent connection is a sequence of such exchanges; what happens to bodies and headers that arrive
    in pieces (two defects); an invariant of all reachable states of the server, and a state in which a
    connection that the manager has given up still writes.
  \<^item> \<^emph>\<open>Decision tables.\<close> A table whose rows only lead forward ends, in at most as many steps as it has rows.
  \<^item> \<^emph>\<open>Caches.\<close> What is inserted or loaded is retrieved, under the contract of the containers; running out
    of memory grows the segment and retries once.
  \<^item> \<^emph>\<open>Budgets.\<close> Every price is booked on the budget or as overdraft, the authorized amount after wins, and
    that a win notice reaches the caches of the bidders.
  \<^item> \<^emph>\<open>Bidders and exchange.\<close> One bid per targeted impression, with a best offer within the limits of ad and
    budget; the auction among processes takes the best response it has received, and each round is counted
    once; a remote bidder answers what a local one would; what a client reads for a posted bid request.

  \<^item> \<^emph>\<open>JSON.\<close> The tokenizer stays inside its arrays and describes the value of every JSON text; encoding the tokens gives
    this value. The event parser accepts only JSON texts, with the values they denote, and all of them whose numbers are of ordinary size; it ends on every text, and its iterative variant sends the same
    events. A document that is written is read back, objects are maps under their operations, and equality compares meanings.
    A printed request is read back by both mappers; a response is serialized to a text of its value. Where the code
    differs: integers of different signs that are equal, a dangling key, an exponent that overflows, a request that cannot be parsed and is taken for an empty one.
  \<^item> \<^emph>\<open>The bidder.\<close> On a persistent connection every posted request is answered with the best offers, in time, and the
    process goes on.
  \<^item> \<^emph>\<open>The audit log.\<close> Records are decoded to what was encoded; in every interleaving of threads reservations are disjoint and
    records stay readable; a single thread sees a simple allocator. The largest size is never reserved, and
    delayed threads can make the preparation of a file fail.

  \<^bold>\<open>Not modelled.\<close> Sockets, threads, shared-memory mapping and the multicast options of the communicator
  (operating system); command-line and file configuration; logging and timing; the benchmarks, tests and
  example programs that only start the components; the web interface. Of rapidjson the parts that the program does
  not use: schemas, pointers, pretty printing, other encodings, streams and parse flags, the scans with vector instructions, the
  allocators and the capacities of documents. The library jsonv, a separate project beside the program, and the mappers that
  are tables of its serialization builder (\<^verbatim>\<open>dsl_mapper\<close>, \<^verbatim>\<open>campaign_budget_mapper\<close>).
\<close>

end
